(* ===== verification/Prelude.thy ===== *)
theory Prelude
  imports Main "HOL-Library.Word"
begin

text \<open>
  Shared vocabulary of the development: the Python values the modelled scripts use
  (unbounded integers, \<open>bytes\<close> as a list of integers, exceptions as values of a sum type),
  the \<open>int.to_bytes\<close>/\<open>int.from_bytes\<close> codecs, and the generic list and arithmetic lemmas
  the component theories share.
\<close>

unbundle bit_operations_syntax

named_theorems codec_simps \<open>rewriting facts on byte codecs, slices and lengths\<close>

section \<open>Python values\<close>

type_synonym bytes = "int list"

text \<open>The exceptions the modelled code can raise; a fallible operation returns
  \<open>py_error + 'a\<close>, with \<^term>\<open>Inl\<close> for the exception.\<close>

datatype py_error =
    IndexError | KeyError | ValueError | OverflowError | ZeroDivisionError
  | AssertionError | UnicodeError | TypeError | AttributeError | StructError
  | OSError | RuntimeError string
  | SystemExit string

type_synonym 'a result = "py_error + 'a"

definition rbind :: "'a result \<Rightarrow> ('a \<Rightarrow> 'b result) \<Rightarrow> 'b result" where
  "rbind r f = (case r of Inl e \<Rightarrow> Inl e | Inr x \<Rightarrow> f x)"

lemma rbind_simps [simp]:
  "rbind (Inl e) f = Inl e"
  "rbind (Inr x) f = f x"
  by (simp_all add: rbind_def)

lemma rbind_eq_Inr_iff: "rbind r f = Inr y \<longleftrightarrow> (\<exists>x. r = Inr x \<and> f x = Inr y)"
  by (cases r) simp_all

text \<open>\<open>assert\<close> as an operation of the result type.\<close>

definition py_assert :: "bool \<Rightarrow> unit result" where
  "py_assert b = (if b then Inr () else Inl AssertionError)"

fun rmap :: "('a \<Rightarrow> 'b result) \<Rightarrow> 'a list \<Rightarrow> 'b list result" where
  "rmap f [] = Inr []"
| "rmap f (x # xs) = rbind (f x) (\<lambda>y. rbind (rmap f xs) (\<lambda>ys. Inr (y # ys)))"

lemma rmap_Inr: "(\<And>x. x \<in> set xs \<Longrightarrow> f x = Inr (g x)) \<Longrightarrow> rmap f xs = Inr (map g xs)"
  by (induction xs) simp_all

lemma rmap_length: "rmap f xs = Inr ys \<Longrightarrow> length ys = length xs"
  by (induction xs arbitrary: ys) (auto simp: rbind_eq_Inr_iff)

lemma rmap_all:
  assumes "rmap f xs = Inr ys" "\<And>x y. x \<in> set xs \<Longrightarrow> f x = Inr y \<Longrightarrow> P y"
  shows "list_all P ys"
  using assms
proof (induction xs arbitrary: ys)
  case (Cons x xs)
  then obtain z zs where "f x = Inr z" "rmap f xs = Inr zs" "ys = z # zs" by (auto simp: rbind_eq_Inr_iff)
  moreover have "list_all P zs" by (rule Cons.IH) (use Cons.prems(2) \<open>rmap f xs = Inr zs\<close> in auto)
  ultimately show ?case using Cons.prems(2) [of x z] by simp
qed simp

lemma rmap_mem: "rmap f xs = Inr ys \<Longrightarrow> y \<in> set ys \<Longrightarrow> \<exists>x \<in> set xs. f x = Inr y"
  by (induction xs arbitrary: ys) (auto simp: rbind_eq_Inr_iff)

lemma rmap_total: "(\<And>x. x \<in> set xs \<Longrightarrow> \<exists>y. f x = Inr y) \<Longrightarrow> \<exists>ys. rmap f xs = Inr ys"
  by (induction xs) force+

section \<open>Bytes\<close>

definition is_byte :: "int \<Rightarrow> bool" where
  "is_byte b \<longleftrightarrow> 0 \<le> b \<and> b < 256"

definition is_bytes :: "bytes \<Rightarrow> bool" where
  "is_bytes bs \<longleftrightarrow> list_all is_byte bs"

lemma is_bytes_simps [simp]:
  "is_bytes []"
  "is_bytes (b # bs) \<longleftrightarrow> is_byte b \<and> is_bytes bs"
  "is_bytes (xs @ ys) \<longleftrightarrow> is_bytes xs \<and> is_bytes ys"
  "is_bytes (rev xs) \<longleftrightarrow> is_bytes xs"
  by (auto simp: is_bytes_def list_all_iff)

lemma is_bytes_replicate [simp]: "is_bytes (replicate n b) \<longleftrightarrow> n = 0 \<or> is_byte b"
  by (cases n) (auto simp: is_bytes_def list_all_iff)

lemma is_byte_0 [simp]: "is_byte 0"
  by (simp add: is_byte_def)

lemma is_bytes_take [intro]: "is_bytes xs \<Longrightarrow> is_bytes (take n xs)"
  by (auto simp: is_bytes_def list_all_iff dest: in_set_takeD)

lemma is_bytes_drop [intro]: "is_bytes xs \<Longrightarrow> is_bytes (drop n xs)"
  by (auto simp: is_bytes_def list_all_iff dest: in_set_dropD)

lemma is_bytes_concat: "is_bytes (concat xss) \<longleftrightarrow> (\<forall>xs \<in> set xss. is_bytes xs)"
  by (induction xss) auto

lemma is_byte_of_char [simp]: "is_byte (of_char c)"
proof -
  have "of_char c mod (256 :: int) = of_char c" by simp
  then show ?thesis unfolding is_byte_def
    using pos_mod_sign [of 256 "of_char c :: int"] pos_mod_bound [of 256 "of_char c :: int"] by simp
qed

lemma is_bytes_of_char [simp]: "is_bytes (map of_char s)"
  by (induction s) simp_all

text \<open>\<open>bytes([...])\<close> raises \<open>ValueError\<close> on a value outside \<open>range(256)\<close>.\<close>

definition mk_bytes :: "int list \<Rightarrow> bytes result" where
  "mk_bytes xs = (if is_bytes xs then Inr xs else Inl ValueError)"

lemma mk_bytes_Inr [simp]: "is_bytes xs \<Longrightarrow> mk_bytes xs = Inr xs"
  by (simp add: mk_bytes_def)

text \<open>\<open>xs[i:j]\<close> for \<open>0 \<le> i\<close> and \<open>0 \<le> j\<close>: out-of-range bounds are clipped.\<close>

definition slice :: "nat \<Rightarrow> nat \<Rightarrow> 'a list \<Rightarrow> 'a list" where
  "slice i j xs = take (j - i) (drop i xs)"

lemma length_slice [codec_simps]: "length (slice i j xs) = min (j - i) (length xs - i)"
  by (simp add: slice_def)

lemma is_bytes_slice [intro]: "is_bytes xs \<Longrightarrow> is_bytes (slice i j xs)"
  by (auto simp: slice_def)

lemma slice_append_front [codec_simps]:
  "i = length xs \<Longrightarrow> j = length xs + length ys \<Longrightarrow> slice i j (xs @ ys @ zs) = ys"
  by (simp add: slice_def)

lemma slice_append_last [codec_simps]:
  "i = length xs \<Longrightarrow> j = length xs + length ys \<Longrightarrow> slice i j (xs @ ys) = ys"
  by (simp add: slice_def)

section \<open>\<open>int.to_bytes\<close> and \<open>int.from_bytes\<close>\<close>

fun le_bytes :: "nat \<Rightarrow> int \<Rightarrow> bytes" where
  "le_bytes 0 x = []"
| "le_bytes (Suc n) x = x mod 256 # le_bytes n (x div 256)"

fun from_le :: "bytes \<Rightarrow> int" where
  "from_le [] = 0"
| "from_le (b # bs) = b + 256 * from_le bs"

definition from_be :: "bytes \<Rightarrow> int" where
  "from_be bs = from_le (rev bs)"

text \<open>\<open>x.to_bytes(n, "little")\<close> and \<open>"big"\<close>: \<open>OverflowError\<close> for a negative value and for
  one that does not fit.\<close>

definition to_bytes_le :: "int \<Rightarrow> nat \<Rightarrow> bytes result" where
  "to_bytes_le x n = (if 0 \<le> x \<and> x < 256 ^ n then Inr (le_bytes n x) else Inl OverflowError)"

definition to_bytes_be :: "int \<Rightarrow> nat \<Rightarrow> bytes result" where
  "to_bytes_be x n = (if 0 \<le> x \<and> x < 256 ^ n then Inr (rev (le_bytes n x)) else Inl OverflowError)"

text \<open>\<open>x.to_bytes(n, "little", signed=True)\<close> and its inverse.\<close>

definition to_bytes_le_signed :: "int \<Rightarrow> nat \<Rightarrow> bytes result" where
  "to_bytes_le_signed x n =
     (if - (256 ^ n) \<le> 2 * x \<and> 2 * x < 256 ^ n then Inr (le_bytes n (x mod 256 ^ n)) else Inl OverflowError)"

definition from_le_signed :: "bytes \<Rightarrow> int" where
  "from_le_signed bs =
     (let u = from_le bs; m = 256 ^ length bs in if 2 * u \<ge> m then u - m else u)"

lemma length_le_bytes [simp, codec_simps]: "length (le_bytes n x) = n"
  by (induction n arbitrary: x) simp_all

lemma le_bytes_eq_Nil [simp]: "le_bytes n x = [] \<longleftrightarrow> n = 0"
  by (cases n) simp_all

lemma is_bytes_le_bytes [simp]: "is_bytes (le_bytes n x)"
  by (induction n arbitrary: x) (simp_all add: is_byte_def)

lemma from_le_bounds: "is_bytes bs \<Longrightarrow> 0 \<le> from_le bs \<and> from_le bs < 256 ^ length bs"
  by (induction bs) (auto simp: is_byte_def)

lemma from_le_le_bytes [codec_simps]: "from_le (le_bytes n x) = x mod 256 ^ n"
proof (induction n arbitrary: x)
  case 0
  then show ?case by simp
next
  case (Suc n)
  have "x mod (256 * 256 ^ n) = 256 * (x div 256 mod 256 ^ n) + x mod 256"
    by (rule zmod_zmult2_eq) simp
  with Suc show ?case by simp
qed

lemma le_bytes_from_le [codec_simps]:
  "is_bytes bs \<Longrightarrow> n = length bs \<Longrightarrow> le_bytes n (from_le bs) = bs"
  by (induction bs arbitrary: n) (auto simp: is_byte_def)

lemma le_bytes_inj:
  assumes "le_bytes n x = le_bytes n y" "0 \<le> x" "x < 256 ^ n" "0 \<le> y" "y < 256 ^ n"
  shows "x = y"
  using assms by (metis from_le_le_bytes mod_pos_pos_trivial)

lemma from_le_append: "from_le (xs @ ys) = from_le xs + 256 ^ length xs * from_le ys"
  by (induction xs) (simp_all add: algebra_simps)

lemma from_le_zeros [simp]: "from_le (replicate n 0) = 0"
  by (induction n) simp_all

lemma from_be_bounds: "is_bytes bs \<Longrightarrow> 0 \<le> from_be bs \<and> from_be bs < 256 ^ length bs"
  using from_le_bounds [of "rev bs"] by (simp add: from_be_def)

lemma to_bytes_le_Inr: "0 \<le> x \<Longrightarrow> x < 256 ^ n \<Longrightarrow> to_bytes_le x n = Inr (le_bytes n x)"
  by (simp add: to_bytes_le_def)

lemma to_bytes_be_roundtrip: "to_bytes_be x n = Inr bs \<Longrightarrow> from_be bs = x \<and> length bs = n"
  by (auto simp: to_bytes_be_def from_be_def from_le_le_bytes split: if_splits)

lemma from_le_signed_roundtrip:
  assumes "to_bytes_le_signed x n = Inr bs"
  shows "from_le_signed bs = x \<and> length bs = n"
proof -
  let ?m = "256 ^ n :: int"
  from assms have b: "- ?m \<le> 2 * x" "2 * x < ?m" "bs = le_bytes n (x mod ?m)"
    by (auto simp: to_bytes_le_signed_def split: if_splits)
  have len: "length bs = n" and val: "from_le bs = x mod ?m"
    using b(3) by (simp_all add: from_le_le_bytes)
  show ?thesis
  proof (cases "0 \<le> x")
    case True
    then have "x mod ?m = x" using b(2) by (intro mod_pos_pos_trivial) auto
    then show ?thesis using b len val by (simp add: from_le_signed_def Let_def)
  next
    case False
    have "x mod ?m = (x + ?m) mod ?m" by simp
    also have "\<dots> = x + ?m" using False b(1) by (intro mod_pos_pos_trivial) auto
    finally show ?thesis using b len val False by (simp add: from_le_signed_def Let_def)
  qed
qed

section \<open>\<open>int.bit_length\<close>\<close>

fun bit_length :: "nat \<Rightarrow> nat" where
  "bit_length n = (if n = 0 then 0 else Suc (bit_length (n div 2)))"

declare bit_length.simps [simp del]

lemma bit_length_0 [simp]: "bit_length 0 = 0"
  by (simp add: bit_length.simps)

lemma bit_length_le_iff: "bit_length n \<le> k \<longleftrightarrow> n < 2 ^ k"
proof (induction n arbitrary: k rule: bit_length.induct)
  case (1 n)
  show ?case
  proof (cases "n = 0")
    case False
    have u: "bit_length n = Suc (bit_length (n div 2))" using False by (subst bit_length.simps) simp
    show ?thesis
    proof (cases k)
      case 0
      with u False show ?thesis by simp
    next
      case (Suc j)
      have "n < 2 ^ Suc j \<longleftrightarrow> n div 2 < 2 ^ j" by auto
      with Suc u 1 [OF False, of j] show ?thesis by simp
    qed
  qed simp
qed

section \<open>Bitwise lemmas on integers\<close>

lemma is_byte_xor: "is_byte a \<Longrightarrow> is_byte b \<Longrightarrow> is_byte (a XOR b)"
  using XOR_upper [of a 8 b] by (auto simp: is_byte_def)

lemma xor_cancel_right [simp]: "(a XOR b) XOR b = (a :: int)"
  by (simp add: xor.assoc)

section \<open>Association lists with unique keys, as Python dictionaries\<close>

text \<open>\<open>d.setdefault(k, v)\<close>: the value already stored under the key is kept.\<close>

definition dict_setdefault :: "('k \<times> 'v) list \<Rightarrow> 'k \<Rightarrow> 'v \<Rightarrow> ('k \<times> 'v) list" where
  "dict_setdefault d k v = (case map_of d k of None \<Rightarrow> d @ [(k, v)] | Some _ \<Rightarrow> d)"

text \<open>\<open>d[k] = v\<close>: an existing key keeps its place, a new one goes to the end.\<close>

fun dict_set :: "('k \<times> 'v) list \<Rightarrow> 'k \<Rightarrow> 'v \<Rightarrow> ('k \<times> 'v) list" where
  "dict_set [] k v = [(k, v)]"
| "dict_set ((k', v') # d) k v = (if k' = k then (k, v) # d else (k', v') # dict_set d k v)"

lemma map_of_dict_set [simp]: "map_of (dict_set d k v) = (map_of d)(k \<mapsto> v)"
  by (induction d) (auto simp: fun_eq_iff)

lemma map_of_dict_setdefault:
  "map_of (dict_setdefault d k v) x =
     (if x = k \<and> map_of d k = None then Some v else map_of d x)"
  by (auto simp: dict_setdefault_def map_add_def split: option.splits)

lemma dict_set_keys: "fst ` set (dict_set d k v) = insert k (fst ` set d)"
  by (induction d k v rule: dict_set.induct) (simp_all add: insert_commute)

lemma distinct_dict_set: "distinct (map fst d) \<Longrightarrow> distinct (map fst (dict_set d k v))"
  by (induction d k v rule: dict_set.induct) (auto simp: dict_set_keys)

lemma dict_set_new: "k \<notin> fst ` set d \<Longrightarrow> dict_set d k v = d @ [(k, v)]"
  by (induction d k v rule: dict_set.induct) auto

lemma foldl_dict_set_distinct:
  "distinct (map fst (d @ rs)) \<Longrightarrow> foldl (\<lambda>d (p, v). dict_set d p v) d rs = d @ rs"
proof (induction rs arbitrary: d)
  case (Cons r rs)
  obtain k v where r: "r = (k, v)" by (cases r)
  have "dict_set d k v = d @ [(k, v)]" by (rule dict_set_new) (use Cons.prems r in auto)
  with Cons.IH [of "d @ [r]"] Cons.prems r show ?case by simp
qed simp

end
