(* ===== verification/PyText.thy ===== *)
theory PyText
  imports Prelude
begin

text \<open>
  The \<open>str\<close> operations the modelled scripts use: \<open>split\<close>, \<open>join\<close>, \<open>startswith\<close> and \<open>find\<close> on
  lists of any type of character; \<open>strip\<close>, \<open>split()\<close>, \<open>int(s)\<close> and \<open>int(s, 16)\<close> on
  \<^typ>\<open>string\<close> (one \<^typ>\<open>char\<close> per character, so code points below 256).
\<close>

section \<open>Whitespace and stripping\<close>

text \<open>Python's \<open>str.isspace\<close> below 128: tab, newline, vertical tab, form feed, carriage
  return, the four information separators and the space.\<close>

definition is_space :: "char \<Rightarrow> bool" where
  "is_space c \<longleftrightarrow> (let n = of_char c :: int in (9 \<le> n \<and> n \<le> 13) \<or> (28 \<le> n \<and> n \<le> 32))"

definition lstrip :: "string \<Rightarrow> string" where
  "lstrip s = dropWhile is_space s"

definition rstrip :: "string \<Rightarrow> string" where
  "rstrip s = rev (dropWhile is_space (rev s))"

definition strip :: "string \<Rightarrow> string" where
  "strip s = rstrip (lstrip s)"

definition startswith :: "'a list \<Rightarrow> 'a list \<Rightarrow> bool" where
  "startswith s p \<longleftrightarrow> take (length p) s = p"

definition endswith :: "'a list \<Rightarrow> 'a list \<Rightarrow> bool" where
  "endswith s p \<longleftrightarrow> length p \<le> length s \<and> drop (length s - length p) s = p"

section \<open>Splitting and joining\<close>

text \<open>\<open>s.split(sep)\<close> for a separator of one character: never empty, and the separators are
  exactly the cuts.\<close>

fun split_on :: "'a \<Rightarrow> 'a list \<Rightarrow> 'a list list" where
  "split_on c [] = [[]]"
| "split_on c (x # xs) =
     (if x = c then [] # split_on c xs
      else (case split_on c xs of [] \<Rightarrow> [[x]] | w # ws \<Rightarrow> (x # w) # ws))"

fun join :: "'a list \<Rightarrow> 'a list list \<Rightarrow> 'a list" where
  "join sep [] = []"
| "join sep [w] = w"
| "join sep (w # v # ws) = w @ sep @ join sep (v # ws)"

lemma split_on_not_Nil [simp]: "split_on c s \<noteq> []"
  by (cases s) (auto split: list.splits)

lemma join_Cons: "join sep (w # ws) = (if ws = [] then w else w @ sep @ join sep ws)"
  by (cases ws) simp_all

lemma join_split_on: "join [c] (split_on c s) = s"
proof (induction s)
  case (Cons x s)
  then show ?case
    by (cases "split_on c s") (auto simp: join_Cons split: if_splits)
qed simp

lemma split_on_no_sep: "w \<in> set (split_on c s) \<Longrightarrow> c \<notin> set w"
proof (induction s arbitrary: w)
  case (Cons x s)
  then show ?case
    by (cases "split_on c s") (auto split: if_splits)
qed simp

lemma split_on_id: "c \<notin> set s \<Longrightarrow> split_on c s = [s]"
  by (induction s) auto

lemma split_on_append: "c \<notin> set w \<Longrightarrow> split_on c (w @ c # s) = w # split_on c s"
  by (induction w) auto

lemma split_on_join:
  "ws \<noteq> [] \<Longrightarrow> (\<And>w. w \<in> set ws \<Longrightarrow> c \<notin> set w) \<Longrightarrow> split_on c (join [c] ws) = ws"
proof (induction ws)
  case (Cons w ws)
  then show ?case
    by (cases ws) (auto simp: split_on_id split_on_append)
qed simp

lemma length_split_on: "length (split_on c s) = Suc (count_list s c)"
proof (induction s)
  case (Cons x s)
  then show ?case by (cases "split_on c s") auto
qed simp

lemma split_on_lines:
  "(\<And>l. l \<in> set ls \<Longrightarrow> c \<notin> set l) \<Longrightarrow> split_on c (concat (map (\<lambda>l. l @ [c]) ls)) = ls @ [[]]"
  by (induction ls) (simp_all add: split_on_append)

text \<open>\<open>s.split()\<close>: runs of whitespace separate, none of them yields an empty word.\<close>

function words :: "string \<Rightarrow> string list" where
  "words s = (let t = lstrip s in
     if t = [] then [] else takeWhile (\<lambda>c. \<not> is_space c) t # words (dropWhile (\<lambda>c. \<not> is_space c) t))"
  by pat_completeness auto
termination
proof (relation "measure length", goal_cases)
  case (2 s t)
  have "length (dropWhile (\<lambda>c. \<not> is_space c) t) < length t"
  proof (cases t)
    case (Cons a u)
    with 2 have "\<not> is_space a"
      by (metis lstrip_def dropWhile_eq_Cons_conv)
    with Cons show ?thesis by (simp add: length_dropWhile_le le_imp_less_Suc)
  qed (use 2 in simp)
  also have "\<dots> \<le> length s"
    using 2 by (simp add: lstrip_def length_dropWhile_le)
  finally show ?case by simp
qed simp

declare words.simps [simp del]

text \<open>\<open>s.find(p, i)\<close> as an option (\<open>None\<close> for \<open>-1\<close>).\<close>

function find_from :: "'a list \<Rightarrow> 'a list \<Rightarrow> nat \<Rightarrow> nat option" where
  "find_from p s i =
     (if i + length p > length s then None
      else if take (length p) (drop i s) = p then Some i
      else find_from p s (Suc i))"
  by pat_completeness auto
termination
  by (relation "measure (\<lambda>(p, s, i). Suc (length s) - i)") auto

declare find_from.simps [simp del]

definition contains :: "'a list \<Rightarrow> 'a list \<Rightarrow> bool" where
  "contains p s \<longleftrightarrow> find_from p s 0 \<noteq> None"

lemma find_from_SomeD:
  "find_from p s i = Some j \<Longrightarrow> i \<le> j \<and> j + length p \<le> length s \<and> take (length p) (drop j s) = p"
proof (induction p s i rule: find_from.induct)
  case (1 p s i)
  then show ?case
    by (auto simp: find_from.simps [of p s i] split: if_splits)
qed

section \<open>Numbers in text\<close>

text \<open>Decimal digits of a number, as \<open>str(n)\<close> writes it.\<close>

fun show_nat :: "nat \<Rightarrow> string" where
  "show_nat n = (if n < 10 then [char_of (48 + n)] else show_nat (n div 10) @ [char_of (48 + n mod 10)])"

declare show_nat.simps [simp del]

definition show_int :: "int \<Rightarrow> string" where
  "show_int i = (if i < 0 then CHR ''-'' # show_nat (nat (- i)) else show_nat (nat i))"

text \<open>\<open>int(s)\<close> and \<open>int(s, 16)\<close>: surrounding whitespace, one sign, for base 16 an optional
  \<open>0x\<close>, then digits with single underscores between them; anything else is a
  \<open>ValueError\<close>.\<close>

definition digit_value :: "char \<Rightarrow> int option" where
  "digit_value c = (let n = of_char c :: int in
     if 48 \<le> n \<and> n \<le> 57 then Some (n - 48)
     else if 97 \<le> n \<and> n \<le> 102 then Some (n - 87)
     else if 65 \<le> n \<and> n \<le> 70 then Some (n - 55)
     else None)"

fun digits_value :: "int \<Rightarrow> int \<Rightarrow> bool \<Rightarrow> string \<Rightarrow> int option" where
  "digits_value base acc us [] = (if us then None else Some acc)"
| "digits_value base acc us (c # cs) =
     (if c = CHR ''_'' then (if us then None else digits_value base acc True cs)
      else case digit_value c of
        None \<Rightarrow> None
      | Some d \<Rightarrow> if d < base then digits_value base (base * acc + d) False cs else None)"

definition drop_0x :: "string \<Rightarrow> string" where
  "drop_0x s = (if (take 2 s = ''0x'' \<or> take 2 s = ''0X'') then
      (if take 1 (drop 2 s) = ''_'' then drop 3 s else drop 2 s) else s)"

definition py_int_base :: "int \<Rightarrow> string \<Rightarrow> int result" where
  "py_int_base base s = (let t = strip s;
      neg = (take 1 t = ''-'');
      u = (if neg \<or> take 1 t = ''+'' then drop 1 t else t);
      ds = (if base = 16 then drop_0x u else u)
    in if ds = [] then Inl ValueError
       else case digits_value base 0 True ds of
          None \<Rightarrow> Inl ValueError
        | Some n \<Rightarrow> Inr (if neg then - n else n))"

text \<open>The initial underscore flag refuses a leading underscore, as \<open>int\<close> does.\<close>

definition py_int :: "string \<Rightarrow> int result" where
  "py_int s = py_int_base 10 s"

definition py_int16 :: "string \<Rightarrow> int result" where
  "py_int16 s = py_int_base 16 s"

lemma py_int16_example: "py_int16 ''0xAC02'' = Inr 44034"
  by code_simp

lemma py_int_example: "py_int ''  12'' = Inr 12"
  by code_simp

section \<open>Printing and reading a number\<close>

lemma of_char_digit: "k < 10 \<Longrightarrow> (of_char (char_of (48 + k :: nat) :: char) :: int) = 48 + int k"
proof -
  assume k: "k < 10"
  have "of_char (char_of (48 + k) :: char) = (48 + k) mod 256" by simp
  then have "(of_char (char_of (48 + k) :: char) :: int) = int ((48 + k) mod 256)" by (metis of_nat_of_char)
  with k show ?thesis by simp
qed

lemma digit_value_char_of: "k < 10 \<Longrightarrow> digit_value (char_of (48 + k :: nat)) = Some (int k)"
  by (simp add: digit_value_def of_char_digit)

lemma show_digit_plain:
  assumes "(k :: nat) < 10"
  shows "char_of (48 + k) \<noteq> CHR ''_'' \<and> char_of (48 + k) \<noteq> CHR ''-'' \<and> char_of (48 + k) \<noteq> CHR ''+'' \<and> \<not> is_space (char_of (48 + k))"
proof -
  have "char_of (48 + k) \<noteq> c" if "(of_char c :: int) < 48 \<or> 57 < (of_char c :: int)" for c :: char
    using of_char_digit [OF assms] that assms by auto
  then show ?thesis using of_char_digit [OF assms] by (auto simp: is_space_def)
qed

lemma digits_value_show_nat:
  "digits_value 10 acc us (show_nat k @ rest) = digits_value 10 (acc * 10 ^ length (show_nat k) + int k) False rest"
proof (induction k arbitrary: acc us rest rule: show_nat.induct)
  case (1 k)
  show ?case
  proof (cases "k < 10")
    case True
    then show ?thesis by (simp add: show_nat.simps [of k] digit_value_char_of show_digit_plain mult.commute)
  next
    case False
    have m: "k mod 10 < 10" "int (k mod 10) + 10 * int (k div 10) = int k"
      by (simp, metis mod_mult_div_eq of_nat_add of_nat_mult of_nat_numeral)
    from "1.IH" [OF False] m(1) have "digits_value 10 acc us (show_nat k @ rest)
        = digits_value 10 (int (k mod 10) + 10 * int (k div 10) + acc * (10 * 10 ^ length (show_nat (k div 10)))) False rest"
      by (subst show_nat.simps) (simp add: False digit_value_char_of show_digit_plain algebra_simps)
    with m(2) show ?thesis by (subst (2) show_nat.simps) (simp add: False algebra_simps)
  qed
qed

lemma show_nat_chars: "c \<in> set (show_nat k) \<Longrightarrow> c \<noteq> CHR ''_'' \<and> c \<noteq> CHR ''-'' \<and> c \<noteq> CHR ''+'' \<and> \<not> is_space c"
proof (induction k rule: show_nat.induct)
  case (1 k)
  show ?case
  proof (cases "k < 10")
    case True
    with "1.prems" show_digit_plain show ?thesis by (simp add: show_nat.simps [of k])
  next
    case False
    with "1.prems" consider "c \<in> set (show_nat (k div 10))" | "c = char_of (48 + k mod 10)" by (auto simp: show_nat.simps [of k])
    then show ?thesis using "1.IH" [OF False] show_digit_plain [of "k mod 10"] by cases simp_all
  qed
qed

lemma show_nat_not_Nil [simp]: "show_nat k \<noteq> []"
  by (simp add: show_nat.simps [of k])

lemma strip_no_space: "(\<And>c. c \<in> set s \<Longrightarrow> \<not> is_space c) \<Longrightarrow> strip s = s"
proof -
  assume a: "\<And>c. c \<in> set s \<Longrightarrow> \<not> is_space c"
  then have "dropWhile is_space s = s" by (cases s) auto
  moreover have "dropWhile is_space (rev s) = rev s" using a by (metis dropWhile_eq_self_iff hd_in_set set_rev)
  ultimately show ?thesis by (simp add: strip_def lstrip_def rstrip_def)
qed

lemma py_int_show_int: "py_int (show_int n) = Inr n"
proof -
  have ds: "digits_value 10 0 True (show_nat k) = Some (int k)" for k
    using digits_value_show_nat [of 0 True k "[]"] by simp
  have st: "strip (show_int n) = show_int n"
    by (rule strip_no_space) (auto simp: show_int_def is_space_def dest: show_nat_chars split: if_splits)
  have hd1: "take 1 (show_nat k) \<noteq> ''-''" "take 1 (show_nat k) \<noteq> ''+''" for k
    using show_nat_chars [of _ k] by (cases "show_nat k"; auto)+
  show ?thesis
  proof (cases "n < 0")
    case True
    then show ?thesis unfolding py_int_def py_int_base_def st using ds by (simp add: show_int_def Let_def)
  next
    case False
    then show ?thesis unfolding py_int_def py_int_base_def st using ds hd1 by (simp add: show_int_def Let_def)
  qed
qed

end
