(* ===== verification/Cjk_Index.thy ===== *)
theory Cjk_Index
  imports PyText "HOL-Library.Product_Lexorder"
begin

text \<open>
  The index tables of \<open>modules/encoding/tools/cjk_oracle/std_ref.py\<close>: reading an index file
  (\<open>load_index\<close>), inverting it (\<open>first_pointer\<close>), the module globals derived from the seven
  files (\<open>init_tables\<close>), and the two gb18030 range lookups.  A Python dictionary is an
  association list with distinct keys.  The contents of the index files are a parameter; what
  the codecs rely on is the executable predicate \<open>tables_wf\<close>.
\<close>

type_synonym dict = "(int \<times> int) list"

section \<open>Reading an index file\<close>

definition load_line :: "string \<Rightarrow> (int \<times> int) option result" where
  "load_line line =
     (if startswith line ''#'' \<or> strip line = [] then Inr None
      else case split_on (CHR 0x09) line of
         f0 # f1 # _ \<Rightarrow> rbind (py_int f0) (\<lambda>k. rbind (py_int16 f1) (\<lambda>v. Inr (Some (k, v))))
       | f0 # [] \<Rightarrow> Inl IndexError
       | [] \<Rightarrow> Inl IndexError)"

fun load_index_from :: "dict \<Rightarrow> string list \<Rightarrow> dict result" where
  "load_index_from d [] = Inr d"
| "load_index_from d (line # rest) = rbind (load_line line) (\<lambda>r.
     case r of None \<Rightarrow> load_index_from d rest
             | Some (k, v) \<Rightarrow> load_index_from (dict_set d k v) rest)"

definition load_index :: "string list \<Rightarrow> dict result" where
  "load_index lines = load_index_from [] lines"

lemma load_index_from_distinct:
  "load_index_from d ls = Inr d' \<Longrightarrow> distinct (map fst d) \<Longrightarrow> distinct (map fst d')"
  by (induction ls arbitrary: d)
     (auto simp: rbind_eq_Inr_iff split: option.splits intro: distinct_dict_set)

lemma load_index_distinct: "load_index ls = Inr d \<Longrightarrow> distinct (map fst d)"
  unfolding load_index_def by (rule load_index_from_distinct) auto

section \<open>Inverting an index\<close>

definition first_pointer :: "dict \<Rightarrow> dict" where
  "first_pointer index = foldl (\<lambda>m (p, c). dict_setdefault m c p) [] (sort_key fst index)"

lemma foldl_setdefault:
  "map_of (foldl (\<lambda>m (p, c). dict_setdefault m c p) m xs) c =
     (case map_of m c of Some p \<Rightarrow> Some p
      | None \<Rightarrow> map_option fst (find (\<lambda>(p, c'). c' = c) xs))"
proof (induction xs arbitrary: m)
  case Nil
  then show ?case by (simp split: option.splits)
next
  case (Cons x xs)
  then show ?case
    by (cases x) (auto simp: map_of_dict_setdefault split: option.splits)
qed

lemma find_sorted_least:
  "sorted (map fst xs) \<Longrightarrow> find (\<lambda>(p, c'). c' = c) xs = Some (p, c'') \<Longrightarrow>
     (p, c) \<in> set xs \<and> c'' = c \<and> (\<forall>q. (q, c) \<in> set xs \<longrightarrow> p \<le> q)"
  by (induction xs) (force split: if_splits)+

lemma first_pointer_Some:
  assumes "map_of (first_pointer index) c = Some p" "distinct (map fst index)"
  shows "map_of index p = Some c" and "\<And>q. map_of index q = Some c \<Longrightarrow> p \<le> q"
proof -
  let ?xs = "sort_key fst index"
  from assms(1) obtain c'' where f: "find (\<lambda>(p, c'). c' = c) ?xs = Some (p, c'')"
    by (auto simp: first_pointer_def foldl_setdefault)
  have *: "(p, c) \<in> set index" "\<forall>q. (q, c) \<in> set index \<longrightarrow> p \<le> q"
    using find_sorted_least [OF _ f] by auto
  then show "map_of index p = Some c" using assms(2) by simp
  show "p \<le> q" if "map_of index q = Some c" for q
    using that * map_of_SomeD by fastforce
qed

lemma first_pointer_None:
  "distinct (map fst index) \<Longrightarrow>
   map_of (first_pointer index) c = None \<longleftrightarrow> (\<forall>p. map_of index p \<noteq> Some c)"
  by (auto simp: first_pointer_def foldl_setdefault find_None_iff)

lemma distinct_keys_filter: "distinct (map fst (xs :: dict)) \<Longrightarrow> distinct (map fst (filter P xs))"
  by (induction xs) auto

section \<open>The module's tables\<close>

text \<open>\<open>max(...)\<close> of a sequence: \<open>ValueError\<close> on an empty one.\<close>

definition py_max :: "'a::linorder list \<Rightarrow> 'a result" where
  "py_max xs = (case xs of [] \<Rightarrow> Inl ValueError | x # ys \<Rightarrow> Inr (fold max ys x))"

lemma fold_max_ge: "(x :: 'a::linorder) \<le> fold max ys x \<and> (\<forall>y \<in> set ys. y \<le> fold max ys x)"
proof (induction ys arbitrary: x)
  case (Cons a ys)
  from Cons [of "max a x"] show ?case
    by (auto intro: order_trans [OF max.cobounded1] order_trans [OF max.cobounded2])
qed simp

lemma fold_max_in: "fold max ys (x :: 'a::linorder) \<in> insert x (set ys)"
proof (induction ys arbitrary: x)
  case (Cons y ys)
  then show ?case using Cons [of "max y x"] by (auto simp: max_def split: if_splits)
qed simp

lemma py_max_Inr: "py_max xs = Inr m \<longleftrightarrow> m \<in> set xs \<and> (\<forall>x \<in> set xs. x \<le> m)"
proof (cases xs)
  case Nil
  then show ?thesis by (simp add: py_max_def)
next
  case (Cons x ys)
  have "fold max ys x \<in> set xs" "\<forall>y \<in> set xs. y \<le> fold max ys x"
    using fold_max_in [of ys x] fold_max_ge [of x ys] Cons by auto
  then show ?thesis using Cons by (auto simp: py_max_def intro: antisym)
qed

record indexes =
  ix_jis0208 :: dict
  ix_jis0212 :: dict
  ix_kata :: dict
  ix_euckr :: dict
  ix_gb :: dict
  ix_gbr :: dict
  ix_big5 :: dict

record tables =
  JIS0208 :: dict
  JIS0212 :: dict
  KATA :: dict
  EUCKR :: dict
  GB :: dict
  GBR :: dict
  BIG5 :: dict
  JIS0208_PTR :: dict
  SJIS_PTR :: dict
  EUCKR_PTR :: dict
  GB_PTR :: dict
  BIG5_PTR :: dict
  GBR_PTRS :: "int list"
  GBR_CPS :: "(int \<times> int) list"

definition sjis_index :: "dict \<Rightarrow> dict" where
  "sjis_index d = filter (\<lambda>(p, c). \<not> (8272 \<le> p \<and> p \<le> 8835)) d"

definition big5_index :: "dict \<Rightarrow> dict" where
  "big5_index d = filter (\<lambda>(p, c). (0xA1 - 0x81) * 157 \<le> p) d"

definition big5_last_cps :: "int list" where
  "big5_last_cps = [0x2550, 0x255E, 0x2561, 0x256A, 0x5341, 0x5345]"

fun big5_override :: "dict \<Rightarrow> dict \<Rightarrow> int list \<Rightarrow> dict result" where
  "big5_override b5 m [] = Inr m"
| "big5_override b5 m (cp # cps) =
     rbind (py_max (map fst (filter (\<lambda>(p, c). c = cp) b5)))
       (\<lambda>p. big5_override b5 (dict_set m cp p) cps)"

definition big5_ptr :: "dict \<Rightarrow> dict result" where
  "big5_ptr d = (let b5 = big5_index d in big5_override b5 (first_pointer b5) big5_last_cps)"

definition init_tables :: "indexes \<Rightarrow> tables result" where
  "init_tables ix = rbind (big5_ptr (ix_big5 ix)) (\<lambda>b5p. Inr
     \<lparr> JIS0208 = ix_jis0208 ix, JIS0212 = ix_jis0212 ix, KATA = ix_kata ix,
       EUCKR = ix_euckr ix, GB = ix_gb ix, GBR = ix_gbr ix, BIG5 = ix_big5 ix,
       JIS0208_PTR = first_pointer (ix_jis0208 ix),
       SJIS_PTR = first_pointer (sjis_index (ix_jis0208 ix)),
       EUCKR_PTR = first_pointer (ix_euckr ix),
       GB_PTR = first_pointer (ix_gb ix),
       BIG5_PTR = b5p,
       GBR_PTRS = sort (map fst (ix_gbr ix)),
       GBR_CPS = sort (map (\<lambda>(p, c). (c, p)) (ix_gbr ix)) \<rparr>)"

lemma big5_override_spec:
  assumes "big5_override b5 m cps = Inr m'" "distinct (map fst b5)"
    and "\<And>c p. map_of m c = Some p \<Longrightarrow> map_of b5 p = Some c"
  shows "map_of m' c = Some p \<Longrightarrow> map_of b5 p = Some c"
  using assms(1,3)
proof (induction cps arbitrary: m)
  case (Cons cp cps)
  from Cons.prems(2) obtain q where q: "py_max (map fst (filter (\<lambda>(p, c). c = cp) b5)) = Inr q"
    and rest: "big5_override b5 (dict_set m cp q) cps = Inr m'"
    by (auto simp: rbind_eq_Inr_iff)
  have "(q, cp) \<in> set b5" using q by (auto simp: py_max_Inr)
  then have "map_of b5 q = Some cp" using assms(2) by simp
  then have "map_of b5 p = Some c" if "map_of (dict_set m cp q) c = Some p" for c p
    using that Cons.prems(3) by (auto split: if_splits)
  with Cons.IH [OF Cons.prems(1) rest] show ?case by blast
qed auto

section \<open>The gb18030 ranges\<close>

definition gb_ranges_cp :: "tables \<Rightarrow> int \<Rightarrow> int option result" where
  "gb_ranges_cp t pointer =
     (if (39419 < pointer \<and> pointer < 189000) \<or> pointer > 1237575 then Inr None
      else if pointer = 7457 then Inr (Some 0xE7C7)
      else rbind (py_max (filter (\<lambda>p. p \<le> pointer) (GBR_PTRS t)))
        (\<lambda>off. case map_of (GBR t) off of None \<Rightarrow> Inl KeyError
                 | Some c \<Rightarrow> Inr (Some (c + pointer - off))))"

definition gb_ranges_pointer :: "tables \<Rightarrow> int \<Rightarrow> int result" where
  "gb_ranges_pointer t cp =
     (if cp = 0xE7C7 then Inr 7457
      else rbind (py_max (filter (\<lambda>(c, p). c \<le> cp) (GBR_CPS t)))
        (\<lambda>(off_cp, off_p). Inr (off_p + cp - off_cp)))"

definition in_range :: "int option \<Rightarrow> int \<Rightarrow> int \<Rightarrow> bool" where
  "in_range x lo hi = (case x of None \<Rightarrow> False | Some v \<Rightarrow> lo \<le> v \<and> v \<le> hi)"

section \<open>What the codecs rely on\<close>

text \<open>A scalar value that is not ASCII: what an index may hold.\<close>

definition is_scalar :: "int \<Rightarrow> bool" where
  "is_scalar c \<longleftrightarrow> 0 \<le> c \<and> c \<le> 0x10FFFF \<and> \<not> (0xD800 \<le> c \<and> c \<le> 0xDFFF)"

definition dict_wf :: "int \<Rightarrow> dict \<Rightarrow> bool" where
  "dict_wf n d \<longleftrightarrow> distinct (map fst d) \<and>
     list_all (\<lambda>(p, c). 0 \<le> p \<and> p < n \<and> 0x80 < c \<and> is_scalar c) d"

text \<open>The ranges in pointer order: each range runs up to the next one (the last of the Basic
  Multilingual Plane up to pointer 39419), its code points stay below those of the next range
  and never enter the surrogates, and the last range starts at pointer 189000 with U+10000.\<close>

fun gbr_chain :: "dict \<Rightarrow> bool" where
  "gbr_chain [] = False"
| "gbr_chain [(p, c)] = (p = 189000 \<and> c = 0x10000)"
| "gbr_chain ((p1, c1) # (p2, c2) # r) =
     (p1 < p2 \<and> p1 < 39420 \<and> (p2 < 39420 \<or> p2 = 189000) \<and> 0x80 \<le> c1 \<and>
      (let n = min p2 39420 - p1 in c1 + n \<le> c2 \<and> (c1 + n \<le> 0xD800 \<or> 0xE000 \<le> c1)) \<and>
      gbr_chain ((p2, c2) # r))"

text \<open>The shape of the published indexes: pointers below the size of the byte grid, scalar
  values above U+0080.  A code point of jis0208 has a pointer below 8836 (rows 1 to 94), and
  the EUDC pointers 8836 to 10715 are unassigned there; the katakana index maps every half-width
  form to a code point of jis0208.\<close>

definition indexes_wf :: "indexes \<Rightarrow> bool" where
  "indexes_wf ix \<longleftrightarrow>
     dict_wf 11280 (ix_jis0208 ix) \<and> dict_wf 8836 (ix_jis0212 ix) \<and>
     dict_wf 63 (ix_kata ix) \<and> list_all (\<lambda>i. map_of (ix_kata ix) i \<noteq> None) [0..62] \<and>
     list_all (\<lambda>(i, c). map_of (first_pointer (ix_jis0208 ix)) c \<noteq> None) (ix_kata ix) \<and>
     dict_wf 23940 (ix_euckr ix) \<and> dict_wf 23940 (ix_gb ix) \<and>
     dict_wf 19782 (ix_big5 ix) \<and>
     list_all (\<lambda>(p, c). p < 8836 \<or> 10715 < p) (ix_jis0208 ix) \<and>
     list_all (\<lambda>(p, c). p < 8836 \<or> map_of (first_pointer (ix_jis0208 ix)) c \<noteq> Some p) (ix_jis0208 ix) \<and>
     list_all (\<lambda>(p, c). c \<noteq> 0xA5 \<and> c \<noteq> 0x203E \<and> c \<noteq> 0x2212 \<and> \<not> (0xFF61 \<le> c \<and> c \<le> 0xFF9F)) (ix_jis0208 ix) \<and>
     list_all (\<lambda>(p, c). p \<noteq> 1133 \<and> p \<noteq> 1135 \<and> p \<noteq> 1164 \<and> p \<noteq> 1166) (ix_big5 ix) \<and>
     distinct (map fst (ix_gbr ix)) \<and> map_of (ix_gbr ix) 0 = Some 0x80 \<and>
     list_all (\<lambda>(p, c). 0 \<le> p) (ix_gbr ix) \<and>
     gbr_chain (sort_key fst (ix_gbr ix))"

subsection \<open>Consequences for the range lookups\<close>

lemma gbr_chain_last: "gbr_chain xs \<Longrightarrow> (189000, 0x10000) \<in> set xs \<and> fst (hd xs) \<le> 189000"
  by (induction xs rule: gbr_chain.induct) auto

lemma gbr_chain_ge: "gbr_chain ((p, c) # xs) \<Longrightarrow> (q, d) \<in> set xs \<Longrightarrow> p < q \<and> c < d"
proof (induction "(p, c) # xs" arbitrary: p c xs rule: gbr_chain.induct)
  case (3 p1 c1 p2 c2 r)
  then have "p1 < p2 \<and> c1 < c2" by (auto simp: Let_def min_def split: if_splits)
  with 3 show ?case by fastforce
qed auto

lemma gbr_chain_le: "gbr_chain xs \<Longrightarrow> (p, c) \<in> set xs \<Longrightarrow> p \<le> 189000 \<and> c \<le> 0x10000"
proof (induction xs arbitrary: p c rule: gbr_chain.induct)
  case (3 p1 c1 p2 c2 r)
  then have "p2 \<le> 189000 \<and> c2 \<le> 0x10000" by auto
  moreover have "c1 \<le> c2" using 3(2) by (auto simp: Let_def min_def split: if_splits)
  ultimately show ?case using 3 by auto
qed auto

lemma gbr_chain_top: "gbr_chain xs \<Longrightarrow> (189000, c) \<in> set xs \<Longrightarrow> c = 0x10000"
  by (induction xs rule: gbr_chain.induct) auto

text \<open>Every range but the last has a next one, which bounds it.\<close>

lemma gbr_chain_next:
  assumes "gbr_chain xs" "(p, c) \<in> set xs" "p \<noteq> 189000"
  obtains p2 c2 where "(p2, c2) \<in> set xs" "p < p2" "p < 39420" "0x80 \<le> c" "c2 \<le> 0x10000"
    "c + (min p2 39420 - p) \<le> c2" "c + (min p2 39420 - p) \<le> 0xD800 \<or> 0xE000 \<le> c"
    "\<And>q d. (q, d) \<in> set xs \<Longrightarrow> q \<le> p \<and> d \<le> c \<or> p2 \<le> q \<and> c2 \<le> d"
proof -
  have "\<exists>p2 c2. (p2, c2) \<in> set xs \<and> p < p2 \<and> p < 39420 \<and> 0x80 \<le> c \<and> c2 \<le> 0x10000 \<and>
    c + (min p2 39420 - p) \<le> c2 \<and> (c + (min p2 39420 - p) \<le> 0xD800 \<or> 0xE000 \<le> c) \<and>
    (\<forall>q d. (q, d) \<in> set xs \<longrightarrow> q \<le> p \<and> d \<le> c \<or> p2 \<le> q \<and> c2 \<le> d)"
    using assms
  proof (induction xs rule: gbr_chain.induct)
    case (3 p1 c1 p2 c2 r)
    have lt: "\<And>q d. (q, d) \<in> set ((p2, c2) # r) \<Longrightarrow> p1 < q \<and> c1 < d"
      using 3(2) gbr_chain_ge by blast
    show ?case
    proof (cases "(p, c) = (p1, c1)")
      case True
      have top: "c2 \<le> 0x10000" using 3(2) gbr_chain_le [of "(p2, c2) # r" p2 c2] by simp
      have "\<And>q d. (q, d) \<in> set r \<Longrightarrow> p2 < q \<and> c2 < d"
        by (rule gbr_chain_ge [of p2 c2 r]) (use 3(2) in simp_all)
      then have ext: "\<forall>q d. (q, d) \<in> set ((p1, c1) # (p2, c2) # r) \<longrightarrow>
          q \<le> p1 \<and> d \<le> c1 \<or> p2 \<le> q \<and> c2 \<le> d"
        by (metis list.set_intros(1) order.order_iff_strict prod.inject set_ConsD)
      have eq: "p = p1" "c = c1" using True by simp_all
      show ?thesis unfolding eq
        by (rule exI [of _ p2], rule exI [of _ c2], intro conjI ext)
           (use 3(2) top in \<open>simp_all only: gbr_chain.simps Let_def list.set insertI1 insertI2 simp_thms\<close>)
    next
      case False
      then have mem: "(p, c) \<in> set ((p2, c2) # r)" using 3(3) by auto
      have ch: "gbr_chain ((p2, c2) # r)" using 3(2) by simp
      have less: "p1 \<le> p \<and> c1 \<le> c" using lt [OF mem] by simp
      have ext: "\<forall>q d. (q, d) \<in> set ((p1, c1) # (p2, c2) # r) \<longrightarrow> q \<le> p \<and> d \<le> c \<or> p' \<le> q \<and> c' \<le> d"
        if "\<forall>q d. (q, d) \<in> set ((p2, c2) # r) \<longrightarrow> q \<le> p \<and> d \<le> c \<or> p' \<le> q \<and> c' \<le> d" for p' c'
        using that less unfolding list.set(2) [of "(p1, c1)"] insert_iff prod.inject by metis
      show ?thesis
        using 3(1) [OF ch mem 3(4)]
        apply (elim exE conjE)
        subgoal for p' c'
          by (rule exI [of _ p'], rule exI [of _ c'], intro conjI ext) (simp_all only: list.set(2) insertI2)
        done
    qed
  qed auto
  then show ?thesis by (elim exE conjE) (rule that, assumption+, blast)
qed

text \<open>The entry a pointer belongs to gives a scalar value, and the same entry is the one the
  code point belongs to.\<close>

lemma gbr_chain_scalar:
  assumes ch: "gbr_chain xs" and mem: "(p, c) \<in> set xs" and le: "p \<le> x"
    and mx: "\<And>q d. (q, d) \<in> set xs \<Longrightarrow> q \<le> x \<Longrightarrow> q \<le> p"
    and dom: "x \<le> 39419 \<or> 189000 \<le> x \<and> x \<le> 1237575"
  shows "0x80 \<le> c + x - p \<and> is_scalar (c + x - p)"
proof (cases "p = 189000")
  case True
  then have "c = 0x10000" using gbr_chain_top ch mem by blast
  with True le dom show ?thesis by (auto simp: is_scalar_def)
next
  case False
  obtain p2 c2 where *: "(p2, c2) \<in> set xs" "p < p2" "p < 39420" "0x80 \<le> c" "c2 \<le> 0x10000"
    "c + (min p2 39420 - p) \<le> c2" "c + (min p2 39420 - p) \<le> 0xD800 \<or> 0xE000 \<le> c"
    by (rule gbr_chain_next [OF ch mem False])
  have "x < p2" using mx [OF *(1)] *(2) by (meson leD leI order.strict_trans2)
  moreover have "x < 39420"
    using mx [of 189000 "0x10000"] gbr_chain_last [OF ch] dom *(3) by auto
  ultimately show ?thesis using * le by (auto simp: is_scalar_def)
qed

end
