(* ===== verification/Cjk_Decode.thy ===== *)
theory Cjk_Decode
  imports Cjk_Index
begin

text \<open>
  The six decoders of \<open>std_ref.py\<close> and their driver \<open>decode\<close>.  A handler takes the decoder's
  state, the rest of the I/O queue and the item just read (\<open>None\<close> for the end of the queue) and
  returns the new state, the queue with whatever it restored to its front, and a response.  The
  queue of the code ends in \<open>EOQ\<close>; here the end of the list is that marker, and an item is
  \<open>None\<close> exactly when the list is empty.  The driver is a \<open>while True\<close> loop: it is a
  \<open>partial_function\<close>, and that it returns is a theorem.
\<close>

section \<open>Responses and the driver\<close>

datatype resp = Finished | Continue | Error | Emit "int list"

type_synonym 'st step = "('st \<times> int list \<times> resp) result"
type_synonym 'st handler = "'st \<Rightarrow> int list \<Rightarrow> int option \<Rightarrow> 'st step"

text \<open>\<open>chr(cp).encode("utf-8", "surrogatepass")\<close>: \<open>chr\<close> refuses what is no code point.\<close>

definition cp_utf8 :: "int \<Rightarrow> bytes result" where
  "cp_utf8 cp =
     (if cp < 0 \<or> cp > 0x10FFFF then Inl ValueError
      else if cp < 0x80 then Inr [cp]
      else if cp < 0x800 then Inr [0xC0 + cp div 64, 0x80 + cp mod 64]
      else if cp < 0x10000 then Inr [0xE0 + cp div 4096, 0x80 + cp div 64 mod 64, 0x80 + cp mod 64]
      else Inr [0xF0 + cp div 262144, 0x80 + cp div 4096 mod 64, 0x80 + cp div 64 mod 64, 0x80 + cp mod 64])"

definition fffd_utf8 :: bytes where
  "fffd_utf8 = [0xEF, 0xBF, 0xBD]"

text \<open>The inner loop over the emitted code points: a surrogate is an assertion failure.\<close>

fun emit_cps :: "bytes \<Rightarrow> int list \<Rightarrow> bytes result" where
  "emit_cps out [] = Inr out"
| "emit_cps out (cp # cps) =
     (if 0xD800 \<le> cp \<and> cp \<le> 0xDFFF then Inl AssertionError
      else rbind (cp_utf8 cp) (\<lambda>b. emit_cps (out @ b) cps))"

definition next_item :: "int list \<Rightarrow> int option \<times> int list" where
  "next_item q = (case q of [] \<Rightarrow> (None, []) | b # q' \<Rightarrow> (Some b, q'))"

partial_function (option) decode_loop ::
  "'st handler \<Rightarrow> 'st \<Rightarrow> int list \<Rightarrow> bytes \<Rightarrow> bytes result option" where
  "decode_loop h st q out =
     (case next_item q of (item, q1) \<Rightarrow>
       (case h st q1 item of
          Inl e \<Rightarrow> Some (Inl e)
        | Inr r \<Rightarrow> (case r of (st', q', rsp) \<Rightarrow>
            (case rsp of
               Finished \<Rightarrow> Some (Inr out)
             | Error \<Rightarrow> decode_loop h st' q' (out @ fffd_utf8)
             | Continue \<Rightarrow> decode_loop h st' q' out
             | Emit cps \<Rightarrow> (case emit_cps out cps of
                  Inl e \<Rightarrow> Some (Inl e)
                | Inr out' \<Rightarrow> decode_loop h st' q' out')))))"

declare decode_loop.simps [code]

section \<open>gb18030\<close>

record gb_state =
  gb_first :: int
  gb_second :: int
  gb_third :: int

definition gb_init :: gb_state where
  "gb_init = \<lparr>gb_first = 0, gb_second = 0, gb_third = 0\<rparr>"

definition gb_two_byte :: "tables \<Rightarrow> int \<Rightarrow> int \<Rightarrow> int option" where
  "gb_two_byte t leading byte =
     (let offset = (if byte < 0x7F then 0x40 else 0x41);
          pointer = (if (0x40 \<le> byte \<and> byte \<le> 0x7E) \<or> (0x80 \<le> byte \<and> byte \<le> 0xFE)
                     then Some ((leading - 0x81) * 190 + (byte - offset)) else None)
      in Option.bind pointer (map_of (GB t)))"

definition gb18030_handler :: "tables \<Rightarrow> gb_state handler" where
  "gb18030_handler t st q item =
     (case item of
        None \<Rightarrow>
          if gb_first st = gb_second st \<and> gb_second st = gb_third st \<and> gb_third st = 0
          then Inr (st, q, Finished)
          else Inr (gb_init, q, Error)
      | Some byte \<Rightarrow>
          if gb_third st \<noteq> 0 then
            (if \<not> (0x30 \<le> byte \<and> byte \<le> 0x39)
             then Inr (gb_init, gb_second st # gb_third st # byte # q, Error)
             else rbind (gb_ranges_cp t ((gb_first st - 0x81) * (10 * 126 * 10)
                     + (gb_second st - 0x30) * (10 * 126) + (gb_third st - 0x81) * 10 + byte - 0x30))
                  (\<lambda>cp. case cp of None \<Rightarrow> Inr (gb_init, q, Error)
                                  | Some c \<Rightarrow> Inr (gb_init, q, Emit [c])))
          else if gb_second st \<noteq> 0 then
            (if 0x81 \<le> byte \<and> byte \<le> 0xFE then Inr (st\<lparr>gb_third := byte\<rparr>, q, Continue)
             else Inr (st\<lparr>gb_first := 0, gb_second := 0\<rparr>, gb_second st # byte # q, Error))
          else if gb_first st \<noteq> 0 then
            (if 0x30 \<le> byte \<and> byte \<le> 0x39 then Inr (st\<lparr>gb_second := byte\<rparr>, q, Continue)
             else case gb_two_byte t (gb_first st) byte of
                 Some c \<Rightarrow> Inr (st\<lparr>gb_first := 0\<rparr>, q, Emit [c])
               | None \<Rightarrow> Inr (st\<lparr>gb_first := 0\<rparr>, if byte < 0x80 then byte # q else q, Error))
          else if byte < 0x80 then Inr (st, q, Emit [byte])
          else if byte = 0x80 then Inr (st, q, Emit [0x20AC])
          else if 0x81 \<le> byte \<and> byte \<le> 0xFE then Inr (st\<lparr>gb_first := byte\<rparr>, q, Continue)
          else Inr (st, q, Error))"

section \<open>Decoders whose state is one lead byte\<close>

text \<open>Big5, Shift_JIS and EUC-KR keep \<open>self.leading\<close> only; the state is that integer.\<close>

definition big5_special :: "int \<Rightarrow> int list option" where
  "big5_special p =
     (if p = 1133 then Some [0x00CA, 0x0304] else if p = 1135 then Some [0x00CA, 0x030C]
      else if p = 1164 then Some [0x00EA, 0x0304] else if p = 1166 then Some [0x00EA, 0x030C]
      else None)"

definition big5_pointer :: "int \<Rightarrow> int \<Rightarrow> int option" where
  "big5_pointer leading byte =
     (let offset = (if byte < 0x7F then 0x40 else 0x62)
      in if (0x40 \<le> byte \<and> byte \<le> 0x7E) \<or> (0xA1 \<le> byte \<and> byte \<le> 0xFE)
         then Some ((leading - 0x81) * 157 + (byte - offset)) else None)"

definition big5_handler :: "tables \<Rightarrow> int handler" where
  "big5_handler t leading q item =
     (case item of
        None \<Rightarrow> if leading \<noteq> 0 then Inr (0, q, Error) else Inr (leading, q, Finished)
      | Some byte \<Rightarrow>
          if leading \<noteq> 0 then
            (let pointer = big5_pointer leading byte in
             case Option.bind pointer big5_special of
               Some cps \<Rightarrow> Inr (0, q, Emit cps)
             | None \<Rightarrow>
                (case Option.bind pointer (map_of (BIG5 t)) of
                   Some cp \<Rightarrow> Inr (0, q, Emit [cp])
                 | None \<Rightarrow> Inr (0, if byte < 0x80 then byte # q else q, Error)))
          else if byte < 0x80 then Inr (leading, q, Emit [byte])
          else if 0x81 \<le> byte \<and> byte \<le> 0xFE then Inr (byte, q, Continue)
          else Inr (leading, q, Error))"

definition sjis_pointer :: "int \<Rightarrow> int \<Rightarrow> int option" where
  "sjis_pointer leading byte =
     (let offset = (if byte < 0x7F then 0x40 else 0x41);
          leading_offset = (if leading < 0xA0 then 0x81 else 0xC1)
      in if (0x40 \<le> byte \<and> byte \<le> 0x7E) \<or> (0x80 \<le> byte \<and> byte \<le> 0xFC)
         then Some ((leading - leading_offset) * 188 + byte - offset) else None)"

definition shift_jis_handler :: "tables \<Rightarrow> int handler" where
  "shift_jis_handler t leading q item =
     (case item of
        None \<Rightarrow> if leading \<noteq> 0 then Inr (0, q, Error) else Inr (leading, q, Finished)
      | Some byte \<Rightarrow>
          if leading \<noteq> 0 then
            (let pointer = sjis_pointer leading byte in
             if in_range pointer 8836 10715 then Inr (0, q, Emit [0xE000 - 8836 + the pointer])
             else case Option.bind pointer (map_of (JIS0208 t)) of
                 Some cp \<Rightarrow> Inr (0, q, Emit [cp])
               | None \<Rightarrow> Inr (0, if byte < 0x80 then byte # q else q, Error))
          else if byte < 0x80 \<or> byte = 0x80 then Inr (leading, q, Emit [byte])
          else if 0xA1 \<le> byte \<and> byte \<le> 0xDF then Inr (leading, q, Emit [0xFF61 - 0xA1 + byte])
          else if (0x81 \<le> byte \<and> byte \<le> 0x9F) \<or> (0xE0 \<le> byte \<and> byte \<le> 0xFC)
          then Inr (byte, q, Continue)
          else Inr (leading, q, Error))"

definition euc_kr_pointer :: "int \<Rightarrow> int \<Rightarrow> int option" where
  "euc_kr_pointer leading byte =
     (if 0x41 \<le> byte \<and> byte \<le> 0xFE then Some ((leading - 0x81) * 190 + (byte - 0x41)) else None)"

definition euc_kr_handler :: "tables \<Rightarrow> int handler" where
  "euc_kr_handler t leading q item =
     (case item of
        None \<Rightarrow> if leading \<noteq> 0 then Inr (0, q, Error) else Inr (leading, q, Finished)
      | Some byte \<Rightarrow>
          if leading \<noteq> 0 then
            (case Option.bind (euc_kr_pointer leading byte) (map_of (EUCKR t)) of
               Some cp \<Rightarrow> Inr (0, q, Emit [cp])
             | None \<Rightarrow> Inr (0, if byte < 0x80 then byte # q else q, Error))
          else if byte < 0x80 then Inr (leading, q, Emit [byte])
          else if 0x81 \<le> byte \<and> byte \<le> 0xFE then Inr (byte, q, Continue)
          else Inr (leading, q, Error))"

section \<open>EUC-JP\<close>

record eucjp_state =
  ej_jis0212 :: bool
  ej_leading :: int

definition eucjp_init :: eucjp_state where
  "eucjp_init = \<lparr>ej_jis0212 = False, ej_leading = 0\<rparr>"

definition euc_jp_lookup :: "tables \<Rightarrow> bool \<Rightarrow> int \<Rightarrow> int \<Rightarrow> int option" where
  "euc_jp_lookup t jis0212 leading byte =
     (if 0xA1 \<le> leading \<and> leading \<le> 0xFE \<and> 0xA1 \<le> byte \<and> byte \<le> 0xFE
      then map_of (if jis0212 then JIS0212 t else JIS0208 t) ((leading - 0xA1) * 94 + byte - 0xA1)
      else None)"

definition euc_jp_handler :: "tables \<Rightarrow> eucjp_state handler" where
  "euc_jp_handler t st q item =
     (let leading = ej_leading st in
      case item of
        None \<Rightarrow> if leading \<noteq> 0 then Inr (st\<lparr>ej_leading := 0\<rparr>, q, Error) else Inr (st, q, Finished)
      | Some byte \<Rightarrow>
          if leading = 0x8E \<and> 0xA1 \<le> byte \<and> byte \<le> 0xDF
          then Inr (st\<lparr>ej_leading := 0\<rparr>, q, Emit [0xFF61 - 0xA1 + byte])
          else if leading = 0x8F \<and> 0xA1 \<le> byte \<and> byte \<le> 0xFE
          then Inr (st\<lparr>ej_jis0212 := True, ej_leading := byte\<rparr>, q, Continue)
          else if leading \<noteq> 0 then
            (case euc_jp_lookup t (ej_jis0212 st) leading byte of
                 Some c \<Rightarrow> Inr (eucjp_init, q, Emit [c])
               | None \<Rightarrow> Inr (eucjp_init, if byte < 0x80 then byte # q else q, Error))
          else if byte < 0x80 then Inr (st, q, Emit [byte])
          else if byte = 0x8E \<or> byte = 0x8F \<or> (0xA1 \<le> byte \<and> byte \<le> 0xFE)
          then Inr (st\<lparr>ej_leading := byte\<rparr>, q, Continue)
          else Inr (st, q, Error))"

section \<open>ISO-2022-JP\<close>

datatype iso_mode = Ascii | Roman | Katakana | Leading | Trailing | EscapeStart | Escape

record iso_state =
  iso_mode :: iso_mode
  iso_output_state :: iso_mode
  iso_leading :: int
  iso_output :: bool

definition iso_init :: iso_state where
  "iso_init = \<lparr>iso_mode = Ascii, iso_output_state = Ascii, iso_leading = 0, iso_output = False\<rparr>"

definition iso_plain_ascii :: "int \<Rightarrow> bool" where
  "iso_plain_ascii byte \<longleftrightarrow> byte \<le> 0x7F \<and> byte \<noteq> 0x0E \<and> byte \<noteq> 0x0F"

text \<open>The four states that emit: ASCII, Roman, katakana and lead byte.\<close>

definition iso_text_handler :: "iso_state handler" where
  "iso_text_handler st q item =
     (case item of
        None \<Rightarrow> Inr (st, q, Finished)
      | Some byte \<Rightarrow>
         if byte = 0x1B then Inr (st\<lparr>iso_mode := EscapeStart\<rparr>, q, Continue)
         else
          (let err = Inr (st\<lparr>iso_output := False\<rparr>, q, Error);
               put = (\<lambda>c. Inr (st\<lparr>iso_output := False\<rparr>, q, Emit [c]))
           in case iso_mode st of
             Ascii \<Rightarrow> if iso_plain_ascii byte then put byte else err
           | Roman \<Rightarrow> if byte = 0x5C then put 0xA5 else if byte = 0x7E then put 0x203E
               else if iso_plain_ascii byte then put byte else err
           | Katakana \<Rightarrow> if 0x21 \<le> byte \<and> byte \<le> 0x5F then put (0xFF61 - 0x21 + byte) else err
           | _ \<Rightarrow> if 0x21 \<le> byte \<and> byte \<le> 0x7E
               then Inr (st\<lparr>iso_output := False, iso_leading := byte, iso_mode := Trailing\<rparr>, q, Continue)
               else err))"

definition iso_trailing_handler :: "tables \<Rightarrow> iso_state handler" where
  "iso_trailing_handler t st q item =
     (let st' = st\<lparr>iso_mode := Leading\<rparr> in
      case item of
        None \<Rightarrow> Inr (st', q, Error)
      | Some byte \<Rightarrow>
          if byte = 0x1B then Inr (st\<lparr>iso_mode := EscapeStart\<rparr>, q, Error)
          else if 0x21 \<le> byte \<and> byte \<le> 0x7E then
            (case map_of (JIS0208 t) ((iso_leading st - 0x21) * 94 + byte - 0x21) of
               None \<Rightarrow> Inr (st', q, Error)
             | Some cp \<Rightarrow> Inr (st', q, Emit [cp]))
          else Inr (st', q, Error))"

definition iso_escape_start_handler :: "iso_state handler" where
  "iso_escape_start_handler st q item =
     (case item of
        Some byte \<Rightarrow>
          if byte = 0x24 \<or> byte = 0x28
          then Inr (st\<lparr>iso_leading := byte, iso_mode := Escape\<rparr>, q, Continue)
          else Inr (st\<lparr>iso_output := False, iso_mode := iso_output_state st\<rparr>, byte # q, Error)
      | None \<Rightarrow> Inr (st\<lparr>iso_output := False, iso_mode := iso_output_state st\<rparr>, q, Error))"

definition iso_escape_target :: "int \<Rightarrow> int option \<Rightarrow> iso_mode option" where
  "iso_escape_target leading item =
     (if leading = 0x24 \<and> (item = Some 0x40 \<or> item = Some 0x42) then Some Leading
      else if leading = 0x28 \<and> item = Some 0x49 then Some Katakana
      else if leading = 0x28 \<and> item = Some 0x4A then Some Roman
      else if leading = 0x28 \<and> item = Some 0x42 then Some Ascii
      else None)"

definition iso_escape_handler :: "iso_state handler" where
  "iso_escape_handler st q item =
     (let leading = iso_leading st in
      case iso_escape_target leading item of
        Some s \<Rightarrow> Inr (st\<lparr>iso_leading := 0, iso_mode := s, iso_output_state := s, iso_output := True\<rparr>, q,
                       if iso_output st then Error else Continue)
      | None \<Rightarrow> Inr (st\<lparr>iso_leading := 0, iso_output := False, iso_mode := iso_output_state st\<rparr>,
                     (case item of None \<Rightarrow> leading # q | Some byte \<Rightarrow> leading # byte # q), Error))"

definition iso_2022_jp_handler :: "tables \<Rightarrow> iso_state handler" where
  "iso_2022_jp_handler t st q item =
     (case iso_mode st of
        Trailing \<Rightarrow> iso_trailing_handler t st q item
      | EscapeStart \<Rightarrow> iso_escape_start_handler st q item
      | Escape \<Rightarrow> iso_escape_handler st q item
      | _ \<Rightarrow> iso_text_handler st q item)"

section \<open>Dispatch\<close>

datatype encoding = shift_jis | euc_jp | iso_2022_jp | euc_kr | gb18030 | gbk | big5

definition decode :: "tables \<Rightarrow> encoding \<Rightarrow> bytes \<Rightarrow> bytes result option" where
  "decode t enc data =
     (case enc of
        shift_jis \<Rightarrow> decode_loop (shift_jis_handler t) 0 data []
      | euc_jp \<Rightarrow> decode_loop (euc_jp_handler t) eucjp_init data []
      | iso_2022_jp \<Rightarrow> decode_loop (iso_2022_jp_handler t) iso_init data []
      | euc_kr \<Rightarrow> decode_loop (euc_kr_handler t) 0 data []
      | gb18030 \<Rightarrow> decode_loop (gb18030_handler t) gb_init data []
      | gbk \<Rightarrow> decode_loop (gb18030_handler t) gb_init data []
      | big5 \<Rightarrow> decode_loop (big5_handler t) 0 data [])"

lemmas handler_defs =
  shift_jis_handler_def euc_kr_handler_def big5_handler_def euc_jp_handler_def
  gb18030_handler_def iso_2022_jp_handler_def iso_text_handler_def iso_trailing_handler_def
  iso_escape_start_handler_def iso_escape_handler_def

end
