(* ===== verification/Cjk_Decode_Props.thy ===== *)
theory Cjk_Decode_Props
  imports Cjk_Decode
begin

text \<open>
  The decoders always return: the interface \<open>decoder\<close> says what a handler promises the driver
  (it raises nothing, it emits scalar values only, and each step that does not finish decreases a
  weight of the unread bytes and of the bytes its state holds), the driver's result is proved
  once from it, and every handler of the code interprets it.
\<close>

section \<open>Tables\<close>

definition indexes_of :: "tables \<Rightarrow> indexes" where
  "indexes_of t = \<lparr> ix_jis0208 = JIS0208 t, ix_jis0212 = JIS0212 t, ix_kata = KATA t,
     ix_euckr = EUCKR t, ix_gb = GB t, ix_gbr = GBR t, ix_big5 = BIG5 t \<rparr>"

text \<open>The globals are those the module computes from indexes of the published shape.\<close>

definition tables_wf :: "tables \<Rightarrow> bool" where
  "tables_wf t \<longleftrightarrow> init_tables (indexes_of t) = Inr t \<and> indexes_wf (indexes_of t)"

lemma dict_wf_lookup:
  "dict_wf n d \<Longrightarrow> map_of d p = Some c \<Longrightarrow> 0 \<le> p \<and> p < n \<and> 0x80 < c \<and> is_scalar c"
  by (auto simp: dict_wf_def list_all_iff dest!: map_of_SomeD)

lemma tables_wf_dicts:
  assumes "tables_wf t"
  shows "dict_wf 11280 (JIS0208 t)" "dict_wf 8836 (JIS0212 t)" "dict_wf 23940 (EUCKR t)"
    "dict_wf 23940 (GB t)" "dict_wf 19782 (BIG5 t)"
  using assms by (simp_all add: tables_wf_def indexes_wf_def indexes_of_def)

lemma tables_wf_gbr:
  assumes "tables_wf t"
  shows "GBR_PTRS t = sort (map fst (GBR t))" "GBR_CPS t = sort (map (\<lambda>(p, c). (c, p)) (GBR t))"
    "distinct (map fst (GBR t))" "map_of (GBR t) 0 = Some 0x80" "gbr_chain (sort_key fst (GBR t))"
proof -
  from assms obtain b where "init_tables (indexes_of t) = Inr t" "big5_ptr (BIG5 t) = Inr b"
    by (auto simp: tables_wf_def init_tables_def indexes_of_def rbind_eq_Inr_iff)
  then have t: "t = (case init_tables (indexes_of t) of Inr t' \<Rightarrow> t' | Inl _ \<Rightarrow> t)"
    and b: "big5_ptr (BIG5 t) = Inr b" by simp_all
  show "GBR_PTRS t = sort (map fst (GBR t))" "GBR_CPS t = sort (map (\<lambda>(p, c). (c, p)) (GBR t))"
    using b by (subst (1) t, simp add: init_tables_def indexes_of_def)+
  show "distinct (map fst (GBR t))" "map_of (GBR t) 0 = Some 0x80" "gbr_chain (sort_key fst (GBR t))"
    using assms by (simp_all add: tables_wf_def indexes_wf_def indexes_of_def)
qed

lemmas dict_scalar = dict_wf_lookup [OF tables_wf_dicts(1)] dict_wf_lookup [OF tables_wf_dicts(2)]
  dict_wf_lookup [OF tables_wf_dicts(3)] dict_wf_lookup [OF tables_wf_dicts(4)]
  dict_wf_lookup [OF tables_wf_dicts(5)]

lemma gb_ranges_cp_ok:
  assumes "tables_wf t" "0 \<le> pointer"
  shows "\<exists>r. gb_ranges_cp t pointer = Inr r \<and> (\<forall>c. r = Some c \<longrightarrow> is_scalar c \<and> 0x80 \<le> c)"
proof -
  note g = tables_wf_gbr [OF assms(1)]
  have in_set: "\<And>p c. (p, c) \<in> set (GBR t) \<longleftrightarrow> map_of (GBR t) p = Some c"
    using g(3) by simp
  have zero: "0 \<in> set (filter (\<lambda>p. p \<le> pointer) (GBR_PTRS t))"
    using g(1,4) assms(2) by (auto dest: map_of_SomeD intro: rev_image_eqI)
  then obtain off where off: "py_max (filter (\<lambda>p. p \<le> pointer) (GBR_PTRS t)) = Inr off"
    by (cases "filter (\<lambda>p. p \<le> pointer) (GBR_PTRS t)") (simp_all add: py_max_def)
  then have mx: "off \<in> set (GBR_PTRS t)" "off \<le> pointer" "\<forall>q \<in> set (GBR_PTRS t). q \<le> pointer \<longrightarrow> q \<le> off"
    by (auto simp: py_max_Inr)
  then obtain c where c: "map_of (GBR t) off = Some c"
    using g(1,3) by auto
  have "0x80 \<le> c + pointer - off \<and> is_scalar (c + pointer - off)"
    if "pointer \<le> 39419 \<or> 189000 \<le> pointer \<and> pointer \<le> 1237575"
  proof (rule gbr_chain_scalar [OF g(5)])
    show "(off, c) \<in> set (sort_key fst (GBR t))" using c in_set by simp
    show "q \<le> off" if "(q, d) \<in> set (sort_key fst (GBR t))" "q \<le> pointer" for q d
      using that mx(3) g(1) by force
  qed (use mx that in simp_all)
  moreover have "is_scalar 0xE7C7" by (simp add: is_scalar_def)
  ultimately show ?thesis
    using off c unfolding gb_ranges_cp_def by (simp add: not_less)
qed

section \<open>Output\<close>

definition utf8 :: "int \<Rightarrow> bytes" where
  "utf8 c = (case cp_utf8 c of Inl _ \<Rightarrow> [] | Inr b \<Rightarrow> b)"

lemma cp_utf8_scalar: "is_scalar c \<Longrightarrow> cp_utf8 c = Inr (utf8 c)"
  by (simp add: utf8_def cp_utf8_def is_scalar_def)

lemma is_bytes_utf8: "is_bytes (utf8 c)"
  by (auto simp: utf8_def cp_utf8_def is_byte_def)

lemma emit_cps_scalars: "list_all is_scalar cps \<Longrightarrow> emit_cps out cps = Inr (out @ concat (map utf8 cps))"
  by (induction cps arbitrary: out) (auto simp: cp_utf8_scalar, auto simp: is_scalar_def)

text \<open>One unfolding of the driver, on an unread byte and at the end of the queue.\<close>

definition resume :: "'st handler \<Rightarrow> bytes \<Rightarrow> 'st step \<Rightarrow> bytes result option" where
  "resume h out r = (case r of Inl e \<Rightarrow> Some (Inl e)
     | Inr (st', q', rsp) \<Rightarrow> (case rsp of
          Finished \<Rightarrow> Some (Inr out)
        | Error \<Rightarrow> decode_loop h st' q' (out @ fffd_utf8)
        | Continue \<Rightarrow> decode_loop h st' q' out
        | Emit cps \<Rightarrow> (case emit_cps out cps of Inl e \<Rightarrow> Some (Inl e)
             | Inr out' \<Rightarrow> decode_loop h st' q' out')))"

lemma decode_loop_Cons: "decode_loop h st (b # q) out = resume h out (h st q (Some b))"
  by (subst decode_loop.simps) (simp add: next_item_def resume_def)

lemma decode_loop_Nil: "decode_loop h st [] out = resume h out (h st [] None)"
  by (subst decode_loop.simps) (simp add: next_item_def resume_def)

lemma resume_simps [simp]:
  "resume h out (Inl e) = Some (Inl e)"
  "resume h out (Inr (st', q', Finished)) = Some (Inr out)"
  "resume h out (Inr (st', q', Error)) = decode_loop h st' q' (out @ fffd_utf8)"
  "resume h out (Inr (st', q', Continue)) = decode_loop h st' q' out"
  "list_all is_scalar cps \<Longrightarrow>
     resume h out (Inr (st', q', Emit cps)) = decode_loop h st' q' (out @ concat (map utf8 cps))"
  by (simp_all add: resume_def emit_cps_scalars)

section \<open>The interface between a handler and the driver\<close>

definition item_ok :: "int list \<Rightarrow> int option \<Rightarrow> bool" where
  "item_ok q item = (case item of None \<Rightarrow> q = [] | Some b \<Rightarrow> is_byte b)"

definition item_weight :: "int option \<Rightarrow> nat" where
  "item_weight item = (case item of None \<Rightarrow> 0 | Some b \<Rightarrow> 4)"

definition resp_scalar :: "resp \<Rightarrow> bool" where
  "resp_scalar r = (case r of Emit cps \<Rightarrow> list_all is_scalar cps | _ \<Rightarrow> True)"

definition step_ok :: "('st \<Rightarrow> bool) \<Rightarrow> ('st \<Rightarrow> nat) \<Rightarrow> 'st \<Rightarrow> int list \<Rightarrow> int option \<Rightarrow> 'st step \<Rightarrow> bool" where
  "step_ok ok held st q item r = (case r of Inl e \<Rightarrow> False
     | Inr (st', q', rsp) \<Rightarrow> resp_scalar rsp \<and>
         (rsp = Finished \<or> ok st' \<and> is_bytes q' \<and>
            4 * length q' + 3 * held st' < 4 * length q + item_weight item + 3 * held st))"

locale decoder =
  fixes h :: "'st handler" and ok :: "'st \<Rightarrow> bool" and held :: "'st \<Rightarrow> nat"
  assumes step: "ok st \<Longrightarrow> is_bytes q \<Longrightarrow> item_ok q item \<Longrightarrow> step_ok ok held st q item (h st q item)"
begin

lemma returns:
  "ok st \<Longrightarrow> is_bytes q \<Longrightarrow>
     \<exists>cps. decode_loop h st q out = Some (Inr (out @ concat (map utf8 cps))) \<and> list_all is_scalar cps"
proof (induction "4 * length q + 3 * held st" arbitrary: st q out rule: less_induct)
  case less
  obtain item q1 where it: "decode_loop h st q out = resume h out (h st q1 item)"
    "item_ok q1 item" "is_bytes q1" "4 * length q = 4 * length q1 + item_weight item"
    using less.prems by (cases q) (auto simp: decode_loop_Cons decode_loop_Nil item_ok_def item_weight_def)
  obtain st' q' rsp where s: "h st q1 item = Inr (st', q', rsp)" "resp_scalar rsp"
    "rsp = Finished \<or> ok st' \<and> is_bytes q' \<and>
       4 * length q' + 3 * held st' < 4 * length q + 3 * held st"
    using step [OF less.prems(1) it(3,2)] it(4) by (auto simp: step_ok_def split: sum.splits)
  have IH: "\<exists>cps. decode_loop h st' q' (out @ concat (map utf8 xs)) = Some (Inr (out @ concat (map utf8 cps))) \<and>
      list_all is_scalar cps"
    if nf: "rsp \<noteq> Finished" and xs: "list_all is_scalar xs" for xs
  proof -
    obtain cps where "decode_loop h st' q' (out @ concat (map utf8 xs)) =
        Some (Inr ((out @ concat (map utf8 xs)) @ concat (map utf8 cps)))" "list_all is_scalar cps"
      using less.hyps [of q' st' "out @ concat (map utf8 xs)"] s(3) nf by auto
    with xs show ?thesis by (intro exI [of _ "xs @ cps"]) simp
  qed
  show ?case
  proof (cases rsp)
    case (Emit cps)
    with IH [of cps] it(1) s show ?thesis by (simp add: resp_scalar_def)
  next
    case Error
    have "is_scalar 0xFFFD" "fffd_utf8 = utf8 0xFFFD" by (simp_all add: is_scalar_def utf8_def cp_utf8_def fffd_utf8_def)
    with IH [of "[0xFFFD]"] Error it(1) s show ?thesis by simp
  next
    case Continue
    with IH [of "[]"] it(1) s show ?thesis by simp
  next
    case Finished
    with it(1) s show ?thesis by (intro exI [of _ "[]"]) simp
  qed
qed

end

section \<open>Every handler of the code meets it\<close>

definition held1 :: "int \<Rightarrow> nat" where
  "held1 leading = (if leading = 0 then 0 else 1)"

lemma scalar_ascii [simp]: "is_byte b \<Longrightarrow> is_scalar b"
  by (simp add: is_scalar_def is_byte_def)

lemma resp_scalar_simps [simp]:
  "resp_scalar Finished" "resp_scalar Error" "resp_scalar Continue"
  "resp_scalar (Emit cps) \<longleftrightarrow> list_all is_scalar cps"
  by (simp_all add: resp_scalar_def)

lemmas decoder_step_simps = step_ok_def item_ok_def item_weight_def held1_def Let_def

interpretation kr: decoder "euc_kr_handler t" "\<lambda>_. tables_wf t" held1 for t
  by unfold_locales
     (auto simp: euc_kr_handler_def decoder_step_simps bind_eq_Some_conv is_byte_def
        split: option.splits dest: dict_scalar)

lemma big5_special_scalar: "big5_special p = Some cps \<Longrightarrow> list_all is_scalar cps"
  by (auto simp: big5_special_def is_scalar_def split: if_splits)

interpretation b5: decoder "big5_handler t" "\<lambda>_. tables_wf t" held1 for t
  by unfold_locales
     (auto simp: big5_handler_def decoder_step_simps bind_eq_Some_conv is_byte_def
        split: option.splits dest: dict_scalar big5_special_scalar)

lemma half_width_scalar: "is_byte b \<Longrightarrow> is_scalar (0xFF61 - 0xA1 + b) \<and> is_scalar (0xFF61 - 0x21 + b)"
  by (simp add: is_scalar_def is_byte_def)

lemma eudc_scalar: "in_range p 8836 10715 \<Longrightarrow> is_scalar (0xE000 - 8836 + the p)"
  by (auto simp: in_range_def is_scalar_def split: option.splits)

interpretation sj: decoder "shift_jis_handler t" "\<lambda>_. tables_wf t" held1 for t
proof unfold_locales
  fix leading q item
  assume *: "tables_wf t" "is_bytes q" "item_ok q item"
  show "step_ok (\<lambda>_. tables_wf t) held1 leading q item (shift_jis_handler t leading q item)"
  proof (cases item)
    case None
    with * show ?thesis by (simp add: shift_jis_handler_def decoder_step_simps)
  next
    case (Some b)
    with * have b: "is_byte b" by (simp add: item_ok_def)
    have sc: "is_scalar c" if "Option.bind (sjis_pointer leading b) (map_of (JIS0208 t)) = Some c" for c
      using that dict_scalar(1) [OF *(1)] by (auto simp: bind_eq_Some_conv)
    from * b Some half_width_scalar [OF b] eudc_scalar [of "sjis_pointer leading b"] sc show ?thesis
      by (cases "leading = 0")
         (simp_all add: shift_jis_handler_def step_ok_def item_weight_def held1_def Let_def split: option.split)
  qed
qed

lemma euc_jp_lookup_scalar: "tables_wf t \<Longrightarrow> euc_jp_lookup t j l b = Some c \<Longrightarrow> is_scalar c"
  by (auto simp: euc_jp_lookup_def split: if_splits dest: dict_scalar)

interpretation ej: decoder "euc_jp_handler t" "\<lambda>_. tables_wf t" "\<lambda>st. held1 (ej_leading st)" for t
proof unfold_locales
  fix st q item
  assume *: "tables_wf t" "is_bytes q" "item_ok q item"
  show "step_ok (\<lambda>_. tables_wf t) (\<lambda>st. held1 (ej_leading st)) st q item (euc_jp_handler t st q item)"
  proof (cases item)
    case None
    with * show ?thesis by (simp add: euc_jp_handler_def decoder_step_simps)
  next
    case (Some b)
    with * have b: "is_byte b" by (simp add: item_ok_def)
    show ?thesis
    proof (cases "ej_leading st = 0")
      case True
      with * b Some show ?thesis
        by (simp add: euc_jp_handler_def step_ok_def item_weight_def held1_def)
    next
      case False
      with * b Some half_width_scalar [OF b] euc_jp_lookup_scalar [OF *(1)] show ?thesis
        by (cases "euc_jp_lookup t (ej_jis0212 st) (ej_leading st) b")
           (auto simp: euc_jp_handler_def step_ok_def item_weight_def held1_def eucjp_init_def Let_def)
    qed
  qed
qed

definition gb_inv :: "gb_state \<Rightarrow> bool" where
  "gb_inv st \<longleftrightarrow>
     (gb_first st = 0 \<or> 0x81 \<le> gb_first st \<and> gb_first st \<le> 0xFE) \<and>
     (gb_second st = 0 \<or> 0x30 \<le> gb_second st \<and> gb_second st \<le> 0x39 \<and> gb_first st \<noteq> 0) \<and>
     (gb_third st = 0 \<or> 0x81 \<le> gb_third st \<and> gb_third st \<le> 0xFE \<and> gb_second st \<noteq> 0)"

definition held_gb :: "gb_state \<Rightarrow> nat" where
  "held_gb st = held1 (gb_first st) + held1 (gb_second st) + held1 (gb_third st)"

lemma gb18030_third_step:
  assumes "tables_wf t" "gb_inv st" "gb_third st \<noteq> 0" "is_bytes q" "is_byte b"
  shows "step_ok (\<lambda>st. tables_wf t \<and> gb_inv st) held_gb st q (Some b) (gb18030_handler t st q (Some b))"
proof (cases "0x30 \<le> b \<and> b \<le> 0x39")
  case True
  let ?p = "(gb_first st - 0x81) * (10 * 126 * 10) + (gb_second st - 0x30) * (10 * 126) + (gb_third st - 0x81) * 10 + b - 0x30"
  have "0x81 \<le> gb_first st" "0x30 \<le> gb_second st" "0x81 \<le> gb_third st"
    using assms(2,3) by (auto simp: gb_inv_def)
  then have "0 \<le> ?p" using True by simp
  then obtain r where r: "gb_ranges_cp t ?p = Inr r" "\<forall>c. r = Some c \<longrightarrow> is_scalar c"
    using gb_ranges_cp_ok [OF assms(1)] by blast
  have "gb18030_handler t st q (Some b) =
      (case r of None \<Rightarrow> Inr (gb_init, q, Error) | Some c \<Rightarrow> Inr (gb_init, q, Emit [c]))"
    unfolding gb18030_handler_def option.case using assms(3) True
    by (simp only: if_True if_False not_True_eq_False not_False_eq_True simp_thms r(1) rbind_simps)
  with r(2) assms(1,4) show ?thesis
    by (cases r) (simp_all add: step_ok_def item_weight_def held_gb_def gb_inv_def gb_init_def held1_def)
next
  case False
  then show ?thesis using assms
    by (auto simp: gb18030_handler_def decoder_step_simps held_gb_def gb_inv_def gb_init_def is_byte_def)
qed

lemma gb_two_byte_scalar: "tables_wf t \<Longrightarrow> gb_two_byte t l b = Some c \<Longrightarrow> is_scalar c"
  by (auto simp: gb_two_byte_def Let_def bind_eq_Some_conv split: if_splits dest: dict_scalar)

lemma gb18030_other_step:
  assumes "tables_wf t" "gb_inv st" "gb_third st = 0" "is_bytes q" "is_byte b"
  shows "step_ok (\<lambda>st. tables_wf t \<and> gb_inv st) held_gb st q (Some b) (gb18030_handler t st q (Some b))"
proof (cases "gb_second st = 0")
  case True
  moreover have "is_scalar 0x20AC" by (simp add: is_scalar_def)
  ultimately show ?thesis
    using assms gb_two_byte_scalar [OF assms(1)]
    by (auto simp: gb18030_handler_def step_ok_def item_weight_def held_gb_def held1_def gb_inv_def
        split: option.split)
next
  case False
  with assms show ?thesis
    by (auto simp: gb18030_handler_def step_ok_def item_weight_def held_gb_def held1_def gb_inv_def is_byte_def)
qed

interpretation gb: decoder "gb18030_handler t" "\<lambda>st. tables_wf t \<and> gb_inv st" held_gb for t
proof unfold_locales
  fix st q item
  assume *: "tables_wf t \<and> gb_inv st" "is_bytes q" "item_ok q item"
  show "step_ok (\<lambda>st. tables_wf t \<and> gb_inv st) held_gb st q item (gb18030_handler t st q item)"
  proof (cases item)
    case None
    with * show ?thesis
      by (auto simp: gb18030_handler_def decoder_step_simps held_gb_def gb_inv_def gb_init_def)
  next
    case (Some b)
    with * gb18030_third_step gb18030_other_step show ?thesis
      by (cases "gb_third st = 0") (auto simp: item_ok_def)
  qed
qed

definition iso_inv :: "iso_state \<Rightarrow> bool" where
  "iso_inv st \<longleftrightarrow> iso_output_state st \<in> {Ascii, Roman, Katakana, Leading} \<and>
     (iso_mode st = Escape \<longrightarrow> is_byte (iso_leading st))"

definition held_iso :: "iso_state \<Rightarrow> nat" where
  "held_iso st = (case iso_mode st of Escape \<Rightarrow> 2 | EscapeStart \<Rightarrow> 1 | Trailing \<Rightarrow> 1 | _ \<Rightarrow> 0)"

lemma iso_text_step:
  assumes "iso_inv st" "iso_mode st \<in> {Ascii, Roman, Katakana, Leading}" "is_bytes q" "item_ok q item"
  shows "step_ok iso_inv held_iso st q item (iso_text_handler st q item)"
proof (cases item)
  case None
  then show ?thesis by (simp add: iso_text_handler_def step_ok_def)
next
  case (Some b)
  with assms have b: "is_byte b" by (simp add: item_ok_def)
  then have "is_scalar 0xA5" "is_scalar 0x203E" by (simp_all add: is_scalar_def)
  with assms(1-3) b half_width_scalar [OF b] Some show ?thesis
    by (cases "iso_mode st")
       (simp_all add: iso_text_handler_def step_ok_def item_weight_def held_iso_def iso_inv_def Let_def)
qed

lemma iso_trailing_step:
  assumes "tables_wf t" "iso_inv st" "iso_mode st = Trailing" "is_bytes q"
  shows "step_ok iso_inv held_iso st q item (iso_trailing_handler t st q item)"
  using assms(2-4) dict_scalar(1) [OF assms(1)]
  by (cases item)
     (simp_all add: iso_trailing_handler_def step_ok_def item_weight_def held_iso_def iso_inv_def Let_def
        split: option.split)

lemma held_iso_text: "s \<in> {Ascii, Roman, Katakana, Leading} \<Longrightarrow> iso_mode st = s \<Longrightarrow> held_iso st = 0"
  by (auto simp: held_iso_def)

lemma iso_escape_start_step:
  assumes "iso_inv st" "iso_mode st = EscapeStart" "is_bytes q" "item_ok q item"
  shows "step_ok iso_inv held_iso st q item (iso_escape_start_handler st q item)"
proof -
  have "held_iso (st\<lparr>iso_output := False, iso_mode := iso_output_state st\<rparr>) = 0" "held_iso st = 1"
    using assms(1,2) by (auto simp: iso_inv_def held_iso_def)
  with assms show ?thesis
    by (cases item)
       (auto simp: iso_escape_start_handler_def step_ok_def item_weight_def item_ok_def iso_inv_def
          is_byte_def held_iso_def)
qed

lemma iso_escape_step:
  assumes "iso_inv st" "iso_mode st = Escape" "is_bytes q" "item_ok q item"
  shows "step_ok iso_inv held_iso st q item (iso_escape_handler st q item)"
proof (cases "iso_escape_target (iso_leading st) item")
  case None
  have h: "held_iso (st\<lparr>iso_leading := 0, iso_output := False, iso_mode := iso_output_state st\<rparr>) = 0"
    "held_iso st = 2" "iso_inv (st\<lparr>iso_leading := 0, iso_output := False, iso_mode := iso_output_state st\<rparr>)"
    "is_byte (iso_leading st)"
    using assms(1,2) by (auto simp: iso_inv_def held_iso_def)
  with None assms(3,4) show ?thesis
    by (cases item) (simp_all add: iso_escape_handler_def step_ok_def item_weight_def item_ok_def Let_def)
next
  case (Some s)
  then have s: "s \<in> {Ascii, Roman, Katakana, Leading}" and i: "item \<noteq> None"
    by (auto simp: iso_escape_target_def split: if_splits)
  then have "held_iso (st\<lparr>iso_leading := 0, iso_mode := s, iso_output_state := s, iso_output := True\<rparr>) = 0"
    "iso_inv (st\<lparr>iso_leading := 0, iso_mode := s, iso_output_state := s, iso_output := True\<rparr>)"
    by (auto simp: iso_inv_def held_iso_def)
  with Some i assms(3) show ?thesis
    by (auto simp: iso_escape_handler_def step_ok_def item_weight_def Let_def)
qed

interpretation iso: decoder "iso_2022_jp_handler t" "\<lambda>st. tables_wf t \<and> iso_inv st" held_iso for t
proof unfold_locales
  fix st q item
  assume *: "tables_wf t \<and> iso_inv st" "is_bytes q" "item_ok q item"
  have "step_ok iso_inv held_iso st q item (iso_2022_jp_handler t st q item)"
    using * iso_text_step iso_trailing_step iso_escape_start_step iso_escape_step
    by (cases "iso_mode st") (simp_all add: iso_2022_jp_handler_def)
  with * show "step_ok (\<lambda>st. tables_wf t \<and> iso_inv st) held_iso st q item (iso_2022_jp_handler t st q item)"
    by (simp add: step_ok_def split: sum.splits prod.splits)
qed

section \<open>Decoding always returns\<close>

lemma decode_total:
  assumes "tables_wf t" "is_bytes data"
  shows "\<exists>cps. decode t enc data = Some (Inr (concat (map utf8 cps))) \<and> list_all is_scalar cps"
proof -
  have "gb_inv gb_init" "iso_inv iso_init"
    by (simp_all add: gb_inv_def gb_init_def iso_inv_def iso_init_def)
  then show ?thesis
    using assms sj.returns [of t data 0 "[]"] ej.returns [of t data eucjp_init "[]"]
      iso.returns [of t iso_init data "[]"] kr.returns [of t data 0 "[]"]
      gb.returns [of t gb_init data "[]"] b5.returns [of t data 0 "[]"]
    by (cases enc) (simp_all add: decode_def)
qed

end
