(* ===== verification/Cjk_Encode.thy ===== *)
theory Cjk_Encode
  imports Cjk_Decode_Props
begin

text \<open>
  The encoders of \<open>std_ref.py\<close> and their driver \<open>encode\<close>.  A handler reads one code point (or
  the end of the queue) and answers with bytes, an error carrying the code point to report, or
  "finished"; \<open>Iso2022JpEncoder\<close> also changes state and puts the code point back.
\<close>

datatype eresp = EFinished | EBytes bytes | EError int

type_synonym 'st estep = "('st \<times> int list \<times> eresp) result"
type_synonym 'st ehandler = "'st \<Rightarrow> int list \<Rightarrow> int option \<Rightarrow> 'st estep"

datatype emode = fatal | html

section \<open>The driver\<close>

definition ncr :: "int \<Rightarrow> bytes" where
  "ncr cp = [38, 35] @ map of_char (show_int cp) @ [59]"

partial_function (option) encode_loop ::
  "'st ehandler \<Rightarrow> 'st \<Rightarrow> int list \<Rightarrow> bytes \<Rightarrow> emode \<Rightarrow> bytes option result option" where
  "encode_loop h st q out mode =
     (case next_item q of (item, q1) \<Rightarrow>
       (case h st q1 item of
          Inl e \<Rightarrow> Some (Inl e)
        | Inr r \<Rightarrow> (case r of (st', q', rsp) \<Rightarrow>
            (case rsp of
               EFinished \<Rightarrow> Some (Inr (Some out))
             | EError cp \<Rightarrow> if mode = fatal then Some (Inr None)
                           else encode_loop h st' q' (out @ ncr cp) mode
             | EBytes bs \<Rightarrow> encode_loop h st' q' (out @ bs) mode))))"

declare encode_loop.simps [code]

section \<open>Encoders without state\<close>

definition answer_bytes :: "'st \<Rightarrow> int list \<Rightarrow> int list \<Rightarrow> 'st estep" where
  "answer_bytes st q xs = rbind (mk_bytes xs) (\<lambda>bs. Inr (st, q, EBytes bs))"

definition gb_side :: "int \<Rightarrow> bytes option" where
  "gb_side = map_of
    [(0xE78D, [0xA6, 0xD9]), (0xE78E, [0xA6, 0xDA]), (0xE78F, [0xA6, 0xDB]), (0xE790, [0xA6, 0xDC]),
     (0xE791, [0xA6, 0xDD]), (0xE792, [0xA6, 0xDE]), (0xE793, [0xA6, 0xDF]), (0xE794, [0xA6, 0xEC]),
     (0xE795, [0xA6, 0xED]), (0xE796, [0xA6, 0xF3]), (0xE81E, [0xFE, 0x59]), (0xE826, [0xFE, 0x61]),
     (0xE82B, [0xFE, 0x66]), (0xE82C, [0xFE, 0x67]), (0xE832, [0xFE, 0x6D]), (0xE843, [0xFE, 0x7E]),
     (0xE854, [0xFE, 0x90]), (0xE864, [0xFE, 0xA0])]"

definition gb_four_bytes :: "int \<Rightarrow> int list" where
  "gb_four_bytes pointer =
     (let b1 = pointer div (10 * 126 * 10); p1 = pointer mod (10 * 126 * 10);
          b2 = p1 div (10 * 126); p2 = p1 mod (10 * 126);
          b3 = p2 div 10; b4 = p2 mod 10
      in [b1 + 0x81, b2 + 0x30, b3 + 0x81, b4 + 0x30])"

definition gb_two_bytes :: "int \<Rightarrow> int list" where
  "gb_two_bytes pointer =
     (let leading = pointer div 190 + 0x81; trailing = pointer mod 190;
          offset = (if trailing < 0x3F then 0x40 else 0x41)
      in [leading, trailing + offset])"

text \<open>The state of \<open>Gb18030Encoder\<close> is the constant \<open>is_gbk\<close>.\<close>

definition gb18030_ehandler :: "tables \<Rightarrow> bool ehandler" where
  "gb18030_ehandler t is_gbk q item =
     (case item of
        None \<Rightarrow> Inr (is_gbk, q, EFinished)
      | Some cp \<Rightarrow>
          if cp < 0x80 then answer_bytes is_gbk q [cp]
          else if cp = 0xE5E5 then Inr (is_gbk, q, EError cp)
          else if is_gbk \<and> cp = 0x20AC then answer_bytes is_gbk q [0x80]
          else (case gb_side cp of
              Some bs \<Rightarrow> answer_bytes is_gbk q bs
            | None \<Rightarrow> (case map_of (GB_PTR t) cp of
                Some pointer \<Rightarrow> answer_bytes is_gbk q (gb_two_bytes pointer)
              | None \<Rightarrow> if is_gbk then Inr (is_gbk, q, EError cp)
                  else rbind (gb_ranges_pointer t cp) (\<lambda>pointer. answer_bytes is_gbk q (gb_four_bytes pointer)))))"

definition big5_two_bytes :: "int \<Rightarrow> int list" where
  "big5_two_bytes pointer =
     (let leading = pointer div 157 + 0x81; trailing = pointer mod 157;
          offset = (if trailing < 0x3F then 0x40 else 0x62)
      in [leading, trailing + offset])"

definition big5_ehandler :: "tables \<Rightarrow> unit ehandler" where
  "big5_ehandler t st q item =
     (case item of
        None \<Rightarrow> Inr (st, q, EFinished)
      | Some cp \<Rightarrow>
          if cp < 0x80 then answer_bytes st q [cp]
          else (case map_of (BIG5_PTR t) cp of
              None \<Rightarrow> Inr (st, q, EError cp)
            | Some pointer \<Rightarrow> answer_bytes st q (big5_two_bytes pointer)))"

definition euc_jp_ehandler :: "tables \<Rightarrow> unit ehandler" where
  "euc_jp_ehandler t st q item =
     (case item of
        None \<Rightarrow> Inr (st, q, EFinished)
      | Some cp \<Rightarrow>
          if cp < 0x80 then answer_bytes st q [cp]
          else if cp = 0xA5 then answer_bytes st q [0x5C]
          else if cp = 0x203E then answer_bytes st q [0x7E]
          else if 0xFF61 \<le> cp \<and> cp \<le> 0xFF9F then answer_bytes st q [0x8E, cp - 0xFF61 + 0xA1]
          else (let cp = (if cp = 0x2212 then 0xFF0D else cp) in
            case map_of (JIS0208_PTR t) cp of
              None \<Rightarrow> Inr (st, q, EError cp)
            | Some pointer \<Rightarrow> answer_bytes st q [pointer div 94 + 0xA1, pointer mod 94 + 0xA1]))"

definition sjis_two_bytes :: "int \<Rightarrow> int list" where
  "sjis_two_bytes pointer =
     (let leading = pointer div 188;
          leading_offset = (if leading < 0x1F then 0x81 else 0xC1);
          trailing = pointer mod 188;
          offset = (if trailing < 0x3F then 0x40 else 0x41)
      in [leading + leading_offset, trailing + offset])"

definition shift_jis_ehandler :: "tables \<Rightarrow> unit ehandler" where
  "shift_jis_ehandler t st q item =
     (case item of
        None \<Rightarrow> Inr (st, q, EFinished)
      | Some cp \<Rightarrow>
          if cp < 0x80 \<or> cp = 0x80 then answer_bytes st q [cp]
          else if cp = 0xA5 then answer_bytes st q [0x5C]
          else if cp = 0x203E then answer_bytes st q [0x7E]
          else if 0xFF61 \<le> cp \<and> cp \<le> 0xFF9F then answer_bytes st q [cp - 0xFF61 + 0xA1]
          else (let cp = (if cp = 0x2212 then 0xFF0D else cp) in
            case map_of (SJIS_PTR t) cp of
              None \<Rightarrow> Inr (st, q, EError cp)
            | Some pointer \<Rightarrow> answer_bytes st q (sjis_two_bytes pointer)))"

definition euc_kr_ehandler :: "tables \<Rightarrow> unit ehandler" where
  "euc_kr_ehandler t st q item =
     (case item of
        None \<Rightarrow> Inr (st, q, EFinished)
      | Some cp \<Rightarrow>
          if cp < 0x80 then answer_bytes st q [cp]
          else (case map_of (EUCKR_PTR t) cp of
              None \<Rightarrow> Inr (st, q, EError cp)
            | Some pointer \<Rightarrow> answer_bytes st q [pointer div 190 + 0x81, pointer mod 190 + 0x41]))"

section \<open>ISO-2022-JP\<close>

datatype iso_emode = EAscii | ERoman | EJis0208

definition iso_map :: "tables \<Rightarrow> int \<Rightarrow> int result" where
  "iso_map t cp =
     (let cp = (if cp = 0x2212 then 0xFF0D else cp)
      in if 0xFF61 \<le> cp \<and> cp \<le> 0xFF9F
         then (case map_of (KATA t) (cp - 0xFF61) of None \<Rightarrow> Inl KeyError | Some c \<Rightarrow> Inr c)
         else Inr cp)"

definition iso_ehandler :: "tables \<Rightarrow> iso_emode ehandler" where
  "iso_ehandler t s q item =
     (case item of
        None \<Rightarrow> if s \<noteq> EAscii then Inr (EAscii, q, EBytes [0x1B, 0x28, 0x42]) else Inr (s, q, EFinished)
      | Some cp \<Rightarrow>
          if (s = EAscii \<or> s = ERoman) \<and> (cp = 0x0E \<or> cp = 0x0F \<or> cp = 0x1B) then Inr (s, q, EError 0xFFFD)
          else if s = EAscii \<and> cp < 0x80 then answer_bytes s q [cp]
          else if s = ERoman \<and> ((cp < 0x80 \<and> cp \<noteq> 0x5C \<and> cp \<noteq> 0x7E) \<or> cp = 0xA5 \<or> cp = 0x203E)
          then (if cp < 0x80 then answer_bytes s q [cp]
                else if cp = 0xA5 then answer_bytes s q [0x5C] else answer_bytes s q [0x7E])
          else if cp < 0x80 \<and> s \<noteq> EAscii then Inr (EAscii, cp # q, EBytes [0x1B, 0x28, 0x42])
          else if (cp = 0xA5 \<or> cp = 0x203E) \<and> s \<noteq> ERoman then Inr (ERoman, cp # q, EBytes [0x1B, 0x28, 0x4A])
          else rbind (iso_map t cp)
             (\<lambda>cp. case map_of (JIS0208_PTR t) cp of
                None \<Rightarrow> if s = EJis0208 then Inr (EAscii, cp # q, EBytes [0x1B, 0x28, 0x42])
                        else Inr (s, q, EError cp)
              | Some pointer \<Rightarrow>
                  if s \<noteq> EJis0208 then Inr (EJis0208, cp # q, EBytes [0x1B, 0x24, 0x42])
                  else answer_bytes s q [pointer div 94 + 0x21, pointer mod 94 + 0x21]))"

section \<open>Dispatch\<close>

definition encode :: "tables \<Rightarrow> encoding \<Rightarrow> int list \<Rightarrow> emode \<Rightarrow> bytes option result option" where
  "encode t enc cps mode =
     (case enc of
        shift_jis \<Rightarrow> encode_loop (shift_jis_ehandler t) () cps [] mode
      | euc_jp \<Rightarrow> encode_loop (euc_jp_ehandler t) () cps [] mode
      | iso_2022_jp \<Rightarrow> encode_loop (iso_ehandler t) EAscii cps [] mode
      | euc_kr \<Rightarrow> encode_loop (euc_kr_ehandler t) () cps [] mode
      | gb18030 \<Rightarrow> encode_loop (gb18030_ehandler t) False cps [] mode
      | gbk \<Rightarrow> encode_loop (gb18030_ehandler t) True cps [] mode
      | big5 \<Rightarrow> encode_loop (big5_ehandler t) () cps [] mode)"

section \<open>The interface between an encoder and the decoder that reads its bytes\<close>

definition eresume :: "'st ehandler \<Rightarrow> bytes \<Rightarrow> emode \<Rightarrow> 'st estep \<Rightarrow> bytes option result option" where
  "eresume h out mode r = (case r of Inl e \<Rightarrow> Some (Inl e)
     | Inr (st', q', rsp) \<Rightarrow> (case rsp of
          EFinished \<Rightarrow> Some (Inr (Some out))
        | EError cp \<Rightarrow> if mode = fatal then Some (Inr None) else encode_loop h st' q' (out @ ncr cp) mode
        | EBytes bs \<Rightarrow> encode_loop h st' q' (out @ bs) mode))"

lemma encode_loop_Cons: "encode_loop h st (c # q) out mode = eresume h out mode (h st q (Some c))"
  by (subst encode_loop.simps) (simp add: next_item_def eresume_def)

lemma encode_loop_Nil: "encode_loop h st [] out mode = eresume h out mode (h st [] None)"
  by (subst encode_loop.simps) (simp add: next_item_def eresume_def)

lemma eresume_fatal_Some:
  "eresume h out fatal r = Some (Inr (Some res)) \<longleftrightarrow>
     (\<exists>st' q' rsp. r = Inr (st', q', rsp) \<and>
        (rsp = EFinished \<and> res = out \<or>
         (\<exists>bs. rsp = EBytes bs \<and> encode_loop h st' q' (out @ bs) fatal = Some (Inr (Some res)))))"
  by (auto simp: eresume_def split: sum.splits eresp.splits)

text \<open>\<open>R es q ds\<close>: the decoder is in state \<open>ds\<close> where the encoder is in state \<open>es\<close> with \<open>q\<close>
  still to encode.  A step of the encoder either writes the bytes of one character, which the
  decoder reads as \<open>norm\<close> of it, or puts a character of the same \<open>norm\<close> back after writing bytes
  that make the decoder change state and emit nothing.\<close>

locale codec =
  fixes eh :: "'es ehandler" and dh :: "'ds handler" and R :: "'es \<Rightarrow> int list \<Rightarrow> 'ds \<Rightarrow> bool"
    and weight :: "'es \<Rightarrow> int list \<Rightarrow> nat" and norm :: "int \<Rightarrow> int"
  assumes char: "R es (c # q) ds \<Longrightarrow> eh es q (Some c) = Inr (es', q', EBytes bs) \<Longrightarrow>
      weight es' q' < weight es (c # q) \<and>
      (\<exists>ds'. R es' q' ds' \<and>
        (q' = q \<and> (\<forall>rest out. decode_loop dh ds (bs @ rest) out = decode_loop dh ds' rest (out @ utf8 (norm c))) \<or>
         (\<exists>c'. q' = c' # q \<and> norm c' = norm c \<and>
            (\<forall>rest out. decode_loop dh ds (bs @ rest) out = decode_loop dh ds' rest out))))"
    and no_early_finish: "eh es q (Some c) \<noteq> Inr (es', q', EFinished)"
    and finish: "R es [] ds \<Longrightarrow> eh es [] None = Inr (es', q', EFinished) \<Longrightarrow>
      decode_loop dh ds [] out = Some (Inr out)"
    and flush: "R es [] ds \<Longrightarrow> eh es [] None = Inr (es', q', EBytes bs) \<Longrightarrow>
      q' = [] \<and> weight es' [] < weight es [] \<and>
      (\<exists>ds'. R es' [] ds' \<and> (\<forall>rest out. decode_loop dh ds (bs @ rest) out = decode_loop dh ds' rest out))"
begin

lemma roundtrip_loop:
  "R es q ds \<Longrightarrow> encode_loop eh es q out fatal = Some (Inr (Some res)) \<Longrightarrow>
     \<exists>bs. res = out @ bs \<and>
       (\<forall>o'. decode_loop dh ds bs o' = Some (Inr (o' @ concat (map (\<lambda>c. utf8 (norm c)) q))))"
proof (induction "weight es q" arbitrary: es q ds out rule: less_induct)
  case less
  show ?case
  proof (cases q)
    case Nil
    from less.prems(2) obtain es' q' rsp where s: "eh es [] None = Inr (es', q', rsp)"
      "rsp = EFinished \<and> res = out \<or>
       (\<exists>bs. rsp = EBytes bs \<and> encode_loop eh es' q' (out @ bs) fatal = Some (Inr (Some res)))"
      by (auto simp: Nil encode_loop_Nil eresume_fatal_Some)
    show ?thesis
    proof (cases rsp)
      case EFinished
      with s less.prems(1) finish Nil show ?thesis by auto
    next
      case (EBytes bs)
      with s(2) have run: "encode_loop eh es' q' (out @ bs) fatal = Some (Inr (Some res))" by simp
      obtain ds' where f: "q' = []" "weight es' [] < weight es []" "R es' [] ds'"
        "\<And>rest out. decode_loop dh ds (bs @ rest) out = decode_loop dh ds' rest out"
        using flush [of es ds es' q' bs] less.prems(1) s(1) EBytes Nil by auto
      obtain bs' where "res = (out @ bs) @ bs'" "\<And>o'. decode_loop dh ds' bs' o' = Some (Inr o')"
        using less.hyps [of es' "[]" ds' "out @ bs"] f run Nil by auto
      with f(4) Nil show ?thesis by (intro exI [of _ "bs @ bs'"]) simp
    qed (use s(2) in simp)
  next
    case (Cons c q0)
    from less.prems(2) obtain es' q' rsp where s: "eh es q0 (Some c) = Inr (es', q', rsp)"
      "rsp = EFinished \<and> res = out \<or>
       (\<exists>bs. rsp = EBytes bs \<and> encode_loop eh es' q' (out @ bs) fatal = Some (Inr (Some res)))"
      by (auto simp: Cons encode_loop_Cons eresume_fatal_Some)
    with no_early_finish obtain bs where b: "rsp = EBytes bs"
      "encode_loop eh es' q' (out @ bs) fatal = Some (Inr (Some res))" by blast
    obtain ds' where f: "weight es' q' < weight es (c # q0)" "R es' q' ds'"
      "q' = q0 \<and> (\<forall>rest out. decode_loop dh ds (bs @ rest) out = decode_loop dh ds' rest (out @ utf8 (norm c))) \<or>
       (\<exists>c'. q' = c' # q0 \<and> norm c' = norm c \<and>
          (\<forall>rest out. decode_loop dh ds (bs @ rest) out = decode_loop dh ds' rest out))"
      using char [of es c q0 ds es' q' bs] less.prems(1) s(1) b(1) Cons by auto
    obtain bs' where r: "res = (out @ bs) @ bs'"
      "\<And>o'. decode_loop dh ds' bs' o' = Some (Inr (o' @ concat (map (\<lambda>c. utf8 (norm c)) q')))"
      using less.hyps [of es' q' ds' "out @ bs"] f(1,2) b(2) Cons by auto
    have "decode_loop dh ds (bs @ bs') o' = Some (Inr (o' @ concat (map (\<lambda>c. utf8 (norm c)) q)))" for o'
      using f(3) r(2) Cons by auto
    with r(1) show ?thesis by (intro exI [of _ "bs @ bs'"]) simp
  qed
qed

end

end
