(* ===== verification/Cjk_Roundtrip.thy ===== *)
theory Cjk_Roundtrip
  imports Cjk_Encode
begin

text \<open>
  Every encoder of the code together with its decoder interprets the \<open>codec\<close> interface, so that
  what \<open>encode\<close> writes in "fatal" mode \<open>decode\<close> reads back, up to the code points the Standard
  maps many-to-one (\<open>norm\<close>).
\<close>

section \<open>Facts on the tables\<close>

lemma tables_wf_ptrs:
  assumes "tables_wf t"
  shows "JIS0208_PTR t = first_pointer (JIS0208 t)" "SJIS_PTR t = first_pointer (sjis_index (JIS0208 t))"
    "EUCKR_PTR t = first_pointer (EUCKR t)" "GB_PTR t = first_pointer (GB t)"
    "big5_ptr (BIG5 t) = Inr (BIG5_PTR t)"
proof -
  from assms obtain b where "init_tables (indexes_of t) = Inr t" "big5_ptr (BIG5 t) = Inr b"
    by (auto simp: tables_wf_def init_tables_def indexes_of_def rbind_eq_Inr_iff)
  then have t: "t = (case init_tables (indexes_of t) of Inr t' \<Rightarrow> t' | Inl _ \<Rightarrow> t)"
    and b: "big5_ptr (BIG5 t) = Inr b" by simp_all
  show "JIS0208_PTR t = first_pointer (JIS0208 t)" "SJIS_PTR t = first_pointer (sjis_index (JIS0208 t))"
    "EUCKR_PTR t = first_pointer (EUCKR t)" "GB_PTR t = first_pointer (GB t)"
    using b by (subst (1) t, simp add: init_tables_def indexes_of_def)+
  have "BIG5_PTR t = b" using b by (subst (1) t, simp add: init_tables_def indexes_of_def)
  with b show "big5_ptr (BIG5 t) = Inr (BIG5_PTR t)" by simp
qed

lemma euckr_ptr:
  assumes "tables_wf t" "map_of (EUCKR_PTR t) c = Some p"
  shows "map_of (EUCKR t) p = Some c" "0 \<le> p" "p < 23940"
proof -
  have d: "distinct (map fst (EUCKR t))" using tables_wf_dicts(3) [OF assms(1)] by (simp add: dict_wf_def)
  show m: "map_of (EUCKR t) p = Some c"
    using assms first_pointer_Some(1) [OF _ d] tables_wf_ptrs(3) by simp
  then show "0 \<le> p" "p < 23940" using dict_scalar(3) [OF assms(1)] by auto
qed

lemma gb_ptr:
  assumes "tables_wf t" "map_of (GB_PTR t) c = Some p"
  shows "map_of (GB t) p = Some c" "0 \<le> p" "p < 23940"
proof -
  have d: "distinct (map fst (GB t))" using tables_wf_dicts(4) [OF assms(1)] by (simp add: dict_wf_def)
  show m: "map_of (GB t) p = Some c"
    using assms first_pointer_Some(1) [OF _ d] tables_wf_ptrs(4) by simp
  then show "0 \<le> p" "p < 23940" using dict_scalar(4) [OF assms(1)] by auto
qed

lemma jis0208_ptr:
  assumes "tables_wf t" "map_of (JIS0208_PTR t) c = Some p"
  shows "map_of (JIS0208 t) p = Some c" "0 \<le> p" "p < 8836"
proof -
  have d: "distinct (map fst (JIS0208 t))" using tables_wf_dicts(1) [OF assms(1)] by (simp add: dict_wf_def)
  have f: "map_of (first_pointer (JIS0208 t)) c = Some p" using assms tables_wf_ptrs(1) by simp
  then show m: "map_of (JIS0208 t) p = Some c" using first_pointer_Some(1) [OF _ d] by simp
  then show "0 \<le> p" using dict_scalar(1) [OF assms(1)] by auto
  have "list_all (\<lambda>(p, c). p < 8836 \<or> map_of (first_pointer (JIS0208 t)) c \<noteq> Some p) (JIS0208 t)"
    using assms(1) by (simp add: tables_wf_def indexes_wf_def indexes_of_def)
  with f map_of_SomeD [OF m] show "p < 8836" by (auto simp: list_all_iff)
qed

lemma sjis_ptr:
  assumes "tables_wf t" "map_of (SJIS_PTR t) c = Some p"
  shows "map_of (JIS0208 t) p = Some c" "0 \<le> p" "p < 11280" "p < 8836 \<or> 10715 < p"
proof -
  have d: "distinct (map fst (JIS0208 t))" using tables_wf_dicts(1) [OF assms(1)] by (simp add: dict_wf_def)
  then have d': "distinct (map fst (sjis_index (JIS0208 t)))"
    unfolding sjis_index_def by (rule distinct_keys_filter)
  have "map_of (sjis_index (JIS0208 t)) p = Some c"
    using assms first_pointer_Some(1) [OF _ d'] tables_wf_ptrs(2) by simp
  then show m: "map_of (JIS0208 t) p = Some c"
    using d by (auto simp: sjis_index_def dest!: map_of_SomeD)
  then show "0 \<le> p" "p < 11280" using dict_scalar(1) [OF assms(1)] by auto
  have "list_all (\<lambda>(p, c). p < 8836 \<or> 10715 < p) (JIS0208 t)"
    using assms(1) by (simp add: tables_wf_def indexes_wf_def indexes_of_def)
  with map_of_SomeD [OF m] show "p < 8836 \<or> 10715 < p" by (auto simp: list_all_iff)
qed

lemma big5_ptr_props:
  assumes "tables_wf t" "map_of (BIG5_PTR t) c = Some p"
  shows "map_of (BIG5 t) p = Some c" "5024 \<le> p" "p < 19782"
proof -
  have d: "distinct (map fst (BIG5 t))" using tables_wf_dicts(5) [OF assms(1)] by (simp add: dict_wf_def)
  then have d': "distinct (map fst (big5_index (BIG5 t)))"
    unfolding big5_index_def by (rule distinct_keys_filter)
  have "map_of (big5_index (BIG5 t)) p = Some c"
    using big5_override_spec [OF _ d' _ assms(2)] first_pointer_Some(1) [OF _ d']
      tables_wf_ptrs(5) [OF assms(1)] by (auto simp: big5_ptr_def Let_def)
  then have "(p, c) \<in> set (BIG5 t)" "5024 \<le> p" by (auto simp: big5_index_def dest!: map_of_SomeD)
  then show m: "map_of (BIG5 t) p = Some c" and "5024 \<le> p" using d by auto
  then show "p < 19782" using dict_scalar(5) [OF assms(1)] by auto
qed

section \<open>Encoders without state\<close>

lemma answer_bytes_eq:
  "answer_bytes st q xs = Inr (st', q', r) \<longleftrightarrow> is_bytes xs \<and> st' = st \<and> q' = q \<and> r = EBytes xs"
  by (auto simp: answer_bytes_def mk_bytes_def)

lemma stateless_codec:
  assumes char: "\<And>es q c es' q' bs. ok \<Longrightarrow> P c \<Longrightarrow> eh es q (Some c) = Inr (es', q', EBytes bs) \<Longrightarrow>
      es' = es \<and> q' = q \<and>
      (\<forall>rest out. decode_loop dh ds0 (bs @ rest) out = decode_loop dh ds0 rest (out @ utf8 (norm c)))"
    and nf: "\<And>es q c es' q'. eh es q (Some c) \<noteq> Inr (es', q', EFinished)"
    and fin: "\<And>es. eh es [] None = Inr (es, [], EFinished)"
    and dfin: "\<And>out. decode_loop dh ds0 [] out = Some (Inr out)"
  shows "codec eh dh (\<lambda>_ q ds. ok \<and> list_all P q \<and> ds = ds0) (\<lambda>_ q. length q) norm"
proof unfold_locales
  fix es c q ds es' q' bs
  assume R: "ok \<and> list_all P (c # q) \<and> ds = ds0" and e: "eh es q (Some c) = Inr (es', q', EBytes bs)"
  from R char [OF _ _ e] have "es' = es" "q' = q"
    "\<forall>rest out. decode_loop dh ds (bs @ rest) out = decode_loop dh ds0 rest (out @ utf8 (norm c))"
    by auto
  with R show "length q' < length (c # q) \<and> (\<exists>ds'. (ok \<and> list_all P q' \<and> ds' = ds0) \<and>
        (q' = q \<and> (\<forall>rest out. decode_loop dh ds (bs @ rest) out = decode_loop dh ds' rest (out @ utf8 (norm c))) \<or>
         (\<exists>c'. q' = c' # q \<and> norm c' = norm c \<and>
            (\<forall>rest out. decode_loop dh ds (bs @ rest) out = decode_loop dh ds' rest out))))"
    by auto
qed (use nf fin dfin in auto)

text \<open>One decoding step on a concrete lead byte.\<close>

lemma utf8_ascii: "0 \<le> c \<Longrightarrow> c < 0x80 \<Longrightarrow> utf8 c = [c]"
  by (simp add: utf8_def cp_utf8_def)

lemma emit1 [simp]: "is_scalar c \<Longrightarrow> resume h out (Inr (st', q', Emit [c])) = decode_loop h st' q' (out @ utf8 c)"
  by simp

lemma scalar_lt_80: "0 \<le> c \<Longrightarrow> c \<le> 0x80 \<Longrightarrow> is_scalar c"
  by (simp add: is_scalar_def)

lemma ascii_step:
  assumes "0 \<le> c" "c < 0x80"
  shows "decode_loop (euc_kr_handler t) 0 ([c] @ rest) out = decode_loop (euc_kr_handler t) 0 rest (out @ utf8 c)"
    and "decode_loop (big5_handler t) 0 ([c] @ rest) out = decode_loop (big5_handler t) 0 rest (out @ utf8 c)"
    and "decode_loop (shift_jis_handler t) 0 ([c] @ rest) out = decode_loop (shift_jis_handler t) 0 rest (out @ utf8 c)"
    and "decode_loop (euc_jp_handler t) eucjp_init ([c] @ rest) out = decode_loop (euc_jp_handler t) eucjp_init rest (out @ utf8 c)"
    and "decode_loop (gb18030_handler t) gb_init ([c] @ rest) out = decode_loop (gb18030_handler t) gb_init rest (out @ utf8 c)"
  using assms scalar_lt_80 [of c]
  by (simp_all add: decode_loop_Cons handler_defs eucjp_init_def gb_init_def Let_def)

lemma euc_kr_two_bytes:
  assumes "tables_wf t" "map_of (EUCKR_PTR t) c = Some p"
  shows "decode_loop (euc_kr_handler t) 0 ([p div 190 + 0x81, p mod 190 + 0x41] @ rest) out =
    decode_loop (euc_kr_handler t) 0 rest (out @ utf8 c)"
proof -
  note p = euckr_ptr [OF assms]
  have l: "0x81 \<le> p div 190 + 0x81" "p div 190 + 0x81 \<le> 0xFE"
    using p by auto
  have "euc_kr_pointer (p div 190 + 0x81) (p mod 190 + 0x41) = Some p"
    by (simp add: euc_kr_pointer_def)
  with l p dict_scalar(3) [OF assms(1) p(1)] show ?thesis
    by (simp add: decode_loop_Cons euc_kr_handler_def)
qed

lemma euc_kr_answer:
  assumes "euc_kr_ehandler t es q (Some c) = Inr (es', q', EBytes bs)"
  shows "es' = es \<and> q' = q \<and> ((0 \<le> c \<and> c < 0x80 \<and> bs = [c]) \<or>
    (\<exists>p. map_of (EUCKR_PTR t) c = Some p \<and> bs = [p div 190 + 0x81, p mod 190 + 0x41]))"
  using assms by (auto simp: euc_kr_ehandler_def answer_bytes_eq is_byte_def split: if_splits option.splits)

interpretation krc: codec "euc_kr_ehandler t" "euc_kr_handler t"
  "\<lambda>_ q ds. tables_wf t \<and> list_all (\<lambda>_. True) q \<and> ds = 0" "\<lambda>_ q. length q" "\<lambda>c. c" for t
proof (rule stateless_codec)
  fix es q c es' q' bs
  assume *: "tables_wf t" "euc_kr_ehandler t es q (Some c) = Inr (es', q', EBytes bs)"
  from euc_kr_answer [OF *(2)] ascii_step(1) euc_kr_two_bytes [OF *(1)]
  show "es' = es \<and> q' = q \<and> (\<forall>rest out. decode_loop (euc_kr_handler t) 0 (bs @ rest) out =
      decode_loop (euc_kr_handler t) 0 rest (out @ utf8 c))"
    by blast
qed (auto simp: euc_kr_ehandler_def answer_bytes_eq decode_loop_Nil euc_kr_handler_def split: if_splits option.splits)

lemma big5_read_two:
  assumes "0x81 \<le> l" "l \<le> 0xFE" "big5_pointer l b = Some p" "big5_special p = None"
    "map_of (BIG5 t) p = Some c" "is_scalar c"
  shows "decode_loop (big5_handler t) 0 ([l, b] @ rest) out = decode_loop (big5_handler t) 0 rest (out @ utf8 c)"
  using assms by (simp add: decode_loop_Cons big5_handler_def)

lemma big5_two_bytes_read:
  assumes "tables_wf t" "map_of (BIG5_PTR t) c = Some p"
  shows "decode_loop (big5_handler t) 0 (big5_two_bytes p @ rest) out =
    decode_loop (big5_handler t) 0 rest (out @ utf8 c)"
proof -
  note p = big5_ptr_props [OF assms]
  have l: "0x81 \<le> p div 157 + 0x81" "p div 157 + 0x81 \<le> 0xFE"
    using p by auto
  have "p mod 157 \<le> 156" "0 \<le> p mod 157" using pos_mod_bound [of 157 p] by linarith+
  then have "big5_pointer (p div 157 + 0x81) (p mod 157 + (if p mod 157 < 0x3F then 0x40 else 0x62)) = Some p"
    by (simp add: big5_pointer_def)
  from big5_read_two [OF l this _ p(1)] p(2) dict_scalar(5) [OF assms(1) p(1)] show ?thesis
    by (simp add: big5_special_def big5_two_bytes_def Let_def)
qed

lemma big5_answer:
  assumes "big5_ehandler t es q (Some c) = Inr (es', q', EBytes bs)"
  shows "es' = es \<and> q' = q \<and> ((0 \<le> c \<and> c < 0x80 \<and> bs = [c]) \<or>
    (\<exists>p. map_of (BIG5_PTR t) c = Some p \<and> bs = big5_two_bytes p))"
  using assms
  by (auto simp: big5_ehandler_def answer_bytes_eq is_byte_def split: if_splits option.splits)

interpretation b5c: codec "big5_ehandler t" "big5_handler t"
  "\<lambda>_ q ds. tables_wf t \<and> list_all (\<lambda>_. True) q \<and> ds = 0" "\<lambda>_ q. length q" "\<lambda>c. c" for t
proof (rule stateless_codec)
  fix es q c es' q' bs
  assume *: "tables_wf t" "big5_ehandler t es q (Some c) = Inr (es', q', EBytes bs)"
  from big5_answer [OF *(2)] ascii_step(2) big5_two_bytes_read [OF *(1)]
  show "es' = es \<and> q' = q \<and> (\<forall>rest out. decode_loop (big5_handler t) 0 (bs @ rest) out =
      decode_loop (big5_handler t) 0 rest (out @ utf8 c))"
    by blast
qed (auto simp: big5_ehandler_def answer_bytes_eq decode_loop_Nil big5_handler_def Let_def
      split: if_splits option.splits)

text \<open>What EUC-JP, Shift_JIS and ISO-2022-JP read back: the yen sign and the overline become the
  ASCII characters at their places in the two EUC/Shift_JIS encoders, and the minus sign the
  full-width hyphen-minus.\<close>

definition jis_norm :: "int \<Rightarrow> int" where
  "jis_norm c = (if c = 0xA5 then 0x5C else if c = 0x203E then 0x7E else if c = 0x2212 then 0xFF0D else c)"

lemma euc_jp_two_bytes:
  assumes "tables_wf t" "map_of (JIS0208_PTR t) c = Some p"
  shows "decode_loop (euc_jp_handler t) eucjp_init ([p div 94 + 0xA1, p mod 94 + 0xA1] @ rest) out =
    decode_loop (euc_jp_handler t) eucjp_init rest (out @ utf8 c)"
proof -
  note p = jis0208_ptr [OF assms]
  have l: "0xA1 \<le> p div 94 + 0xA1" "p div 94 + 0xA1 \<le> 0xFE"
    using p by auto
  have m: "0 \<le> p mod 94" "p mod 94 < 94" by simp_all
  have "euc_jp_lookup t False (p div 94 + 0xA1) (p mod 94 + 0xA1) = Some c"
    using l m p by (simp add: euc_jp_lookup_def)
  with l dict_scalar(1) [OF assms(1) p(1)] show ?thesis
    by (simp add: decode_loop_Cons euc_jp_handler_def eucjp_init_def)
qed

lemma euc_jp_half_width:
  assumes "0xFF61 \<le> c" "c \<le> 0xFF9F"
  shows "decode_loop (euc_jp_handler t) eucjp_init ([0x8E, c - 0xFF61 + 0xA1] @ rest) out =
    decode_loop (euc_jp_handler t) eucjp_init rest (out @ utf8 c)"
  using assms by (simp add: decode_loop_Cons euc_jp_handler_def eucjp_init_def is_scalar_def)

lemma euc_jp_answer:
  assumes "euc_jp_ehandler t es q (Some c) = Inr (es', q', EBytes bs)"
  shows "es' = es \<and> q' = q \<and> ((0 \<le> jis_norm c \<and> jis_norm c < 0x80 \<and> bs = [jis_norm c]) \<or>
    (0xFF61 \<le> c \<and> c \<le> 0xFF9F \<and> jis_norm c = c \<and> bs = [0x8E, c - 0xFF61 + 0xA1]) \<or>
    (\<exists>p. map_of (JIS0208_PTR t) (jis_norm c) = Some p \<and> bs = [p div 94 + 0xA1, p mod 94 + 0xA1]))"
  using assms
  by (auto simp: euc_jp_ehandler_def answer_bytes_eq is_byte_def jis_norm_def Let_def
      split: if_splits option.splits)

interpretation ejc: codec "euc_jp_ehandler t" "euc_jp_handler t"
  "\<lambda>_ q ds. tables_wf t \<and> list_all (\<lambda>_. True) q \<and> ds = eucjp_init" "\<lambda>_ q. length q" jis_norm for t
proof (rule stateless_codec)
  fix es q c es' q' bs
  assume *: "tables_wf t" "euc_jp_ehandler t es q (Some c) = Inr (es', q', EBytes bs)"
  show "es' = es \<and> q' = q \<and> (\<forall>rest out. decode_loop (euc_jp_handler t) eucjp_init (bs @ rest) out =
      decode_loop (euc_jp_handler t) eucjp_init rest (out @ utf8 (jis_norm c)))"
    using euc_jp_answer [OF *(2)] ascii_step(4) [of "jis_norm c"] euc_jp_half_width [of c]
      euc_jp_two_bytes [OF *(1), of "jis_norm c"]
    by (elim conjE disjE exE) simp_all
qed (auto simp: euc_jp_ehandler_def answer_bytes_eq decode_loop_Nil euc_jp_handler_def eucjp_init_def Let_def
      split: if_splits option.splits)

lemma sjis_read_two:
  assumes "0x81 \<le> l \<and> l \<le> 0x9F \<or> 0xE0 \<le> l \<and> l \<le> 0xFC" "sjis_pointer l b = Some p"
    "p < 8836 \<or> 10715 < p" "map_of (JIS0208 t) p = Some c" "is_scalar c"
  shows "decode_loop (shift_jis_handler t) 0 ([l, b] @ rest) out = decode_loop (shift_jis_handler t) 0 rest (out @ utf8 c)"
proof -
  have "\<not> in_range (Some p) 8836 10715" using assms(3) by (auto simp: in_range_def)
  with assms show ?thesis by (auto simp: decode_loop_Cons shift_jis_handler_def)
qed

lemma sjis_two_bytes_read:
  assumes "tables_wf t" "map_of (SJIS_PTR t) c = Some p"
  shows "decode_loop (shift_jis_handler t) 0 (sjis_two_bytes p @ rest) out =
    decode_loop (shift_jis_handler t) 0 rest (out @ utf8 c)"
proof -
  note p = sjis_ptr [OF assms]
  let ?l = "p div 188 + (if p div 188 < 0x1F then 0x81 else 0xC1)"
  let ?b = "p mod 188 + (if p mod 188 < 0x3F then 0x40 else 0x41)"
  have d: "0 \<le> p div 188" "p div 188 \<le> 59" using p by auto
  then have l: "0x81 \<le> ?l \<and> ?l \<le> 0x9F \<or> 0xE0 \<le> ?l \<and> ?l \<le> 0xFC" by auto
  have m: "p mod 188 \<le> 187" "0 \<le> p mod 188" using pos_mod_bound [of 188 p] by linarith+
  have "sjis_pointer ?l ?b = Some p"
    using d m by (simp add: sjis_pointer_def)
  from sjis_read_two [OF l this p(4,1)] dict_scalar(1) [OF assms(1) p(1)] show ?thesis
    by (simp add: sjis_two_bytes_def Let_def)
qed

lemma sjis_half_width:
  assumes "0xFF61 \<le> c" "c \<le> 0xFF9F"
  shows "decode_loop (shift_jis_handler t) 0 ([c - 0xFF61 + 0xA1] @ rest) out =
    decode_loop (shift_jis_handler t) 0 rest (out @ utf8 c)"
  using assms by (simp add: decode_loop_Cons shift_jis_handler_def is_scalar_def)

lemma sjis_80: "decode_loop (shift_jis_handler t) 0 ([0x80] @ rest) out =
    decode_loop (shift_jis_handler t) 0 rest (out @ utf8 0x80)"
  by (simp add: decode_loop_Cons shift_jis_handler_def is_scalar_def)

lemma shift_jis_answer:
  assumes "shift_jis_ehandler t es q (Some c) = Inr (es', q', EBytes bs)"
  shows "es' = es \<and> q' = q \<and> ((0 \<le> jis_norm c \<and> jis_norm c < 0x80 \<and> bs = [jis_norm c]) \<or>
    (jis_norm c = 0x80 \<and> bs = [0x80]) \<or>
    (0xFF61 \<le> c \<and> c \<le> 0xFF9F \<and> jis_norm c = c \<and> bs = [c - 0xFF61 + 0xA1]) \<or>
    (\<exists>p. map_of (SJIS_PTR t) (jis_norm c) = Some p \<and>
      bs = sjis_two_bytes p))"
proof -
  consider "c < 0x80" | "c = 0x80" | "c = 0xA5" | "c = 0x203E" | "0xFF61 \<le> c" "c \<le> 0xFF9F"
    | "0x80 < c" "c \<noteq> 0xA5" "c \<noteq> 0x203E" "\<not> (0xFF61 \<le> c \<and> c \<le> 0xFF9F)" by linarith
  then show ?thesis
  proof cases
    case 6
    then have "shift_jis_ehandler t es q (Some c) = (case map_of (SJIS_PTR t) (jis_norm c) of
         None \<Rightarrow> Inr (es, q, EError (jis_norm c)) | Some pointer \<Rightarrow> answer_bytes es q (sjis_two_bytes pointer))"
      by (auto simp: jis_norm_def shift_jis_ehandler_def Let_def split: option.split)
    then have "(case map_of (SJIS_PTR t) (jis_norm c) of
         None \<Rightarrow> Inr (es, q, EError (jis_norm c)) | Some pointer \<Rightarrow> answer_bytes es q (sjis_two_bytes pointer))
       = Inr (es', q', EBytes bs)" using assms by simp
    then show ?thesis by (auto simp: answer_bytes_eq split: option.splits)
  qed (use assms in \<open>simp_all add: shift_jis_ehandler_def answer_bytes_eq is_byte_def jis_norm_def\<close>)
qed

interpretation sjc: codec "shift_jis_ehandler t" "shift_jis_handler t"
  "\<lambda>_ q ds. tables_wf t \<and> list_all (\<lambda>_. True) q \<and> ds = 0" "\<lambda>_ q. length q" jis_norm for t
proof (rule stateless_codec)
  fix es q c es' q' bs
  assume *: "tables_wf t" "shift_jis_ehandler t es q (Some c) = Inr (es', q', EBytes bs)"
  show "es' = es \<and> q' = q \<and> (\<forall>rest out. decode_loop (shift_jis_handler t) 0 (bs @ rest) out =
      decode_loop (shift_jis_handler t) 0 rest (out @ utf8 (jis_norm c)))"
    using shift_jis_answer [OF *(2)] ascii_step(3) [of "jis_norm c"] sjis_half_width [of c] sjis_80
      sjis_two_bytes_read [OF *(1), of "jis_norm c"]
    by (elim conjE disjE exE) simp_all
qed (auto simp: shift_jis_ehandler_def answer_bytes_eq decode_loop_Nil shift_jis_handler_def Let_def
      split: if_splits option.splits)

end
