(* ===== verification/Cjk_Roundtrip_GB.thy ===== *)
theory Cjk_Roundtrip_GB
  imports Cjk_Roundtrip
begin

text \<open>
  The gb18030 and GBK encoders against the gb18030 decoder: the two-byte index and the four-byte
  ranges.  The eighteen code points of the encoder's side table are outside the theorem (they are
  written as bytes that decode to the code points of GB18030-2022), and so is a code point that
  neither the index nor a range covers.
\<close>

section \<open>A covered code point and its range\<close>

fun gbr_covers :: "dict \<Rightarrow> int \<Rightarrow> bool" where
  "gbr_covers [] cp = False"
| "gbr_covers [(p, c)] cp = (c \<le> cp \<and> cp \<le> 0x10FFFF)"
| "gbr_covers ((p1, c1) # (p2, c2) # r) cp =
     ((c1 \<le> cp \<and> cp < c1 + (min p2 39420 - p1)) \<or> gbr_covers ((p2, c2) # r) cp)"

definition range_entry :: "dict \<Rightarrow> int \<Rightarrow> int \<Rightarrow> int \<Rightarrow> bool" where
  "range_entry xs cp p c \<longleftrightarrow> (p, c) \<in> set xs \<and> c \<le> cp \<and>
     (\<forall>(q, d) \<in> set xs. d \<le> cp \<longrightarrow> d < c \<or> (d = c \<and> q = p)) \<and>
     (\<forall>(q, d) \<in> set xs. q \<le> p + cp - c \<longrightarrow> q \<le> p) \<and>
     (p + cp - c \<le> 39419 \<or> 189000 \<le> p + cp - c \<and> p + cp - c \<le> 1237575)"

lemma gbr_covers_entry:
  "gbr_chain xs \<Longrightarrow> gbr_covers xs cp \<Longrightarrow> \<exists>p c. range_entry xs cp p c"
proof (induction xs rule: gbr_chain.induct)
  case (2 p c)
  then show ?case by (auto simp: range_entry_def)
next
  case (3 p1 c1 p2 c2 r)
  have ch: "gbr_chain ((p2, c2) # r)" using 3(2) by simp
  show ?case
  proof (cases "c1 \<le> cp \<and> cp < c1 + (min p2 39420 - p1)")
    case True
    have n: "c1 + (min p2 39420 - p1) \<le> c2" using 3(2) by (simp only: gbr_chain.simps Let_def)
    have above: "p2 \<le> q \<and> c2 \<le> d" if "(q, d) \<in> set ((p2, c2) # r)" for q d
      using gbr_chain_ge [OF ch, of q d] that by (auto intro: less_imp_le)
    have "\<not> d \<le> cp \<and> \<not> q \<le> p1 + cp - c1" if "(q, d) \<in> set ((p2, c2) # r)" for q d
      using above [OF that] True n by linarith
    moreover have "p1 + cp - c1 \<le> 39419" using True by linarith
    ultimately have "range_entry ((p1, c1) # (p2, c2) # r) cp p1 c1"
      using True unfolding range_entry_def by auto
    then show ?thesis by blast
  next
    case False
    with 3(3) have "gbr_covers ((p2, c2) # r) cp" by simp
    with 3(1) [OF ch] obtain p c where e: "range_entry ((p2, c2) # r) cp p c" by blast
    then have "(p, c) \<in> set ((p2, c2) # r)" by (simp add: range_entry_def)
    then have "p1 < p \<and> c1 < c" using gbr_chain_ge [OF 3(2)] by blast
    then have "range_entry ((p1, c1) # (p2, c2) # r) cp p c"
      using e unfolding range_entry_def by auto
    then show ?thesis by blast
  qed
qed simp

lemma gb_ranges_inverse:
  assumes wf: "tables_wf t" and cov: "gbr_covers (sort_key fst (GBR t)) cp" and "cp \<noteq> 0xE7C7"
  obtains x where "gb_ranges_pointer t cp = Inr x" "x = 7457 \<or> gb_ranges_cp t x = Inr (Some cp)"
    "0 \<le> x" "x \<le> 1237575"
proof -
  note g = tables_wf_gbr [OF wf]
  obtain p c where e: "range_entry (sort_key fst (GBR t)) cp p c"
    using gbr_covers_entry [OF g(5) cov] by blast
  have "py_max (filter (\<lambda>(c, p). c \<le> cp) (GBR_CPS t)) = Inr (c, p)"
    unfolding py_max_Inr g(2) using e by (fastforce simp: range_entry_def less_eq_prod_def)
  then have ptr: "gb_ranges_pointer t cp = Inr (p + cp - c)"
    using assms(3) by (simp add: gb_ranges_pointer_def)
  have "py_max (filter (\<lambda>q. q \<le> p + cp - c) (GBR_PTRS t)) = Inr p"
    unfolding py_max_Inr g(1) using e by (force simp: range_entry_def)
  moreover have "map_of (GBR t) p = Some c"
    using e g(3) by (simp add: range_entry_def)
  ultimately have cp: "p + cp - c = 7457 \<or> gb_ranges_cp t (p + cp - c) = Inr (Some cp)"
    using e by (auto simp: gb_ranges_cp_def range_entry_def)
  have "list_all (\<lambda>(p, c). 0 \<le> p) (GBR t)"
    using wf by (simp add: tables_wf_def indexes_wf_def indexes_of_def)
  then have "0 \<le> p + cp - c" "p + cp - c \<le> 1237575"
    using e by (auto simp: range_entry_def list_all_iff)
  with that ptr cp show ?thesis by blast
qed

section \<open>Reading two and four bytes\<close>

lemma gb_read_two:
  assumes "0x81 \<le> l" "l \<le> 0xFE" "\<not> (0x30 \<le> b \<and> b \<le> 0x39)" "gb_two_byte t l b = Some c" "is_scalar c"
  shows "decode_loop (gb18030_handler t) gb_init ([l, b] @ rest) out =
    decode_loop (gb18030_handler t) gb_init rest (out @ utf8 c)"
proof -
  have "gb18030_handler t gb_init (b # rest) (Some l) = Inr (gb_init\<lparr>gb_first := l\<rparr>, b # rest, Continue)"
    using assms(1,2) by (simp add: gb18030_handler_def gb_init_def)
  moreover have "gb18030_handler t (gb_init\<lparr>gb_first := l\<rparr>) rest (Some b) = Inr (gb_init, rest, Emit [c])"
    using assms(1,3,4) by (auto simp: gb18030_handler_def gb_init_def)
  ultimately show ?thesis using assms(5) by (simp add: decode_loop_Cons)
qed

lemma gb_read_four:
  assumes "0x81 \<le> b1" "b1 \<le> 0xFE" "0x30 \<le> b2" "b2 \<le> 0x39" "0x81 \<le> b3" "b3 \<le> 0xFE" "0x30 \<le> b4" "b4 \<le> 0x39"
    and cp: "gb_ranges_cp t ((b1 - 0x81) * (10 * 126 * 10) + (b2 - 0x30) * (10 * 126) + (b3 - 0x81) * 10 + b4 - 0x30)
      = Inr (Some c)" and "is_scalar c"
  shows "decode_loop (gb18030_handler t) gb_init ([b1, b2, b3, b4] @ rest) out =
    decode_loop (gb18030_handler t) gb_init rest (out @ utf8 c)"
proof -
  let ?s1 = "\<lparr>gb_first = b1, gb_second = 0, gb_third = 0\<rparr>"
  let ?s2 = "\<lparr>gb_first = b1, gb_second = b2, gb_third = 0\<rparr>"
  let ?s3 = "\<lparr>gb_first = b1, gb_second = b2, gb_third = b3\<rparr>"
  have "gb18030_handler t gb_init (b2 # b3 # b4 # rest) (Some b1) = Inr (?s1, b2 # b3 # b4 # rest, Continue)"
    using assms(1,2) by (simp add: gb18030_handler_def gb_init_def)
  moreover have "gb18030_handler t ?s1 (b3 # b4 # rest) (Some b2) = Inr (?s2, b3 # b4 # rest, Continue)"
    using assms(1,3,4) by (simp add: gb18030_handler_def)
  moreover have "gb18030_handler t ?s2 (b4 # rest) (Some b3) = Inr (?s3, b4 # rest, Continue)"
    using assms(3,5,6) by (simp add: gb18030_handler_def)
  moreover have "b3 \<noteq> 0" using assms(5) by simp
  then have "gb18030_handler t ?s3 rest (Some b4) = Inr (gb_init, rest, Emit [c])"
    unfolding gb18030_handler_def option.case gb_state.select_convs
    by (simp only: assms(7,8) cp rbind_simps option.case simp_thms if_True if_False)
  ultimately show ?thesis using assms(10) by (simp add: decode_loop_Cons)
qed

lemma gb_two_bytes_read:
  assumes "tables_wf t" "map_of (GB_PTR t) c = Some p"
  shows "decode_loop (gb18030_handler t) gb_init (gb_two_bytes p @ rest) out =
    decode_loop (gb18030_handler t) gb_init rest (out @ utf8 c)"
proof -
  note p = gb_ptr [OF assms]
  let ?b = "p mod 190 + (if p mod 190 < 0x3F then 0x40 else 0x41)"
  have l: "0x81 \<le> p div 190 + 0x81" "p div 190 + 0x81 \<le> 0xFE"
    using p by auto
  have m: "p mod 190 \<le> 189" "0 \<le> p mod 190" using pos_mod_bound [of 190 p] by linarith+
  then have "gb_two_byte t (p div 190 + 0x81) ?b = map_of (GB t) p"
    by (simp add: gb_two_byte_def Let_def)
  moreover have "\<not> (0x30 \<le> ?b \<and> ?b \<le> 0x39)" using m by auto
  ultimately show ?thesis
    using gb_read_two [OF l] p(1) dict_scalar(4) [OF assms(1) p(1)]
    by (simp add: gb_two_bytes_def Let_def)
qed

lemma gb_four_bytes_read:
  assumes "0 \<le> x" "x \<le> 1237575" "gb_ranges_cp t x = Inr (Some c)" "is_scalar c"
  shows "decode_loop (gb18030_handler t) gb_init (gb_four_bytes x @ rest) out =
    decode_loop (gb18030_handler t) gb_init rest (out @ utf8 c)"
proof -
  define b1 b2 b3 b4 where "b1 = x div 12600" and "b2 = x mod 12600 div 1260"
    and "b3 = x mod 12600 mod 1260 div 10" and "b4 = x mod 12600 mod 1260 mod 10"
  have x: "b1 * 12600 + b2 * 1260 + b3 * 10 + b4 = x"
    unfolding b1_def b2_def b3_def b4_def
    using div_mult_mod_eq [of x 12600] div_mult_mod_eq [of "x mod 12600" 1260]
      div_mult_mod_eq [of "x mod 12600 mod 1260" 10] by linarith
  have m: "x mod 12600 < 12600" "x mod 12600 mod 1260 < 1260" "0 \<le> x mod 12600" "0 \<le> x mod 12600 mod 1260" by simp_all
  have b: "0 \<le> b1" "b1 \<le> 98" "0 \<le> b2" "b2 \<le> 9" "0 \<le> b3" "b3 \<le> 125" "0 \<le> b4" "b4 \<le> 9"
    unfolding b1_def b2_def b3_def b4_def using assms(1,2) m by linarith+
  have "decode_loop (gb18030_handler t) gb_init ([b1 + 0x81, b2 + 0x30, b3 + 0x81, b4 + 0x30] @ rest) out =
    decode_loop (gb18030_handler t) gb_init rest (out @ utf8 c)"
    by (rule gb_read_four) (use b x assms(3,4) in \<open>simp_all add: algebra_simps\<close>)
  then show ?thesis
    by (simp add: gb_four_bytes_def Let_def b1_def b2_def b3_def b4_def)
qed

section \<open>The codec\<close>

text \<open>What a text may hold: no code point of the side table, and outside the two-byte index only
  code points of a range (U+E7C7, whose pointer 7457 the code handles inline, included).\<close>

definition gb_text_ok :: "tables \<Rightarrow> int \<Rightarrow> bool" where
  "gb_text_ok t c \<longleftrightarrow> gb_side c = None \<and> is_scalar c \<and>
     (c < 0x80 \<or> map_of (GB_PTR t) c \<noteq> None \<or> c = 0xE7C7 \<or>
      (gbr_covers (sort_key fst (GBR t)) c \<and> gb_ranges_pointer t c \<noteq> Inr 7457))"

lemma gb_answer:
  assumes "gb18030_ehandler t k q (Some c) = Inr (k', q', EBytes bs)" "gb_side c = None"
  shows "k' = k \<and> q' = q \<and> ((0 \<le> c \<and> c < 0x80 \<and> bs = [c]) \<or> (c = 0x20AC \<and> bs = [0x80]) \<or>
    (\<exists>p. map_of (GB_PTR t) c = Some p \<and> bs = gb_two_bytes p) \<or>
    (0x80 \<le> c \<and> map_of (GB_PTR t) c = None \<and> (\<exists>x. gb_ranges_pointer t c = Inr x \<and> bs = gb_four_bytes x)))"
  using assms
  by (auto simp: gb18030_ehandler_def answer_bytes_eq is_byte_def rbind_eq_Inr_iff split: if_splits option.splits)

lemma gb_euro: "decode_loop (gb18030_handler t) gb_init ([0x80] @ rest) out =
    decode_loop (gb18030_handler t) gb_init rest (out @ utf8 0x20AC)"
  by (simp add: decode_loop_Cons gb18030_handler_def gb_init_def is_scalar_def)

interpretation gbc: codec "gb18030_ehandler t" "gb18030_handler t"
  "\<lambda>_ q ds. tables_wf t \<and> list_all (gb_text_ok t) q \<and> ds = gb_init" "\<lambda>_ q. length q" "\<lambda>c. c" for t
proof (rule stateless_codec)
  fix k q c k' q' bs
  assume *: "tables_wf t" "gb_text_ok t c" "gb18030_ehandler t k q (Some c) = Inr (k', q', EBytes bs)"
  have side: "gb_side c = None" and sc: "is_scalar c" using *(2) by (simp_all add: gb_text_ok_def)
  have four: "decode_loop (gb18030_handler t) gb_init (gb_four_bytes x @ rest) out =
      decode_loop (gb18030_handler t) gb_init rest (out @ utf8 c)"
    if "0x80 \<le> c" "map_of (GB_PTR t) c = None" "gb_ranges_pointer t c = Inr x" for x rest out
  proof (cases "c = 0xE7C7")
    case True
    with that have "x = 7457" by (simp add: gb_ranges_pointer_def)
    with True show ?thesis by (intro gb_four_bytes_read) (simp_all add: gb_ranges_cp_def is_scalar_def)
  next
    case False
    with that *(2) have "gbr_covers (sort_key fst (GBR t)) c" "x \<noteq> 7457" by (auto simp: gb_text_ok_def)
    with gb_ranges_inverse [OF *(1) _ False] that(3) have "0 \<le> x" "x \<le> 1237575" "gb_ranges_cp t x = Inr (Some c)"
      by force+
    with sc show ?thesis by (intro gb_four_bytes_read)
  qed
  from gb_answer [OF *(3) side] show "k' = k \<and> q' = q \<and>
      (\<forall>rest out. decode_loop (gb18030_handler t) gb_init (bs @ rest) out =
        decode_loop (gb18030_handler t) gb_init rest (out @ utf8 c))"
    using ascii_step(5) gb_euro gb_two_bytes_read [OF *(1)] four by (elim conjE disjE exE) simp_all
qed (auto simp: gb18030_ehandler_def answer_bytes_eq decode_loop_Nil gb18030_handler_def gb_init_def
      rbind_eq_Inr_iff split: if_splits option.splits)

end
