(* ===== verification/Cjk_Roundtrip_ISO.thy ===== *)
theory Cjk_Roundtrip_ISO
  imports Cjk_Roundtrip
begin

text \<open>
  The stateful ISO-2022-JP encoder against its decoder.  The encoder's escape sequences drive the
  decoder through the same modes; the decoder reports two escapes with no character between them
  as an error, so the relation between the two machines records that a character follows.
\<close>

section \<open>What the encoder answers\<close>

definition iso_norm :: "tables \<Rightarrow> int \<Rightarrow> int" where
  "iso_norm t c = (case iso_map t c of Inl _ \<Rightarrow> c | Inr d \<Rightarrow> d)"

text \<open>The encoder handles the code point without switching first.\<close>

definition settles :: "tables \<Rightarrow> iso_emode \<Rightarrow> int \<Rightarrow> bool" where
  "settles t s c \<longleftrightarrow> (\<forall>q s' q' bs. iso_ehandler t s q (Some c) = Inr (s', q', EBytes bs) \<longrightarrow> q' = q)"

lemma jis0208_value:
  assumes "tables_wf t" "map_of (JIS0208_PTR t) c = Some p"
  shows "0x80 < c" "is_scalar c" "c \<noteq> 0xA5" "c \<noteq> 0x203E" "c \<noteq> 0x2212" "\<not> (0xFF61 \<le> c \<and> c \<le> 0xFF9F)"
proof -
  note m = jis0208_ptr(1) [OF assms]
  show "0x80 < c" "is_scalar c" using dict_scalar(1) [OF assms(1) m] by auto
  have "list_all (\<lambda>(p, c). c \<noteq> 0xA5 \<and> c \<noteq> 0x203E \<and> c \<noteq> 0x2212 \<and> \<not> (0xFF61 \<le> c \<and> c \<le> 0xFF9F)) (JIS0208 t)"
    using assms(1) by (simp add: tables_wf_def indexes_wf_def indexes_of_def)
  with map_of_SomeD [OF m]
  show "c \<noteq> 0xA5" "c \<noteq> 0x203E" "c \<noteq> 0x2212" "\<not> (0xFF61 \<le> c \<and> c \<le> 0xFF9F)"
    by (auto simp: list_all_iff)
qed

lemma kata_value:
  assumes "tables_wf t" "map_of (KATA t) i = Some c"
  shows "map_of (JIS0208_PTR t) c \<noteq> None"
proof -
  have "list_all (\<lambda>(i, c). map_of (first_pointer (JIS0208 t)) c \<noteq> None) (KATA t)"
    using assms(1) by (simp add: tables_wf_def indexes_wf_def indexes_of_def)
  with map_of_SomeD [OF assms(2)] show ?thesis
    using tables_wf_ptrs(1) [OF assms(1)] by (auto simp: list_all_iff)
qed

lemma iso_map_id: "\<not> (0xFF61 \<le> c \<and> c \<le> 0xFF9F) \<Longrightarrow> c \<noteq> 0x2212 \<Longrightarrow> iso_map t c = Inr c"
  by (auto simp: iso_map_def Let_def)

lemma iso_map_cases:
  assumes "tables_wf t" "iso_map t c = Inr d"
  obtains "d = c" "\<not> (0xFF61 \<le> c \<and> c \<le> 0xFF9F)" "c \<noteq> 0x2212" | "c = 0x2212" "d = 0xFF0D"
  | p where "map_of (JIS0208_PTR t) d = Some p" "0xFF61 \<le> c"
proof (cases "0xFF61 \<le> c \<and> c \<le> 0xFF9F")
  case True
  with assms(2) have "map_of (KATA t) (c - 0xFF61) = Some d"
    by (auto simp: iso_map_def Let_def split: option.splits)
  with kata_value [OF assms(1)] True that(3) show thesis by auto
next
  case False
  with assms(2) that(1,2) show thesis by (auto simp: iso_map_def Let_def split: if_splits)
qed

lemma iso_map_idem: "tables_wf t \<Longrightarrow> iso_map t c = Inr d \<Longrightarrow> iso_map t d = Inr d"
  by (rule iso_map_cases) (auto intro!: iso_map_id dest: jis0208_value)

lemma iso_map_ge: "tables_wf t \<Longrightarrow> iso_map t c = Inr d \<Longrightarrow> 0x80 \<le> c \<Longrightarrow> c \<noteq> 0xA5 \<Longrightarrow> c \<noteq> 0x203E \<Longrightarrow>
    0x80 \<le> d \<and> d \<noteq> 0xA5 \<and> d \<noteq> 0x203E"
  by (rule iso_map_cases) (auto dest: jis0208_value)

lemma iso_norm_id: "c < 0x80 \<or> c = 0xA5 \<or> c = 0x203E \<Longrightarrow> iso_norm t c = c"
  by (auto simp: iso_norm_def iso_map_id)

datatype iso_answer = Put bytes | Switch iso_emode bytes

definition iso_answers :: "tables \<Rightarrow> iso_emode \<Rightarrow> int \<Rightarrow> iso_answer \<Rightarrow> bool" where
  "iso_answers t s c a = (case a of
     Put bs \<Rightarrow>
       (s \<noteq> EJis0208 \<and> 0 \<le> c \<and> c < 0x80 \<and> c \<noteq> 0x0E \<and> c \<noteq> 0x0F \<and> c \<noteq> 0x1B \<and>
         (s = ERoman \<longrightarrow> c \<noteq> 0x5C \<and> c \<noteq> 0x7E) \<and> bs = [c]) \<or>
       (s = ERoman \<and> (c = 0xA5 \<and> bs = [0x5C] \<or> c = 0x203E \<and> bs = [0x7E])) \<or>
       (s = EJis0208 \<and> (\<exists>p. map_of (JIS0208_PTR t) (iso_norm t c) = Some p \<and>
          bs = [p div 94 + 0x21, p mod 94 + 0x21]))
   | Switch s' bs \<Rightarrow>
       (s' = EAscii \<and> s \<noteq> EAscii \<and> bs = [0x1B, 0x28, 0x42] \<and>
          (c < 0x80 \<or> 0x80 \<le> c \<and> c \<noteq> 0xA5 \<and> c \<noteq> 0x203E \<and> iso_map t c = Inr (iso_norm t c) \<and>
             map_of (JIS0208_PTR t) (iso_norm t c) = None)) \<or>
       (s' = ERoman \<and> s \<noteq> ERoman \<and> bs = [0x1B, 0x28, 0x4A] \<and> (c = 0xA5 \<or> c = 0x203E)) \<or>
       (s' = EJis0208 \<and> s \<noteq> EJis0208 \<and> bs = [0x1B, 0x24, 0x42] \<and> 0x80 \<le> c \<and> c \<noteq> 0xA5 \<and> c \<noteq> 0x203E \<and>
          iso_map t c = Inr (iso_norm t c) \<and> map_of (JIS0208_PTR t) (iso_norm t c) \<noteq> None))"

lemma iso_step_answers:
  assumes "iso_ehandler t s q (Some c) = Inr (s', q', EBytes bs)"
  shows "(s' = s \<and> q' = q \<and> iso_answers t s c (Put bs)) \<or>
         (q' = iso_norm t c # q \<and> iso_answers t s c (Switch s' bs))"
proof -
  consider "c < 0x80" | "c = 0xA5 \<or> c = 0x203E" | "0x80 \<le> c" "c \<noteq> 0xA5" "c \<noteq> 0x203E" by linarith
  then show ?thesis
  proof cases
    case 1
    with assms show ?thesis
      by (cases s) (auto simp: iso_ehandler_def answer_bytes_eq is_byte_def iso_answers_def iso_norm_id split: if_splits)
  next
    case 2
    with assms show ?thesis
      by (cases s) (auto simp: iso_ehandler_def answer_bytes_eq is_byte_def iso_answers_def iso_norm_id split: if_splits)
  next
    case 3
    then have h: "iso_ehandler t s q (Some c) = rbind (iso_map t c)
        (\<lambda>cp. case map_of (JIS0208_PTR t) cp of
           None \<Rightarrow> if s = EJis0208 then Inr (EAscii, cp # q, EBytes [0x1B, 0x28, 0x42]) else Inr (s, q, EError cp)
         | Some pointer \<Rightarrow> if s \<noteq> EJis0208 then Inr (EJis0208, cp # q, EBytes [0x1B, 0x24, 0x42])
             else answer_bytes s q [pointer div 94 + 0x21, pointer mod 94 + 0x21])"
      by (auto simp: iso_ehandler_def)
    obtain d where d: "iso_map t c = Inr d" using assms h by (cases "iso_map t c") auto
    then have "iso_norm t c = d" by (simp add: iso_norm_def)
    with 3 d assms [unfolded h] show ?thesis
      by (cases s) (auto simp: answer_bytes_eq iso_answers_def split: option.splits)
  qed
qed

lemma settles_after_switch:
  assumes wf: "tables_wf t" and a: "iso_answers t s c (Switch s' bs)"
  shows "settles t s' (iso_norm t c)" "iso_norm t (iso_norm t c) = iso_norm t c"
proof -
  let ?d = "iso_norm t c"
  consider "s' = EAscii" "c < 0x80" | "s' = ERoman" "c = 0xA5 \<or> c = 0x203E"
    | "0x80 \<le> c" "c \<noteq> 0xA5" "c \<noteq> 0x203E" "iso_map t c = Inr ?d"
      "s' = EAscii \<and> map_of (JIS0208_PTR t) ?d = None \<or> s' = EJis0208 \<and> map_of (JIS0208_PTR t) ?d \<noteq> None"
    using a by (auto simp: iso_answers_def)
  then have "settles t s' ?d \<and> iso_norm t ?d = ?d"
  proof cases
    case 1
    then show ?thesis by (auto simp: settles_def iso_norm_id iso_ehandler_def answer_bytes_eq split: if_splits)
  next
    case 2
    then show ?thesis by (auto simp: settles_def iso_norm_id iso_ehandler_def answer_bytes_eq split: if_splits)
  next
    case 3
    then have d: "0x80 \<le> ?d" "?d \<noteq> 0xA5" "?d \<noteq> 0x203E" "iso_map t ?d = Inr ?d"
      using iso_map_ge [OF wf] iso_map_idem [OF wf] by blast+
    then have "iso_norm t ?d = ?d" by (subst iso_norm_def) simp
    moreover from d 3(5) have "settles t s' ?d"
      by (auto simp: settles_def iso_ehandler_def answer_bytes_eq split: if_splits option.splits)
    ultimately show ?thesis by simp
  qed
  then show "settles t s' ?d" "iso_norm t ?d = ?d" by simp_all
qed

lemma put_settles:
  assumes "iso_ehandler t s q (Some c) = Inr (s', q', EBytes bs)" "settles t s c"
  shows "s' = s" "q' = q" "iso_answers t s c (Put bs)"
proof -
  show "q' = q" using assms by (auto simp: settles_def)
  with iso_step_answers [OF assms(1)] show "s' = s" "iso_answers t s c (Put bs)" by auto
qed

lemma iso_put_uniform:
  assumes "iso_ehandler t s q (Some c) = Inr (s', q, EBytes bs)"
  shows "iso_ehandler t s q2 (Some c) = Inr (s', q2, EBytes bs)"
proof -
  consider "c < 0x80" | "c = 0xA5 \<or> c = 0x203E" | "0x80 \<le> c" "c \<noteq> 0xA5" "c \<noteq> 0x203E" by linarith
  then show ?thesis
    using assms by cases (auto simp: iso_ehandler_def answer_bytes_eq rbind_eq_Inr_iff
        split: if_splits option.splits)
qed

lemma put_uniform_settles:
  assumes "iso_ehandler t s q (Some c) = Inr (s', q, EBytes bs)"
  shows "settles t s c"
  using iso_put_uniform [OF assms] by (simp add: settles_def)

section \<open>What the decoder reads\<close>

definition mode_of :: "iso_emode \<Rightarrow> iso_mode" where
  "mode_of s = (case s of EAscii \<Rightarrow> Ascii | ERoman \<Rightarrow> Roman | EJis0208 \<Rightarrow> Leading)"

definition escape_of :: "iso_emode \<Rightarrow> bytes" where
  "escape_of s = (case s of EAscii \<Rightarrow> [0x1B, 0x28, 0x42] | ERoman \<Rightarrow> [0x1B, 0x28, 0x4A] | EJis0208 \<Rightarrow> [0x1B, 0x24, 0x42])"

lemma iso_read_escape:
  assumes "iso_mode ds = mode_of s" "\<not> iso_output ds"
  shows "decode_loop (iso_2022_jp_handler t) ds (escape_of s' @ rest) out = decode_loop (iso_2022_jp_handler t)
     (ds\<lparr>iso_leading := 0, iso_mode := mode_of s', iso_output_state := mode_of s', iso_output := True\<rparr>) rest out"
proof -
  have m: "iso_mode ds = Ascii \<or> iso_mode ds = Roman \<or> iso_mode ds = Leading"
    using assms(1) by (cases s) (simp_all add: mode_of_def)
  then have "decode_loop (iso_2022_jp_handler t) ds (0x1B # q) out =
      decode_loop (iso_2022_jp_handler t) (ds\<lparr>iso_mode := EscapeStart\<rparr>) q out" for q
    by (auto simp: decode_loop_Cons iso_2022_jp_handler_def iso_text_handler_def)
  with assms(2) show ?thesis
    by (cases s') (simp_all add: escape_of_def mode_of_def decode_loop_Cons iso_2022_jp_handler_def
        iso_escape_start_handler_def iso_escape_handler_def iso_escape_target_def Let_def)
qed

lemma iso_read_two:
  assumes wf: "tables_wf t" and m: "iso_mode ds = Leading" and p: "map_of (JIS0208_PTR t) c = Some p"
  shows "decode_loop (iso_2022_jp_handler t) ds ([p div 94 + 0x21, p mod 94 + 0x21] @ rest) out =
    decode_loop (iso_2022_jp_handler t)
      (ds\<lparr>iso_output := False, iso_leading := p div 94 + 0x21, iso_mode := Leading\<rparr>) rest (out @ utf8 c)"
proof -
  let ?l = "p div 94 + 0x21" and ?r = "p mod 94 + 0x21"
  note j = jis0208_ptr [OF wf p]
  have l: "0x21 \<le> ?l" "?l \<le> 0x7E" using j by auto
  have r: "0x21 \<le> ?r" "?r \<le> 0x7E" "?r \<noteq> 0x1B" using pos_mod_bound [of 94 p] pos_mod_sign [of 94 p] by linarith+
  have lk: "map_of (JIS0208 t) ((?l - 0x21) * 94 + ?r - 0x21) = Some c"
    using j(1) by (simp add: mult.commute)
  have sc: "is_scalar c" using jis0208_value [OF wf p] by simp
  let ?ds = "ds\<lparr>iso_output := False, iso_leading := ?l, iso_mode := Trailing\<rparr>"
  have "decode_loop (iso_2022_jp_handler t) ds ([?l, ?r] @ rest) out = decode_loop (iso_2022_jp_handler t) ?ds (?r # rest) out"
    using m l by (simp add: decode_loop_Cons iso_2022_jp_handler_def iso_text_handler_def Let_def)
  also have "iso_2022_jp_handler t ?ds rest (Some ?r) = Inr (?ds\<lparr>iso_mode := Leading\<rparr>, rest, Emit [c])"
    unfolding iso_2022_jp_handler_def iso_trailing_handler_def Let_def using r lk by simp
  then have "decode_loop (iso_2022_jp_handler t) ?ds (?r # rest) out =
      decode_loop (iso_2022_jp_handler t) (?ds\<lparr>iso_mode := Leading\<rparr>) rest (out @ utf8 c)"
    using sc by (simp add: decode_loop_Cons)
  finally show ?thesis by simp
qed

lemma iso_read_char:
  assumes wf: "tables_wf t" and m: "iso_mode ds = mode_of s" and a: "iso_answers t s c (Put bs)"
  obtains ds' where "iso_mode ds' = mode_of s" "\<not> iso_output ds'"
    "\<And>rest out. decode_loop (iso_2022_jp_handler t) ds (bs @ rest) out =
       decode_loop (iso_2022_jp_handler t) ds' rest (out @ utf8 (iso_norm t c))"
proof -
  consider (plain) "s \<noteq> EJis0208" "0 \<le> c" "c < 0x80" "c \<noteq> 0x0E" "c \<noteq> 0x0F" "c \<noteq> 0x1B"
      "s = ERoman \<longrightarrow> c \<noteq> 0x5C \<and> c \<noteq> 0x7E" "bs = [c]"
    | (yen) "s = ERoman" "c = 0xA5 \<and> bs = [0x5C] \<or> c = 0x203E \<and> bs = [0x7E]"
    | (two) p where "s = EJis0208" "map_of (JIS0208_PTR t) (iso_norm t c) = Some p"
        "bs = [p div 94 + 0x21, p mod 94 + 0x21]"
    using a by (auto simp: iso_answers_def)
  then show thesis
  proof cases
    case plain
    with m scalar_lt_80 [of c] have "decode_loop (iso_2022_jp_handler t) ds (bs @ rest) out =
       decode_loop (iso_2022_jp_handler t) (ds\<lparr>iso_output := False\<rparr>) rest (out @ utf8 (iso_norm t c))" for rest out
      by (cases s) (simp_all add: mode_of_def decode_loop_Cons iso_2022_jp_handler_def iso_text_handler_def
          Let_def iso_plain_ascii_def iso_norm_id)
    with m that [of "ds\<lparr>iso_output := False\<rparr>"] show thesis by simp
  next
    case yen
    then have "is_scalar c" by (auto simp: is_scalar_def)
    with yen m have "decode_loop (iso_2022_jp_handler t) ds (bs @ rest) out =
       decode_loop (iso_2022_jp_handler t) (ds\<lparr>iso_output := False\<rparr>) rest (out @ utf8 (iso_norm t c))" for rest out
      by (auto simp: mode_of_def decode_loop_Cons iso_2022_jp_handler_def iso_text_handler_def Let_def iso_norm_id)
    with m that [of "ds\<lparr>iso_output := False\<rparr>"] show thesis by simp
  next
    case two
    let ?ds = "ds\<lparr>iso_output := False, iso_leading := p div 94 + 0x21, iso_mode := Leading\<rparr>"
    have "iso_mode ds = Leading" using m two(1) by (simp add: mode_of_def)
    from iso_read_two [OF wf this two(2)] that [of ?ds] two(1,3) show thesis by (simp add: mode_of_def)
  qed
qed

section \<open>The codec\<close>

definition iso_related :: "tables \<Rightarrow> iso_emode \<Rightarrow> int list \<Rightarrow> iso_state \<Rightarrow> bool" where
  "iso_related t es q ds \<longleftrightarrow> tables_wf t \<and> iso_mode ds = mode_of es \<and>
     (iso_output ds \<longrightarrow> (case q of [] \<Rightarrow> es = EAscii | c # _ \<Rightarrow> settles t es c))"

definition iso_weight :: "tables \<Rightarrow> iso_emode \<Rightarrow> int list \<Rightarrow> nat" where
  "iso_weight t es q = 2 * length q +
     (case q of [] \<Rightarrow> if es = EAscii then 0 else 1 | c # _ \<Rightarrow> if settles t es c then 0 else 1)"

lemma iso_weight_le: "iso_weight t es q \<le> 2 * length q + 1"
  by (simp add: iso_weight_def split: list.split)

lemma iso_flush_eq: "iso_ehandler t es [] None = Inr (es', q', EBytes bs) \<longleftrightarrow>
    es \<noteq> EAscii \<and> es' = EAscii \<and> q' = [] \<and> bs = escape_of EAscii"
  by (auto simp: iso_ehandler_def escape_of_def)

lemma switch_escape: "iso_answers t s c (Switch s' bs) \<Longrightarrow> bs = escape_of s'"
  by (auto simp: iso_answers_def escape_of_def)

lemma iso_put_step:
  assumes R: "iso_related t es (c # q) ds" and e: "iso_ehandler t es q (Some c) = Inr (es', q', EBytes bs)"
    and s: "settles t es c"
  shows "q' = q" "iso_weight t es' q' < iso_weight t es (c # q)"
    "\<exists>ds'. iso_related t es' q' ds' \<and> (\<forall>rest out. decode_loop (iso_2022_jp_handler t) ds (bs @ rest) out =
       decode_loop (iso_2022_jp_handler t) ds' rest (out @ utf8 (iso_norm t c)))"
proof -
  note p = put_settles [OF e s]
  show "q' = q" by (rule p(2))
  show "iso_weight t es' q' < iso_weight t es (c # q)"
    using iso_weight_le [of t es' q'] p(2) by (simp add: iso_weight_def)
  have R': "tables_wf t" "iso_mode ds = mode_of es" using R by (simp_all add: iso_related_def)
  obtain ds' where ds': "iso_mode ds' = mode_of es" "\<not> iso_output ds'"
    "\<And>rest out. decode_loop (iso_2022_jp_handler t) ds (bs @ rest) out =
       decode_loop (iso_2022_jp_handler t) ds' rest (out @ utf8 (iso_norm t c))"
    using iso_read_char [OF R' p(3)] by blast
  then have "iso_related t es' q' ds'" using R' p(1) by (simp add: iso_related_def)
  with ds'(3) show "\<exists>ds'. iso_related t es' q' ds' \<and> (\<forall>rest out. decode_loop (iso_2022_jp_handler t) ds (bs @ rest) out =
       decode_loop (iso_2022_jp_handler t) ds' rest (out @ utf8 (iso_norm t c)))" by blast
qed

lemma iso_switch_step:
  assumes R: "iso_related t es (c # q) ds" and e: "iso_ehandler t es q (Some c) = Inr (es', q', EBytes bs)"
    and s: "\<not> settles t es c" and a: "q' = iso_norm t c # q" "iso_answers t es c (Switch es' bs)"
  shows "iso_weight t es' q' < iso_weight t es (c # q)"
    "\<exists>ds'. iso_related t es' q' ds' \<and> (\<forall>rest out. decode_loop (iso_2022_jp_handler t) ds (bs @ rest) out =
       decode_loop (iso_2022_jp_handler t) ds' rest out)"
proof -
  have R': "tables_wf t" "iso_mode ds = mode_of es" "\<not> iso_output ds" using R s by (auto simp: iso_related_def)
  note t = settles_after_switch [OF R'(1) a(2)]
  show "iso_weight t es' q' < iso_weight t es (c # q)" using t s a(1) by (simp add: iso_weight_def)
  let ?ds = "ds\<lparr>iso_leading := 0, iso_mode := mode_of es', iso_output_state := mode_of es', iso_output := True\<rparr>"
  have "iso_related t es' q' ?ds" using R' t a(1) by (simp add: iso_related_def)
  then show "\<exists>ds'. iso_related t es' q' ds' \<and> (\<forall>rest out. decode_loop (iso_2022_jp_handler t) ds (bs @ rest) out =
       decode_loop (iso_2022_jp_handler t) ds' rest out)"
    using iso_read_escape [OF R'(2,3)] switch_escape [OF a(2)] by blast
qed

interpretation isoc: codec "iso_ehandler t" "iso_2022_jp_handler t" "iso_related t" "iso_weight t" "iso_norm t" for t
proof unfold_locales
  fix es c q ds es' q' bs
  assume *: "iso_related t es (c # q) ds" "iso_ehandler t es q (Some c) = Inr (es', q', EBytes bs)"
  show "iso_weight t es' q' < iso_weight t es (c # q) \<and>
      (\<exists>ds'. iso_related t es' q' ds' \<and>
        (q' = q \<and> (\<forall>rest out. decode_loop (iso_2022_jp_handler t) ds (bs @ rest) out =
           decode_loop (iso_2022_jp_handler t) ds' rest (out @ utf8 (iso_norm t c))) \<or>
         (\<exists>c'. q' = c' # q \<and> iso_norm t c' = iso_norm t c \<and>
            (\<forall>rest out. decode_loop (iso_2022_jp_handler t) ds (bs @ rest) out =
              decode_loop (iso_2022_jp_handler t) ds' rest out))))"
  proof (cases "settles t es c")
    case True
    from iso_put_step [OF * this] show ?thesis by blast
  next
    case False
    have a: "q' = iso_norm t c # q" "iso_answers t es c (Switch es' bs)"
      using iso_step_answers [OF *(2)] put_uniform_settles [of t es q c es' bs] False *(2) by auto
    have "tables_wf t" using *(1) by (simp add: iso_related_def)
    from settles_after_switch(2) [OF this a(2)] a(1) iso_switch_step [OF * False a] show ?thesis by blast
  qed
next
  fix es q c es' q'
  show "iso_ehandler t es q (Some c) \<noteq> Inr (es', q', EFinished)"
    by (auto simp: iso_ehandler_def answer_bytes_eq rbind_eq_Inr_iff split: if_splits option.splits)
next
  fix es ds es' q' out
  assume "iso_related t es [] ds" "iso_ehandler t es [] None = Inr (es', q', EFinished)"
  then show "decode_loop (iso_2022_jp_handler t) ds [] out = Some (Inr out)"
    by (auto simp: iso_related_def iso_ehandler_def mode_of_def decode_loop_Nil iso_2022_jp_handler_def
        iso_text_handler_def split: if_splits)
next
  fix es ds es' q' bs
  assume *: "iso_related t es [] ds" "iso_ehandler t es [] None = Inr (es', q', EBytes bs)"
  then have f: "es \<noteq> EAscii" "es' = EAscii" "q' = []" "bs = escape_of EAscii" by (simp_all add: iso_flush_eq)
  then have "tables_wf t" "iso_mode ds = mode_of es" "\<not> iso_output ds" using *(1) by (simp_all add: iso_related_def)
  note read = iso_read_escape [OF this(2,3), of t EAscii]
  let ?ds = "ds\<lparr>iso_leading := 0, iso_mode := mode_of EAscii, iso_output_state := mode_of EAscii, iso_output := True\<rparr>"
  have "iso_related t es' [] ?ds" using f \<open>tables_wf t\<close> by (simp add: iso_related_def)
  moreover have "iso_weight t es' [] < iso_weight t es []" using f by (simp add: iso_weight_def)
  ultimately show "q' = [] \<and> iso_weight t es' [] < iso_weight t es [] \<and> (\<exists>ds'. iso_related t es' [] ds' \<and>
      (\<forall>rest out. decode_loop (iso_2022_jp_handler t) ds (bs @ rest) out = decode_loop (iso_2022_jp_handler t) ds' rest out))"
    using f(3,4) read by blast
qed

end
