(* ===== verification/Cjk_Encode_Total.thy ===== *)
theory Cjk_Encode_Total
  imports Cjk_Roundtrip_GB Cjk_Roundtrip_ISO
begin

text \<open>
  Every encoder returns: an interface with the law that each step answers without raising, with
  bytes in range, and brings a measure of the machine down; its consequence for the driver; and
  its interpretation by the six encoders on the scalar values.
\<close>

section \<open>The interface\<close>

definition estep_ok :: "('st \<Rightarrow> int list \<Rightarrow> nat) \<Rightarrow> nat \<Rightarrow> 'st estep \<Rightarrow> bool" where
  "estep_ok weight n r = (case r of Inl e \<Rightarrow> False
     | Inr (st', q', rsp) \<Rightarrow> rsp = EFinished \<or> list_all is_scalar q' \<and> weight st' q' < n \<and>
         (case rsp of EBytes bs \<Rightarrow> is_bytes bs | _ \<Rightarrow> True))"

locale encoder =
  fixes eh :: "'st ehandler" and ok :: bool and weight :: "'st \<Rightarrow> int list \<Rightarrow> nat"
  assumes echar: "ok \<Longrightarrow> is_scalar c \<Longrightarrow> list_all is_scalar q \<Longrightarrow>
      estep_ok weight (weight st (c # q)) (eh st q (Some c))"
    and eend: "ok \<Longrightarrow> estep_ok weight (weight st []) (eh st [] None)"
begin

lemma ereturns:
  "ok \<Longrightarrow> list_all is_scalar q \<Longrightarrow> is_bytes out \<Longrightarrow>
     \<exists>r. encode_loop eh st q out mode = Some (Inr r) \<and> (r = None \<longrightarrow> mode = fatal) \<and>
       (\<forall>bs. r = Some bs \<longrightarrow> is_bytes bs)"
proof (induction "weight st q" arbitrary: st q out rule: less_induct)
  case less
  obtain s where run: "encode_loop eh st q out mode = eresume eh out mode s"
    and ok: "estep_ok weight (weight st q) s"
    using less.prems echar [of "hd q" "tl q" st] eend [of st]
    by (cases q) (auto simp: encode_loop_Nil encode_loop_Cons)
  then obtain st' q' rsp where s: "s = Inr (st', q', rsp)" by (auto simp: estep_ok_def split: sum.splits prod.splits)
  have ncr: "is_bytes (ncr cp)" for cp
    by (simp add: ncr_def is_byte_def)
  show ?case
  proof (cases "rsp = EFinished \<or> (\<exists>cp. rsp = EError cp) \<and> mode = fatal")
    case True
    with run s less.prems(3) show ?thesis by (auto simp: eresume_def)
  next
    case False
    then obtain b where b: "encode_loop eh st q out mode = encode_loop eh st' q' (out @ b) mode" "is_bytes b"
      using run ok s ncr by (cases rsp) (auto simp: eresume_def estep_ok_def)
    from False ok s have "weight st' q' < weight st q" "list_all is_scalar q'" by (auto simp: estep_ok_def)
    from less.hyps [OF this(1) less.prems(1) this(2), of "out @ b"] b less.prems(3) show ?thesis by auto
  qed
qed

end

section \<open>The encoders\<close>

lemma stateless_encoder:
  assumes char: "\<And>c q st. ok \<Longrightarrow> is_scalar c \<Longrightarrow>
      (\<exists>bs. eh st q (Some c) = Inr (st, q, EBytes bs) \<and> is_bytes bs) \<or> (\<exists>e. eh st q (Some c) = Inr (st, q, EError e))"
    and fin: "\<And>st. eh st [] None = Inr (st, [], EFinished)"
  shows "encoder eh ok (\<lambda>_ q. length q)"
proof unfold_locales
  fix c q st
  assume "ok" "is_scalar c" "list_all is_scalar q"
  with char [of c st q] show "estep_ok (\<lambda>_ q. length q) (length (c # q)) (eh st q (Some c))"
    by (auto simp: estep_ok_def)
qed (simp add: fin estep_ok_def)

lemma answer_bytes_Inr: "is_bytes xs \<Longrightarrow> answer_bytes st q xs = Inr (st, q, EBytes xs)"
  by (simp add: answer_bytes_def)

lemma grid_bytes:
  fixes p :: int
  assumes "0 \<le> p"
  shows "p < 23940 \<Longrightarrow> is_bytes [p div 190 + 0x81, p mod 190 + 0x41]"
    and "p < 23940 \<Longrightarrow> is_bytes (gb_two_bytes p)"
    and "p < 19782 \<Longrightarrow> is_bytes (big5_two_bytes p)"
    and "p < 11280 \<Longrightarrow> is_bytes (sjis_two_bytes p)"
    and "p < 8836 \<Longrightarrow> is_bytes [p div 94 + 0xA1, p mod 94 + 0xA1]"
    and "p < 8836 \<Longrightarrow> is_bytes [p div 94 + 0x21, p mod 94 + 0x21]"
    and "p < 1587600 \<Longrightarrow> is_bytes (gb_four_bytes p)"
  using assms pos_mod_bound [of 190 p] pos_mod_bound [of 157 p] pos_mod_bound [of 188 p] pos_mod_bound [of 94 p]
  unfolding gb_two_bytes_def big5_two_bytes_def sjis_two_bytes_def gb_four_bytes_def Let_def is_bytes_simps is_byte_def
  by (auto simp: div_less_iff_less_mult)

lemma scalar_byte: "is_scalar c \<Longrightarrow> c < 0x100 \<Longrightarrow> is_byte c"
  by (simp add: is_scalar_def is_byte_def)

lemma half_width_byte: "0xFF61 \<le> c \<Longrightarrow> c \<le> 0xFF9F \<Longrightarrow> is_byte (c - 0xFF61 + 0xA1)"
  by (simp add: is_byte_def)

lemma byte_numerals: "is_byte 0x5C" "is_byte 0x7E" "is_byte 0x8E" "is_byte 0x80" "is_byte 0x1B"
  "is_byte 0x28" "is_byte 0x42" "is_byte 0x4A" "is_byte 0x24"
  by (simp_all add: is_byte_def)

lemmas estep_simps = answer_bytes_Inr grid_bytes(2-4,7) grid_bytes(1,5,6) [unfolded is_bytes_simps]
  scalar_byte half_width_byte [simplified] byte_numerals Let_def

lemma kr_estep: "tables_wf t \<Longrightarrow> is_scalar c \<Longrightarrow>
   (\<exists>bs. euc_kr_ehandler t st q (Some c) = Inr (st, q, EBytes bs) \<and> is_bytes bs) \<or>
   (\<exists>e. euc_kr_ehandler t st q (Some c) = Inr (st, q, EError e))"
  using euckr_ptr(2,3) [of t c]
  by (auto simp: euc_kr_ehandler_def estep_simps split: option.split)

interpretation kre: encoder "euc_kr_ehandler t" "tables_wf t" "\<lambda>_ q. length q" for t
  by (rule stateless_encoder) (simp_all add: kr_estep, simp add: euc_kr_ehandler_def)

lemma b5_estep: "tables_wf t \<Longrightarrow> is_scalar c \<Longrightarrow>
   (\<exists>bs. big5_ehandler t st q (Some c) = Inr (st, q, EBytes bs) \<and> is_bytes bs) \<or>
   (\<exists>e. big5_ehandler t st q (Some c) = Inr (st, q, EError e))"
  using big5_ptr_props(2,3) [of t c]
  by (auto simp: big5_ehandler_def estep_simps split: option.split)

interpretation b5e: encoder "big5_ehandler t" "tables_wf t" "\<lambda>_ q. length q" for t
  by (rule stateless_encoder) (simp_all add: b5_estep, simp add: big5_ehandler_def)

lemma ej_estep: "tables_wf t \<Longrightarrow> is_scalar c \<Longrightarrow>
   (\<exists>bs. euc_jp_ehandler t st q (Some c) = Inr (st, q, EBytes bs) \<and> is_bytes bs) \<or>
   (\<exists>e. euc_jp_ehandler t st q (Some c) = Inr (st, q, EError e))"
  using jis0208_ptr(2,3) [of t c] jis0208_ptr(2,3) [of t "0xFF0D"]
  by (auto simp: euc_jp_ehandler_def estep_simps split: option.split)

interpretation eje: encoder "euc_jp_ehandler t" "tables_wf t" "\<lambda>_ q. length q" for t
  by (rule stateless_encoder) (simp_all add: ej_estep, simp add: euc_jp_ehandler_def)

lemma sj_estep: "tables_wf t \<Longrightarrow> is_scalar c \<Longrightarrow>
   (\<exists>bs. shift_jis_ehandler t st q (Some c) = Inr (st, q, EBytes bs) \<and> is_bytes bs) \<or>
   (\<exists>e. shift_jis_ehandler t st q (Some c) = Inr (st, q, EError e))"
  using sjis_ptr(2,3) [of t c] sjis_ptr(2,3) [of t "0xFF0D"]
  by (auto simp: shift_jis_ehandler_def estep_simps split: option.split)

interpretation sje: encoder "shift_jis_ehandler t" "tables_wf t" "\<lambda>_ q. length q" for t
  by (rule stateless_encoder) (simp_all add: sj_estep, simp add: shift_jis_ehandler_def)

lemma gb_ranges_pointer_ok:
  assumes wf: "tables_wf t" and c: "0x80 \<le> c" "is_scalar c"
  shows "\<exists>p. gb_ranges_pointer t c = Inr p \<and> 0 \<le> p \<and> p < 1587600"
proof (cases "c = 0xE7C7")
  case False
  note g = tables_wf_gbr [OF wf]
  have ne: "filter (\<lambda>(c', p). c' \<le> c) (GBR_CPS t) \<noteq> []"
    using c(1) map_of_SomeD [OF g(4)] by (force simp: g(2) filter_empty_conv)
  then obtain c0 p0 where m: "py_max (filter (\<lambda>(c', p). c' \<le> c) (GBR_CPS t)) = Inr (c0, p0)"
    by (cases "py_max (filter (\<lambda>(c', p). c' \<le> c) (GBR_CPS t))") (auto simp: py_max_def split: list.splits)
  then have mem: "(p0, c0) \<in> set (GBR t)" "c0 \<le> c" by (auto simp: py_max_Inr g(2))
  then have "p0 \<le> 189000" "c0 \<ge> 0x80 \<or> c0 \<ge> 0"
    using gbr_chain_le [OF g(5), of p0 c0] gbr_chain_next [OF g(5), of p0 c0] gbr_chain_top [OF g(5), of c0]
    by auto (metis linear order_trans zero_le_numeral)
  moreover have "0 \<le> p0" using wf mem(1) by (auto simp: tables_wf_def indexes_wf_def indexes_of_def list_all_iff)
  ultimately show ?thesis using False m mem(2) c(2) by (auto simp: gb_ranges_pointer_def is_scalar_def)
qed (simp add: gb_ranges_pointer_def)

lemma gb_side_bytes: "gb_side c = Some bs \<Longrightarrow> is_bytes bs"
  by (auto simp: gb_side_def is_byte_def split: if_splits)

lemma gb_estep:
  assumes "tables_wf t" "is_scalar c"
  shows "(\<exists>bs. gb18030_ehandler t st q (Some c) = Inr (st, q, EBytes bs) \<and> is_bytes bs) \<or>
   (\<exists>e. gb18030_ehandler t st q (Some c) = Inr (st, q, EError e))"
proof (cases "c < 0x80")
  case True
  with assms(2) show ?thesis by (simp add: gb18030_ehandler_def answer_bytes_Inr is_scalar_def is_byte_def)
next
  case False
  then obtain p where "gb_ranges_pointer t c = Inr p" "0 \<le> p" "p < 1587600"
    using gb_ranges_pointer_ok [OF assms(1) _ assms(2)] by auto
  with False gb_ptr(2,3) [OF assms(1)] gb_side_bytes [of c] show ?thesis
    by (auto simp: gb18030_ehandler_def estep_simps split: option.split)
qed

interpretation gbe: encoder "gb18030_ehandler t" "tables_wf t" "\<lambda>_ q. length q" for t
  by (rule stateless_encoder) (simp_all add: gb_estep, simp add: gb18030_ehandler_def)

lemma iso_map_ok:
  assumes "tables_wf t" "is_scalar c"
  shows "iso_map t c = Inr (iso_norm t c)" "is_scalar (iso_norm t c)"
proof -
  have "list_all (\<lambda>i. map_of (KATA t) i \<noteq> None) [0..62]"
    using assms(1) by (simp add: tables_wf_def indexes_wf_def indexes_of_def)
  then have "map_of (KATA t) (c - 0xFF61) \<noteq> None" if "0xFF61 \<le> c" "c \<le> 0xFF9F"
    using that by (simp add: list_all_iff)
  then have "\<exists>d. iso_map t c = Inr d" by (cases "c = 0x2212") (auto simp: iso_map_def Let_def)
  then obtain d where d: "iso_map t c = Inr d" ..
  then show "iso_map t c = Inr (iso_norm t c)" by (simp add: iso_norm_def)
  have "is_scalar d"
  proof (rule iso_map_cases [OF assms(1) d])
    fix p assume "map_of (JIS0208_PTR t) d = Some p"
    then show ?thesis using jis0208_value(2) [OF assms(1)] by blast
  qed (use assms(2) in \<open>simp_all add: is_scalar_def\<close>)
  with d show "is_scalar (iso_norm t c)" by (simp add: iso_norm_def)
qed

lemma iso_estep:
  assumes "tables_wf t" "is_scalar c"
  shows "\<exists>s' q' r. iso_ehandler t s q (Some c) = Inr (s', q', r) \<and>
    ((\<exists>bs. r = EBytes bs \<and> is_bytes bs) \<or> q' = q \<and> (\<exists>e. r = EError e))"
  using assms iso_map_ok [OF assms] jis0208_ptr(2,3) [OF assms(1)]
  by (auto simp: iso_ehandler_def estep_simps split: option.split)

lemma iso_weight_Cons: "2 * length q + 2 \<le> iso_weight t es (c # q)"
  by (simp add: iso_weight_def)

interpretation isoe: encoder "iso_ehandler t" "tables_wf t" "iso_weight t" for t
proof unfold_locales
  fix c q st
  assume wf: "tables_wf t" and c: "is_scalar c" and q: "list_all is_scalar q"
  obtain s' q' r where s: "iso_ehandler t st q (Some c) = Inr (s', q', r)"
    "(\<exists>bs. r = EBytes bs \<and> is_bytes bs) \<or> q' = q \<and> (\<exists>e. r = EError e)"
    using iso_estep [OF wf c] by blast
  have "list_all is_scalar q' \<and> iso_weight t s' q' < iso_weight t st (c # q)"
  proof (cases "q' = q")
    case True
    with q iso_weight_le [of t s' q] iso_weight_Cons [of q t st c] show ?thesis by simp
  next
    case False
    with s obtain bs where r: "iso_ehandler t st q (Some c) = Inr (s', q', EBytes bs)" by auto
    with iso_step_answers [OF r] False have a: "q' = iso_norm t c # q" "iso_answers t st c (Switch s' bs)" by auto
    have "\<not> settles t st c" using r False by (auto simp: settles_def)
    with settles_after_switch(1) [OF wf a(2)] a(1) q iso_map_ok(2) [OF wf c] show ?thesis
      by (simp add: iso_weight_def)
  qed
  with s show "estep_ok (iso_weight t) (iso_weight t st (c # q)) (iso_ehandler t st q (Some c))"
    by (auto simp: estep_ok_def)
next
  fix st
  show "estep_ok (iso_weight t) (iso_weight t st []) (iso_ehandler t st [] None)"
    by (simp add: estep_ok_def iso_ehandler_def iso_weight_def byte_numerals)
qed

lemma encode_returns:
  assumes "tables_wf t" "list_all is_scalar cps"
  shows "\<exists>r. encode t enc cps mode = Some (Inr r) \<and> (r = None \<longrightarrow> mode = fatal) \<and> (\<forall>bs. r = Some bs \<longrightarrow> is_bytes bs)"
  by (cases enc) (simp_all only: encode_def encoding.case kre.ereturns [OF assms] b5e.ereturns [OF assms]
      eje.ereturns [OF assms] sje.ereturns [OF assms] gbe.ereturns [OF assms] isoe.ereturns [OF assms] is_bytes_simps)

end
