(* ===== verification/Sha256.thy ===== *)
theory Sha256
  imports Prelude
begin

text \<open>
  \<open>hashlib.sha256\<close> as the scripts use it: \<open>sha256(data).digest()\<close>, an incremental \<open>update\<close>
  (the digest of the concatenation) and \<open>hexdigest\<close>.  The compression function works on 32-bit
  words; the message and the digest are bytes.  What the other theories rely on is that a digest
  is 32 bytes.
\<close>

type_synonym w32 = "32 word"

definition sha_k :: "w32 list" where
  "sha_k =
    [0x428A2F98, 0x71374491, 0xB5C0FBCF, 0xE9B5DBA5, 0x3956C25B, 0x59F111F1,
     0x923F82A4, 0xAB1C5ED5, 0xD807AA98, 0x12835B01, 0x243185BE, 0x550C7DC3,
     0x72BE5D74, 0x80DEB1FE, 0x9BDC06A7, 0xC19BF174, 0xE49B69C1, 0xEFBE4786,
     0x0FC19DC6, 0x240CA1CC, 0x2DE92C6F, 0x4A7484AA, 0x5CB0A9DC, 0x76F988DA,
     0x983E5152, 0xA831C66D, 0xB00327C8, 0xBF597FC7, 0xC6E00BF3, 0xD5A79147,
     0x06CA6351, 0x14292967, 0x27B70A85, 0x2E1B2138, 0x4D2C6DFC, 0x53380D13,
     0x650A7354, 0x766A0ABB, 0x81C2C92E, 0x92722C85, 0xA2BFE8A1, 0xA81A664B,
     0xC24B8B70, 0xC76C51A3, 0xD192E819, 0xD6990624, 0xF40E3585, 0x106AA070,
     0x19A4C116, 0x1E376C08, 0x2748774C, 0x34B0BCB5, 0x391C0CB3, 0x4ED8AA4A,
     0x5B9CCA4F, 0x682E6FF3, 0x748F82EE, 0x78A5636F, 0x84C87814, 0x8CC70208,
     0x90BEFFFA, 0xA4506CEB, 0xBEF9A3F7, 0xC67178F2]"

definition ror32 :: "nat \<Rightarrow> w32 \<Rightarrow> w32" where
  "ror32 n x = drop_bit n x OR push_bit (32 - n) x"

section \<open>Padding and the message schedule\<close>

definition sha_pad :: "bytes \<Rightarrow> bytes" where
  "sha_pad m = m @ [0x80] @ replicate ((119 - length m mod 64) mod 64) 0 @ rev (le_bytes 8 (8 * int (length m)))"

definition be_word :: "bytes \<Rightarrow> w32" where
  "be_word bs = word_of_int (from_be bs)"

fun chunks :: "nat \<Rightarrow> nat \<Rightarrow> 'a list \<Rightarrow> 'a list list" where
  "chunks n 0 xs = []"
| "chunks n (Suc k) xs = take n xs # chunks n k (drop n xs)"

text \<open>The schedule is built backwards: the list holds \<open>w[i-1], w[i-2], \<dots>\<close>.\<close>

fun sha_expand :: "nat \<Rightarrow> w32 list \<Rightarrow> w32 list" where
  "sha_expand 0 ws = ws"
| "sha_expand (Suc k) ws =
     (let w15 = ws ! 14; w2 = ws ! 1;
          s0 = ror32 7 w15 XOR ror32 18 w15 XOR drop_bit 3 w15;
          s1 = ror32 17 w2 XOR ror32 19 w2 XOR drop_bit 10 w2
      in sha_expand k ((ws ! 15 + s0 + ws ! 6 + s1) # ws))"

definition sha_schedule :: "bytes \<Rightarrow> w32 list" where
  "sha_schedule block = rev (sha_expand 48 (rev (map be_word (chunks 4 16 block))))"

section \<open>Compression\<close>

type_synonym sha_state = "w32 \<times> w32 \<times> w32 \<times> w32 \<times> w32 \<times> w32 \<times> w32 \<times> w32"

fun sha_round :: "sha_state \<Rightarrow> w32 \<Rightarrow> sha_state" where
  "sha_round (a, b, c, d, e, f, g, h) kw =
     (let s1 = ror32 6 e XOR ror32 11 e XOR ror32 25 e;
          ch = (e AND f) XOR (NOT e AND g);
          t1 = h + s1 + ch + kw;
          s0 = ror32 2 a XOR ror32 13 a XOR ror32 22 a;
          maj = (a AND b) XOR (a AND c) XOR (b AND c)
      in (t1 + (s0 + maj), a, b, c, d + t1, e, f, g))"

fun sha_add :: "sha_state \<Rightarrow> sha_state \<Rightarrow> sha_state" where
  "sha_add (a, b, c, d, e, f, g, h) (a', b', c', d', e', f', g', h') =
     (a + a', b + b', c + c', d + d', e + e', f + f', g + g', h + h')"

definition sha_compress :: "sha_state \<Rightarrow> bytes \<Rightarrow> sha_state" where
  "sha_compress st block = sha_add st (foldl sha_round st (map2 (+) sha_k (sha_schedule block)))"

definition sha_start :: sha_state where
  "sha_start = (0x6A09E667, 0xBB67AE85, 0x3C6EF372, 0xA54FF53A, 0x510E527F, 0x9B05688C, 0x1F83D9AB, 0x5BE0CD19)"

fun sha_output :: "sha_state \<Rightarrow> bytes" where
  "sha_output (a, b, c, d, e, f, g, h) =
     concat (map (\<lambda>w. rev (le_bytes 4 (uint w))) [a, b, c, d, e, f, g, h])"

definition sha256 :: "bytes \<Rightarrow> bytes" where
  "sha256 m = (let p = sha_pad m in
     sha_output (foldl sha_compress sha_start (chunks 64 (length p div 64) p)))"

lemma sha_output_bytes: "is_bytes (sha_output st)" "length (sha_output st) = 32"
  by (cases st rule: sha_output.cases; simp)+

lemma is_bytes_sha256 [simp]: "is_bytes (sha256 m)"
  by (simp add: sha256_def Let_def sha_output_bytes)

lemma length_sha256 [simp]: "length (sha256 m) = 32"
  by (simp add: sha256_def Let_def sha_output_bytes)

text \<open>The padded message is a whole number of blocks.\<close>

lemma pad_residue: "(r :: nat) < 64 \<Longrightarrow> (r + (9 + (119 - r) mod 64)) mod 64 = 0"
proof (cases "r < 56")
  case True
  then have "119 - r = 64 + (55 - r)" by simp
  then have "(119 - r) mod 64 = 55 - r" by (simp only: mod_add_self1) simp
  with True show ?thesis by simp
qed simp

lemma sha_pad_blocks: "length (sha_pad m) mod 64 = 0"
proof -
  have "(length m mod 64 + (9 + (119 - length m mod 64) mod 64)) mod 64 = 0" by (rule pad_residue) simp
  then have "(length m + (9 + (119 - length m mod 64) mod 64)) mod 64 = 0" by (simp only: mod_add_left_eq)
  then show ?thesis by (simp add: sha_pad_def ac_simps)
qed

section \<open>Hexadecimal text\<close>

definition hex_digit :: "int \<Rightarrow> char" where
  "hex_digit n = (''0123456789abcdef'' ! nat (n mod 16))"

definition hex :: "bytes \<Rightarrow> string" where
  "hex bs = concat (map (\<lambda>b. [hex_digit (b div 16), hex_digit (b mod 16)]) bs)"

end
