(* ===== verification/Cjk_Oracle.thy ===== *)
theory Cjk_Oracle
  imports Cjk_Encode_Total Sha256 "HOL-Library.List_Lexorder" "HOL-Library.Char_ord" "HOL-Library.Multiset"
begin

text \<open>
  The comparison of \<open>std_ref.py\<close> with the answers of the Go library: the domains, the answer
  stream and its digest, the classes of divergence, the runs of diverging cases and the generated
  Zig file.  Files are arguments: the lines of \<open>inputs.txt\<close> and the bytes of each answer file.
\<close>

section \<open>Strict UTF-8, as \<open>bytes.decode\<close> reads it\<close>

definition utf8_cont :: "int \<Rightarrow> bool" where
  "utf8_cont b \<longleftrightarrow> 0x80 \<le> b \<and> b \<le> 0xBF"

fun utf8_decode :: "bytes \<Rightarrow> int list result" where
  "utf8_decode [] = Inr []"
| "utf8_decode (a # r) =
    (if a < 0x80 then rbind (utf8_decode r) (\<lambda>cs. Inr (a # cs))
     else if 0xC2 \<le> a \<and> a \<le> 0xDF then
       (case r of b # r' \<Rightarrow>
          if utf8_cont b then rbind (utf8_decode r') (\<lambda>cs. Inr (((a - 0xC0) * 64 + (b - 0x80)) # cs))
          else Inl UnicodeError
        | _ \<Rightarrow> Inl UnicodeError)
     else if 0xE0 \<le> a \<and> a \<le> 0xEF then
       (case r of b # c # r' \<Rightarrow>
          if utf8_cont b \<and> utf8_cont c \<and> (a = 0xE0 \<longrightarrow> 0xA0 \<le> b) \<and> (a = 0xED \<longrightarrow> b \<le> 0x9F)
          then rbind (utf8_decode r') (\<lambda>cs. Inr (((a - 0xE0) * 4096 + (b - 0x80) * 64 + (c - 0x80)) # cs))
          else Inl UnicodeError
        | _ \<Rightarrow> Inl UnicodeError)
     else if 0xF0 \<le> a \<and> a \<le> 0xF4 then
       (case r of b # c # d # r' \<Rightarrow>
          if utf8_cont b \<and> utf8_cont c \<and> utf8_cont d \<and> (a = 0xF0 \<longrightarrow> 0x90 \<le> b) \<and> (a = 0xF4 \<longrightarrow> b \<le> 0x8F)
          then rbind (utf8_decode r')
            (\<lambda>cs. Inr (((a - 0xF0) * 262144 + (b - 0x80) * 4096 + (c - 0x80) * 64 + (d - 0x80)) # cs))
          else Inl UnicodeError
        | _ \<Rightarrow> Inl UnicodeError)
     else Inl UnicodeError)"

section \<open>Domains\<close>

definition e1_cps :: "int list" where
  "e1_cps = filter (\<lambda>c. \<not> (0xD800 \<le> c \<and> c \<le> 0xDFFF)) [0..0x2FFFF]
     @ map (\<lambda>k. 0x30000 + 7 * k) [0..131071] @ [0x10FFFF]"

type_synonym inputs = "(string \<times> bytes list) list"

definition domain :: "string \<Rightarrow> inputs \<Rightarrow> bytes list result" where
  "domain name ins =
     (if name = ''d1'' then Inr (map (\<lambda>i. [i]) [0..255])
      else if name = ''d2'' then Inr (map (\<lambda>i. [i div 256, i mod 256]) [0..65535])
      else if name = ''d3'' then Inr (map (\<lambda>i. [0x8F, i div 256, i mod 256]) [0..65535])
      else if name = ''d4'' then Inr [[a, b, c, d]. a \<leftarrow> [0x81..0xFE], b \<leftarrow> [0x30..0x39], c \<leftarrow> [0x81..0xFE], d \<leftarrow> [0x30..0x39]]
      else if name = ''d5'' \<or> name = ''d6'' \<or> name = ''e2'' then
        (case map_of ins name of None \<Rightarrow> Inl KeyError | Some xs \<Rightarrow> Inr xs)
      else Inl KeyError)"

section \<open>The answer stream\<close>

type_synonym answer = "bytes option"

function read_answers :: "bytes \<Rightarrow> answer list result" where
  "read_answers data =
     (if data = [] then Inr []
      else if length data < 4 then Inl StructError
      else (let n = from_le (take 4 data); rest = drop 4 data in
        if n = 0xFFFFFFFF then rbind (read_answers rest) (\<lambda>out. Inr (None # out))
        else rbind (read_answers (drop (nat n) rest)) (\<lambda>out. Inr (Some (take (nat n) rest) # out))))"
  by pat_completeness auto
termination
  by (relation "measure length") auto

declare read_answers.simps [simp del]

text \<open>\<open>struct.pack("<I", n)\<close> raises outside 32 bits.\<close>

definition answer_bytes_of :: "answer \<Rightarrow> bytes result" where
  "answer_bytes_of a = (case a of
     None \<Rightarrow> Inr (le_bytes 4 0xFFFFFFFF)
   | Some bs \<Rightarrow> if int (length bs) < 2 ^ 32 then Inr (le_bytes 4 (int (length bs)) @ bs) else Inl StructError)"

definition answer_stream :: "answer list \<Rightarrow> bytes result" where
  "answer_stream answers = rbind (rmap answer_bytes_of answers) (\<lambda>bss. Inr (concat bss))"

definition stream_digest :: "answer list \<Rightarrow> string result" where
  "stream_digest answers = rbind (answer_stream answers) (\<lambda>bs. Inr (hex (sha256 bs)))"

section \<open>Classes of divergence\<close>

definition shape_char :: "int \<Rightarrow> char" where
  "shape_char c = (if c = 0xFFFD then CHR ''F'' else if c < 0x80 then CHR ''a''
     else if 0xE000 \<le> c \<and> c \<le> 0xF8FF then CHR ''P'' else CHR ''c'')"

definition shape :: "answer \<Rightarrow> string result" where
  "shape out = (case out of None \<Rightarrow> Inl AttributeError
     | Some bs \<Rightarrow> rbind (utf8_decode bs) (\<lambda>t. Inr (map shape_char t)))"

definition RULES :: "(string \<times> string) list" where
  "RULES =
    [(''sjis-eudc'',
      ''Shift_JIS decoder: pointers 8836..10715 (lead 0xF0-0xF9) are EUDC, code point 0xE000 - 8836 + pointer (Go: U+FFFD).''),
     (''ascii-trail-restore'',
      ''Decoders of Shift_JIS/Big5/gb18030: an ASCII byte that fails as a trail byte is `restore`d to the stream (it is decoded on its own after the U+FFFD); Go swallows it.''),
     (''nonascii-trail-consumed'',
      ''Decoders of EUC-JP/gb18030: a non-ASCII byte that fails as a trail byte is consumed with the lead byte: ONE U+FFFD (Go emits two).''),
     (''gb-user-defined'',
      ''gb18030 index: 0xA140-0xA7A0, 0xAAA1-0xAFFE, 0xF8A1-0xFEFE map to Private Use code points (Go: U+FFFD).''),
     (''gb-2022-two-byte'',
      ''gb18030 index (GB18030-2022): 0xA6D9..0xA6F3, 0xA8BC, 0xFE50..0xFEA0 map to U+FE10.., U+1E3F, U+9FB4.. as two bytes (Go: U+FFFD).''),
     (''gb-truncated-four-byte'',
      ''gb18030 decoder: a four-byte form cut short (lead, digit, ...) at the end of the input is ONE error (end-of-queue with first/second/third set); Go emits U+FFFD then the digit.''),
     (''gb-four-byte-gap'',
      ''gb18030 ranges: a four-byte pointer in 39420..188999 (or > 1237575) has no code point: ONE error consuming all four bytes (Go re-reads the digits).''),
     (''gb-e7c7'',
      ''gb18030 ranges: pointer 7457 is U+E7C7 (the 2005 change handled inline); Go: U+1E3F.''),
     (''iso-so-si'',
      ''ISO-2022-JP decoder: 0x0E and 0x0F are errors in the ASCII, Roman, katakana and lead-byte states (Go passes them through).''),
     (''iso-escape-recovery'',
      ''ISO-2022-JP decoder: an escape that is not one of the five known ones is an error and its bytes are restored; a repeated or interrupted escape is an error (Go differs in how many bytes the error swallows).''),
     (''e-sjis-special'',
      ''Shift_JIS encoder: U+0080 -> 0x80, U+00A5 -> 0x5C, U+203E -> 0x7E, U+2212 -> U+FF0D (Go: unmappable).''),
     (''e-sjis-nec-ibm'',
      ''index Shift_JIS pointer: pointers 8272..8835 (NEC-selected IBM extensions, rows 0xED/0xEE) are excluded, so the IBM extension rows 0xFA-0xFC are used (Go: 0xED/0xEE).''),
     (''e-eucjp-special'',
      ''EUC-JP encoder: U+00A5 -> 0x5C, U+203E -> 0x7E, U+2212 -> U+FF0D (Go: unmappable).''),
     (''e-eucjp-no-jis0212'',
      ''EUC-JP encoder uses index jis0208 only: a character only in jis0212 is unmappable (Go writes 0x8F + two bytes).''),
     (''e-iso-special'',
      ''ISO-2022-JP encoder: U+00A5/U+203E switch to the Roman state (ESC ( J), U+2212 -> U+FF0D (Go: unmappable).''),
     (''e-iso-controls'',
      ''ISO-2022-JP encoder: U+000E, U+000F, U+001B are an error (with U+FFFD) in the ASCII and Roman states (Go passes them).''),
     (''e-iso-katakana'',
      ''ISO-2022-JP encoder: U+FF61..U+FF9F are mapped through index ISO-2022-JP katakana to full-width and written in the jis0208 state (Go: ESC ( I half-width).''),
     (''e-gb-e5e5'',
      ''gb18030 encoder: U+E5E5 is an error (0xA3 0xA0 decodes to U+3000, so it cannot round-trip); Go writes a four-byte form.''),
     (''e-gb-two-byte'',
      ''gb18030 encoder: the side table (Private Use code points of GB18030-2022) and index gb18030 give these two bytes; Go writes four bytes (gb18030) or nothing (GBK).''),
     (''e-big5-hkscs'',
      ''index Big5 pointer: pointers below (0xA1 - 0x81) * 157 (the HKSCS extension) are excluded from the encoder (Go encodes them).''),
     (''e-big5-duplicate'',
      ''index Big5 pointer: for a duplicated code point the FIRST pointer is used (Go: the last), except U+2550, U+255E, U+2561, U+256A, U+5341, U+5345 (last).''),
     (''random-composite'',
      ''A random input; every divergence contains at least one construct of the classes above, not attributed individually.'')]"

definition py_getitem :: "('k \<times> 'v) list \<Rightarrow> 'k \<Rightarrow> 'v result" where
  "py_getitem d k = (case map_of d k of None \<Rightarrow> Inl KeyError | Some v \<Rightarrow> Inr v)"

text \<open>The encoder domain \<open>e1\<close>: one code point per case.\<close>

definition classify_e1 :: "encoding \<Rightarrow> int \<Rightarrow> answer \<Rightarrow> answer \<Rightarrow> string result" where
  "classify_e1 enc c go std =
     (case enc of
        shift_jis \<Rightarrow> Inr (if c \<in> set [0x80, 0xA5, 0x203E, 0x2212] then ''e-sjis-special'' else ''e-sjis-nec-ibm'')
      | euc_jp \<Rightarrow> Inr (if c \<in> set [0xA5, 0x203E, 0x2212] then ''e-eucjp-special'' else ''e-eucjp-no-jis0212'')
      | iso_2022_jp \<Rightarrow> Inr (if c \<in> set [0x0E, 0x0F, 0x1B] then ''e-iso-controls''
          else if 0xFF61 \<le> c \<and> c \<le> 0xFF9F then ''e-iso-katakana'' else ''e-iso-special'')
      | gb18030 \<Rightarrow> Inr (if c = 0xE5E5 then ''e-gb-e5e5'' else ''e-gb-two-byte'')
      | gbk \<Rightarrow> Inr (if c = 0xE5E5 then ''e-gb-e5e5'' else ''e-gb-two-byte'')
      | big5 \<Rightarrow> Inr (if go \<noteq> None \<and> std = None then ''e-big5-hkscs'' else ''e-big5-duplicate'')
      | euc_kr \<Rightarrow> Inl AssertionError)"

definition drop_F :: "string \<Rightarrow> string" where
  "drop_F s = filter (\<lambda>c. c \<noteq> CHR ''F'') s"

text \<open>The decoder domains, on the shapes of the two answers.\<close>

definition classify_shapes :: "encoding \<Rightarrow> string \<Rightarrow> bytes \<Rightarrow> string \<Rightarrow> string \<Rightarrow> string result" where
  "classify_shapes enc dm inp g s =
     (if enc = shift_jis \<and> (g, s) = (''F'', ''P'') then Inr ''sjis-eudc''
      else if enc = shift_jis \<and> (g, s) = (''F'', ''Fa'') then Inr ''ascii-trail-restore''
      else if enc = big5 \<and> (g, s) \<in> set [(''F'', ''Fa''), (''Fa'', ''Faa''), (''FF'', ''FaF'')]
      then Inr ''ascii-trail-restore''
      else if enc = euc_jp \<and> count_list g (CHR ''F'') > count_list s (CHR ''F'') \<and> drop_F g = drop_F s
           \<or> enc = euc_jp \<and> (g, s) = (''Fc'', ''FF'')
      then Inr ''nonascii-trail-consumed''
      else if (enc = gb18030 \<or> enc = gbk) \<and> dm = ''d2'' then
        py_getitem [((''F'', ''P''), ''gb-user-defined''), ((''Fa'', ''F''), ''gb-truncated-four-byte''),
          ((''FF'', ''F''), ''nonascii-trail-consumed''), ((''F'', ''c''), ''gb-2022-two-byte'')] (g, s)
      else if (enc = gb18030 \<or> enc = gbk) \<and> dm = ''d3'' then
        py_getitem [((''FaF'', ''F''), ''gb-truncated-four-byte''), ((''FFa'', ''Fa''), ''nonascii-trail-consumed''),
          ((''FFF'', ''FF''), ''nonascii-trail-consumed''), ((''FFc'', ''Fc''), ''nonascii-trail-consumed'')] (g, s)
      else if (enc = gb18030 \<or> enc = gbk) \<and> dm = ''d4'' then
        py_getitem [((''FaFa'', ''F''), ''gb-four-byte-gap''), ((''c'', ''P''), ''gb-e7c7'')] (g, s)
      else if enc = iso_2022_jp then
        Inr (if \<exists>b \<in> set inp. b = 0x0E \<or> b = 0x0F then ''iso-so-si'' else ''iso-escape-recovery'')
      else Inl AssertionError)"

definition classify :: "encoding \<Rightarrow> string \<Rightarrow> nat \<Rightarrow> bytes \<Rightarrow> answer \<Rightarrow> answer \<Rightarrow> int list \<Rightarrow> string result" where
  "classify enc dm idx inp go std cps =
     (if dm = ''d5'' \<or> dm = ''d6'' \<or> dm = ''e2'' then Inr ''random-composite''
      else if dm = ''e1'' then
        (if idx < length cps then classify_e1 enc (cps ! idx) go std else Inl IndexError)
      else rbind (shape go) (\<lambda>g. rbind (shape std) (\<lambda>s. classify_shapes enc dm inp g s)))"

section \<open>Runs\<close>

text \<open>The runs are collected in reverse: the head is \<open>runs[-1]\<close>.\<close>

fun runs_step :: "(int \<times> int) list \<Rightarrow> int \<Rightarrow> (int \<times> int) list" where
  "runs_step [] i = [(i, 1)]"
| "runs_step ((s, n) # rs) i = (if s + n = i then (s, n + 1) # rs else (i, 1) # (s, n) # rs)"

definition runs_of :: "int list \<Rightarrow> (int \<times> int) list" where
  "runs_of idxs = rev (foldl runs_step [] idxs)"

text \<open>\<open>bytes.fromhex\<close>: pairs of hexadecimal digits, ASCII whitespace allowed between pairs.\<close>

fun fromhex :: "string \<Rightarrow> bytes result" where
  "fromhex [] = Inr []"
| "fromhex [a] = (if is_space a \<and> (of_char a < (28 :: int) \<or> a = CHR '' '') then Inr [] else Inl ValueError)"
| "fromhex (a # b # r) =
     (if is_space a \<and> (of_char a < (28 :: int) \<or> a = CHR '' '') then fromhex (b # r)
      else case (digit_value a, digit_value b) of
        (Some x, Some y) \<Rightarrow> rbind (fromhex r) (\<lambda>bs. Inr ((16 * x + y) # bs))
      | _ \<Rightarrow> Inl ValueError)"

definition rstrip_newline :: "string \<Rightarrow> string" where
  "rstrip_newline s = rev (dropWhile (\<lambda>c. c = CHR 0x0A) (rev s))"

definition rmap_ok :: "('a \<Rightarrow> 'b) \<Rightarrow> 'a result \<Rightarrow> 'b result" where
  "rmap_ok f r = rbind r (\<lambda>x. Inr (f x))"

definition opt_list :: "'a option \<Rightarrow> 'a list" where
  "opt_list x = (case x of None \<Rightarrow> [] | Some y \<Rightarrow> [y])"

text \<open>\<open>"0x%06X"\<close>.\<close>

definition upper_hex_digit :: "int \<Rightarrow> char" where
  "upper_hex_digit n = ''0123456789ABCDEF'' ! nat (n mod 16)"

fun hex_digits :: "nat \<Rightarrow> int \<Rightarrow> string" where
  "hex_digits 0 n = []"
| "hex_digits (Suc k) n = (if n = 0 then [] else hex_digits k (n div 16) @ [upper_hex_digit n])"

definition hex06 :: "int \<Rightarrow> string" where
  "hex06 n = (let ds = hex_digits 16 n in ''0x'' @ replicate (6 - length ds) (CHR ''0'') @ ds)"

section \<open>One encoding on one domain\<close>

record cresult =
  r_enc :: string
  r_dom :: string
  r_n :: int
  r_std :: string
  r_go_agree :: string
  r_std_div :: string
  r_runs :: "(int \<times> int) list"
  r_ndiv :: int

definition enc_name :: "encoding \<Rightarrow> string" where
  "enc_name enc = (case enc of shift_jis \<Rightarrow> ''shift_jis'' | euc_jp \<Rightarrow> ''euc_jp'' | iso_2022_jp \<Rightarrow> ''iso_2022_jp''
     | euc_kr \<Rightarrow> ''euc_kr'' | gb18030 \<Rightarrow> ''gb18030'' | gbk \<Rightarrow> ''gbk'' | big5 \<Rightarrow> ''big5'')"

text \<open>\<open>div\<close>: the indices where the two answers differ.\<close>

definition divergences :: "answer list \<Rightarrow> answer list \<Rightarrow> int list" where
  "divergences go std = filter (\<lambda>i. go ! nat i \<noteq> std ! nat i) [0..int (length go) - 1]"

text \<open>\<open>counts[k] = counts.get(k, 0) + 1\<close> over the classes of the diverging cases.\<close>

fun count_classes :: "(int \<Rightarrow> string result) \<Rightarrow> int list \<Rightarrow> (string \<times> int) list \<Rightarrow> (string \<times> int) list result" where
  "count_classes cls [] counts = Inr counts"
| "count_classes cls (i # is) counts = rbind (cls i) (\<lambda>k.
     count_classes cls is (dict_set counts k ((case map_of counts k of None \<Rightarrow> 0 | Some n \<Rightarrow> n) + 1)))"

definition compare :: "encoding \<Rightarrow> string \<Rightarrow> bytes list \<Rightarrow> answer list \<Rightarrow> answer list \<Rightarrow> int list \<Rightarrow>
    (cresult \<times> (string \<times> int) list) result" where
  "compare enc dm ins go std cps =
     (if length go \<noteq> length std then Inl AssertionError
      else (let dv = divergences go std in
        rbind (count_classes (\<lambda>i. classify enc dm (nat i) (ins ! nat i) (go ! nat i) (std ! nat i) cps) dv []) (\<lambda>counts.
        rbind (stream_digest std) (\<lambda>d1.
        rbind (stream_digest (map (\<lambda>i. go ! nat i) (filter (\<lambda>i. i \<notin> set dv) [0..int (length go) - 1]))) (\<lambda>d2.
        rbind (stream_digest (map (\<lambda>i. std ! nat i) dv)) (\<lambda>d3.
        Inr (\<lparr> r_enc = enc_name enc, r_dom = dm, r_n = int (length go), r_std = d1, r_go_agree = d2,
               r_std_div = d3, r_runs = runs_of dv, r_ndiv = int (length dv) \<rparr>, sort counts)))))))"

text \<open>\<open>oseq\<close> runs a list of computations that may not return, in order.\<close>

fun oseq :: "'a result option list \<Rightarrow> 'a list result option" where
  "oseq [] = Some (Inr [])"
| "oseq (x # xs) = (case x of None \<Rightarrow> None | Some (Inl e) \<Rightarrow> Some (Inl e)
     | Some (Inr a) \<Rightarrow> (case oseq xs of None \<Rightarrow> None | Some (Inl e) \<Rightarrow> Some (Inl e)
         | Some (Inr as) \<Rightarrow> Some (Inr (a # as))))"

text \<open>The Standard's answers on a domain, with the inputs \<open>classify\<close> reads (for \<open>e1\<close> it reads the
  code point list instead, and the input is empty here).\<close>

definition std_answers :: "tables \<Rightarrow> encoding \<Rightarrow> string \<Rightarrow> inputs \<Rightarrow> int list \<Rightarrow> (bytes list \<times> answer list) result option" where
  "std_answers t enc dm inputs cps =
     (if dm = ''e1'' then
        map_option (rmap_ok (\<lambda>std. (map (\<lambda>_. []) cps, std))) (oseq (map (\<lambda>c. encode t enc [c] fatal) cps))
      else if dm = ''e2'' then
        (case py_getitem inputs ''e2'' of Inl e \<Rightarrow> Some (Inl e) | Inr ins \<Rightarrow>
          map_option (rmap_ok (\<lambda>std. (ins, std)))
            (oseq (map (\<lambda>x. case utf8_decode x of Inl e \<Rightarrow> Some (Inl e) | Inr cs \<Rightarrow> encode t enc cs html) ins)))
      else (case domain dm inputs of Inl e \<Rightarrow> Some (Inl e) | Inr ins \<Rightarrow>
          map_option (rmap_ok (\<lambda>std. (ins, std)))
            (oseq (map (\<lambda>x. map_option (rmap_ok Some) (decode t enc x)) ins))))"

definition compare_file :: "tables \<Rightarrow> encoding \<Rightarrow> string \<Rightarrow> inputs \<Rightarrow> int list \<Rightarrow> bytes \<Rightarrow>
    (cresult \<times> (string \<times> int) list) result option" where
  "compare_file t enc dm inputs cps data =
     (case read_answers data of Inl e \<Rightarrow> Some (Inl e) | Inr go \<Rightarrow>
       (case std_answers t enc dm inputs cps of None \<Rightarrow> None | Some (Inl e) \<Rightarrow> Some (Inl e)
        | Some (Inr (ins, std)) \<Rightarrow> Some (compare enc dm ins go std cps)))"

section \<open>The program\<close>

fun read_inputs :: "string list \<Rightarrow> inputs \<Rightarrow> inputs result" where
  "read_inputs [] ins = Inr ins"
| "read_inputs (line # ls) ins =
     (case split_on (CHR '' '') (rstrip_newline line) of
        [n, hx] \<Rightarrow> (case map_of ins n of None \<Rightarrow> Inl KeyError
          | Some xs \<Rightarrow> rbind (fromhex hx) (\<lambda>b. read_inputs ls (dict_set ins n (xs @ [b]))))
      | _ \<Rightarrow> Inl ValueError)"

definition all_encs :: "encoding list" where
  "all_encs = [shift_jis, euc_jp, iso_2022_jp, euc_kr, gb18030, gbk, big5]"

definition all_doms :: "string list" where
  "all_doms = [''d1'', ''d2'', ''d3'', ''d4'', ''d5'', ''d6'', ''e1'', ''e2'']"

text \<open>\<open>zstr\<close>, \<open>json_str\<close> and \<open>emit\<close>; the output is the list of its lines.\<close>

definition zstr :: "bytes \<Rightarrow> string" where
  "zstr b = [CHR 0x22] @ concat (map (\<lambda>c. [CHR 0x5C] @ ''x'' @ hex [c]) b) @ [CHR 0x22]"

definition json_str :: "string \<Rightarrow> string" where
  "json_str s = [CHR 0x22] @ concat (map (\<lambda>c. if c = CHR 0x5C then [CHR 0x5C, CHR 0x5C]
     else if c = CHR 0x22 then [CHR 0x5C, CHR 0x22] else [c]) s) @ [CHR 0x22]"

definition quote :: "string \<Rightarrow> string" where
  "quote s = [CHR 0x22] @ s @ [CHR 0x22]"

definition emit_head :: "string list" where
  "emit_head =
    [''// SPDX-License-Identifier: MIT'',
     ''//! GENERATED by tools/cjk_oracle/std_ref.py from the answers of golang.org/x/text'',
     ''//! v0.42.0 (tools/cjk_oracle/main.go, BSD-3-Clause; only its observable answers are'',
     ''//! recorded). Do not edit. Replayed by cjk_test.zig.'',
     ''//!'',
     ''//! Per (encoding, domain): `std_sha256` = SHA-256 of the answers of a literal'',
     ''//! transliteration of the Standard (std_ref.py); `runs` = the cases (start, length'',
     ''//! pairs) where Go'' @ [CHR 0x27] @ ''s answer differs from it; `go_agree_sha256` = Go'' @ [CHR 0x27] @ ''s answers on all'',
     ''//! OTHER cases; `std_div_sha256` = the Standard'' @ [CHR 0x27] @ ''s answers on the diverging cases.'',
     ''//! cjk_test.zig proves ours == Standard everywhere and ours == Go off the runs.'',
     ''//! Answer stream: per case u32le length (0xFFFFFFFF = error/unmappable) + bytes.'',
     '''',
     ''pub const Result = struct {'',
     ''    enc: []const u8,'',
     ''    domain: []const u8,'',
     ''    cases: u32,'',
     ''    diverging: u32,'',
     ''    std_sha256: []const u8,'',
     ''    go_agree_sha256: []const u8,'',
     ''    std_div_sha256: []const u8,'',
     ''    runs: []const u32,'',
     ''};'',
     ''pub const Class = struct { enc: []const u8, domain: []const u8, name: []const u8, count: u32 };'',
     ''pub const Rule = struct { name: []const u8, text: []const u8 };'',
     '''']"

definition emit_inputs :: "inputs \<Rightarrow> string list result" where
  "emit_inputs inputs = rbind (rmap (\<lambda>name. rbind (py_getitem inputs name) (\<lambda>xs. Inr
       ([''pub const '' @ name @ ''_inputs = [_][]const u8{'']
        @ map (\<lambda>x. ''    '' @ zstr x @ '','') xs @ [''};'', [] ]))) [''d5'', ''d6'', ''e2''])
     (\<lambda>parts. Inr (concat parts))"

definition emit_class :: "string \<times> string \<times> string \<times> int \<Rightarrow> string" where
  "emit_class = (\<lambda>(enc, dm, k, v). ''    .{ .enc = '' @ quote enc @ '', .domain = '' @ quote dm @
     '', .name = '' @ quote k @ '', .count = '' @ show_int v @ '' },'')"

fun rows16 :: "nat \<Rightarrow> int list \<Rightarrow> int list list" where
  "rows16 0 xs = []"
| "rows16 (Suc n) xs = (if xs = [] then [] else take 16 xs # rows16 n (drop 16 xs))"

definition emit_result :: "cresult \<Rightarrow> string list" where
  "emit_result r =
     (let head = ''    .{ .enc = '' @ quote (r_enc r) @ '', .domain = '' @ quote (r_dom r) @ '', .cases = '' @ show_int (r_n r)
            @ '', .diverging = '' @ show_int (r_ndiv r) @ '', .std_sha256 = '' @ quote (r_std r) @ '', .go_agree_sha256 = ''
            @ quote (r_go_agree r) @ '', .std_div_sha256 = '' @ quote (r_std_div r) @ '', .runs = &.{'';
          flat = concat (map (\<lambda>(s, n). [s, n]) (r_runs r))
      in if flat = [] then [head @ ''} },'']
         else [head] @ map (\<lambda>row. ''        '' @ join '', '' (map hex06 row) @ '','') (rows16 (length flat) flat)
              @ [''    } },''])"

definition emit :: "cresult list \<Rightarrow> (string \<times> string \<times> string \<times> int) list \<Rightarrow> inputs \<Rightarrow> string list result" where
  "emit results classes inputs = rbind (emit_inputs inputs) (\<lambda>ins. Inr (emit_head @ ins
     @ [''pub const rules = [_]Rule{'']
     @ map (\<lambda>(k, v). ''    .{ .name = '' @ json_str k @ '', .text = '' @ json_str v @ '' },'') RULES
     @ [''};'', [], ''pub const classes = [_]Class{'']
     @ map emit_class classes
     @ [''};'', [], ''pub const results = [_]Result{'']
     @ concat (map emit_result results) @ [''};'']))"

definition std_ref_main :: "tables \<Rightarrow> string list \<Rightarrow> (encoding \<Rightarrow> string \<Rightarrow> bytes option) \<Rightarrow> string list result option" where
  "std_ref_main t input_lines answers =
     (case read_inputs input_lines [(''d5'', []), (''d6'', []), (''e2'', [])] of
        Inl e \<Rightarrow> Some (Inl e)
      | Inr inputs \<Rightarrow>
          (case oseq [compare_file t enc dm inputs e1_cps data.
                        enc \<leftarrow> all_encs, dm \<leftarrow> all_doms, data \<leftarrow> opt_list (answers enc dm)] of
             None \<Rightarrow> None
           | Some (Inl e) \<Rightarrow> Some (Inl e)
           | Some (Inr rs) \<Rightarrow> Some (emit (map fst rs)
               (concat (map (\<lambda>(r, counts). map (\<lambda>(k, v). (r_enc r, r_dom r, k, v)) counts) rs)) inputs)))"

section \<open>Facts on the runs\<close>

text \<open>The indices a list of runs stands for.\<close>

definition expand_runs :: "(int \<times> int) list \<Rightarrow> int list" where
  "expand_runs rs = concat (map (\<lambda>(s, n). [s..s + n - 1]) rs)"

text \<open>No run touches the next, and none is empty.\<close>

fun runs_maximal :: "(int \<times> int) list \<Rightarrow> bool" where
  "runs_maximal [] = True"
| "runs_maximal [(s, n)] = (0 < n)"
| "runs_maximal ((s, n) # (s', n') # rs) = (0 < n \<and> s + n \<noteq> s' \<and> runs_maximal ((s', n') # rs))"

lemma runs_maximal_append: "runs_maximal (rs @ [(s, n)]) \<longleftrightarrow>
    runs_maximal rs \<and> 0 < n \<and> (rs \<noteq> [] \<longrightarrow> fst (last rs) + snd (last rs) \<noteq> s)"
  by (induction rs rule: runs_maximal.induct) auto

lemma upto_extend: "0 < n \<Longrightarrow> [s..s + n] = [s..s + n - 1] @ [s + (n :: int)]"
  by (subst upto_rec2) simp_all

lemma runs_step_spec:
  "runs_maximal (rev rs) \<Longrightarrow> runs_maximal (rev (runs_step rs i)) \<and>
     expand_runs (rev (runs_step rs i)) = expand_runs (rev rs) @ [i]"
proof (cases rs)
  case Nil
  then show ?thesis by (simp add: expand_runs_def)
next
  case (Cons r rs')
  obtain s n where r: "r = (s, n)" by force
  assume "runs_maximal (rev rs)"
  then have "0 < n" "runs_maximal (rev rs')" "rs' \<noteq> [] \<longrightarrow> fst (last (rev rs')) + snd (last (rev rs')) \<noteq> s"
    using Cons r by (simp_all add: runs_maximal_append)
  then show ?thesis
    using Cons r upto_extend [of n s] runs_maximal_append [of "rev rs' @ [(s, n)]" i 1]
    by (auto simp: runs_maximal_append expand_runs_def add.assoc)
qed

lemma runs_of_spec: "runs_maximal (runs_of idxs) \<and> expand_runs (runs_of idxs) = idxs"
proof -
  have "runs_maximal (rev rs) \<Longrightarrow> runs_maximal (rev (foldl runs_step rs idxs)) \<and>
     expand_runs (rev (foldl runs_step rs idxs)) = expand_runs (rev rs) @ idxs" for rs
    by (induction idxs arbitrary: rs) (simp_all add: runs_step_spec)
  from this [of "[]"] show ?thesis by (simp add: runs_of_def expand_runs_def)
qed

section \<open>Facts on the stream\<close>

lemma read_answers_Cons:
  assumes "answer_bytes_of a = Inr bs" "\<forall>x. a = Some x \<longrightarrow> int (length x) < 0xFFFFFFFF"
  shows "read_answers (bs @ rest) = rbind (read_answers rest) (\<lambda>out. Inr (a # out))"
proof -
  have lt: "int (length x) mod 4294967296 = int (length x)" "(x :: bytes) \<noteq> [] \<Longrightarrow> True"
    if "a = Some x" for x
    using assms(2) that by auto
  show ?thesis
    using assms lt by (cases a) (auto simp: answer_bytes_of_def read_answers.simps [of "bs @ rest"]
        from_le_le_bytes Let_def split: if_splits)
qed

lemma read_answers_stream:
  assumes "\<forall>x. Some x \<in> set as \<longrightarrow> int (length x) < 0xFFFFFFFF"
  shows "\<exists>bs. answer_stream as = Inr bs \<and> read_answers bs = Inr as"
  using assms
proof (induction as)
  case Nil
  then show ?case by (simp add: answer_stream_def read_answers.simps)
next
  case (Cons a as)
  then obtain bs where bs: "answer_stream as = Inr bs" "read_answers bs = Inr as" by auto
  from Cons.prems obtain b where b: "answer_bytes_of a = Inr b"
    by (cases a) (auto simp: answer_bytes_of_def)
  have "read_answers (b @ bs) = Inr (a # as)"
    using read_answers_Cons [OF b] Cons.prems bs(2) by simp
  moreover have "answer_stream (a # as) = Inr (b @ bs)"
    using b bs(1) by (auto simp: answer_stream_def rbind_eq_Inr_iff)
  ultimately show ?case by blast
qed

lemma stream_injective:
  assumes "answer_stream as = answer_stream bs"
    "\<forall>x. Some x \<in> set as \<longrightarrow> int (length x) < 0xFFFFFFFF" "\<forall>x. Some x \<in> set bs \<longrightarrow> int (length x) < 0xFFFFFFFF"
  shows "as = bs"
  using assms read_answers_stream [of as] read_answers_stream [of bs] by auto

section \<open>Facts on the classes\<close>

lemma rule_names: "map fst RULES =
    [''sjis-eudc'', ''ascii-trail-restore'', ''nonascii-trail-consumed'', ''gb-user-defined'',
     ''gb-2022-two-byte'', ''gb-truncated-four-byte'', ''gb-four-byte-gap'', ''gb-e7c7'',
     ''iso-so-si'', ''iso-escape-recovery'', ''e-sjis-special'', ''e-sjis-nec-ibm'',
     ''e-eucjp-special'', ''e-eucjp-no-jis0212'', ''e-iso-special'', ''e-iso-controls'',
     ''e-iso-katakana'', ''e-gb-e5e5'', ''e-gb-two-byte'', ''e-big5-hkscs'',
     ''e-big5-duplicate'', ''random-composite'']"
  by (simp add: RULES_def)

lemma rule_name_iff: "k \<in> fst ` set RULES \<longleftrightarrow> k \<in> set (map fst RULES)"
  by simp

lemma classify_e1_rule: "classify_e1 enc c go std = Inr k \<Longrightarrow> k \<in> fst ` set RULES"
  unfolding rule_name_iff rule_names by (cases enc) (simp_all add: classify_e1_def split: if_splits)

lemma classify_shapes_rule: "classify_shapes enc dm inp g s = Inr k \<Longrightarrow> k \<in> fst ` set RULES"
  unfolding rule_name_iff rule_names
  by (cases enc) (auto simp: classify_shapes_def py_getitem_def split: if_splits)

lemma classify_rule:
  assumes "classify enc dm idx inp go std cps = Inr k"
  shows "k \<in> fst ` set RULES"
proof -
  have rc: "''random-composite'' \<in> fst ` set RULES" unfolding rule_name_iff rule_names by simp
  show ?thesis
  proof (cases "dm = ''d5'' \<or> dm = ''d6'' \<or> dm = ''e2''")
    case True
    with assms rc show ?thesis by (simp only: classify_def simp_thms if_True sum.inject)
  next
    case rnd: False
    show ?thesis
    proof (cases "dm = ''e1''")
      case True
      with assms rnd have "classify_e1 enc (cps ! idx) go std = Inr k"
        by (cases "idx < length cps") (simp_all add: classify_def)
      then show ?thesis by (rule classify_e1_rule)
    next
      case False
      with assms rnd obtain g s where "classify_shapes enc dm inp g s = Inr k"
        unfolding classify_def if_not_P [OF rnd] by (auto simp only: if_False rbind_eq_Inr_iff)
      then show ?thesis by (rule classify_shapes_rule)
    qed
  qed
qed

section \<open>Facts on UTF-8\<close>

lemma utf8_cont_mod: "utf8_cont (0x80 + x mod 64)"
  using pos_mod_bound [of 64 x] pos_mod_sign [of 64 x] by (simp add: utf8_cont_def)

lemma utf8_decode_heads:
  "a < 0x80 \<Longrightarrow> utf8_decode (a # r) = rbind (utf8_decode r) (\<lambda>cs. Inr (a # cs))"
  "0xC2 \<le> a \<Longrightarrow> a \<le> 0xDF \<Longrightarrow> utf8_cont b \<Longrightarrow>
     utf8_decode (a # b # r) = rbind (utf8_decode r) (\<lambda>cs. Inr (((a - 0xC0) * 64 + (b - 0x80)) # cs))"
  "0xE0 \<le> a \<Longrightarrow> a \<le> 0xEF \<Longrightarrow> utf8_cont b \<Longrightarrow> utf8_cont c \<Longrightarrow> (a = 0xE0 \<longrightarrow> 0xA0 \<le> b) \<Longrightarrow> (a = 0xED \<longrightarrow> b \<le> 0x9F) \<Longrightarrow>
     utf8_decode (a # b # c # r) =
       rbind (utf8_decode r) (\<lambda>cs. Inr (((a - 0xE0) * 4096 + (b - 0x80) * 64 + (c - 0x80)) # cs))"
  "0xF0 \<le> a \<Longrightarrow> a \<le> 0xF4 \<Longrightarrow> utf8_cont b \<Longrightarrow> utf8_cont c \<Longrightarrow> utf8_cont d \<Longrightarrow>
     (a = 0xF0 \<longrightarrow> 0x90 \<le> b) \<Longrightarrow> (a = 0xF4 \<longrightarrow> b \<le> 0x8F) \<Longrightarrow>
     utf8_decode (a # b # c # d # r) = rbind (utf8_decode r)
       (\<lambda>cs. Inr (((a - 0xF0) * 262144 + (b - 0x80) * 4096 + (c - 0x80) * 64 + (d - 0x80)) # cs))"
  by (subst utf8_decode.simps(2), simp)+

declare utf8_decode.simps(2) [simp del]

lemma utf8_three:
  fixes x y z :: int
  assumes c: "c = x * 4096 + y * 64 + z" and y: "0 \<le> y" "y \<le> 63" "0 \<le> z" "z \<le> 63"
    and "0x800 \<le> c" "c < 0x10000" "is_scalar c"
  shows "utf8_decode ((0xE0 + x) # (0x80 + y) # (0x80 + z) # r) = rbind (utf8_decode r) (\<lambda>cs. Inr (c # cs))"
proof -
  have x: "0 \<le> x" "x \<le> 15" using assms(6,7) c y by linarith+
  have "x = 0 \<longrightarrow> 0x20 \<le> y" "x = 13 \<longrightarrow> y \<le> 0x1F" using assms(6-8) c y unfolding is_scalar_def by linarith+
  with x c y show ?thesis by (simp add: utf8_decode_heads(3) utf8_cont_def)
qed

lemma utf8_four:
  fixes w x y z :: int
  assumes c: "c = w * 262144 + x * 4096 + y * 64 + z"
    and y: "0 \<le> x" "x \<le> 63" "0 \<le> y" "y \<le> 63" "0 \<le> z" "z \<le> 63" and "0x10000 \<le> c" "is_scalar c"
  shows "utf8_decode ((0xF0 + w) # (0x80 + x) # (0x80 + y) # (0x80 + z) # r) = rbind (utf8_decode r) (\<lambda>cs. Inr (c # cs))"
proof -
  have w: "0 \<le> w" "w \<le> 4" using assms(8,9) c y unfolding is_scalar_def by linarith+
  have "w = 0 \<longrightarrow> 0x10 \<le> x" "w = 4 \<longrightarrow> x \<le> 0xF" using assms(8,9) c y unfolding is_scalar_def by linarith+
  with w c y show ?thesis by (simp add: utf8_decode_heads(4) utf8_cont_def)
qed

lemma base64_digits:
  fixes c :: int
  shows "c = c div 4096 * 4096 + c div 64 mod 64 * 64 + c mod 64"
    and "c = c div 262144 * 262144 + c div 4096 mod 64 * 4096 + c div 64 mod 64 * 64 + c mod 64"
    and "0 \<le> c mod 64" "c mod 64 \<le> 63"
proof -
  have d: "c div 4096 = c div 64 div 64" "c div 262144 = c div 64 div 64 div 64"
    by (simp_all add: div_mult2_eq [symmetric])
  have e: "x = x div 64 * 64 + x mod 64" for x :: int by simp
  show "c = c div 4096 * 4096 + c div 64 mod 64 * 64 + c mod 64"
    unfolding d using e [of c] e [of "c div 64"] by linarith
  show "c = c div 262144 * 262144 + c div 4096 mod 64 * 4096 + c div 64 mod 64 * 64 + c mod 64"
    unfolding d using e [of c] e [of "c div 64"] e [of "c div 64 div 64"] by linarith
qed (use pos_mod_bound [of 64 c] in simp_all)

lemma utf8_decode_char:
  assumes "is_scalar c"
  shows "utf8_decode (utf8 c @ r) = rbind (utf8_decode r) (\<lambda>cs. Inr (c # cs))"
proof -
  consider "c < 0x80" | "0x80 \<le> c" "c < 0x800" | "0x800 \<le> c" "c < 0x10000" | "0x10000 \<le> c" by linarith
  then show ?thesis
  proof cases
    case 1
    with assms show ?thesis by (simp add: utf8_ascii is_scalar_def utf8_decode_heads(1))
  next
    case 2
    then have u: "utf8 c = [0xC0 + c div 64, 0x80 + c mod 64]" by (simp add: utf8_def cp_utf8_def)
    from 2 have "2 \<le> c div 64" "c div 64 \<le> 0x1F" by auto
    then show ?thesis using mult_div_mod_eq [of 64 c]
      by (simp add: u utf8_decode_heads(2) utf8_cont_mod mult.commute)
  next
    case 3
    then have "utf8 c = [0xE0 + c div 4096, 0x80 + c div 64 mod 64, 0x80 + c mod 64]" by (simp add: utf8_def cp_utf8_def)
    with utf8_three [OF base64_digits(1) base64_digits(3,4) base64_digits(3,4) 3 assms] show ?thesis by simp
  next
    case 4
    then have "utf8 c = [0xF0 + c div 262144, 0x80 + c div 4096 mod 64, 0x80 + c div 64 mod 64, 0x80 + c mod 64]"
      using assms by (simp add: utf8_def cp_utf8_def is_scalar_def)
    with utf8_four [OF base64_digits(2) base64_digits(3,4) base64_digits(3,4) base64_digits(3,4) 4 assms]
    show ?thesis by simp
  qed
qed

lemma utf8_roundtrip: "list_all is_scalar cps \<Longrightarrow> utf8_decode (concat (map utf8 cps)) = Inr cps"
  by (induction cps) (simp_all add: utf8_decode_char)

section \<open>Facts on one comparison\<close>

lemma sum_dict_set: "sum_list (map snd (dict_set d k (v :: int))) =
    sum_list (map snd d) - (case map_of d k of None \<Rightarrow> 0 | Some n \<Rightarrow> n) + v"
  by (induction d k v rule: dict_set.induct) auto

lemma count_classes_sum:
  "count_classes cls is counts = Inr counts' \<Longrightarrow>
     sum_list (map snd counts') = sum_list (map snd counts) + int (length is)"
  by (induction "is" arbitrary: counts) (auto simp: rbind_eq_Inr_iff sum_dict_set)

lemma count_classes_keys:
  "count_classes cls is counts = Inr counts' \<Longrightarrow> k \<in> fst ` set counts' \<Longrightarrow>
     k \<in> fst ` set counts \<or> (\<exists>i \<in> set is. cls i = Inr k)"
proof (induction "is" arbitrary: counts)
  case (Cons i "is")
  then obtain c where c: "cls i = Inr c" "count_classes cls is (dict_set counts c
      ((case map_of counts c of None \<Rightarrow> 0 | Some n \<Rightarrow> n) + 1)) = Inr counts'" by (auto simp: rbind_eq_Inr_iff)
  from Cons.IH [OF c(2) Cons.prems(2)] c(1) show ?case unfolding dict_set_keys by auto
qed simp

lemma compare_cases:
  assumes "compare enc dm ins go std cps = Inr (r, counts)"
  obtains counts' where "length go = length std" "r_runs r = runs_of (divergences go std)"
    "r_ndiv r = int (length (divergences go std))" "r_n r = int (length go)"
    "count_classes (\<lambda>i. classify enc dm (nat i) (ins ! nat i) (go ! nat i) (std ! nat i) cps)
       (divergences go std) [] = Inr counts'"
    "counts = sort counts'"
  using assms by (auto simp: compare_def Let_def rbind_eq_Inr_iff split: if_splits)

lemma compare_sound:
  assumes "compare enc dm ins go std cps = Inr (r, counts)"
  shows "expand_runs (r_runs r) = divergences go std \<and> runs_maximal (r_runs r) \<and>
    r_ndiv r = sum_list (map snd counts) \<and> fst ` set counts \<subseteq> fst ` set RULES"
proof -
  obtain counts' where c: "r_runs r = runs_of (divergences go std)" "r_ndiv r = int (length (divergences go std))"
    "count_classes (\<lambda>i. classify enc dm (nat i) (ins ! nat i) (go ! nat i) (std ! nat i) cps)
       (divergences go std) [] = Inr counts'" "counts = sort counts'"
    by (rule compare_cases [OF assms])
  have "mset (map snd counts) = mset (map snd counts')" unfolding c(4) by simp
  then have "sum_list (map snd counts) = sum_list (map snd counts')" by (metis sum_mset_sum_list)
  moreover have "fst ` set counts \<subseteq> fst ` set RULES"
    using count_classes_keys [OF c(3)] classify_rule c(4) by fastforce
  ultimately show ?thesis
    using c(1,2) runs_of_spec count_classes_sum [OF c(3)] by simp
qed

end
