(* ===== verification/Cjk_Props.thy ===== *)
theory Cjk_Props
  imports Cjk_Oracle
begin

text \<open>
  The properties of the codec oracle \<open>std_ref.py\<close>, with their witnesses on a small set of tables
  that meets \<open>tables_wf\<close>.
\<close>

section \<open>Small tables\<close>

definition demo_tables :: tables where
  "demo_tables = \<lparr> JIS0208 = [(0, 0x3000), (1, 0x3042), (60, 0xFF0D), (8272, 0x9ED1), (10716, 0x9ED1)], JIS0212 = [(0, 0x2D8)],
     KATA = map (\<lambda>i. (i, 0x3042)) [0..62], EUCKR = [(0, 0xAC02), (7, 0xAC05), (9, 0xAC02)],
     GB = [(0, 0x4E02), (6176, 0x3000)], GBR = [(0, 0x80), (189000, 0x10000)],
     BIG5 = [(5024, 0x3000), (5025, 0x2550), (5026, 0x255E), (5027, 0x2561), (5028, 0x256A), (5029, 0x5341),
        (5030, 0x5345), (5031, 0x2550)],
     JIS0208_PTR = [(0x3000, 0), (0x3042, 1), (0xFF0D, 60), (0x9ED1, 8272)],
     SJIS_PTR = [(0x3000, 0), (0x3042, 1), (0xFF0D, 60), (0x9ED1, 10716)],
     EUCKR_PTR = [(0xAC02, 0), (0xAC05, 7)],
     GB_PTR = [(0x4E02, 0), (0x3000, 6176)],
     BIG5_PTR = [(0x3000, 5024), (0x2550, 5031), (0x255E, 5026), (0x2561, 5027), (0x256A, 5028), (0x5341, 5029), (0x5345, 5030)],
     GBR_PTRS = [0, 189000], GBR_CPS = [(0x80, 0), (0x10000, 189000)] \<rparr>"

lemma demo_tables_wf: "tables_wf demo_tables"
  by code_simp

lemma demo_text: "list_all is_scalar [0x41, 0x3042, 0x2212, 0xFF71, 0xA5, 0x42]"
  by (simp add: is_scalar_def)

section \<open>Decoding\<close>

text \<open>C1: on every byte string each of the seven decoders returns (its queue and its restored bytes are
  used up), raises nothing, and writes well-formed UTF-8: the encoding of a list of scalar values,
  which strict UTF-8 decoding reads back.\<close>

theorem decode_returns_text:
  assumes "tables_wf t" "is_bytes data"
  shows "\<exists>cps. decode t enc data = Some (Inr (concat (map utf8 cps))) \<and> list_all is_scalar cps \<and>
    utf8_decode (concat (map utf8 cps)) = Inr cps"
  using decode_total [OF assms, of enc] utf8_roundtrip by blast

theorem decode_returns_text_witness:
  "\<exists>cps. decode demo_tables gb18030 [0x81, 0x30, 0x81, 0xFF] = Some (Inr (concat (map utf8 cps))) \<and>
     list_all is_scalar cps \<and> utf8_decode (concat (map utf8 cps)) = Inr cps"
  by (rule decode_returns_text [OF demo_tables_wf]) (simp add: is_byte_def)

definition lead_ok :: "encoding \<Rightarrow> int \<Rightarrow> bool" where
  "lead_ok enc l = (if enc = shift_jis then (0x81 \<le> l \<and> l \<le> 0x9F) \<or> (0xE0 \<le> l \<and> l \<le> 0xFC)
     else enc \<noteq> iso_2022_jp \<and> enc \<noteq> euc_jp \<and> 0x81 \<le> l \<and> l \<le> 0xFE)"

text \<open>The code points a two-byte sequence stands for.\<close>

definition two_byte_lookup :: "tables \<Rightarrow> encoding \<Rightarrow> int \<Rightarrow> int \<Rightarrow> int list option" where
  "two_byte_lookup t enc l b =
     (if enc = euc_kr then map_option (\<lambda>c. [c]) (Option.bind (euc_kr_pointer l b) (map_of (EUCKR t)))
      else if enc = big5 then
        (case Option.bind (big5_pointer l b) big5_special of Some cps \<Rightarrow> Some cps
         | None \<Rightarrow> map_option (\<lambda>c. [c]) (Option.bind (big5_pointer l b) (map_of (BIG5 t))))
      else if enc = shift_jis then
        (if in_range (sjis_pointer l b) 8836 10715 then Some [0xE000 - 8836 + the (sjis_pointer l b)]
         else map_option (\<lambda>c. [c]) (Option.bind (sjis_pointer l b) (map_of (JIS0208 t))))
      else map_option (\<lambda>c. [c]) (gb_two_byte t l b))"

lemma two_byte_scalar:
  "tables_wf t \<Longrightarrow> two_byte_lookup t enc l b = Some cps \<Longrightarrow> list_all is_scalar cps"
  by (auto simp: two_byte_lookup_def bind_eq_Some_conv split: if_splits option.splits
      dest: dict_scalar big5_special_scalar eudc_scalar gb_two_byte_scalar)

lemma emit_many: "list_all is_scalar cps \<Longrightarrow>
    resume h out (Inr (st', q', Emit cps)) = decode_loop h st' q' (out @ concat (map utf8 cps))"
  by simp

text \<open>C2: a lead byte followed by an ASCII byte decodes to the code points the index gives the pair, and
  where it gives none the lead byte alone becomes U+FFFD and the ASCII byte is kept: no decoder
  swallows it.  (In gb18030 a digit opens a four-byte form instead.)\<close>

theorem ascii_trail_restored:
  assumes "tables_wf t" "lead_ok enc l" "0 \<le> b" "b < 0x80"
    and "enc = gb18030 \<or> enc = gbk \<Longrightarrow> \<not> (0x30 \<le> b \<and> b \<le> 0x39)"
  shows "decode t enc [l, b] = Some (Inr (case two_byte_lookup t enc l b of
     Some cps \<Rightarrow> concat (map utf8 cps) | None \<Rightarrow> fffd_utf8 @ [b]))"
proof -
  have sc: "\<And>cps. two_byte_lookup t enc l b = Some cps \<Longrightarrow> list_all is_scalar cps"
    by (rule two_byte_scalar [OF assms(1)])
  have u: "utf8 b = [b]" "is_scalar b" using assms(3,4) utf8_ascii scalar_lt_80 by simp_all
  consider "enc = euc_kr" | "enc = big5" | "enc = shift_jis" | "enc = gb18030 \<or> enc = gbk"
    using assms(2) by (cases enc) (simp_all add: lead_ok_def)
  then show ?thesis
  proof cases
    case 1
    with assms sc u show ?thesis
      by (auto simp: decode_def decode_loop_Cons decode_loop_Nil euc_kr_handler_def lead_ok_def two_byte_lookup_def
          split: option.splits)
  next
    case 2
    with assms sc u show ?thesis
      by (auto simp: decode_def decode_loop_Cons decode_loop_Nil big5_handler_def lead_ok_def two_byte_lookup_def Let_def
          split: option.splits)
  next
    case 3
    with assms sc u show ?thesis
      by (auto simp: decode_def decode_loop_Cons decode_loop_Nil shift_jis_handler_def lead_ok_def two_byte_lookup_def Let_def
          split: option.splits if_splits)
  next
    case 4
    with assms sc u show ?thesis
      by (auto simp: decode_def decode_loop_Cons decode_loop_Nil gb18030_handler_def gb_init_def lead_ok_def two_byte_lookup_def
          split: option.splits)
  qed
qed

theorem ascii_trail_restored_witness:
  "decode demo_tables big5 [0xA2, 0x41] = Some (Inr (case two_byte_lookup demo_tables big5 0xA2 0x41 of
     Some cps \<Rightarrow> concat (map utf8 cps) | None \<Rightarrow> fffd_utf8 @ [0x41]))"
  by (rule ascii_trail_restored [OF demo_tables_wf]) (simp_all add: lead_ok_def)

section \<open>Encoding\<close>

text \<open>C3: on every list of scalar values each of the seven encoders returns in both modes (the ISO-2022-JP
  encoder puts a code point back only once), raises nothing and writes bytes; it refuses a text only
  in fatal mode.\<close>

theorem encode_returns_bytes:
  assumes "tables_wf t" "list_all is_scalar cps"
  shows "\<exists>r. encode t enc cps mode = Some (Inr r) \<and> (r = None \<longrightarrow> mode = fatal) \<and> (\<forall>bs. r = Some bs \<longrightarrow> is_bytes bs)"
  by (rule encode_returns [OF assms])

theorem encode_returns_bytes_witness:
  "\<exists>r. encode demo_tables iso_2022_jp [0x41, 0x3042, 0x2212, 0xFF71, 0xA5, 0x42] html = Some (Inr r) \<and>
     (r = None \<longrightarrow> html = fatal) \<and> (\<forall>bs. r = Some bs \<longrightarrow> is_bytes bs)"
  by (rule encode_returns_bytes [OF demo_tables_wf demo_text])

section \<open>Round trips\<close>

text \<open>C4: what the EUC-KR and the Big5 encoder write for a text they accept in fatal mode, the decoder of
  the same encoding reads back as that text.\<close>

theorem korean_chinese_roundtrip:
  assumes "tables_wf t" "enc = euc_kr \<or> enc = big5" "encode t enc cps fatal = Some (Inr (Some bs))"
  shows "decode t enc bs = Some (Inr (concat (map utf8 cps)))"
  using assms(2)
proof
  assume "enc = euc_kr"
  then show ?thesis using assms krc.roundtrip_loop [of t cps 0 "()" "[]" bs]
    by (simp add: encode_def decode_def list_all_iff)
next
  assume "enc = big5"
  then show ?thesis using assms b5c.roundtrip_loop [of t cps 0 "()" "[]" bs]
    by (simp add: encode_def decode_def list_all_iff)
qed

theorem korean_chinese_roundtrip_witness:
  "decode demo_tables big5 [0x41, 0xA1, 0x47] = Some (Inr (concat (map utf8 [0x41, 0x2550])))"
  by (rule korean_chinese_roundtrip [OF demo_tables_wf]) (simp, code_simp)

text \<open>C5: what the Shift_JIS and the EUC-JP encoder write in fatal mode decodes to the text with the yen
  sign, the overline and the minus sign replaced by the characters whose bytes they share
  (\<open>jis_norm\<close>): U+005C, U+007E and U+FF0D.\<close>

theorem japanese_roundtrip:
  assumes "tables_wf t" "enc = shift_jis \<or> enc = euc_jp" "encode t enc cps fatal = Some (Inr (Some bs))"
  shows "decode t enc bs = Some (Inr (concat (map (\<lambda>c. utf8 (jis_norm c)) cps)))"
  using assms(2)
proof
  assume "enc = shift_jis"
  then show ?thesis using assms sjc.roundtrip_loop [of t cps 0 "()" "[]" bs]
    by (simp add: encode_def decode_def list_all_iff)
next
  assume "enc = euc_jp"
  then show ?thesis using assms ejc.roundtrip_loop [of t cps eucjp_init "()" "[]" bs]
    by (simp add: encode_def decode_def list_all_iff)
qed

theorem japanese_roundtrip_witness:
  "decode demo_tables shift_jis [0x5C, 0xFA, 0x40, 0xB1] = Some (Inr (concat (map (\<lambda>c. utf8 (jis_norm c)) [0xA5, 0x9ED1, 0xFF71])))"
  by (rule japanese_roundtrip [OF demo_tables_wf]) (simp, code_simp)

text \<open>C6: the ISO-2022-JP encoder's escape sequences drive the decoder through the same states: what it
  writes in fatal mode decodes to the text, with half-width katakana read through the katakana
  index and the minus sign as U+FF0D (\<open>iso_norm\<close>), and leaves no U+FFFD for an empty escape.\<close>

theorem iso_2022_jp_roundtrip:
  assumes "tables_wf t" "encode t iso_2022_jp cps fatal = Some (Inr (Some bs))"
  shows "decode t iso_2022_jp bs = Some (Inr (concat (map (\<lambda>c. utf8 (iso_norm t c)) cps)))"
proof -
  have "iso_related t EAscii cps iso_init" using assms(1) by (simp add: iso_related_def iso_init_def mode_of_def)
  from isoc.roundtrip_loop [OF this, of "[]" bs] assms(2) show ?thesis by (simp add: encode_def decode_def)
qed

theorem iso_2022_jp_roundtrip_witness:
  "decode demo_tables iso_2022_jp [65, 27, 36, 66, 33, 34, 33, 34, 27, 40, 74, 92, 27, 40, 66] =
     Some (Inr (concat (map (\<lambda>c. utf8 (iso_norm demo_tables c)) [0x41, 0x3042, 0xFF71, 0xA5])))"
  by (rule iso_2022_jp_roundtrip [OF demo_tables_wf]) code_simp

text \<open>C7: what the gb18030 and the GBK encoder write in fatal mode decodes to the text, for every code
  point that the index or a range covers (\<open>gb_text_ok\<close> leaves out the eighteen code points of the
  side table, which decode to their GB18030-2022 successors, and those the ranges do not reach).\<close>

theorem gb18030_roundtrip:
  assumes "tables_wf t" "enc = gb18030 \<or> enc = gbk" "list_all (gb_text_ok t) cps"
    and "encode t enc cps fatal = Some (Inr (Some bs))"
  shows "decode t enc bs = Some (Inr (concat (map utf8 cps)))"
  using assms gbc.roundtrip_loop [of t cps gb_init True "[]" bs] gbc.roundtrip_loop [of t cps gb_init False "[]" bs]
  by (auto simp: encode_def decode_def)

theorem gb18030_roundtrip_witness:
  "decode demo_tables gb18030 [65, 129, 64, 148, 57, 252, 54, 129, 48, 129, 48] =
     Some (Inr (concat (map utf8 [0x41, 0x4E02, 0x1F600, 0x80])))"
  by (rule gb18030_roundtrip [OF demo_tables_wf]) (simp, code_simp, code_simp)

section \<open>Tables\<close>

text \<open>Inverting an index maps a code point to the least pointer that has it, and to nothing exactly
  when no pointer has it.\<close>

theorem first_pointer_least:
  assumes "distinct (map fst index)"
  shows "map_of (first_pointer index) c = Some p \<longleftrightarrow> map_of index p = Some c \<and> (\<forall>q. map_of index q = Some c \<longrightarrow> p \<le> q)"
proof
  assume "map_of (first_pointer index) c = Some p"
  then show "map_of index p = Some c \<and> (\<forall>q. map_of index q = Some c \<longrightarrow> p \<le> q)"
    using first_pointer_Some assms by blast
next
  assume *: "map_of index p = Some c \<and> (\<forall>q. map_of index q = Some c \<longrightarrow> p \<le> q)"
  then obtain p' where p': "map_of (first_pointer index) c = Some p'"
    using first_pointer_None [OF assms] by (cases "map_of (first_pointer index) c") auto
  with first_pointer_Some [OF p' assms] * show "map_of (first_pointer index) c = Some p" by (simp add: eq_iff)
qed

theorem first_pointer_least_witness:
  "map_of (first_pointer [(9, 0xAC02), (0, 0xAC02), (7, 0xAC05)]) 0xAC02 = Some 0 \<longleftrightarrow>
     map_of [(9, 0xAC02), (0, 0xAC02), (7, 0xAC05 :: int)] (0 :: int) = Some 0xAC02 \<and>
     (\<forall>q :: int. map_of [(9, 0xAC02), (0, 0xAC02), (7, 0xAC05 :: int)] q = Some 0xAC02 \<longrightarrow> 0 \<le> q)"
  by (rule first_pointer_least) simp

section \<open>The comparison\<close>

text \<open>\<open>read_answers\<close> reads back exactly the answers that were written to the answer stream, refusals
  included, so the digest of the stream is a digest of the answers.\<close>

theorem answers_roundtrip:
  assumes "\<forall>x. Some x \<in> set as \<longrightarrow> int (length x) < 0xFFFFFFFF"
  shows "\<exists>bs. answer_stream as = Inr bs \<and> stream_digest as = Inr (hex (sha256 bs)) \<and> read_answers bs = Inr as"
  using read_answers_stream [OF assms] by (auto simp: stream_digest_def)

theorem answers_roundtrip_witness:
  "\<exists>bs. answer_stream [Some [0x41, 0x42], None, Some []] = Inr bs \<and>
     stream_digest [Some [0x41, 0x42], None, Some []] = Inr (hex (sha256 bs)) \<and>
     read_answers bs = Inr [Some [0x41, 0x42], None, Some []]"
  by (rule answers_roundtrip) auto

text \<open>C10: for each compared file the recorded runs are maximal and stand for exactly the cases where the
  two answers differ, the class counts add up to their number, and every class has a rule.\<close>

theorem compare_runs_and_classes:
  assumes "compare enc dm ins go std cps = Inr (r, counts)"
  shows "expand_runs (r_runs r) = divergences go std \<and> runs_maximal (r_runs r) \<and>
    r_ndiv r = sum_list (map snd counts) \<and> fst ` set counts \<subseteq> fst ` set RULES"
  by (rule compare_sound [OF assms])

lemma compare_example:
  "\<exists>r. compare shift_jis ''d5'' [[0], [1]] [Some [0x41], None] [Some [0x41], Some []] [] = Inr (r, [(''random-composite'', 1)])"
proof -
  have d: "divergences [Some [0x41], None] [Some [0x41], Some []] = [1]" by (simp add: divergences_def upto.simps)
  show ?thesis unfolding compare_def d
    by (simp add: classify_def stream_digest_def answer_stream_def answer_bytes_of_def upto.simps)
qed

theorem compare_runs_and_classes_witness:
  "\<exists>r. compare shift_jis ''d5'' [[0], [1]] [Some [0x41], None] [Some [0x41], Some []] [] = Inr (r, [(''random-composite'', 1)]) \<and>
     expand_runs (r_runs r) = divergences [Some [0x41], None] [Some [0x41], Some []] \<and> runs_maximal (r_runs r) \<and>
     r_ndiv r = sum_list (map snd [(''random-composite'', 1)]) \<and>
     fst ` set [(''random-composite'', 1 :: int)] \<subseteq> fst ` set RULES"
proof -
  obtain r where r: "compare shift_jis ''d5'' [[0], [1]] [Some [0x41], None] [Some [0x41], Some []] [] = Inr (r, [(''random-composite'', 1)])"
    using compare_example ..
  show ?thesis by (rule exI [of _ r], rule conjI [OF r compare_runs_and_classes [OF r]])
qed

end
