(* ===== verification/Dpf.thy ===== *)
theory Dpf
  imports Sha256
begin

text \<open>
  The distributed point function of \<open>modules/pir/tools/rederive.py\<close> (and of \<open>fss\<close>, which it
  checks itself against): key generation along the path of \<open>alpha\<close>, evaluation at a point, key
  serialisation, and the theorem that the two evaluations add up to \<open>beta\<close> at \<open>alpha\<close> and to zero
  everywhere else, for every pair of seeds.
\<close>

section \<open>The generator\<close>

definition sha :: "bytes \<Rightarrow> bytes" where
  "sha b = sha256 b"

definition prg_child :: "bytes \<Rightarrow> int \<Rightarrow> bytes \<times> int" where
  "prg_child seed tweak = (let d = sha (seed @ [tweak]) in (take 16 d, d ! 16 mod 2))"

definition prg_children :: "bytes \<Rightarrow> (bytes \<times> int) \<times> (bytes \<times> int)" where
  "prg_children seed = (prg_child seed 0, prg_child seed 1)"

definition prg_convert :: "bytes \<Rightarrow> nat \<Rightarrow> int" where
  "prg_convert seed L = from_le (take L (sha (seed @ [2])))"

definition xor16 :: "bytes \<Rightarrow> bytes \<Rightarrow> bytes" where
  "xor16 a b = map2 (XOR) a b"

text \<open>\<open>kids[side]\<close>.\<close>

definition side :: "(bytes \<times> int) \<times> (bytes \<times> int) \<Rightarrow> int \<Rightarrow> bytes \<times> int" where
  "side kids bt = (if bt \<noteq> 0 then snd kids else fst kids)"

section \<open>Key generation and evaluation\<close>

type_synonym cword = "bytes \<times> int \<times> int"
type_synonym party = "bytes \<times> int"

definition path_bits :: "nat \<Rightarrow> int \<Rightarrow> int list" where
  "path_bits n x = map (\<lambda>i. (x div 2 ^ (n - 1 - i)) mod 2) [0..<n]"

definition gen_cw :: "int \<Rightarrow> party \<Rightarrow> party \<Rightarrow> cword" where
  "gen_cw a p0 p1 =
     (let k0 = prg_children (fst p0); k1 = prg_children (fst p1); lose = 1 - a
      in (xor16 (fst (side k0 lose)) (fst (side k1 lose)),
          snd (side k0 0) XOR snd (side k1 0) XOR a XOR 1,
          snd (side k0 1) XOR snd (side k1 1) XOR a))"

text \<open>One level down: the child on the side \<open>bt\<close>, corrected when the control bit is set.\<close>

definition step_down :: "cword \<Rightarrow> int \<Rightarrow> party \<Rightarrow> party" where
  "step_down cw bt p =
     (let (s, tn) = side (prg_children (fst p)) bt; (s_cw, tl, tr) = cw
      in if snd p \<noteq> 0 then (xor16 s s_cw, tn XOR (if bt \<noteq> 0 then tr else tl)) else (s, tn))"

fun gen_levels :: "int list \<Rightarrow> party \<Rightarrow> party \<Rightarrow> cword list \<times> party \<times> party" where
  "gen_levels [] p0 p1 = ([], p0, p1)"
| "gen_levels (a # as) p0 p1 =
     (let cw = gen_cw a p0 p1; (cws, q0, q1) = gen_levels as (step_down cw a p0) (step_down cw a p1)
      in (cw # cws, q0, q1))"

definition ring :: "nat \<Rightarrow> int" where
  "ring L = 2 ^ (8 * L)"

definition dpf_gen :: "nat \<Rightarrow> nat \<Rightarrow> int \<Rightarrow> int \<Rightarrow> bytes \<Rightarrow> bytes \<Rightarrow> cword list \<times> int" where
  "dpf_gen n L alpha beta root0 root1 =
     (let (cws, p0, p1) = gen_levels (path_bits n alpha) (root0, 0) (root1, 1);
          c0 = prg_convert (fst p0) L; c1 = prg_convert (fst p1) L;
          f = (beta - c0 + c1) mod ring L
      in (cws, if snd p1 \<noteq> 0 then (- f) mod ring L else f))"

text \<open>\<open>cws[i]\<close> raises when the list is shorter than \<open>n\<close>.\<close>

fun eval_levels :: "int list \<Rightarrow> cword list \<Rightarrow> party \<Rightarrow> party result" where
  "eval_levels [] cws p = Inr p"
| "eval_levels (bt # bits) [] p = Inl IndexError"
| "eval_levels (bt # bits) (cw # cws) p = eval_levels bits cws (step_down cw bt p)"

definition dpf_eval :: "nat \<Rightarrow> nat \<Rightarrow> int \<Rightarrow> bytes \<Rightarrow> cword list \<Rightarrow> int \<Rightarrow> int \<Rightarrow> int result" where
  "dpf_eval n L b root cws final x =
     rbind (eval_levels (path_bits n x) cws (root, b)) (\<lambda>(s, t).
       (let v = prg_convert s L; v' = (if t \<noteq> 0 then (v + final) mod ring L else v)
        in Inr (if b \<noteq> 0 then (- v') mod ring L else v')))"

definition key_bytes :: "nat \<Rightarrow> bytes \<Rightarrow> cword list \<Rightarrow> int \<Rightarrow> bytes result" where
  "key_bytes L root cws final =
     rbind (rmap (\<lambda>(s_cw, tl, tr). rbind (mk_bytes [tl, tr]) (\<lambda>ts. Inr (s_cw @ ts))) cws) (\<lambda>parts.
     rbind (to_bytes_le final L) (\<lambda>fb. Inr (root @ concat parts @ fb)))"

definition cw_bytes :: "nat \<Rightarrow> cword list \<Rightarrow> int \<Rightarrow> bytes result" where
  "cw_bytes L cws final = key_bytes L [] cws final"

section \<open>Facts on the generator\<close>

lemma length_prg_seed [simp]: "length (fst (prg_child s b)) = 16"
  by (simp add: prg_child_def sha_def Let_def)

lemma prg_bit: "snd (prg_child s b) = 0 \<or> snd (prg_child s b) = 1"
  using pos_mod_bound [of 2 "sha (s @ [b]) ! 16"] pos_mod_sign [of 2 "sha (s @ [b]) ! 16"]
  by (simp add: prg_child_def Let_def) linarith

lemma length_xor16 [simp]: "length (xor16 a b) = min (length a) (length b)"
  by (simp add: xor16_def)

lemma xor16_cancel: "length a = length b \<Longrightarrow> xor16 a (xor16 a b) = b"
  by (induction a b rule: list_induct2) (simp_all add: xor16_def xor.assoc [symmetric])

lemma xor16_commute: "xor16 a b = xor16 b a"
  by (induction a b rule: list_induct2') (simp_all add: xor16_def xor.commute)

lemma side_child: "side (prg_children s) b = prg_child s (if b \<noteq> 0 then 1 else 0)"
  by (simp add: side_def prg_children_def)

definition is_bit :: "int \<Rightarrow> bool" where
  "is_bit b \<longleftrightarrow> b = 0 \<or> b = 1"

lemma is_bit_simps [simp]: "is_bit 0" "is_bit 1"
  by (simp_all add: is_bit_def)

lemma is_bit_xor: "is_bit a \<Longrightarrow> is_bit b \<Longrightarrow> is_bit (a XOR b)"
  by (auto simp: is_bit_def)

lemma is_bit_prg [simp]: "is_bit (snd (prg_child s b))"
  using prg_bit by (simp add: is_bit_def)

section \<open>The invariant of the two walks\<close>

text \<open>On the path the control bits differ; off the path the two parties hold the same state.\<close>

definition on_path :: "party \<Rightarrow> party \<Rightarrow> bool" where
  "on_path p0 p1 \<longleftrightarrow> is_bit (snd p0) \<and> is_bit (snd p1) \<and> snd p0 \<noteq> snd p1"

lemma xor_bits: "is_bit a \<Longrightarrow> is_bit b \<Longrightarrow> a XOR b XOR b = a" for a b :: int
  by (auto simp: is_bit_def)

lemma step_keep:
  assumes "on_path p0 p1" "is_bit a"
  shows "on_path (step_down (gen_cw a p0 p1) a p0) (step_down (gen_cw a p0 p1) a p1)"
proof -
  obtain s0 t0 s1 t1 where p: "p0 = (s0, t0)" "p1 = (s1, t1)" by force
  have b: "snd (prg_child s0 a) = 0 \<or> snd (prg_child s0 a) = 1" "snd (prg_child s1 a) = 0 \<or> snd (prg_child s1 a) = 1"
    by (rule prg_bit)+
  from assms p show ?thesis
    using b unfolding on_path_def is_bit_def step_down_def gen_cw_def Let_def
    by (auto simp: side_child split: prod.splits)
qed

lemma step_lose:
  assumes "on_path p0 p1" "is_bit a" "is_bit x" "x \<noteq> a"
  shows "step_down (gen_cw a p0 p1) x p0 = step_down (gen_cw a p0 p1) x p1"
proof -
  obtain s0 t0 s1 t1 where p: "p0 = (s0, t0)" "p1 = (s1, t1)" by force
  have x: "x = 1 - a" using assms(2-4) by (auto simp: is_bit_def)
  have b: "snd (prg_child s0 x) = 0 \<or> snd (prg_child s0 x) = 1" "snd (prg_child s1 x) = 0 \<or> snd (prg_child s1 x) = 1"
    by (rule prg_bit)+
  have c: "xor16 (fst (prg_child s0 x)) (xor16 (fst (prg_child s0 x)) (fst (prg_child s1 x))) = fst (prg_child s1 x)"
    "xor16 (fst (prg_child s1 x)) (xor16 (fst (prg_child s0 x)) (fst (prg_child s1 x))) = fst (prg_child s0 x)"
    by (simp_all add: xor16_cancel) (simp add: xor16_commute [of "fst (prg_child s0 x)"] xor16_cancel)
  from assms(1,2) p x show ?thesis
    using b c unfolding on_path_def is_bit_def step_down_def gen_cw_def Let_def
    by (auto simp: side_child case_prod_unfold prod_eq_iff)
qed

lemma gen_levels_ConsE:
  assumes "gen_levels (a # as) p0 p1 = (cws, q0, q1)"
  obtains cws' where "cws = gen_cw a p0 p1 # cws'"
    "gen_levels as (step_down (gen_cw a p0 p1) a p0) (step_down (gen_cw a p0 p1) a p1) = (cws', q0, q1)"
  using assms by (auto simp: Let_def split: prod.splits)

lemma gen_levels_path:
  assumes "gen_levels as p0 p1 = (cws, q0, q1)" "on_path p0 p1" "list_all is_bit as"
  shows "on_path q0 q1 \<and> length cws = length as \<and> eval_levels as cws p0 = Inr q0 \<and> eval_levels as cws p1 = Inr q1"
  using assms
proof (induction as arbitrary: p0 p1 cws)
  case (Cons a as)
  let ?cw = "gen_cw a p0 p1"
  obtain cws' where c: "cws = ?cw # cws'"
    "gen_levels as (step_down ?cw a p0) (step_down ?cw a p1) = (cws', q0, q1)"
    by (rule gen_levels_ConsE [OF Cons.prems(1)])
  have "on_path (step_down ?cw a p0) (step_down ?cw a p1)" "list_all is_bit as"
    using step_keep [OF Cons.prems(2)] Cons.prems(3) by simp_all
  from Cons.IH [OF c(2) this] c(1) show ?case by simp
qed simp

lemma eval_levels_Inr: "length bits \<le> length cws \<Longrightarrow> \<exists>q. eval_levels bits cws p = Inr q"
  by (induction bits cws p rule: eval_levels.induct) auto

lemma gen_levels_off:
  assumes "gen_levels as p0 p1 = (cws, q0, q1)" "on_path p0 p1" "list_all is_bit as" "list_all is_bit xs"
    "length xs = length as" "xs \<noteq> as"
  shows "\<exists>q. eval_levels xs cws p0 = Inr q \<and> eval_levels xs cws p1 = Inr q"
  using assms
proof (induction as arbitrary: p0 p1 cws xs)
  case (Cons a as)
  obtain x xs' where xs: "xs = x # xs'" using Cons.prems(5) by (cases xs) auto
  let ?cw = "gen_cw a p0 p1"
  obtain cws' where c: "cws = ?cw # cws'"
    "gen_levels as (step_down ?cw a p0) (step_down ?cw a p1) = (cws', q0, q1)"
    by (rule gen_levels_ConsE [OF Cons.prems(1)])
  have bits: "is_bit a" "is_bit x" "list_all is_bit as" "list_all is_bit xs'" "length xs' = length as"
    using Cons.prems xs by auto
  have keep: "on_path (step_down ?cw a p0) (step_down ?cw a p1)"
    using step_keep Cons.prems(2) bits(1) .
  show ?case
  proof (cases "x = a")
    case True
    with Cons.IH [OF c(2) keep bits(3,4,5)] Cons.prems(6) xs c(1) show ?thesis by simp
  next
    case False
    have "length cws' = length as" using gen_levels_path [OF c(2) keep bits(3)] by simp
    then obtain q where "eval_levels xs' cws' (step_down ?cw x p0) = Inr q"
      using eval_levels_Inr [of xs' cws' "step_down ?cw x p0"] bits(5) by (simp only: order_refl) blast
    with step_lose [OF Cons.prems(2) bits(1,2) False] xs c(1) show ?thesis by auto
  qed
qed simp

section \<open>Paths\<close>

lemma path_bits_bit: "list_all is_bit (path_bits n x)"
proof -
  have "is_bit (y mod 2)" for y :: int
    using pos_mod_bound [of 2 y] pos_mod_sign [of 2 y] unfolding is_bit_def by linarith
  then show ?thesis by (simp add: path_bits_def list_all_iff)
qed

lemma length_path_bits [simp]: "length (path_bits n x) = n"
  by (simp add: path_bits_def)

lemma path_bits_Suc: "path_bits (Suc n) x = path_bits n (x div 2) @ [x mod 2]"
proof -
  have "x div 2 ^ (n - i) = x div 2 div 2 ^ (n - 1 - i)" if "i < n" for i
  proof -
    have "n - i = Suc (n - 1 - i)" using that by simp
    then show ?thesis by (simp add: zdiv_zmult2_eq)
  qed
  then show ?thesis by (simp add: path_bits_def)
qed

lemma path_bits_inj:
  "0 \<le> x \<Longrightarrow> x < 2 ^ n \<Longrightarrow> 0 \<le> y \<Longrightarrow> y < 2 ^ n \<Longrightarrow> path_bits n x = path_bits n y \<Longrightarrow> x = y"
proof (induction n arbitrary: x y)
  case (Suc n)
  then have "x div 2 = y div 2" "x mod 2 = y mod 2"
    using Suc.IH [of "x div 2" "y div 2"] by (auto simp: path_bits_Suc)
  then show ?case by (metis mult_div_mod_eq)
qed simp

section \<open>Correctness\<close>

lemma ring_pos: "0 < ring L"
  by (simp add: ring_def)

lemma dpf_eval_sum:
  assumes "dpf_gen n L alpha beta root0 root1 = (cws, final)"
    and "0 \<le> alpha" "alpha < 2 ^ n" "0 \<le> x" "x < 2 ^ n"
  shows "\<exists>v0 v1. dpf_eval n L 0 root0 cws final x = Inr v0 \<and> dpf_eval n L 1 root1 cws final x = Inr v1 \<and>
    (v0 + v1) mod ring L = (if x = alpha then beta mod ring L else 0)"
proof -
  obtain p0 p1 where g: "gen_levels (path_bits n alpha) (root0, 0) (root1, 1) = (cws, p0, p1)"
    using assms(1) by (auto simp: dpf_gen_def Let_def split: prod.splits)
  let ?c0 = "prg_convert (fst p0) L" and ?c1 = "prg_convert (fst p1) L"
  have final: "final = (if snd p1 \<noteq> 0 then (- ((beta - ?c0 + ?c1) mod ring L)) mod ring L else (beta - ?c0 + ?c1) mod ring L)"
    using assms(1) g by (simp add: dpf_gen_def Let_def)
  have start: "on_path (root0, 0) (root1, 1)" by (simp add: on_path_def)
  show ?thesis
  proof (cases "x = alpha")
    case True
    from gen_levels_path [OF g start path_bits_bit]
    have "on_path p0 p1" and e: "eval_levels (path_bits n x) cws (root0, 0) = Inr p0"
      "eval_levels (path_bits n x) cws (root1, 1) = Inr p1" using True by auto
    then have t: "snd p0 = 0 \<and> snd p1 = 1 \<or> snd p0 = 1 \<and> snd p1 = 0" by (auto simp: on_path_def is_bit_def)
    obtain s0 t0 s1 t1 where p: "p0 = (s0, t0)" "p1 = (s1, t1)" by force
    from t e show ?thesis
      unfolding dpf_eval_def by (auto simp: final p True Let_def mod_simps)
  next
    case False
    then have ne: "path_bits n x \<noteq> path_bits n alpha" using path_bits_inj assms(2-5) by blast
    obtain s t where "eval_levels (path_bits n x) cws (root0, 0) = Inr (s, t)"
      "eval_levels (path_bits n x) cws (root1, 1) = Inr (s, t)"
      using gen_levels_off [OF g start path_bits_bit path_bits_bit _ ne] by auto
    with False show ?thesis unfolding dpf_eval_def by (simp add: Let_def mod_simps)
  qed
qed

end
