(* ===== verification/Pir.thy ===== *)
theory Pir
  imports Dpf PyText
begin

text \<open>
  The private-information-retrieval layer of \<open>modules/pir/tools/rederive.py\<close>: the expanded test
  database, the two servers' inner products, the client's reconstruction, the self-check against
  the \<open>fss\<close> vectors and the generated Zig file.  The interface \<open>selector\<close> is what the servers
  rely on; the distributed point function interprets it.
\<close>

section \<open>The self-check\<close>

text \<open>A parsed \<open>fss\<close> vector; \<open>eval0\<close> and \<open>eval1\<close> list the whole domain, \<open>spot\<close> single points.\<close>

record fss_vec =
  fv_name :: string
  fv_n :: nat
  fv_L :: nat
  fv_alpha :: int
  fv_beta :: int
  fv_s0 :: bytes
  fv_s1 :: bytes
  fv_cw :: bytes
  fv_eval0 :: "int list"
  fv_eval1 :: "int list"
  fv_spot :: "(int \<times> int \<times> int) list"

text \<open>The points to check; \<open>v["eval0"][x]\<close> raises past the end of the list.\<close>

definition check_points :: "fss_vec \<Rightarrow> (int \<times> int \<times> int) list result" where
  "check_points v =
     (if fv_eval0 v \<noteq> [] then
        rmap (\<lambda>x. if x < length (fv_eval0 v) \<and> x < length (fv_eval1 v)
                  then Inr (int x, fv_eval0 v ! x, fv_eval1 v ! x) else Inl IndexError) [0..<2 ^ fv_n v]
      else Inr (fv_spot v))"

fun check_evals :: "fss_vec \<Rightarrow> cword list \<Rightarrow> int \<Rightarrow> (int \<times> int \<times> int) list \<Rightarrow> unit result" where
  "check_evals v cws final [] = Inr ()"
| "check_evals v cws final ((x, e0, e1) # pts) =
     rbind (dpf_eval (fv_n v) (fv_L v) 0 (fv_s0 v) cws final x) (\<lambda>g0.
     rbind (dpf_eval (fv_n v) (fv_L v) 1 (fv_s1 v) cws final x) (\<lambda>g1.
       if (g0, g1) \<noteq> (e0, e1)
       then Inl (SystemExit (''self-check FAILED: '' @ fv_name v @ '' eval x='' @ show_int x))
       else check_evals v cws final pts))"

definition self_check_vec :: "fss_vec \<Rightarrow> unit result" where
  "self_check_vec v =
     (let (cws, final) = dpf_gen (fv_n v) (fv_L v) (fv_alpha v) (fv_beta v) (fv_s0 v) (fv_s1 v)
      in rbind (cw_bytes (fv_L v) cws final) (\<lambda>b.
         if b \<noteq> fv_cw v then Inl (SystemExit (''self-check FAILED: '' @ fv_name v @ '' cw mismatch''))
         else rbind (check_points v) (check_evals v cws final)))"

fun self_check_all :: "fss_vec list \<Rightarrow> unit result" where
  "self_check_all [] = Inr ()"
| "self_check_all (v # vs) = rbind (self_check_vec v) (\<lambda>_. self_check_all vs)"

definition self_check :: "fss_vec list \<Rightarrow> unit result" where
  "self_check vecs =
     (if length vecs \<noteq> 4
      then Inl (SystemExit (''self-check: expected 4 fss vectors, parsed '' @ show_int (int (length vecs))))
      else self_check_all vecs)"

section \<open>The database\<close>

text \<open>The loop of \<open>stream\<close> on the bytes produced so far; \<open>ctr.to_bytes(4)\<close> raises at \<open>2 ^ 32\<close>.\<close>

function stream_loop :: "bytes \<Rightarrow> nat \<Rightarrow> bytes \<Rightarrow> int \<Rightarrow> bytes result" where
  "stream_loop tag nbytes out ctr =
     (if length out < nbytes
      then rbind (to_bytes_le ctr 4) (\<lambda>c. stream_loop tag nbytes (out @ sha (tag @ c)) (ctr + 1))
      else Inr (take nbytes out))"
  by pat_completeness auto
termination
  by (relation "measure (\<lambda>(tag, nbytes, out, ctr). nbytes - length out)") (auto simp: sha_def)

declare stream_loop.simps [simp del]

definition stream :: "bytes \<Rightarrow> nat \<Rightarrow> bytes result" where
  "stream tag nbytes = stream_loop tag nbytes [] 0"

definition word :: "bytes \<Rightarrow> nat \<Rightarrow> nat \<Rightarrow> int" where
  "word rc j L = (let chunk = slice (j * L) ((j + 1) * L) rc
     in from_le (chunk @ replicate (L - length chunk) 0))"

section \<open>The servers and the client\<close>

text \<open>\<open>-(-record_len // L)\<close>.\<close>

definition n_words :: "nat \<Rightarrow> nat \<Rightarrow> nat result" where
  "n_words record_len L = (if L = 0 then Inl ZeroDivisionError else Inr (nat (- ((- int record_len) div int L))))"

fun accumulate :: "(int \<Rightarrow> int result) \<Rightarrow> nat \<Rightarrow> nat \<Rightarrow> nat \<Rightarrow> bytes list \<Rightarrow> int list \<Rightarrow> int list result" where
  "accumulate ev L nw x [] acc = Inr acc"
| "accumulate ev L nw x (rc # rcs) acc = rbind (ev (int x)) (\<lambda>sel.
     accumulate ev L nw (Suc x) rcs (map (\<lambda>j. (acc ! j + sel * word rc j L) mod ring L) [0..<nw]))"

definition server_answer :: "(int \<Rightarrow> int result) \<Rightarrow> nat \<Rightarrow> nat \<Rightarrow> bytes list \<Rightarrow> bytes result" where
  "server_answer ev L nw recs = rbind (accumulate ev L nw 0 recs (replicate nw 0)) (\<lambda>acc.
     rbind (rmap (\<lambda>w. to_bytes_le w L) acc) (\<lambda>bss. Inr (concat bss)))"

definition reconstruct :: "nat \<Rightarrow> nat \<Rightarrow> nat \<Rightarrow> bytes \<Rightarrow> bytes \<Rightarrow> bytes result" where
  "reconstruct L nw record_len a0 a1 =
     rbind (rmap (\<lambda>j. to_bytes_le ((from_le (slice (j * L) ((j + 1) * L) a0)
         + from_le (slice (j * L) ((j + 1) * L) a1)) mod ring L) L) [0..<nw])
       (\<lambda>bss. Inr (take record_len (concat bss)))"

record pir_vec =
  pv_name :: string
  pv_n :: nat
  pv_L :: nat
  pv_count :: nat
  pv_record_len :: nat
  pv_index :: nat
  pv_s0 :: bytes
  pv_s1 :: bytes
  pv_db :: bytes
  pv_k0 :: bytes
  pv_k1 :: bytes
  pv_a0 :: bytes
  pv_a1 :: bytes
  pv_record :: bytes

definition records :: "nat \<Rightarrow> nat \<Rightarrow> bytes \<Rightarrow> bytes list" where
  "records count record_len db = map (\<lambda>x. slice (x * record_len) ((x + 1) * record_len) db) [0..<count]"

definition pir_case :: "string \<Rightarrow> nat \<Rightarrow> nat \<Rightarrow> nat \<Rightarrow> nat \<Rightarrow> nat \<Rightarrow> pir_vec result" where
  "pir_case name n L count record_len index =
     rbind (py_assert (count \<le> 2 ^ n \<and> index < 2 ^ n)) (\<lambda>_.
     (let tag = map of_char (''pir-kat/'' @ name) in
     rbind (stream (tag @ map of_char ''/seeds'') 32) (\<lambda>seeds.
     (let s0 = take 16 seeds; s1 = drop 16 seeds in
     rbind (stream (tag @ map of_char ''/db'') (count * record_len)) (\<lambda>db.
     (let recs = records count record_len db;
          (cws, final) = dpf_gen n L (int index) 1 s0 s1 in
     rbind (key_bytes L s0 cws final) (\<lambda>k0.
     rbind (key_bytes L s1 cws final) (\<lambda>k1.
     rbind (n_words record_len L) (\<lambda>nw.
     rbind (server_answer (dpf_eval n L 0 s0 cws final) L nw recs) (\<lambda>a0.
     rbind (server_answer (dpf_eval n L 1 s1 cws final) L nw recs) (\<lambda>a1.
     rbind (reconstruct L nw record_len a0 a1) (\<lambda>rec_out.
       if rec_out \<noteq> (if index < count then recs ! index else replicate record_len 0)
       then Inl (SystemExit (''case '' @ name @ '': re-derived PIR does not reconstruct''))
       else Inr \<lparr> pv_name = name, pv_n = n, pv_L = L, pv_count = count, pv_record_len = record_len,
              pv_index = index, pv_s0 = s0, pv_s1 = s1, pv_db = db, pv_k0 = k0, pv_k1 = k1,
              pv_a0 = a0, pv_a1 = a1, pv_record = rec_out \<rparr>))))))))))))"

definition CASES :: "(string \<times> nat \<times> nat \<times> nat \<times> nat \<times> nat) list" where
  "CASES =
    [(''min'', 1, 1, 2, 1, 0),
     (''min_last'', 1, 1, 2, 1, 1),
     (''single'', 1, 4, 1, 3, 0),
     (''mid_word'', 3, 4, 5, 13, 3),
     (''first'', 4, 8, 11, 20, 0),
     (''last'', 4, 8, 11, 20, 10),
     (''full_domain'', 5, 16, 32, 7, 31),
     (''wide_word'', 6, 32, 20, 33, 19),
     (''trunc_tail'', 8, 4, 37, 9, 36),
     (''odd_word'', 7, 3, 50, 10, 25),
     (''unpopulated'', 4, 4, 9, 6, 12),
     (''deep'', 10, 2, 100, 5, 99)]"

section \<open>The generated file\<close>

definition hex02 :: "int \<Rightarrow> string" where
  "hex02 c = ''0x'' @ hex [c]"

definition zig_bytes :: "bytes \<Rightarrow> string" where
  "zig_bytes b =
     (let body = join '', '' (map hex02 b)
      in if b = [] then ''&[_]u8{}''
         else if length b = 1 then ''&[_]u8{'' @ body @ ''}'' else ''&[_]u8{ '' @ body @ '' }'')"

definition pir_emit_head :: "string list" where
  "pir_emit_head =
    [''// SPDX-License-Identifier: MIT'',
     [],
     ''//! kat_vectors -- GENERATED, do not edit.  Recipe:'',
     ''//!'',
     ''//!     python3 modules/pir/tools/rederive.py > modules/pir/src/kat_vectors.zig'',
     ''//!'',
     ''//! Each vector is the output of an INDEPENDENT Python re-derivation (stdlib'',
     ''//! `hashlib` only) of the two-server DPF PIR: BGI16 Gen/Eval over the SHA-256'',
     ''//! PRG, then the server inner product over Z_{2^{8L}} and the client'' @ [CHR 0x27] @ ''s word-wise'',
     ''//! sum.  The script first reproduces every `fss` KAT byte-exact, so the DPF'',
     ''//! underneath is the anchored one.  `kat_test.zig` asserts `PirWith(Sha256Prg,'',
     ''//! ...)` produces the shares and answers below byte-exact.  See SPEC.md'',
     ''//! section '' @ [CHR 0x22] @ ''Anchoring'' @ [CHR 0x22] @ '' for what this does and does not establish.'',
     [],
     ''pub const Vector = struct {'',
     ''    name: []const u8,'',
     ''    domain_bits: usize,'',
     ''    word_bytes: usize,'',
     ''    count: usize,'',
     ''    record_len: usize,'',
     ''    index: usize,'',
     ''    /// the caller-supplied root seeds handed to `query`'',
     ''    seed0: [16]u8,'',
     ''    seed1: [16]u8,'',
     ''    /// the database, `count` records of `record_len` bytes, back to back'',
     ''    db: []const u8,'',
     ''    /// serialised query shares (`shareToBytes`): seed || CWs || cw_final'',
     ''    share0: []const u8,'',
     ''    share1: []const u8,'',
     ''    /// serialised answers (`answerToBytes`): little-endian words'',
     ''    answer0: []const u8,'',
     ''    answer1: []const u8,'',
     ''    /// the reconstructed record (zeros for an index at or past `count`)'',
     ''    record: []const u8,'',
     ''};'']"

definition show_n :: "nat \<Rightarrow> string" where
  "show_n n = show_int (int n)"

definition pir_emit_case :: "pir_vec \<Rightarrow> string list" where
  "pir_emit_case c =
     [ [],
       ''/// domain_bits='' @ show_n (pv_n c) @ '', word_bytes='' @ show_n (pv_L c) @ '', count='' @ show_n (pv_count c)
         @ '', record_len='' @ show_n (pv_record_len c) @ '', index='' @ show_n (pv_index c),
       ''pub const '' @ pv_name c @ '' = Vector{'',
       ''    .name = '' @ [CHR 0x22] @ pv_name c @ [CHR 0x22] @ '','',
       ''    .domain_bits = '' @ show_n (pv_n c) @ '','',
       ''    .word_bytes = '' @ show_n (pv_L c) @ '','',
       ''    .count = '' @ show_n (pv_count c) @ '','',
       ''    .record_len = '' @ show_n (pv_record_len c) @ '','',
       ''    .index = '' @ show_n (pv_index c) @ '','',
       ''    .seed0 = [_]u8{ '' @ join '', '' (map hex02 (pv_s0 c)) @ '' },'',
       ''    .seed1 = [_]u8{ '' @ join '', '' (map hex02 (pv_s1 c)) @ '' },'' ]
     @ map (\<lambda>(f, b). ''    .'' @ f @ '' = '' @ zig_bytes b @ '','')
         [(''db'', pv_db c), (''share0'', pv_k0 c), (''share1'', pv_k1 c),
          (''answer0'', pv_a0 c), (''answer1'', pv_a1 c), (''record'', pv_record c)]
     @ [''};'']"

definition pir_emit :: "string list result" where
  "pir_emit = rbind (rmap (\<lambda>(name, n, L, count, record_len, index). pir_case name n L count record_len index) CASES)
     (\<lambda>cases. Inr (pir_emit_head @ concat (map pir_emit_case cases) @
       [[],
     ''/// all recorded vectors, as a comptime tuple (each element carries its own'',
     ''/// comptime geometry, so the harness `inline for`s and instantiates'',
     ''/// `PirWith(Sha256Prg, v.domain_bits, v.word_bytes)` per vector).'',
     ''pub const all = .{ '' @ join '', '' (map pv_name cases) @ '' };'']))"

text \<open>\<open>main\<close>: the vectors are the parsed \<open>fss\<close> file; with the flag nothing is emitted.\<close>

definition pir_main :: "bool \<Rightarrow> fss_vec list \<Rightarrow> string list result" where
  "pir_main self_check_only vecs = rbind (self_check vecs) (\<lambda>_. if self_check_only then Inr [] else pir_emit)"

section \<open>Facts on the database\<close>

lemma ring_eq: "ring L = 256 ^ L"
  by (simp add: ring_def power_mult)

lemma stream_loop_ok:
  assumes "nbytes \<le> 2 ^ 37" "0 \<le> ctr" "length out = 32 * nat ctr" "is_bytes out"
  shows "\<exists>r. stream_loop tag nbytes out ctr = Inr r \<and> length r = nbytes \<and> is_bytes r"
  using assms
proof (induction tag nbytes out ctr rule: stream_loop.induct)
  case (1 tag nbytes out ctr)
  show ?case
  proof (cases "length out < nbytes")
    case True
    with "1.prems"(1-3) have "ctr < 256 ^ 4" by (auto simp: nat_less_iff)
    with "1.prems"(2) have c: "to_bytes_le ctr 4 = Inr (le_bytes 4 ctr)" by (intro to_bytes_le_Inr)
    have "\<exists>r. stream_loop tag nbytes (out @ sha (tag @ le_bytes 4 ctr)) (ctr + 1) = Inr r \<and> length r = nbytes \<and> is_bytes r"
      using "1.prems" by (intro "1.IH" [OF True]) (auto simp: sha_def nat_add_distrib)
    with True c show ?thesis by (subst stream_loop.simps) simp
  next
    case False
    with "1.prems"(4) show ?thesis by (subst stream_loop.simps) auto
  qed
qed

lemma stream_ok:
  assumes "nbytes \<le> 2 ^ 37"
  obtains r where "stream tag nbytes = Inr r" "length r = nbytes" "is_bytes r"
  using stream_loop_ok [OF assms, of 0 "[]"] by (auto simp: stream_def)

section \<open>Facts on words\<close>

lemma slice_pad:
  assumes "j \<le> length xs + k"
  shows "slice i j (xs @ replicate k 0) = slice i j xs @ replicate (j - i - length (slice i j xs)) (0 :: int)"
  using assms by (auto simp: slice_def min_def)

lemma concat_slices:
  "nw * L \<le> length ys \<Longrightarrow> concat (map (\<lambda>j. slice (j * L) ((j + 1) * L) ys) [0..<nw]) = take (nw * L) ys"
proof (induction nw)
  case (Suc nw)
  then show ?case by (simp add: slice_def take_add [symmetric] add.commute)
qed simp

lemma slice_concat:
  assumes "\<And>xs. xs \<in> set xss \<Longrightarrow> length xs = L" "j < length xss"
  shows "slice (j * L) ((j + 1) * L) (concat xss) = xss ! j"
  using assms
proof (induction xss arbitrary: j)
  case (Cons xs xss)
  then show ?case by (cases j) (auto simp: slice_def)
qed simp

text \<open>The words of a record, written back little-endian, are the padded record.\<close>

lemma words_roundtrip:
  assumes "is_bytes rc" "length rc \<le> nw * L"
  shows "take (length rc) (concat (map (\<lambda>j. le_bytes L (word rc j L)) [0..<nw])) = rc"
proof -
  let ?ys = "rc @ replicate (nw * L - length rc) 0"
  have len: "length ?ys = nw * L" and b: "is_bytes ?ys" using assms by simp_all
  have "le_bytes L (word rc j L) = slice (j * L) ((j + 1) * L) ?ys" if "j < nw" for j
  proof -
    have "j + 1 \<le> nw" using that by simp
    then have "(j + 1) * L \<le> nw * L" by (rule mult_le_mono1)
    then have le: "(j + 1) * L \<le> length rc + (nw * L - length rc)" using assms(2) by linarith
    have "word rc j L = from_le (slice (j * L) ((j + 1) * L) ?ys)"
      unfolding slice_pad [OF le] word_def Let_def by simp
    moreover have "length (slice (j * L) ((j + 1) * L) ?ys) = L"
      using \<open>(j + 1) * L \<le> nw * L\<close> len by (simp add: length_slice)
    ultimately show ?thesis using is_bytes_slice [OF b] le_bytes_from_le by metis
  qed
  then have "map (\<lambda>j. le_bytes L (word rc j L)) [0..<nw] = map (\<lambda>j. slice (j * L) ((j + 1) * L) ?ys) [0..<nw]"
    by simp
  then have "concat (map (\<lambda>j. le_bytes L (word rc j L)) [0..<nw]) = ?ys"
    using concat_slices [of nw L ?ys] len by (simp only: order_refl take_all)
  then show ?thesis by simp
qed

lemma word_bounds:
  assumes "is_bytes rc"
  shows "0 \<le> word rc j L" "word rc j L < ring L"
proof -
  let ?c = "slice (j * L) ((j + 1) * L) rc"
  have "length ?c \<le> L" by (simp add: length_slice)
  then have "length (?c @ replicate (L - length ?c) 0) = L" by simp
  moreover have "is_bytes (?c @ replicate (L - length ?c) 0)"
    using assms is_bytes_slice by simp
  ultimately show "0 \<le> word rc j L" "word rc j L < ring L"
    using from_le_bounds [of "?c @ replicate (L - length ?c) 0"] by (simp_all add: word_def ring_eq Let_def)
qed

lemma n_words_ok:
  assumes "0 < L"
  obtains nw where "n_words record_len L = Inr nw" "record_len \<le> nw * L"
proof -
  let ?k = "- ((- int record_len) div int L)"
  have L: "0 < int L" using assms by simp
  have "int record_len = ?k * int L - (- int record_len) mod int L"
    using mult_div_mod_eq [of "int L" "- int record_len"] by (simp only: mult_minus_left mult.commute)
  then have "int record_len \<le> ?k * int L"
    using pos_mod_sign [OF L, of "- int record_len"] by linarith
  moreover have "0 \<le> ?k" using L by (simp add: div_nonpos_pos_le0)
  ultimately have "int record_len \<le> int (nat ?k * L)" by simp
  then have "record_len \<le> nat ?k * L" by (simp only: of_nat_le_iff)
  with assms that show thesis by (simp add: n_words_def)
qed

section \<open>What the servers rely on\<close>

text \<open>Two evaluations whose sum selects one index of the domain.\<close>

locale selector =
  fixes ev0 ev1 :: "int \<Rightarrow> int result" and N idx L :: nat
  assumes select: "idx < N \<Longrightarrow> x < N \<Longrightarrow> \<exists>v0 v1. ev0 (int x) = Inr v0 \<and> ev1 (int x) = Inr v1 \<and>
      (v0 + v1) mod ring L = (if x = idx then 1 mod ring L else 0)"
begin

definition chosen :: "nat \<Rightarrow> bytes list \<Rightarrow> nat \<Rightarrow> int" where
  "chosen x recs j = (if x \<le> idx \<and> idx < x + length recs then word (recs ! (idx - x)) j L else 0)"

lemma select_product:
  assumes "(v0 + v1) mod ring L = (if b then 1 mod ring L else 0)"
  shows "((a0 + v0 * w) mod ring L + (a1 + v1 * w) mod ring L) mod ring L = (a0 + a1 + (if b then w else 0)) mod ring L"
proof -
  have "((a0 + v0 * w) mod ring L + (a1 + v1 * w) mod ring L) mod ring L = (a0 + v0 * w + (a1 + v1 * w)) mod ring L"
    by (rule mod_add_eq)
  also have "\<dots> = (a0 + a1 + (v0 + v1) * w) mod ring L" by (simp add: algebra_simps)
  also have "\<dots> = (a0 + a1 + ((v0 + v1) mod ring L) * w) mod ring L"
    by (intro mod_add_cong [OF refl]) (simp add: mod_mult_left_eq)
  also have "\<dots> = (a0 + a1 + (if b then w else 0)) mod ring L" 
    unfolding assms by (cases b) (auto intro!: mod_add_cong [OF refl] simp: mod_mult_left_eq)
  finally show ?thesis .
qed

lemma accumulate_pair:
  assumes "idx < N" "x + length recs \<le> N" "length a0 = nw" "length a1 = nw"
    and "list_all (\<lambda>w. 0 \<le> w \<and> w < ring L) a0" "list_all (\<lambda>w. 0 \<le> w \<and> w < ring L) a1"
  shows "\<exists>b0 b1. accumulate ev0 L nw x recs a0 = Inr b0 \<and> accumulate ev1 L nw x recs a1 = Inr b1 \<and>
    length b0 = nw \<and> length b1 = nw \<and> list_all (\<lambda>w. 0 \<le> w \<and> w < ring L) b0 \<and> list_all (\<lambda>w. 0 \<le> w \<and> w < ring L) b1 \<and>
    (\<forall>j < nw. (b0 ! j + b1 ! j) mod ring L = (a0 ! j + a1 ! j + chosen x recs j) mod ring L)"
  using assms
proof (induction recs arbitrary: x a0 a1)
  case Nil
  then show ?case by (simp add: chosen_def)
next
  case (Cons rc recs)
  obtain v0 v1 where v: "ev0 (int x) = Inr v0" "ev1 (int x) = Inr v1"
    "(v0 + v1) mod ring L = (if x = idx then 1 mod ring L else 0)"
    using select [of x] Cons.prems(1,2) by auto
  let ?a0 = "map (\<lambda>j. (a0 ! j + v0 * word rc j L) mod ring L) [0..<nw]"
  let ?a1 = "map (\<lambda>j. (a1 ! j + v1 * word rc j L) mod ring L) [0..<nw]"
  obtain b0 b1 where b: "accumulate ev0 L nw (Suc x) recs ?a0 = Inr b0" "accumulate ev1 L nw (Suc x) recs ?a1 = Inr b1"
    "length b0 = nw" "length b1 = nw" "list_all (\<lambda>w. 0 \<le> w \<and> w < ring L) b0" "list_all (\<lambda>w. 0 \<le> w \<and> w < ring L) b1"
    "\<And>j. j < nw \<Longrightarrow> (b0 ! j + b1 ! j) mod ring L = (?a0 ! j + ?a1 ! j + chosen (Suc x) recs j) mod ring L"
    using Cons.IH [of "Suc x" ?a0 ?a1] Cons.prems(1,2) ring_pos [of L] by (auto simp: list_all_iff)
  have "(b0 ! j + b1 ! j) mod ring L = (a0 ! j + a1 ! j + chosen x (rc # recs) j) mod ring L" if j: "j < nw" for j
  proof -
    have "chosen x (rc # recs) j = (if x = idx then word rc j L else 0) + chosen (Suc x) recs j"
      by (cases "x = idx") (auto simp: chosen_def nth_Cons' Suc_diff_Suc)
    moreover have "(b0 ! j + b1 ! j) mod ring L = ((?a0 ! j + ?a1 ! j) mod ring L + chosen (Suc x) recs j) mod ring L"
      using b(7) [OF j] by (simp add: mod_simps)
    moreover have "(?a0 ! j + ?a1 ! j) mod ring L = (a0 ! j + a1 ! j + (if x = idx then word rc j L else 0)) mod ring L"
      using select_product [OF v(3)] j by simp
    ultimately show ?thesis by (simp only: mod_add_left_eq add.assoc)
  qed
  with b v show ?case by auto
qed

lemma answers_reconstruct:
  assumes "idx < N" "length recs \<le> N" "0 < L" "n_words rlen L = Inr nw" "rlen \<le> nw * L"
    and recs: "\<And>rc. rc \<in> set recs \<Longrightarrow> is_bytes rc \<and> length rc = rlen"
  shows "\<exists>a0 a1. server_answer ev0 L nw recs = Inr a0 \<and> server_answer ev1 L nw recs = Inr a1 \<and>
    reconstruct L nw rlen a0 a1 = Inr (if idx < length recs then recs ! idx else replicate rlen 0)"
proof -
  obtain b0 b1 where b: "accumulate ev0 L nw 0 recs (replicate nw 0) = Inr b0" "accumulate ev1 L nw 0 recs (replicate nw 0) = Inr b1"
    "length b0 = nw" "length b1 = nw" "list_all (\<lambda>w. 0 \<le> w \<and> w < ring L) b0" "list_all (\<lambda>w. 0 \<le> w \<and> w < ring L) b1"
    "\<And>j. j < nw \<Longrightarrow> (b0 ! j + b1 ! j) mod ring L = chosen 0 recs j mod ring L"
    using accumulate_pair [of 0 recs "replicate nw 0" nw "replicate nw 0"] assms(1,2) ring_pos [of L]
    by (auto simp: list_all_iff)
  let ?rc = "if idx < length recs then recs ! idx else replicate rlen 0"
  have rc: "is_bytes ?rc" "length ?rc = rlen" using recs by auto
  have "chosen 0 recs j = word ?rc j L" for j
  proof -
    have "word (replicate rlen 0) j L = 0"
      by (simp add: word_def slice_def Let_def from_le_append)
    then show ?thesis by (simp add: chosen_def)
  qed
  then have sum: "(b0 ! j + b1 ! j) mod ring L = word ?rc j L" if "j < nw" for j
    using b(7) [OF that] word_bounds [OF rc(1)] by simp
  have enc: "rmap (\<lambda>w. to_bytes_le w L) b = Inr (map (le_bytes L) b)" if "list_all (\<lambda>w. 0 \<le> w \<and> w < ring L) b" for b
    using that by (intro rmap_Inr) (auto simp: list_all_iff ring_eq to_bytes_le_Inr)
  let ?bytes = "\<lambda>b. concat (map (le_bytes L) b)"
  have word_at: "from_le (slice (j * L) ((j + 1) * L) (?bytes b)) = b ! j"
    if "list_all (\<lambda>w. 0 \<le> w \<and> w < ring L) b" "j < length b" for b j
  proof -
    have "slice (j * L) ((j + 1) * L) (?bytes b) = le_bytes L (b ! j)"
      by (subst slice_concat) (use that(2) in auto)
    moreover have "b ! j mod 256 ^ L = b ! j" using that by (simp add: list_all_length ring_eq)
    ultimately show ?thesis by (simp add: from_le_le_bytes)
  qed
  have "reconstruct L nw rlen (?bytes b0) (?bytes b1) = Inr (take rlen (concat (map (\<lambda>j. le_bytes L (word ?rc j L)) [0..<nw])))"
  proof -
    have "rmap (\<lambda>j. to_bytes_le ((from_le (slice (j * L) ((j + 1) * L) (?bytes b0))
         + from_le (slice (j * L) ((j + 1) * L) (?bytes b1))) mod ring L) L) [0..<nw] = Inr (map (\<lambda>j. le_bytes L (word ?rc j L)) [0..<nw])"
      using word_at [OF b(5)] word_at [OF b(6)] sum b(3,4) word_bounds [OF rc(1)]
      by (intro rmap_Inr) (simp add: ring_eq to_bytes_le_Inr)
    then show ?thesis by (simp add: reconstruct_def)
  qed
  moreover have "take rlen (concat (map (\<lambda>j. le_bytes L (word ?rc j L)) [0..<nw])) = ?rc"
    using words_roundtrip [OF rc(1), of nw L] rc(2) assms(5) by simp
  ultimately show ?thesis
    using b(1,2) enc [OF b(5)] enc [OF b(6)] by (simp add: server_answer_def)
qed

end

text \<open>The two keys of \<open>dpf_gen\<close> with \<open>beta = 1\<close>.\<close>

interpretation dpf_sel: selector
  "dpf_eval n L 0 s0 (fst (dpf_gen n L (int idx) 1 s0 s1)) (snd (dpf_gen n L (int idx) 1 s0 s1))"
  "dpf_eval n L 1 s1 (fst (dpf_gen n L (int idx) 1 s0 s1)) (snd (dpf_gen n L (int idx) 1 s0 s1))"
  "2 ^ n" idx L for n L s0 s1 idx
proof
  fix x :: nat
  assume "idx < 2 ^ n" "x < 2 ^ n"
  then have "int idx < 2 ^ n" "int x < 2 ^ n" by (metis of_nat_less_iff of_nat_numeral of_nat_power)+
  then show "\<exists>v0 v1. dpf_eval n L 0 s0 (fst (dpf_gen n L (int idx) 1 s0 s1)) (snd (dpf_gen n L (int idx) 1 s0 s1)) (int x) = Inr v0 \<and>
      dpf_eval n L 1 s1 (fst (dpf_gen n L (int idx) 1 s0 s1)) (snd (dpf_gen n L (int idx) 1 s0 s1)) (int x) = Inr v1 \<and>
      (v0 + v1) mod ring L = (if x = idx then 1 mod ring L else 0)"
    using dpf_eval_sum [of n L "int idx" 1 s0 s1 "fst (dpf_gen n L (int idx) 1 s0 s1)" "snd (dpf_gen n L (int idx) 1 s0 s1)" "int x"]
    by simp
qed

section \<open>Keys\<close>

lemma gen_cw_bits:
  assumes "is_bit a"
  shows "is_bit (fst (snd (gen_cw a p0 p1))) \<and> is_bit (snd (snd (gen_cw a p0 p1)))"
  using assms by (simp add: gen_cw_def Let_def side_child is_bit_xor)

lemma gen_levels_bits:
  "list_all is_bit as \<Longrightarrow> gen_levels as p0 p1 = (cws, q0, q1) \<Longrightarrow>
     list_all (\<lambda>cw. is_bit (fst (snd cw)) \<and> is_bit (snd (snd cw))) cws"
proof (induction as arbitrary: p0 p1 cws)
  case (Cons a as)
  obtain cws' where c: "cws = gen_cw a p0 p1 # cws'"
    "gen_levels as (step_down (gen_cw a p0 p1) a p0) (step_down (gen_cw a p0 p1) a p1) = (cws', q0, q1)"
    by (rule gen_levels_ConsE [OF Cons.prems(2)])
  from Cons.prems(1) have "list_all is_bit as" "is_bit a" by simp_all
  with Cons.IH [OF _ c(2)] gen_cw_bits [of a p0 p1] c(1) show ?case by simp
qed simp

lemma dpf_gen_final: "dpf_gen n L alpha beta s0 s1 = (cws, final) \<Longrightarrow> 0 \<le> final \<and> final < ring L"
  using ring_pos [of L] by (auto simp: dpf_gen_def Let_def split: prod.splits)

lemma dpf_gen_bits: "dpf_gen n L alpha beta s0 s1 = (cws, final) \<Longrightarrow> list_all (\<lambda>cw. is_bit (fst (snd cw)) \<and> is_bit (snd (snd cw))) cws"
  using gen_levels_bits [OF path_bits_bit [of n alpha], of "(s0, 0)" "(s1, 1)"]
  by (auto simp: dpf_gen_def Let_def split: prod.splits)

lemma key_bytes_eq:
  assumes "dpf_gen n L alpha beta s0 s1 = (cws, final)"
  shows "key_bytes L root cws final = Inr (root @ concat (map (\<lambda>(s, tl, tr). s @ [tl, tr]) cws) @ le_bytes L final)"
proof -
  have "rmap (\<lambda>(s_cw, tl, tr). rbind (mk_bytes [tl, tr]) (\<lambda>ts. Inr (s_cw @ ts))) cws =
      Inr (map (\<lambda>(s, tl, tr). s @ [tl, tr]) cws)"
    using dpf_gen_bits [OF assms]
    by (intro rmap_Inr) (auto simp: list_all_iff is_bit_def is_byte_def mk_bytes_def split: prod.splits)
  with dpf_gen_final [OF assms] show ?thesis by (simp add: key_bytes_def to_bytes_le_Inr ring_eq)
qed

section \<open>The case reconstructs\<close>

lemma records_props:
  assumes "length db = count * rlen" "is_bytes db" "rc \<in> set (records count rlen db)"
  shows "is_bytes rc \<and> length rc = rlen"
proof -
  obtain x where x: "x < count" "rc = slice (x * rlen) ((x + 1) * rlen) db"
    using assms(3) by (auto simp: records_def)
  have "(x + 1) * rlen \<le> count * rlen" using x(1) by (intro mult_le_mono1) simp
  with x(2) assms(1,2) show ?thesis by (auto simp: length_slice)
qed

lemma pir_case_ok:
  assumes "0 < L" "count \<le> 2 ^ n" "index < 2 ^ n" "count * rlen \<le> 2 ^ 37"
  shows "\<exists>v. pir_case name n L count rlen index = Inr v \<and>
    length (pv_db v) = count * rlen \<and>
    pv_record v = (if index < count then slice (index * rlen) ((index + 1) * rlen) (pv_db v) else replicate rlen 0)"
proof -
  let ?tag = "map of_char (''pir-kat/'' @ name) :: bytes"
  have "(32 :: nat) \<le> 2 ^ 37" by simp
  then obtain seeds where seeds: "stream (?tag @ map of_char ''/seeds'') 32 = Inr seeds" by (rule stream_ok)
  obtain db where db: "stream (?tag @ map of_char ''/db'') (count * rlen) = Inr db" "length db = count * rlen" "is_bytes db"
    by (rule stream_ok [OF assms(4)])
  obtain nw where nw: "n_words rlen L = Inr nw" "rlen \<le> nw * L" by (rule n_words_ok [OF assms(1)])
  let ?g = "dpf_gen n L (int index) 1 (take 16 seeds) (drop 16 seeds)"
  let ?recs = "records count rlen db"
  have len: "length ?recs = count" by (simp add: records_def)
  obtain a0 a1 where a: "server_answer (dpf_eval n L 0 (take 16 seeds) (fst ?g) (snd ?g)) L nw ?recs = Inr a0"
    "server_answer (dpf_eval n L 1 (drop 16 seeds) (fst ?g) (snd ?g)) L nw ?recs = Inr a1"
    "reconstruct L nw rlen a0 a1 = Inr (if index < length ?recs then ?recs ! index else replicate rlen 0)"
    using dpf_sel.answers_reconstruct [of index n ?recs L rlen nw "take 16 seeds" "drop 16 seeds", OF assms(3) _ assms(1) nw
      records_props [OF db(2,3)]] assms(2) len by auto
  have key: "\<exists>k. key_bytes L root (fst ?g) (snd ?g) = Inr k" for root
    using key_bytes_eq [of n L "int index" 1 "take 16 seeds" "drop 16 seeds" "fst ?g" "snd ?g" root] by simp
  obtain k0 k1 where "key_bytes L (take 16 seeds) (fst ?g) (snd ?g) = Inr k0"
    "key_bytes L (drop 16 seeds) (fst ?g) (snd ?g) = Inr k1" using key by blast
  moreover have "?recs ! index = slice (index * rlen) ((index + 1) * rlen) db" if "index < count"
    using that by (simp add: records_def)
  ultimately show ?thesis
    unfolding pir_case_def Let_def case_prod_unfold
    using seeds db nw a len assms(2,3) by (auto simp: py_assert_def)
qed

lemma gen_levels_lengths:
  "gen_levels as p0 p1 = (cws, q0, q1) \<Longrightarrow> length cws = length as \<and> list_all (\<lambda>cw. length (fst cw) = 16) cws"
proof (induction as arbitrary: p0 p1 cws)
  case (Cons a as)
  obtain cws' where c: "cws = gen_cw a p0 p1 # cws'"
    "gen_levels as (step_down (gen_cw a p0 p1) a p0) (step_down (gen_cw a p0 p1) a p1) = (cws', q0, q1)"
    by (rule gen_levels_ConsE [OF Cons.prems])
  moreover have "length (fst (gen_cw a p0 p1)) = 16" by (simp add: gen_cw_def Let_def side_child)
  ultimately show ?case using Cons.IH [OF c(2)] by simp
qed simp

lemma cws_length:
  "list_all (\<lambda>cw. length (fst cw) = 16) cws \<Longrightarrow> length (concat (map (\<lambda>(s, tl, tr). s @ [tl, tr]) cws)) = 18 * length cws"
  by (induction cws) auto

lemma dpf_gen_lengths:
  "dpf_gen n L alpha beta s0 s1 = (cws, final) \<Longrightarrow> length cws = n \<and> list_all (\<lambda>cw. length (fst cw) = 16) cws"
  using gen_levels_lengths [of "path_bits n alpha" "(s0, 0)" "(s1, 1)"]
  by (auto simp: dpf_gen_def Let_def split: prod.splits)

lemma check_evals_ok:
  "check_evals v cws final pts = Inr () \<Longrightarrow> (x, e0, e1) \<in> set pts \<Longrightarrow>
     dpf_eval (fv_n v) (fv_L v) 0 (fv_s0 v) cws final x = Inr e0 \<and>
     dpf_eval (fv_n v) (fv_L v) 1 (fv_s1 v) cws final x = Inr e1"
  by (induction v cws final pts rule: check_evals.induct) (auto simp: rbind_eq_Inr_iff split: if_splits)

lemma self_check_all_ok: "self_check_all vs = Inr () \<Longrightarrow> v \<in> set vs \<Longrightarrow> self_check_vec v = Inr ()"
  by (induction vs) (auto simp: rbind_eq_Inr_iff)

section \<open>Properties\<close>

text \<open>C11: for every pair of root seeds, at every point of the domain both parties' evaluations return and
  add up, in the ring of integers modulo \<open>2 ^ (8 * L)\<close>, to \<open>beta\<close> at \<open>alpha\<close> and to zero elsewhere.\<close>

theorem dpf_shares_point_function:
  assumes "0 \<le> alpha" "alpha < 2 ^ n" "0 \<le> x" "x < 2 ^ n"
  shows "\<exists>v0 v1. dpf_eval n L 0 root0 (fst (dpf_gen n L alpha beta root0 root1)) (snd (dpf_gen n L alpha beta root0 root1)) x = Inr v0 \<and>
    dpf_eval n L 1 root1 (fst (dpf_gen n L alpha beta root0 root1)) (snd (dpf_gen n L alpha beta root0 root1)) x = Inr v1 \<and>
    (v0 + v1) mod ring L = (if x = alpha then beta mod ring L else 0)"
  using dpf_eval_sum [OF _ assms, of L beta root0 root1] by simp

theorem dpf_shares_point_function_witness:
  "\<exists>v0 v1. dpf_eval 3 4 0 [1] (fst (dpf_gen 3 4 5 9 [1] [2])) (snd (dpf_gen 3 4 5 9 [1] [2])) 5 = Inr v0 \<and>
    dpf_eval 3 4 1 [2] (fst (dpf_gen 3 4 5 9 [1] [2])) (snd (dpf_gen 3 4 5 9 [1] [2])) 5 = Inr v1 \<and>
    (v0 + v1) mod ring 4 = (if (5 :: int) = 5 then 9 mod ring 4 else 0)"
  by (rule dpf_shares_point_function) simp_all

text \<open>C12: every test case with a populated domain and a positive word size is produced without an error:
  the client's word-wise sum of the two answers is the record at the queried index, and zeros for an
  index past the database, whatever the database and the seeds are.\<close>

theorem pir_case_reconstructs:
  assumes "0 < L" "count \<le> 2 ^ n" "index < 2 ^ n" "count * rlen \<le> 2 ^ 37"
  shows "\<exists>v. pir_case name n L count rlen index = Inr v \<and> length (pv_db v) = count * rlen \<and>
    pv_record v = (if index < count then slice (index * rlen) ((index + 1) * rlen) (pv_db v) else replicate rlen 0)"
  by (rule pir_case_ok [OF assms])

theorem pir_case_reconstructs_witness:
  "\<exists>v. pir_case ''mid_word'' 3 4 5 13 3 = Inr v \<and> length (pv_db v) = 5 * 13 \<and>
    pv_record v = (if (3 :: nat) < 5 then slice (3 * 13) ((3 + 1) * 13) (pv_db v) else replicate 13 0)"
  by (rule pir_case_reconstructs) simp_all

text \<open>A serialised key is the seed, eighteen bytes per level and the \<open>L\<close> bytes of the last
  correction word, and writing it never raises.\<close>

theorem key_bytes_layout:
  "\<exists>k. key_bytes L root (fst (dpf_gen n L alpha beta s0 s1)) (snd (dpf_gen n L alpha beta s0 s1)) = Inr k \<and>
     length k = length root + 18 * n + L \<and> take (length root) k = root \<and>
     from_le (drop (length root + 18 * n) k) = snd (dpf_gen n L alpha beta s0 s1)"
proof -
  obtain cws final where g: "dpf_gen n L alpha beta s0 s1 = (cws, final)" by force
  note key_bytes_eq [OF g, of root] cws_length [of cws] dpf_gen_lengths [OF g] dpf_gen_final [OF g]
  then show ?thesis by (simp add: g from_le_le_bytes ring_eq)
qed

text \<open>Vectors that pass the self-check are shares of the point function they name: at each checked
  point of the domain the two recorded values add up to \<open>beta\<close> at \<open>alpha\<close> and to zero elsewhere.\<close>

theorem self_check_sound:
  assumes "self_check vecs = Inr ()" "v \<in> set vecs" "check_points v = Inr pts" "(x, e0, e1) \<in> set pts"
    and "0 \<le> fv_alpha v" "fv_alpha v < 2 ^ fv_n v" "0 \<le> x" "x < 2 ^ fv_n v"
  shows "(e0 + e1) mod ring (fv_L v) = (if x = fv_alpha v then fv_beta v mod ring (fv_L v) else 0)"
proof -
  have "self_check_vec v = Inr ()" using assms(1,2) self_check_all_ok by (auto simp: self_check_def split: if_splits)
  then obtain cws final where g: "dpf_gen (fv_n v) (fv_L v) (fv_alpha v) (fv_beta v) (fv_s0 v) (fv_s1 v) = (cws, final)"
    and e: "check_evals v cws final pts = Inr ()"
    using assms(3) by (auto simp: self_check_vec_def rbind_eq_Inr_iff split: prod.splits if_splits)
  show ?thesis using dpf_eval_sum [OF g assms(5-8)] check_evals_ok [OF e assms(4)] by auto
qed

definition ok_value :: "'a::zero result \<Rightarrow> 'a" where
  "ok_value r = (case r of Inl _ \<Rightarrow> 0 | Inr x \<Rightarrow> x)"

definition demo_vec :: fss_vec where
  "demo_vec = (let g = dpf_gen 3 4 5 9 [1] [2] in
     \<lparr> fv_name = ''v1'', fv_n = 3, fv_L = 4, fv_alpha = 5, fv_beta = 9, fv_s0 = [1], fv_s1 = [2],
       fv_cw = (case cw_bytes 4 (fst g) (snd g) of Inl _ \<Rightarrow> [] | Inr b \<Rightarrow> b), fv_eval0 = [], fv_eval1 = [],
       fv_spot = map (\<lambda>x. (x, ok_value (dpf_eval 3 4 0 [1] (fst g) (snd g) x), ok_value (dpf_eval 3 4 1 [2] (fst g) (snd g) x))) [5, 6] \<rparr>)"

lemma demo_evals:
  assumes "x = 5 \<or> x = 6"
  shows "dpf_eval 3 4 0 [1] (fst (dpf_gen 3 4 5 9 [1] [2])) (snd (dpf_gen 3 4 5 9 [1] [2])) x =
      Inr (ok_value (dpf_eval 3 4 0 [1] (fst (dpf_gen 3 4 5 9 [1] [2])) (snd (dpf_gen 3 4 5 9 [1] [2])) x))"
    and "dpf_eval 3 4 1 [2] (fst (dpf_gen 3 4 5 9 [1] [2])) (snd (dpf_gen 3 4 5 9 [1] [2])) x =
      Inr (ok_value (dpf_eval 3 4 1 [2] (fst (dpf_gen 3 4 5 9 [1] [2])) (snd (dpf_gen 3 4 5 9 [1] [2])) x))"
proof -
  obtain cws final where g: "dpf_gen 3 4 5 9 [1] [2] = (cws, final)" by force
  have "\<exists>v0 v1. dpf_eval 3 4 0 [1] cws final x = Inr v0 \<and> dpf_eval 3 4 1 [2] cws final x = Inr v1 \<and>
      (v0 + v1) mod ring 4 = (if x = 5 then 9 mod ring 4 else 0)"
    by (rule dpf_eval_sum [OF g]) (use assms in auto)
  then show "dpf_eval 3 4 0 [1] (fst (dpf_gen 3 4 5 9 [1] [2])) (snd (dpf_gen 3 4 5 9 [1] [2])) x =
      Inr (ok_value (dpf_eval 3 4 0 [1] (fst (dpf_gen 3 4 5 9 [1] [2])) (snd (dpf_gen 3 4 5 9 [1] [2])) x))"
    "dpf_eval 3 4 1 [2] (fst (dpf_gen 3 4 5 9 [1] [2])) (snd (dpf_gen 3 4 5 9 [1] [2])) x =
      Inr (ok_value (dpf_eval 3 4 1 [2] (fst (dpf_gen 3 4 5 9 [1] [2])) (snd (dpf_gen 3 4 5 9 [1] [2])) x))"
    by (auto simp: g ok_value_def)
qed

lemma demo_vec_passes: "self_check_vec demo_vec = Inr ()"
proof -
  obtain cws final where g: "dpf_gen 3 4 5 9 [1] [2] = (cws, final)" by force
  then obtain b where "cw_bytes 4 cws final = Inr b" using key_bytes_eq [OF g, of "[]"] by (auto simp: cw_bytes_def)
  moreover obtain a0 a1 b0 b1 where "dpf_eval 3 4 0 [1] cws final 5 = Inr a0" "dpf_eval 3 4 1 [2] cws final 5 = Inr a1"
    "dpf_eval 3 4 0 [1] cws final 6 = Inr b0" "dpf_eval 3 4 1 [2] cws final 6 = Inr b1"
    using demo_evals [of 5, unfolded g] demo_evals [of 6, unfolded g] by auto
  ultimately show ?thesis
    by (simp add: self_check_vec_def demo_vec_def g check_points_def Let_def ok_value_def)
qed

theorem self_check_sound_witness:
  "(ok_value (dpf_eval 3 4 0 [1] (fst (dpf_gen 3 4 5 9 [1] [2])) (snd (dpf_gen 3 4 5 9 [1] [2])) 6) +
    ok_value (dpf_eval 3 4 1 [2] (fst (dpf_gen 3 4 5 9 [1] [2])) (snd (dpf_gen 3 4 5 9 [1] [2])) 6)) mod ring (fv_L demo_vec) =
   (if 6 = fv_alpha demo_vec then fv_beta demo_vec mod ring (fv_L demo_vec) else 0)"
proof (rule self_check_sound [where vecs = "[demo_vec, demo_vec, demo_vec, demo_vec]" and pts = "fv_spot demo_vec"])
  show "self_check [demo_vec, demo_vec, demo_vec, demo_vec] = Inr ()"
    by (simp add: self_check_def demo_vec_passes)
qed (simp_all add: check_points_def demo_vec_def Let_def)

end
