(* ===== verification/UText.thy ===== *)
theory UText
  imports PyText
begin

text \<open>
  Python \<open>str\<close> values of the repository's scripts as lists of code points, with the operations the
  scripts use.  Whitespace, word characters and digits are those of code points below 256; no code
  point above is a word character, which is right for the punctuation (dashes, the ellipsis, the
  section sign) the scripts meet.
\<close>

type_synonym ustr = "int list"

text \<open>An ASCII literal.\<close>

definition asc :: "string \<Rightarrow> ustr" where
  "asc s = map of_char s"

lemma asc_simps [simp]: "asc [] = []" "asc (c # s) = of_char c # asc s"
  by (simp_all add: asc_def)

lemma length_asc [simp]: "length (asc s) = length s"
  by (simp add: asc_def)

section \<open>Character classes\<close>

definition u_space :: "int \<Rightarrow> bool" where
  "u_space c \<longleftrightarrow> (9 \<le> c \<and> c \<le> 13) \<or> (28 \<le> c \<and> c \<le> 32) \<or> c = 0x85 \<or> c = 0xA0 \<or> c = 0x1680 \<or>
     (0x2000 \<le> c \<and> c \<le> 0x200A) \<or> c = 0x2028 \<or> c = 0x2029 \<or> c = 0x202F \<or> c = 0x205F \<or> c = 0x3000"

definition u_digit :: "int \<Rightarrow> bool" where
  "u_digit c \<longleftrightarrow> 48 \<le> c \<and> c \<le> 57"

definition u_upper :: "int \<Rightarrow> bool" where
  "u_upper c \<longleftrightarrow> 65 \<le> c \<and> c \<le> 90"

definition u_lower :: "int \<Rightarrow> bool" where
  "u_lower c \<longleftrightarrow> 97 \<le> c \<and> c \<le> 122"

definition u_word :: "int \<Rightarrow> bool" where
  "u_word c \<longleftrightarrow> u_digit c \<or> u_upper c \<or> u_lower c \<or> c = 95 \<or> c = 0xAA \<or> c = 0xB2 \<or> c = 0xB3 \<or> c = 0xB5 \<or>
     c = 0xB9 \<or> c = 0xBA \<or> (0xBC \<le> c \<and> c \<le> 0xBE) \<or> (0xC0 \<le> c \<and> c \<le> 0xFF \<and> c \<noteq> 0xD7 \<and> c \<noteq> 0xF7)"

text \<open>Case folding of an ASCII letter, for \<open>re.I\<close> and \<open>str.upper\<close>.\<close>

definition to_lower :: "int \<Rightarrow> int" where
  "to_lower c = (if u_upper c then c + 32 else c)"

section \<open>Stripping, splitting, replacing\<close>

definition ulstrip :: "ustr \<Rightarrow> ustr" where
  "ulstrip s = dropWhile u_space s"

definition urstrip :: "ustr \<Rightarrow> ustr" where
  "urstrip s = rev (dropWhile u_space (rev s))"

definition ustrip :: "ustr \<Rightarrow> ustr" where
  "ustrip s = urstrip (ulstrip s)"

definition rstrip_of :: "(int \<Rightarrow> bool) \<Rightarrow> ustr \<Rightarrow> ustr" where
  "rstrip_of p s = rev (dropWhile p (rev s))"

definition usplit :: "char \<Rightarrow> ustr \<Rightarrow> ustr list" where
  "usplit c s = split_on (of_char c) s"

text \<open>\<open>s.split()\<close>: the maximal runs of characters that are not whitespace.\<close>

fun uwords_acc :: "ustr \<Rightarrow> ustr \<Rightarrow> ustr list" where
  "uwords_acc w [] = (if w = [] then [] else [rev w])"
| "uwords_acc w (c # cs) =
     (if u_space c then (if w = [] then uwords_acc [] cs else rev w # uwords_acc [] cs)
      else uwords_acc (c # w) cs)"

definition uwords :: "ustr \<Rightarrow> ustr list" where
  "uwords s = uwords_acc [] s"

text \<open>\<open>s.replace(old, new)\<close> for a non-empty \<open>old\<close>.\<close>

function ureplace :: "'a list \<Rightarrow> 'a list \<Rightarrow> 'a list \<Rightarrow> 'a list" where
  "ureplace old new s =
     (if old = [] \<or> s = [] then s
      else if take (length old) s = old then new @ ureplace old new (drop (length old) s)
      else hd s # ureplace old new (tl s))"
  by pat_completeness auto
termination
proof (relation "measure (\<lambda>(old, new, s). length s)", goal_cases)
  case (2 old new s)
  then show ?case by (cases s; cases old) auto
next
  case (3 old new s)
  then show ?case by (cases s) auto
qed simp

declare ureplace.simps [simp del]

definition ucontains :: "ustr \<Rightarrow> ustr \<Rightarrow> bool" where
  "ucontains p s = contains p s"

text \<open>\<open>c.encode()\<close> of a character.\<close>

definition encode_char :: "int \<Rightarrow> bytes" where
  "encode_char c = (if c < 0x80 then [c]
     else if c < 0x800 then [0xC0 + c div 64, 0x80 + c mod 64]
     else if c < 0x10000 then [0xE0 + c div 4096, 0x80 + c div 64 mod 64, 0x80 + c mod 64]
     else [0xF0 + c div 262144, 0x80 + c div 4096 mod 64, 0x80 + c div 64 mod 64, 0x80 + c mod 64])"

text \<open>\<open>s.encode()\<close>: a lone surrogate has no encoding.\<close>

definition py_encode :: "ustr \<Rightarrow> bytes result" where
  "py_encode s = (if list_all (\<lambda>c. \<not> (0xD800 \<le> c \<and> c \<le> 0xDFFF)) s then Inr (concat (map encode_char s)) else Inl UnicodeError)"

definition code_point :: "int \<Rightarrow> bool" where
  "code_point c \<longleftrightarrow> 0 \<le> c \<and> c < 0x110000"

lemma is_bytes_encode_char: "code_point c \<Longrightarrow> is_bytes (encode_char c)"
  by (auto simp: encode_char_def code_point_def is_byte_def)

lemma is_bytes_py_encode: "py_encode s = Inr b \<Longrightarrow> list_all code_point s \<Longrightarrow> is_bytes b"
  by (auto simp: py_encode_def is_bytes_concat list_all_iff is_bytes_encode_char split: if_splits)

text \<open>The length of \<open>s.encode()\<close>.\<close>

definition utf8_len1 :: "int \<Rightarrow> nat" where
  "utf8_len1 c = (if c < 0x80 then 1 else if c < 0x800 then 2 else if c < 0x10000 then 3 else 4)"

definition utf8_len :: "ustr \<Rightarrow> nat" where
  "utf8_len s = sum_list (map utf8_len1 s)"

text \<open>\<open>s.encode()[:n].decode("utf-8", "ignore")\<close>: the whole characters that fit.\<close>

fun utf8_take :: "nat \<Rightarrow> ustr \<Rightarrow> ustr" where
  "utf8_take n [] = []"
| "utf8_take n (c # s) = (if utf8_len1 c \<le> n then c # utf8_take (n - utf8_len1 c) s else [])"

lemma utf8_len_simps [simp]:
  "utf8_len [] = 0" "utf8_len (c # s) = utf8_len1 c + utf8_len s" "utf8_len (s @ t) = utf8_len s + utf8_len t"
  by (simp_all add: utf8_len_def)

lemma utf8_take_le: "utf8_len (utf8_take n s) \<le> n"
  by (induction n s rule: utf8_take.induct) auto

lemma length_le_utf8_len: "length s \<le> utf8_len s"
  by (induction s) (auto simp: utf8_len1_def)

text \<open>\<open>str(n)\<close> as a text, \<open>int(s)\<close> on ASCII digits.\<close>

definition ushow :: "int \<Rightarrow> ustr" where
  "ushow n = asc (show_int n)"

definition parse_int :: "ustr \<Rightarrow> int result" where
  "parse_int s = (if list_all (\<lambda>c. 0 \<le> c \<and> c < 256) s then py_int (map char_of s) else Inl ValueError)"

lemma map_char_of_asc [simp]: "map char_of (asc s) = s"
  by (induction s) simp_all

lemma parse_int_ushow: "parse_int (ushow n) = Inr n"
proof -
  have "list_all (\<lambda>c. 0 \<le> c \<and> c < 256) (asc s)" for s
    using is_bytes_of_char [of s] by (simp add: is_bytes_def is_byte_def asc_def list_all_iff)
  then show ?thesis by (simp add: parse_int_def ushow_def py_int_show_int)
qed

lemma ushow_no_space:
  assumes "9 \<le> x" "x \<le> 13"
  shows "x \<notin> set (ushow n)"
proof
  assume "x \<in> set (ushow n)"
  then obtain c where c: "c \<in> set (show_int n)" "x = of_char c" by (auto simp: ushow_def asc_def)
  then have "c = CHR ''-'' \<or> \<not> is_space c" by (auto simp: show_int_def dest: show_nat_chars split: if_splits)
  with c(2) assms show False by (auto simp: is_space_def)
qed

text \<open>\<open>"%x" % n\<close>, and padding with zeros to a width.\<close>

fun show_hex :: "nat \<Rightarrow> string" where
  "show_hex n = (if n < 16 then [''0123456789abcdef'' ! n] else show_hex (n div 16) @ [''0123456789abcdef'' ! (n mod 16)])"

declare show_hex.simps [simp del]

definition zfill :: "nat \<Rightarrow> string \<Rightarrow> string" where
  "zfill w s = replicate (w - length s) (CHR ''0'') @ s"

section \<open>Words\<close>

lemma uwords_acc_no_space:
  "list_all (\<lambda>c. \<not> u_space c) w \<Longrightarrow> x \<in> set (uwords_acc w s) \<Longrightarrow> x \<noteq> [] \<and> list_all (\<lambda>c. \<not> u_space c) x"
proof (induction s arbitrary: w)
  case (Cons c s)
  consider "u_space c" "w = []" "x \<in> set (uwords_acc [] s)" | "u_space c" "w \<noteq> []" "x = rev w \<or> x \<in> set (uwords_acc [] s)"
    | "\<not> u_space c" "x \<in> set (uwords_acc (c # w) s)"
    using Cons.prems(2) by (cases "u_space c"; cases "w = []") auto
  then show ?case
    using Cons.IH [of "[]"] Cons.IH [of "c # w"] Cons.prems(1) by cases (auto simp: list_all_iff)
qed (auto simp: list_all_iff split: if_splits)

lemma uwords_no_space: "x \<in> set (uwords s) \<Longrightarrow> x \<noteq> [] \<and> list_all (\<lambda>c. \<not> u_space c) x"
  unfolding uwords_def by (rule uwords_acc_no_space) simp_all

lemma uwords_acc_prefix: "list_all (\<lambda>c. \<not> u_space c) x \<Longrightarrow> uwords_acc w (x @ s) = uwords_acc (rev x @ w) s"
  by (induction x arbitrary: w) auto

lemma uwords_word: "x \<noteq> [] \<Longrightarrow> list_all (\<lambda>c. \<not> u_space c) x \<Longrightarrow> uwords x = [x]"
  using uwords_acc_prefix [of x "[]" "[]"] by (simp add: uwords_def)

lemma uwords_word_space:
  "x \<noteq> [] \<Longrightarrow> list_all (\<lambda>c. \<not> u_space c) x \<Longrightarrow> u_space c \<Longrightarrow> uwords (x @ c # s) = x # uwords s"
  using uwords_acc_prefix [of x "[]" "c # s"] by (simp add: uwords_def)

lemma uwords_join:
  "(\<And>x. x \<in> set ws \<Longrightarrow> x \<noteq> [] \<and> list_all (\<lambda>c. \<not> u_space c) x) \<Longrightarrow> uwords (join [32] ws) = ws"
proof (induction ws)
  case Nil
  show ?case by (simp add: uwords_def)
next
  case (Cons w ws)
  then have w: "w \<noteq> []" "list_all (\<lambda>c. \<not> u_space c) w" and ih: "uwords (join [32] ws) = ws" by auto
  have sp: "u_space 32" by (simp add: u_space_def)
  show ?case
  proof (cases "ws = []")
    case True
    with uwords_word [OF w] show ?thesis by simp
  next
    case False
    then have "join [32] (w # ws) = w @ 32 # join [32] ws" by (simp add: join_Cons)
    with uwords_word_space [OF w sp] ih show ?thesis by simp
  qed
qed

text \<open>\<open>" ".join(s.split())\<close> is idempotent.\<close>

lemma squeeze_idem: "join [32] (uwords (join [32] (uwords s))) = join [32] (uwords s)"
  by (subst uwords_join) (simp_all add: uwords_no_space)

end
