(* ===== verification/Regex.thy ===== *)
theory Regex
  imports UText
begin

text \<open>
  The part of Python's \<open>re\<close> the scripts use: a pattern as data, a backtracking matcher that returns
  all ways to match at a position in the order the engine tries them, and \<open>search\<close>, \<open>match\<close>,
  \<open>finditer\<close>, \<open>findall\<close>, \<open>sub\<close> and \<open>split\<close> built on its first success.
\<close>

section \<open>Patterns\<close>

type_synonym caps = "(nat \<times> nat \<times> nat) list"

datatype re =
    REps
  | RSet "int \<Rightarrow> bool"
  | RSeq re re
  | RAlt re re
  | RRep bool nat "nat option" re  \<comment> \<open>greedy, least and most number of rounds\<close>
  | RGroup nat re
  | RNotBehind re nat              \<comment> \<open>negative lookbehind of a fixed width\<close>
  | RAhead bool re                 \<comment> \<open>lookahead, positive or negative\<close>
  | RBol                           \<comment> \<open>\<open>^\<close> with \<open>re.M\<close>\<close>
  | REol                           \<comment> \<open>\<open>$\<close> with \<open>re.M\<close>\<close>
  | RStart                         \<comment> \<open>\<open>^\<close> without \<open>re.M\<close>\<close>
  | REnd                           \<comment> \<open>\<open>$\<close> without \<open>re.M\<close>\<close>
  | RWordB                         \<comment> \<open>\<open>\b\<close>\<close>

section \<open>The matcher\<close>

text \<open>The rounds of a repetition from position \<open>i\<close>: once the least number is done a round has to
  advance.  \<open>f\<close> matches one round.\<close>

function rep_match :: "(nat \<Rightarrow> caps \<Rightarrow> (nat \<times> caps) list) \<Rightarrow> nat \<Rightarrow> bool \<Rightarrow> nat \<Rightarrow> nat option \<Rightarrow> nat \<Rightarrow> caps \<Rightarrow> (nat \<times> caps) list" where
  "rep_match f len g (Suc lo) hi i c =
     concat (map (\<lambda>(j, c'). rep_match f len g lo (map_option (\<lambda>h. h - 1) hi) j c') (f i c))"
| "rep_match f len g 0 hi i c =
     (let more = (if hi = Some 0 then [] else concat (map (\<lambda>(j, c').
            if i < j \<and> j \<le> len then rep_match f len g 0 (map_option (\<lambda>h. h - 1) hi) j c' else []) (f i c)))
      in if g then more @ [(i, c)] else (i, c) # more)"
  by pat_completeness auto
termination
  by (relation "measures [\<lambda>(f, len, g, lo, hi, i, c). lo, \<lambda>(f, len, g, lo, hi, i, c). len - i]") auto

declare rep_match.simps [simp del]

definition word_at :: "ustr \<Rightarrow> nat \<Rightarrow> bool" where
  "word_at s i \<longleftrightarrow> i < length s \<and> u_word (s ! i)"

definition word_boundary :: "ustr \<Rightarrow> nat \<Rightarrow> bool" where
  "word_boundary s i \<longleftrightarrow> (0 < i \<and> word_at s (i - 1)) \<noteq> word_at s i"

primrec rmt :: "re \<Rightarrow> ustr \<Rightarrow> nat \<Rightarrow> caps \<Rightarrow> (nat \<times> caps) list" where
  "rmt REps s i c = [(i, c)]"
| "rmt (RSet p) s i c = (if i < length s \<and> p (s ! i) then [(Suc i, c)] else [])"
| "rmt (RSeq r1 r2) s i c = concat (map (\<lambda>(j, c'). rmt r2 s j c') (rmt r1 s i c))"
| "rmt (RAlt r1 r2) s i c = rmt r1 s i c @ rmt r2 s i c"
| "rmt (RRep g lo hi r) s i c = rep_match (rmt r s) (length s) g lo hi i c"
| "rmt (RGroup k r) s i c = map (\<lambda>(j, c'). (j, (k, i, j) # c')) (rmt r s i c)"
| "rmt (RNotBehind r w) s i c =
     (if w \<le> i \<and> list_ex (\<lambda>(j, _). j = i) (rmt r s (i - w) c) then [] else [(i, c)])"
| "rmt (RAhead b r) s i c = (if (rmt r s i c \<noteq> []) = b then [(i, c)] else [])"
| "rmt RBol s i c = (if i = 0 \<or> (i \<le> length s \<and> s ! (i - 1) = 10) then [(i, c)] else [])"
| "rmt REol s i c = (if i = length s \<or> (i < length s \<and> s ! i = 10) then [(i, c)] else [])"
| "rmt RStart s i c = (if i = 0 then [(i, c)] else [])"
| "rmt REnd s i c = (if i = length s \<or> (Suc i = length s \<and> s ! i = 10) then [(i, c)] else [])"
| "rmt RWordB s i c = (if word_boundary s i then [(i, c)] else [])"

section \<open>Building patterns\<close>

definition rchr :: "char \<Rightarrow> re" where
  "rchr ch = RSet (\<lambda>x. x = of_char ch)"

fun rlit :: "string \<Rightarrow> re" where
  "rlit [] = REps"
| "rlit (ch # cs) = RSeq (rchr ch) (rlit cs)"

text \<open>A literal under \<open>re.I\<close>.\<close>

fun rlit_i :: "string \<Rightarrow> re" where
  "rlit_i [] = REps"
| "rlit_i (ch # cs) = RSeq (RSet (\<lambda>x. to_lower x = to_lower (of_char ch))) (rlit_i cs)"

fun ru :: "ustr \<Rightarrow> re" where
  "ru [] = REps"
| "ru (x # xs) = RSeq (RSet (\<lambda>y. y = x)) (ru xs)"

fun rseq :: "re list \<Rightarrow> re" where
  "rseq [] = REps"
| "rseq [r] = r"
| "rseq (r # rs) = RSeq r (rseq rs)"

fun ralt :: "re list \<Rightarrow> re" where
  "ralt [] = RSet (\<lambda>_. False)"
| "ralt [r] = r"
| "ralt (r # rs) = RAlt r (ralt rs)"

definition rstar :: "re \<Rightarrow> re" where "rstar r = RRep True 0 None r"
definition rplus :: "re \<Rightarrow> re" where "rplus r = RRep True 1 None r"
definition ropt :: "re \<Rightarrow> re" where "ropt r = RRep True 0 (Some 1) r"
definition rlazy :: "re \<Rightarrow> re" where "rlazy r = RRep False 0 None r"
definition rdot :: re where "rdot = RSet (\<lambda>x. x \<noteq> 10)"
definition rany :: re where "rany = RSet (\<lambda>_. True)"
definition rspace :: re where "rspace = RSet u_space"
definition rword :: re where "rword = RSet u_word"
definition rdigit :: re where "rdigit = RSet u_digit"
definition rnonspace :: re where "rnonspace = RSet (\<lambda>x. \<not> u_space x)"

definition one_of :: "string \<Rightarrow> int \<Rightarrow> bool" where
  "one_of cs x \<longleftrightarrow> x \<in> set (asc cs)"

section \<open>Searching\<close>

type_synonym rmatch = "nat \<times> nat \<times> caps"

definition match_at :: "re \<Rightarrow> ustr \<Rightarrow> nat \<Rightarrow> rmatch option" where
  "match_at r s i = (case rmt r s i [] of [] \<Rightarrow> None | (j, c) # _ \<Rightarrow> Some (i, j, c))"

text \<open>The first match that starts at or after \<open>i\<close>; with \<open>adv\<close> it may not be empty at \<open>i\<close>.\<close>

definition match_adv :: "bool \<Rightarrow> re \<Rightarrow> ustr \<Rightarrow> nat \<Rightarrow> rmatch option" where
  "match_adv adv r s i = (case filter (\<lambda>(j, c). adv \<longrightarrow> j \<noteq> i) (rmt r s i []) of [] \<Rightarrow> None | (j, c) # _ \<Rightarrow> Some (i, j, c))"

function search_from :: "bool \<Rightarrow> re \<Rightarrow> ustr \<Rightarrow> nat \<Rightarrow> rmatch option" where
  "search_from adv r s i =
     (if i > length s then None
      else case match_adv adv r s i of Some x \<Rightarrow> Some x | None \<Rightarrow> search_from False r s (Suc i))"
  by pat_completeness auto
termination
  by (relation "measure (\<lambda>(adv, r, s, i). Suc (length s) - i)") auto

declare search_from.simps [simp del]

definition re_match :: "re \<Rightarrow> ustr \<Rightarrow> rmatch option" where
  "re_match r s = match_at r s 0"

definition re_search :: "re \<Rightarrow> ustr \<Rightarrow> rmatch option" where
  "re_search r s = search_from False r s 0"

text \<open>\<open>pattern.search(s, pos)\<close> and \<open>pattern.match(s, pos)\<close>.\<close>

definition re_search_at :: "re \<Rightarrow> ustr \<Rightarrow> nat \<Rightarrow> rmatch option" where
  "re_search_at r s pos = search_from False r s pos"

text \<open>A match that leaves the string is impossible; the check keeps the loop total.\<close>

function find_all_from :: "bool \<Rightarrow> re \<Rightarrow> ustr \<Rightarrow> nat \<Rightarrow> rmatch list" where
  "find_all_from adv r s i =
     (case search_from adv r s i of
        None \<Rightarrow> []
      | Some (a, b, c) \<Rightarrow>
          if i \<le> a \<and> a \<le> b \<and> b \<le> length s \<and> (i < b \<or> \<not> adv)
          then (a, b, c) # find_all_from (a = b) r s b else [])"
  by pat_completeness auto
termination
  by (relation "measures [\<lambda>(adv, r, s, i). length s - i, \<lambda>(adv, r, s, i). if adv then 0 else 1]") auto

declare find_all_from.simps [simp del]

definition finditer :: "re \<Rightarrow> ustr \<Rightarrow> rmatch list" where
  "finditer r s = find_all_from False r s 0"

definition matched :: "ustr \<Rightarrow> rmatch \<Rightarrow> ustr" where
  "matched s x = (case x of (a, b, _) \<Rightarrow> slice a b s)"

definition m_start :: "rmatch \<Rightarrow> nat" where "m_start x = fst x"
definition m_end :: "rmatch \<Rightarrow> nat" where "m_end x = fst (snd x)"

text \<open>\<open>m.group(k)\<close>: the last round that set the group, \<open>None\<close> if no round did.\<close>

definition group :: "ustr \<Rightarrow> rmatch \<Rightarrow> nat \<Rightarrow> ustr option" where
  "group s x k = map_option (\<lambda>(a, b). slice a b s) (map_of (snd (snd x)) k)"

text \<open>\<open>m.group(k)\<close> where the pattern always sets the group; \<open>findall\<close> writes an unset group as empty.\<close>

definition group0 :: "ustr \<Rightarrow> rmatch \<Rightarrow> nat \<Rightarrow> ustr" where
  "group0 s x k = (case group s x k of None \<Rightarrow> [] | Some t \<Rightarrow> t)"

fun sub_pieces :: "(rmatch \<Rightarrow> ustr) \<Rightarrow> ustr \<Rightarrow> nat \<Rightarrow> rmatch list \<Rightarrow> ustr" where
  "sub_pieces f s i [] = drop i s"
| "sub_pieces f s i (x # xs) = slice i (m_start x) s @ f x @ sub_pieces f s (m_end x) xs"

definition re_sub :: "re \<Rightarrow> (rmatch \<Rightarrow> ustr) \<Rightarrow> ustr \<Rightarrow> ustr" where
  "re_sub r f s = sub_pieces f s 0 (finditer r s)"

text \<open>\<open>re.split\<close> with one capturing group around the whole pattern: texts and matches alternate.\<close>

fun split_pieces :: "ustr \<Rightarrow> nat \<Rightarrow> rmatch list \<Rightarrow> ustr list" where
  "split_pieces s i [] = [drop i s]"
| "split_pieces s i (x # xs) = slice i (m_start x) s # matched s x # split_pieces s (m_end x) xs"

definition re_split :: "re \<Rightarrow> ustr \<Rightarrow> ustr list" where
  "re_split r s = split_pieces s 0 (finditer r s)"

section \<open>Positions\<close>

definition advances :: "nat \<Rightarrow> (nat \<Rightarrow> caps \<Rightarrow> (nat \<times> caps) list) \<Rightarrow> bool" where
  "advances len f \<longleftrightarrow> (\<forall>i c j c'. i \<le> len \<longrightarrow> (j, c') \<in> set (f i c) \<longrightarrow> i \<le> j \<and> j \<le> len)"

lemma advancesD: "advances len f \<Longrightarrow> i \<le> len \<Longrightarrow> (j, c') \<in> set (f i c) \<Longrightarrow> i \<le> j \<and> j \<le> len"
  unfolding advances_def by blast

lemma mem_rep_Suc:
  assumes "(j, c') \<in> set (rep_match f len g (Suc lo) hi i c)"
  obtains k d where "(k, d) \<in> set (f i c)" "(j, c') \<in> set (rep_match f len g lo (map_option (\<lambda>h. h - 1) hi) k d)"
proof -
  from assms have "\<exists>x \<in> set (f i c). (j, c') \<in> set (case x of (k, d) \<Rightarrow> rep_match f len g lo (map_option (\<lambda>h. h - 1) hi) k d)"
    unfolding rep_match.simps(1) set_concat set_map by blast
  with that show thesis by (metis case_prod_conv surj_pair)
qed

lemma mem_rep_0:
  assumes "(j, c') \<in> set (rep_match f len g 0 hi i c)" "(j, c') \<noteq> (i, c)"
  obtains k d where "hi \<noteq> Some 0" "(k, d) \<in> set (f i c)" "i < k \<and> k \<le> len"
    "(j, c') \<in> set (rep_match f len g 0 (map_option (\<lambda>h. h - 1) hi) k d)"
proof -
  let ?r = "\<lambda>k d. if i < k \<and> k \<le> len then rep_match f len g 0 (map_option (\<lambda>h. h - 1) hi) k d else []"
  let ?more = "concat (map (\<lambda>(k, d). ?r k d) (f i c))"
  have "set (rep_match f len g 0 hi i c) = insert (i, c) (if hi = Some 0 then {} else set ?more)"
    by (subst rep_match.simps(2)) (simp add: Let_def)
  with assms have "hi \<noteq> Some 0" and mem: "(j, c') \<in> set ?more" by (auto simp del: set_concat split: if_splits)
  from mem obtain x where "x \<in> set (f i c)" "(j, c') \<in> set (case x of (k, d) \<Rightarrow> ?r k d)"
    unfolding set_concat set_map by blast
  moreover obtain k d where "x = (k, d)" by (rule prod.exhaust)
  ultimately have kd: "(k, d) \<in> set (f i c)" "(j, c') \<in> set (?r k d)" by (simp_all only: case_prod_conv)
  show thesis
  proof (cases "i < k \<and> k \<le> len")
    case True
    then have "(j, c') \<in> set (rep_match f len g 0 (map_option (\<lambda>h. h - 1) hi) k d)" using kd(2) by simp
    from that [OF \<open>hi \<noteq> Some 0\<close> kd(1) True this] show thesis .
  next
    case False
    with kd(2) show thesis by auto
  qed
qed

lemma rep_match_bounds:
  "advances len f \<Longrightarrow> i \<le> len \<Longrightarrow> (j, c') \<in> set (rep_match f len g lo hi i c) \<Longrightarrow> i \<le> j \<and> j \<le> len"
proof (induction f len g lo hi i c arbitrary: j c' rule: rep_match.induct)
  case (1 f len g lo hi i c)
  obtain k d where k: "(k, d) \<in> set (f i c)"
    "(j, c') \<in> set (rep_match f len g lo (map_option (\<lambda>h. h - 1) hi) k d)"
    by (rule mem_rep_Suc [OF "1.prems"(3)])
  have ik: "i \<le> k \<and> k \<le> len" by (rule advancesD [OF "1.prems"(1,2) k(1)])
  have "k \<le> j \<and> j \<le> len" by (rule "1.IH" [OF k(1) refl "1.prems"(1) _ k(2)]) (use ik in simp)
  with ik show ?case by linarith
next
  case (2 f len g hi i c)
  show ?case
  proof (cases "(j, c') = (i, c)")
    case False
    obtain k d where k: "hi \<noteq> Some 0" "(k, d) \<in> set (f i c)" "i < k \<and> k \<le> len"
      "(j, c') \<in> set (rep_match f len g 0 (map_option (\<lambda>h. h - 1) hi) k d)"
      by (rule mem_rep_0 [OF "2.prems"(3) False])
    have "k \<le> j \<and> j \<le> len" by (rule "2.IH" [OF k(1,2) refl k(3) "2.prems"(1) _ k(4)]) (use k(3) in simp)
    with k(3) show ?thesis by linarith
  qed (use "2.prems"(2) in simp)
qed

lemma m_seq_bounds:
  assumes "advances (length s) (rmt r1 s)" "advances (length s) (rmt r2 s)" "i \<le> length s" "(j, c') \<in> set (rmt (RSeq r1 r2) s i c)"
  shows "i \<le> j \<and> j \<le> length s"
proof -
  from assms(4) obtain k d where k: "(k, d) \<in> set (rmt r1 s i c)" "(j, c') \<in> set (rmt r2 s k d)" by auto
  have ik: "i \<le> k \<and> k \<le> length s" by (rule advancesD [OF assms(1,3) k(1)])
  have "k \<le> j \<and> j \<le> length s" by (rule advancesD [OF assms(2) _ k(2)]) (use ik in simp)
  with ik show ?thesis by linarith
qed

lemma m_advances: "advances (length s) (rmt r s)"
proof (induction r)
  case (RSeq r1 r2)
  show ?case unfolding advances_def using m_seq_bounds [OF RSeq.IH] by blast
next
  case (RRep g lo hi r)
  have "i \<le> j \<and> j \<le> length s" if "i \<le> length s" "(j, c') \<in> set (rmt (RRep g lo hi r) s i c)" for i j c c'
    using rep_match_bounds [OF RRep.IH that(1)] that(2) by simp
  then show ?case unfolding advances_def by blast
next
  case (RAlt r1 r2)
  then show ?case unfolding advances_def rmt.simps set_append Un_iff by blast
next
  case (RGroup k r)
  have "i \<le> j \<and> j \<le> length s" if "i \<le> length s" "(j, c') \<in> set (rmt (RGroup k r) s i c)" for i j c c'
  proof -
    from that(2) obtain d where "(j, d) \<in> set (rmt r s i c)" by auto
    with advancesD [OF RGroup.IH that(1)] show ?thesis by blast
  qed
  then show ?case unfolding advances_def by blast
next
  case (RNotBehind r w)
  show ?case by (simp add: advances_def)
next
  case (RAhead b r)
  show ?case by (simp add: advances_def)
qed (simp_all add: advances_def)

lemma m_bounds: "i \<le> length s \<Longrightarrow> (j, c') \<in> set (rmt r s i c) \<Longrightarrow> i \<le> j \<and> j \<le> length s"
  using advancesD [OF m_advances] .

lemma match_adv_mem:
  "match_adv adv r s i = Some (a, b, c) \<Longrightarrow> a = i \<and> (b, c) \<in> set (rmt r s i []) \<and> (adv \<longrightarrow> b \<noteq> i)"
proof -
  assume a: "match_adv adv r s i = Some (a, b, c)"
  let ?xs = "filter (\<lambda>(j, c). adv \<longrightarrow> j \<noteq> i) (rmt r s i [])"
  from a obtain ys where "?xs = (b, c) # ys" "a = i" by (auto simp: match_adv_def split: list.splits)
  then have "(b, c) \<in> set ?xs" by simp
  with \<open>a = i\<close> show ?thesis by simp
qed

lemma search_unfold:
  "search_from adv r s i = (if length s < i then None
     else case match_adv adv r s i of Some x \<Rightarrow> Some x | None \<Rightarrow> search_from False r s (Suc i))"
  by (rule search_from.simps)

lemma search_mem:
  "search_from adv r s i = Some (a, b, c) \<Longrightarrow> i \<le> a \<and> a \<le> length s \<and> (b, c) \<in> set (rmt r s a []) \<and> (adv \<longrightarrow> i < a \<or> i \<noteq> b)"
proof (induction adv r s i rule: search_from.induct)
  case (1 adv r s i)
  show ?case
  proof (cases "length s < i")
    case True
    with "1.prems" show ?thesis by (simp add: search_unfold [of adv])
  next
    case len: False
    show ?thesis
    proof (cases "match_adv adv r s i")
      case None
      with "1.prems" len have "search_from False r s (Suc i) = Some (a, b, c)" by (simp add: search_unfold [of adv])
      from "1.IH" [OF len None this] show ?thesis by auto
    next
      case (Some x)
      with "1.prems" len have "match_adv adv r s i = Some (a, b, c)" by (simp add: search_unfold [of adv])
      from match_adv_mem [OF this] len show ?thesis by auto
    qed
  qed
qed

lemma search_bounds:
  assumes "search_from adv r s i = Some (a, b, c)"
  shows "i \<le> a" "a \<le> b" "b \<le> length s" "adv \<Longrightarrow> i < b"
proof -
  from search_mem [OF assms] have "i \<le> a" "a \<le> length s" "(b, c) \<in> set (rmt r s a [])" "adv \<longrightarrow> i < a \<or> i \<noteq> b" by auto
  with m_bounds [OF this(2,3)] show "i \<le> a" "a \<le> b" "b \<le> length s" "adv \<Longrightarrow> i < b" by auto
qed

text \<open>The matches of \<open>finditer\<close> follow each other.\<close>

fun ordered :: "nat \<Rightarrow> nat \<Rightarrow> rmatch list \<Rightarrow> bool" where
  "ordered i len [] = (i \<le> len)"
| "ordered i len (x # xs) = (i \<le> m_start x \<and> m_start x \<le> m_end x \<and> ordered (m_end x) len xs)"

lemma find_all_unfold:
  "find_all_from adv r s i = (case search_from adv r s i of None \<Rightarrow> []
     | Some (a, b, c) \<Rightarrow> (a, b, c) # find_all_from (a = b) r s b)"
proof (cases "search_from adv r s i")
  case (Some x)
  obtain a b c where x: "x = (a, b, c)" by (cases x) auto
  with Some search_bounds [of adv r s i a b c] show ?thesis
    by (subst find_all_from.simps) auto
qed (simp add: find_all_from.simps [of adv])

lemma find_all_ordered: "i \<le> length s \<Longrightarrow> ordered i (length s) (find_all_from adv r s i)"
proof (induction adv r s i rule: find_all_from.induct)
  case (1 adv r s i)
  show ?case
  proof (cases "search_from adv r s i")
    case None
    with "1.prems" show ?thesis by (simp add: find_all_unfold [of adv r s i])
  next
    case (Some x)
    obtain a b c where x: "x = (a, b, c)" by (cases x) auto
    note b = search_bounds [OF Some [unfolded x]]
    have "ordered b (length s) (find_all_from (a = b) r s b)"
      by (rule "1.IH" [OF Some x [symmetric] refl]) (use b in auto)
    with b Some x show ?thesis by (simp add: find_all_unfold [of adv r s i] m_start_def m_end_def)
  qed
qed

lemma finditer_ordered: "ordered 0 (length s) (finditer r s)"
  by (simp add: finditer_def find_all_ordered)

lemma drop_slice: "i \<le> a \<Longrightarrow> slice i a s @ drop a s = drop i s"
  unfolding slice_def using append_take_drop_id [of "a - i" "drop i s"] by simp

lemma split_concat_from: "ordered i (length s) xs \<Longrightarrow> concat (split_pieces s i xs) = drop i s"
proof (induction xs arbitrary: i)
  case (Cons x xs)
  then have o: "i \<le> m_start x" "m_start x \<le> m_end x" "ordered (m_end x) (length s) xs" by simp_all
  have "matched s x = slice (m_start x) (m_end x) s" by (cases x) (simp add: matched_def m_start_def m_end_def)
  with Cons.IH [OF o(3)] o(1,2) show ?case by (simp add: drop_slice)
qed simp

text \<open>Splitting loses nothing: texts and separators together are the string.\<close>

lemma re_split_concat: "concat (re_split r s) = s"
  by (simp add: re_split_def split_concat_from finditer_ordered)

lemma length_split_pieces: "length (split_pieces s i xs) = 2 * length xs + 1"
  by (induction xs arbitrary: i) simp_all

lemma re_split_not_Nil [simp]: "re_split r s \<noteq> []"
  using length_split_pieces [of s 0 "finditer r s"] by (auto simp: re_split_def)

end
