(* ===== verification/PirKats.thy ===== *)
theory PirKats
  imports Pir Regex
begin

text \<open>
  \<open>parse_fss_kats\<close> of \<open>modules/pir/tools/rederive.py\<close>: the \<open>fss\<close> vectors read from the text of the generated Zig file, and the run of
  the script on that text.
\<close>

definition VECTOR_RE :: re where
  "VECTOR_RE = rseq [rlit ''pub const '', RGroup 1 (rseq [rchr CHR ''v'', rplus rdigit]), rlit '' = Vector{'', RGroup 2 (rlazy rany), RSet (\<lambda>x. x = 10), rlit ''};'']"

definition field_start :: "string \<Rightarrow> re" where
  "field_start field1 = rseq [rchr CHR ''.'', rlit field1, rlit '' = '']"

text \<open>\<open>re.search(...).group(1)\<close> on a pattern that is not found is an \<open>AttributeError\<close>.\<close>

definition kat_num :: "ustr \<Rightarrow> string \<Rightarrow> int result" where
  "kat_num body field1 = (case re_search (rseq [field_start field1, RGroup 1 (rplus rdigit), rchr CHR '','']) body of
     None \<Rightarrow> Inl AttributeError | Some m \<Rightarrow> parse_int (group0 body m 1))"

definition hex2_re :: re where
  "hex2_re = rseq [rlit ''0x'', RSet (\<lambda>x. u_digit x \<or> 97 \<le> x \<and> x \<le> 102), RSet (\<lambda>x. u_digit x \<or> 97 \<le> x \<and> x \<le> 102)]"

definition kat_arr :: "ustr \<Rightarrow> string \<Rightarrow> bytes result" where
  "kat_arr body field1 = (case re_search (rseq [field_start field1, ropt (rchr CHR ''&''), rlit ''[_]u8{'', RGroup 1 (rlazy rany), rchr CHR ''}'']) body of
     None \<Rightarrow> Inl AttributeError
   | Some m \<Rightarrow> rmap (\<lambda>h. py_int16 (map char_of (matched (group0 body m 1) h))) (finditer hex2_re (group0 body m 1)))"

definition kat_u64s :: "ustr \<Rightarrow> string \<Rightarrow> int list result" where
  "kat_u64s body field1 = (case re_search (rseq [field_start field1, rchr CHR ''&'', ropt (rlit ''[_]u64''), rchr CHR ''{'', RGroup 1 (rlazy rany), rlit ''},'']) body of
     None \<Rightarrow> Inr []
   | Some m \<Rightarrow> rmap (\<lambda>d. parse_int (matched (group0 body m 1) d)) (finditer (rplus rdigit) (group0 body m 1)))"

definition spot_re :: re where
  "spot_re = rseq [rlit ''.{ '', RGroup 1 (rplus rdigit), rlit '', '', RGroup 2 (rplus rdigit), rlit '', '', RGroup 3 (rplus rdigit), rlit '' }'']"

definition kat_spot :: "ustr \<Rightarrow> (int \<times> int \<times> int) list result" where
  "kat_spot body = (case re_search (rseq [field_start ''spot'', rlit ''&[_][3]u64{'', RGroup 1 (rstar rdot), rchr CHR ''}'', ropt (rchr CHR '',''), REol]) body of
     None \<Rightarrow> Inr []
   | Some m \<Rightarrow> (let s = group0 body m 1 in rmap (\<lambda>t. rbind (parse_int (group0 s t 1)) (\<lambda>x. rbind (parse_int (group0 s t 2)) (\<lambda>y.
       rbind (parse_int (group0 s t 3)) (\<lambda>z. Inr (x, y, z))))) (finditer spot_re s)))"

definition parse_vec :: "ustr \<Rightarrow> rmatch \<Rightarrow> fss_vec result" where
  "parse_vec text1 m =
     (let name = map char_of (group0 text1 m 1); body = group0 text1 m 2 in
      rbind (kat_spot body) (\<lambda>spot. rbind (kat_u64s body ''eval0'') (\<lambda>eval0.
      if eval0 = [] \<and> spot = [] then Inl (SystemExit (''self-check: '' @ name @ '' has no eval points to check''))
      else rbind (kat_num body ''n'') (\<lambda>n. rbind (kat_num body ''out_bytes'') (\<lambda>L. rbind (kat_num body ''alpha'') (\<lambda>alpha. rbind (kat_num body ''beta'') (\<lambda>beta.
        rbind (kat_arr body ''seed0'') (\<lambda>s0. rbind (kat_arr body ''seed1'') (\<lambda>s1. rbind (kat_arr body ''cw'') (\<lambda>cw. rbind (kat_u64s body ''eval1'') (\<lambda>eval1.
        Inr \<lparr> fv_name = name, fv_n = nat n, fv_L = nat L, fv_alpha = alpha, fv_beta = beta, fv_s0 = s0, fv_s1 = s1, fv_cw = cw,
          fv_eval0 = eval0, fv_eval1 = eval1, fv_spot = spot \<rparr>))))))))))) "

definition parse_fss_kats :: "ustr \<Rightarrow> fss_vec list result" where
  "parse_fss_kats text1 = rmap (parse_vec text1) (finditer VECTOR_RE text1)"

text \<open>The run on the text of the file.\<close>

definition pir_run :: "bool \<Rightarrow> ustr \<Rightarrow> string list result" where
  "pir_run self_check_only text1 = rbind (parse_fss_kats text1) (pir_main self_check_only)"

text \<open>No parsed vector is checked at no point.\<close>

lemma parse_fss_kats_points:
  assumes "parse_fss_kats text1 = Inr vecs"
  shows "list_all (\<lambda>v. check_points v \<noteq> Inr []) vecs"
  using assms unfolding parse_fss_kats_def
proof (rule rmap_all)
  fix m v assume "parse_vec text1 m = Inr v"
  then have ne: "fv_eval0 v \<noteq> [] \<or> fv_spot v \<noteq> []" by (auto simp: parse_vec_def Let_def rbind_eq_Inr_iff split: if_splits)
  show "check_points v \<noteq> Inr []"
  proof (cases "fv_eval0 v = []")
    case True
    with ne show ?thesis by (simp add: check_points_def)
  next
    case False
    have "length [0..<(2 :: nat) ^ fv_n v] \<noteq> 0" by simp
    with False show ?thesis unfolding check_points_def by (metis (no_types, lifting) list.size(3) rmap_length)
  qed
qed

lemma parse_example:
  "rbind (parse_fss_kats (asc ''pub const v1 = Vector{ .n = 1, .out_bytes = 4, .alpha = 1, .beta = 7, .seed0 = [_]u8{ 0x0a }, .seed1 = [_]u8{ 0x0b }, .cw = &[_]u8{ 0xff }, .eval0 = &[_]u64{ 3, 4 }, .eval1 = &{ 5, 6 },''
     @ [10] @ asc ''};'')) (\<lambda>vs. Inr (map (\<lambda>v. (fv_name v, fv_alpha v, fv_cw v, fv_eval1 v)) vs)) = Inr [(''v1'', 1, [255], [5, 6])]"
  by code_simp

end
