(* ===== verification/ReleaseNotes.thy ===== *)
theory ReleaseNotes
  imports Regex "HOL-Library.List_Lexorder" "HOL-Library.Product_Lexorder" "HOL-Library.Sublist"
begin

text \<open>
  \<open>scripts/lib/release-notes.py\<close>: the message of a dated tag, computed from git.  The output of a
  git command is an argument (\<open>None\<close> for a non-zero exit).  Shown: which changelog bullets count as
  added, and that the message stays within its byte limit.
\<close>

type_synonym git_cmd = "ustr list \<Rightarrow> ustr option"

section \<open>Patterns\<close>

definition MAX_BYTES :: nat where "MAX_BYTES = 60000"
definition GRADES_BUDGET :: nat where "GRADES_BUDGET = MAX_BYTES div 5"

definition GRADE_RE :: re where
  "GRADE_RE = rseq [RBol, rlit ''**Grade:**'', rplus rspace, RGroup 1 (rplus rnonspace)]"

definition ENTRY_RE :: re where
  "ENTRY_RE = rseq [RStart, rlit ''- **'',
     RGroup 1 (rseq [rlit ''20'', rdigit, rdigit, rlit ''-'', rdigit, rdigit, rlit ''-'', rdigit, rdigit]), rlit ''**'',
     rstar rspace, ropt (ralt [ru [0x2014], rlit ''--'', rlit ''-'']), rstar rspace, RGroup 2 (rstar rdot), REnd]"

definition BREAKING_RE :: re where
  "BREAKING_RE = rseq [rlit ''**'', ropt (rseq [RRep True 0 (Some 40) (RSet (\<lambda>x. x \<noteq> 42)), rspace]),
     RNotBehind (rlit_i ''not '') 4, rlit_i ''BREAKING'', RWordB]"

definition NOT_VISIBLE_RE :: re where "NOT_VISIBLE_RE = rlit ''NO CONSUMER-VISIBLE''"
definition SWEEP_RE :: re where "SWEEP_RE = rlit_i ''no-panic sweep''"

definition CHANGED_RE :: re where
  "CHANGED_RE = rseq [rlit ''**'', ralt [rlit ''Added'', rlit ''New'', rlit ''Fix'', rlit ''Fixes'', rlit ''Fixed'', rlit ''Changed''], RWordB]"

definition SPAN_RE :: re where
  "SPAN_RE = RGroup 1 (rseq [rchr (CHR 0x60), rstar (RSet (\<lambda>x. x \<noteq> 0x60)), rchr (CHR 0x60)])"

definition at_or_hash :: re where
  "at_or_hash = RSeq (RSet (one_of ''@#'')) (RSet (\<lambda>x. u_upper x \<or> u_lower x \<or> u_digit x))"

definition gh_number :: re where
  "gh_number = rseq [RWordB, rlit ''GH-'', rdigit]"

definition MENTION_RE :: re where "MENTION_RE = RAlt at_or_hash gh_number"

definition TOKEN_RE :: re where
  "TOKEN_RE = RGroup 1 (rseq [rstar rnonspace, RAlt at_or_hash gh_number, rstar rnonspace])"

definition markdown_char :: "int \<Rightarrow> bool" where
  "markdown_char x \<longleftrightarrow> x = 0x5C \<or> one_of ''*_[]<>~|!'' x"

definition MARKDOWN_RE :: re where "MARKDOWN_RE = RGroup 1 (RSet markdown_char)"

definition VISIBLE_RE :: re where
  "VISIBLE_RE = rseq [rlit ''**'', ralt [rlit_i ''CONSUMER-VISIBLE'', rseq [rlit_i ''BEHAVIO'', ropt (rlit_i ''U''), rlit_i ''RAL''],
     rlit_i ''ADDITIVE'', rlit_i ''API CHANGE'', rseq [rlit_i ''Behavio'', ropt (rlit_i ''u''), rlit_i ''r change''], rlit_i ''SECURITY'']]"

section \<open>Git\<close>

definition git :: "git_cmd \<Rightarrow> ustr list \<Rightarrow> bool \<Rightarrow> ustr option result" where
  "git g args check = (case g args of Some out \<Rightarrow> Inr (Some out)
     | None \<Rightarrow> if check then Inl (RuntimeError ''git'') else Inr None)"

definition git_out :: "git_cmd \<Rightarrow> ustr list \<Rightarrow> ustr result" where
  "git_out g args = rbind (git g args True) (\<lambda>r. case r of Some out \<Rightarrow> Inr out | None \<Rightarrow> Inl (RuntimeError ''git''))"

definition git_show :: "git_cmd \<Rightarrow> ustr \<Rightarrow> ustr \<Rightarrow> ustr option" where
  "git_show g ref path = g [asc ''show'', ref @ asc '':'' @ path]"

definition modules_at :: "git_cmd \<Rightarrow> ustr \<Rightarrow> ustr list" where
  "modules_at g ref =
     (let out = (case g [asc ''ls-tree'', asc ''-d'', asc ''--name-only'', ref @ asc '':modules''] of None \<Rightarrow> [] | Some t \<Rightarrow> t)
      in remdups (filter (\<lambda>x. x \<noteq> [] \<and> \<not> startswith x (asc ''_'')) (usplit (CHR 0x0A) out)))"

definition grade_in :: "ustr option \<Rightarrow> ustr option" where
  "grade_in t = (case t of None \<Rightarrow> None | Some s \<Rightarrow>
     if s = [] then None else (case re_search GRADE_RE s of None \<Rightarrow> None | Some x \<Rightarrow> Some (group0 s x 1)))"

definition grade_at :: "git_cmd \<Rightarrow> ustr \<Rightarrow> ustr \<Rightarrow> ustr option" where
  "grade_at g ref mo = (case grade_in (git_show g ref (asc ''modules/'' @ mo @ asc ''/SPEC.md'')) of
     Some x \<Rightarrow> Some x | None \<Rightarrow> grade_in (git_show g ref (asc ''modules/'' @ mo @ asc ''/README.md'')))"

section \<open>Changelog bullets\<close>

text \<open>The bullets read so far, newest first, and whether the newest is still open (\<open>cur\<close>).\<close>

definition entries_step :: "(ustr \<times> ustr list) list \<times> bool \<Rightarrow> ustr \<Rightarrow> (ustr \<times> ustr list) list \<times> bool" where
  "entries_step st line = (case st of (out, is_open) \<Rightarrow>
     (case re_match ENTRY_RE line of
        Some x \<Rightarrow> ((group0 line x 1, [group0 line x 2]) # out, True)
      | None \<Rightarrow>
          if startswith line (asc ''- '') \<or> startswith line (asc ''#'') then (out, False)
          else if is_open \<and> ustrip line \<noteq> [] then
            (case out of (d, b) # rest \<Rightarrow> ((d, b @ [ustrip line]) # rest, True) | [] \<Rightarrow> (out, is_open))
          else (out, is_open)))"

definition entries :: "ustr option \<Rightarrow> (ustr \<times> ustr) list" where
  "entries text =
     (let t = (case text of None \<Rightarrow> [] | Some s \<Rightarrow> s);
          out = fst (foldl entries_step ([], False) (usplit (CHR 0x0A) t))
      in map (\<lambda>(d, b). (d, join [32] b)) (rev out))"

definition identity :: "ustr \<Rightarrow> ustr" where
  "identity body = take 100 (join [32] (uwords body))"

text \<open>\<open>seen\<close> is the \<open>Counter\<close>.\<close>

fun added_loop :: "(ustr \<Rightarrow> nat) \<Rightarrow> (ustr \<times> ustr) list \<Rightarrow> (ustr \<times> ustr) list" where
  "added_loop seen [] = []"
| "added_loop seen ((date, body) # es) =
     (let key = identity body in
      if seen key > 0 then added_loop (seen(key := seen key - 1)) es else (date, body) # added_loop seen es)"

definition added_entries :: "ustr option \<Rightarrow> ustr option \<Rightarrow> (ustr \<times> ustr) list" where
  "added_entries old_text new_text =
     added_loop (\<lambda>k. count_list (map (identity \<circ> snd) (entries old_text)) k) (entries new_text)"

datatype kind = breaking | none | sweep | visible | changed | other

definition classify :: "ustr \<Rightarrow> kind" where
  "classify body = (let head = take 300 body in
     if re_search BREAKING_RE head \<noteq> None then breaking
     else if re_search NOT_VISIBLE_RE head \<noteq> None then none
     else if re_search SWEEP_RE (take 120 head) \<noteq> None then sweep
     else if re_search VISIBLE_RE head \<noteq> None then visible
     else if re_search CHANGED_RE head \<noteq> None then changed
     else other)"

section \<open>Text of a bullet\<close>

text \<open>The pieces with an even index pass through \<open>f\<close>, the others through \<open>g\<close>.\<close>

fun alternate :: "('a \<Rightarrow> 'b) \<Rightarrow> ('a \<Rightarrow> 'b) \<Rightarrow> 'a list \<Rightarrow> 'b list" where
  "alternate f g [] = []"
| "alternate f g (x # xs) = f x # alternate g f xs"

definition escape_markdown :: "ustr \<Rightarrow> ustr" where
  "escape_markdown piece = re_sub MARKDOWN_RE (\<lambda>x. 0x5C # group0 piece x 1) piece"

definition neutralise_part :: "ustr \<Rightarrow> ustr" where
  "neutralise_part part = concat (alternate escape_markdown (\<lambda>piece. 0x60 # piece @ [0x60])
     (re_split TOKEN_RE (ureplace [0x60] [0x27] part)))"

definition neutralise :: "ustr \<Rightarrow> ustr" where
  "neutralise text = concat (alternate neutralise_part id (re_split SPAN_RE text))"

definition close :: "ustr \<Rightarrow> ustr" where
  "close clip = (if odd (count_list clip 0x60)
     then urstrip (rev (drop 1 (dropWhile (\<lambda>x. x \<noteq> 0x60) (rev clip)))) else clip)"

definition sentence_end :: re where
  "sentence_end = RSeq (RSet (one_of ''.;'')) (RAlt rspace REnd)"

definition summary_text :: "ustr \<Rightarrow> ustr" where
  "summary_text body = concat (alternate (ureplace (asc ''**'') []) id (re_split SPAN_RE (join [32] (uwords body))))"

definition summary :: "ustr \<Rightarrow> nat \<Rightarrow> ustr" where
  "summary body limit =
     (let t = summary_text body;
          t1 = (case re_search sentence_end (drop 40 t) of None \<Rightarrow> t
                | Some x \<Rightarrow> close (take (40 + m_start x + 1) t));
          t2 = (if utf8_len t1 > limit then close (urstrip (utf8_take limit t1)) @ [0x2026] else t1)
      in neutralise t2)"

definition claim :: "git_cmd \<Rightarrow> ustr \<Rightarrow> ustr result" where
  "claim g new = rbind (git_out g [asc ''rev-parse'', new @ asc ''^{commit}'']) (\<lambda>o1. Inr (
     asc ''Every module passed every CI lane at '' @ ustrip o1 @ asc '' (ReleaseSafe and ReleaseFast on amd64, '' @
     asc ''ReleaseSafe on arm64, examples, strict-Debug compile), directly or by a green stamp '' @
     asc ''for its unchanged fingerprint; a red verdict withdraws this tag. That is the whole '' @
     asc ''claim: a dated snapshot of the collection, not a semantic version. Per-module changes '' @
     asc ''are in each module'' @ [0x27] @ asc ''s CHANGELOG.md; see CONVENTIONS.md '' @ [0xA7] @ asc ''8.''))"

section \<open>The byte budget\<close>

fun bounded_loop :: "ustr list \<Rightarrow> int \<Rightarrow> int \<Rightarrow> ustr list \<times> nat" where
  "bounded_loop [] used budget = ([], 0)"
| "bounded_loop (line # ls) used budget =
     (let size = int (utf8_len line) + 1 in
      if used + size > budget then ([], Suc (length ls))
      else (let (out, n) = bounded_loop ls (used + size) budget in (line # out, n)))"

definition bounded :: "ustr list \<Rightarrow> int \<Rightarrow> ustr list \<times> nat" where
  "bounded ls budget = bounded_loop ls 0 budget"

section \<open>The message\<close>

text \<open>\<open>touched\<close>: per module of the new tree the names of its changed files at the top level.\<close>

definition touched_files :: "ustr list \<Rightarrow> ustr list \<Rightarrow> (ustr \<times> ustr list) list" where
  "touched_files new_mods paths = foldl (\<lambda>d path. case usplit (CHR ''/'') path of
       [_, mo, file] \<Rightarrow> if mo \<in> set new_mods
         then dict_set d mo ((case map_of d mo of None \<Rightarrow> [] | Some fs \<Rightarrow> fs) @ [file]) else d
     | _ \<Rightarrow> d) [] paths"

definition files_of :: "(ustr \<times> ustr list) list \<Rightarrow> ustr \<Rightarrow> ustr list" where
  "files_of touched mo = (case map_of touched mo of None \<Rightarrow> [] | Some fs \<Rightarrow> fs)"

text \<open>Lower is better; a \<open>?\<close> (provisional) sorts after the plain number.\<close>

definition better :: "ustr \<Rightarrow> ustr \<Rightarrow> bool" where
  "better b a \<longleftrightarrow> (rstrip_of (\<lambda>x. x = 0x3F) b, b) < (rstrip_of (\<lambda>x. x = 0x3F) a, a)"

definition grade_change :: "git_cmd \<Rightarrow> ustr \<Rightarrow> ustr \<Rightarrow> ustr list \<Rightarrow> (ustr \<times> ustr list) list \<Rightarrow> ustr \<Rightarrow> (bool \<times> ustr) option" where
  "grade_change g prev new created touched mo =
     (if mo \<in> set created \<or> (asc ''SPEC.md'' \<notin> set (files_of touched mo) \<and> asc ''README.md'' \<notin> set (files_of touched mo)) then None
      else (case (grade_at g prev mo, grade_at g new mo) of
         (Some a, Some b) \<Rightarrow> if a = b then None else Some (better b a, mo @ [32] @ a @ asc '' -> '' @ b)
       | _ \<Rightarrow> None))"

definition bullets_of :: "git_cmd \<Rightarrow> ustr \<Rightarrow> ustr \<Rightarrow> (ustr \<times> ustr list) list \<Rightarrow> ustr \<Rightarrow> (kind \<times> ustr) list" where
  "bullets_of g prev new touched mo =
     (if asc ''CHANGELOG.md'' \<notin> set (files_of touched mo) then []
      else (let path = asc ''modules/'' @ mo @ asc ''/CHANGELOG.md'' in
        map (\<lambda>(date, body). (classify body, asc ''- **'' @ mo @ asc ''** ('' @ date @ asc ''): '' @ summary body 200))
          (added_entries (git_show g prev path) (git_show g new path))))"

definition count_kind :: "kind \<Rightarrow> (kind \<times> ustr) list \<Rightarrow> nat" where
  "count_kind k bs = length (filter (\<lambda>b. fst b = k) bs)"

definition of_kind :: "kind \<Rightarrow> (kind \<times> ustr) list \<Rightarrow> ustr list" where
  "of_kind k bs = map snd (filter (\<lambda>b. fst b = k) bs)"

definition plural :: "int \<Rightarrow> ustr" where
  "plural n = (if n = 1 then [] else asc ''s'')"

definition nshow :: "nat \<Rightarrow> ustr" where
  "nshow n = ushow (int n)"

definition grade_lines :: "ustr list \<Rightarrow> ustr list \<Rightarrow> ustr list" where
  "grade_lines raised lowered =
     (if raised = [] \<and> lowered = [] then []
      else (let (ls, ncut) = bounded ((if raised \<noteq> [] then [asc ''Better: '' @ join (asc '', '') raised] else [])
                    @ (if lowered \<noteq> [] then [asc ''Worse: '' @ join (asc '', '') lowered] else [])) (int GRADES_BUDGET)
            in [asc ''## Grade changes ('' @ nshow (length raised) @ asc '' better, '' @ nshow (length lowered)
                 @ asc '' worse; 1 is best)'', []] @ ls
               @ (if ncut \<noteq> 0 then [asc ''('' @ nshow ncut @ asc '' line(s) more: see each module'' @ [0x27] @ asc ''s SPEC.md)''] else [])
               @ [[]]))"

definition head_lines :: "git_cmd \<Rightarrow> ustr \<Rightarrow> int \<Rightarrow> ustr \<Rightarrow> ustr \<Rightarrow> ustr list \<Rightarrow> ustr list \<Rightarrow> ustr list \<Rightarrow> ustr list \<Rightarrow> (kind \<times> ustr) list \<Rightarrow> ustr list" where
  "head_lines g new commits prev claim_text created removed raised lowered bs =
     [ushow commits @ asc '' commit'' @ plural commits @ asc '' since '' @ prev @ asc ''.'', [], claim_text, []]
     @ (if created = [] then [] else [asc ''## New modules ('' @ nshow (length created) @ asc '')'', [],
          join (asc '', '') (map (\<lambda>mo. mo @ asc '' (grade '' @ (case grade_at g new mo of None \<Rightarrow> asc ''?'' | Some [] \<Rightarrow> asc ''?'' | Some x \<Rightarrow> x) @ asc '')'') created), []])
     @ (if removed = [] then [] else [asc ''## Removed modules ('' @ nshow (length removed) @ asc '')'', [], join (asc '', '') removed, []])
     @ grade_lines raised lowered
     @ [asc ''## Changelog bullets added: '' @ nshow (length bs), [],
        nshow (count_kind breaking bs) @ asc '' BREAKING, '' @ nshow (count_kind visible bs) @ asc '' consumer-visible, ''
          @ nshow (count_kind changed bs) @ asc '' other change'' @ plural (int (count_kind changed bs)) @ asc '', ''
          @ nshow (count_kind none bs) @ asc '' marked no consumer-visible change, '' @ nshow (count_kind sweep bs)
          @ asc '' sweep-only, '' @ nshow (count_kind other bs) @ asc '' other (the last three counted, not listed).'', []]"

text \<open>One group: its section, the lines that fit, the budget left and the number cut.\<close>

definition section_of :: "ustr \<Rightarrow> nat \<Rightarrow> ustr list" where
  "section_of title n = [asc ''### '' @ title @ asc '' ('' @ nshow n @ asc '')'', []]"

definition joined_len :: "ustr list \<Rightarrow> nat" where
  "joined_len ls = utf8_len (join [10] ls)"

definition sizes :: "ustr list \<Rightarrow> int" where
  "sizes ls = sum_list (map (\<lambda>l. int (utf8_len l) + 1) ls)"

definition add_group :: "(kind \<times> ustr) list \<Rightarrow> int \<times> ustr list \<times> (ustr \<times> nat) list \<Rightarrow> kind \<times> ustr \<Rightarrow> int \<times> ustr list \<times> (ustr \<times> nat) list" where
  "add_group bs st kt = (case st of (budget, body, omitted) \<Rightarrow> (case kt of (k, title) \<Rightarrow>
     if of_kind k bs = [] then st
     else (let sec = section_of title (count_kind k bs);
               budget1 = budget - (int (joined_len sec) + 1);
               (kept, ncut) = bounded (of_kind k bs) (max budget1 0)
           in (budget1 - sizes kept, body @ sec @ kept @ [[]], omitted @ [(title, ncut)]))))"

definition body_lines :: "(kind \<times> ustr) list \<Rightarrow> int \<Rightarrow> ustr list" where
  "body_lines bs budget =
     (let (_, body, omitted) = foldl (add_group bs) (budget, [], [])
            [(breaking, asc ''BREAKING''), (visible, asc ''CONSUMER-VISIBLE''), (changed, asc ''Other changes'')]
      in if sum_list (map snd omitted) \<noteq> 0
         then body @ [asc ''Truncated: '' @ join (asc '', '') (map (\<lambda>(t, n). nshow n @ [32] @ t) (filter (\<lambda>(t, n). n \<noteq> 0) omitted))
                        @ asc '' not listed. Every entry is in modules/<name>/CHANGELOG.md.'', []]
         else body)"

definition render_notes :: "ustr list \<Rightarrow> (kind \<times> ustr) list \<Rightarrow> int \<Rightarrow> ustr" where
  "render_notes head bs max_bytes = urstrip (join [10] (head @ body_lines bs (max_bytes - int (joined_len head) - 300))) @ [10]"

definition notes_of :: "git_cmd \<Rightarrow> ustr \<Rightarrow> ustr \<Rightarrow> int \<Rightarrow> ustr result" where
  "notes_of g prev new max_bytes =
     rbind (git_out g [asc ''rev-list'', asc ''--count'', prev @ asc ''..'' @ new]) (\<lambda>c.
     rbind (parse_int (ustrip c)) (\<lambda>commits.
     (let old_mods = modules_at g prev; new_mods = modules_at g new;
          created = sort (filter (\<lambda>x. x \<notin> set old_mods) new_mods);
          removed = sort (filter (\<lambda>x. x \<notin> set new_mods) old_mods) in
     rbind (git_out g [asc ''diff'', asc ''--name-only'', prev, new, asc ''--'', asc ''modules'']) (\<lambda>d.
     (let touched = touched_files new_mods (usplit (CHR 0x0A) d);
          names = sort (map fst touched);
          grades = List.map_filter (grade_change g prev new created touched) names;
          raised = map snd (filter fst grades); lowered = map snd (filter (\<lambda>x. \<not> fst x) grades);
          bs = concat (map (bullets_of g prev new touched) names) in
     rbind (claim g new) (\<lambda>cl.
       Inr (render_notes (head_lines g new commits prev cl created removed raised lowered bs) bs max_bytes)))))))"

text \<open>\<open>main\<close> without the self-test: the exit code and what it prints.\<close>

definition notes_main :: "git_cmd \<Rightarrow> ustr list \<Rightarrow> (int \<times> ustr) result" where
  "notes_main g argv =
     (case argv of
        [a, b] \<Rightarrow>
          if a = asc ''--claim'' then rbind (claim g b) (\<lambda>t. Inr (0, t @ [10]))
          else if startswith a (asc ''-'') then Inr (2, [])
          else rbind (notes_of g a b (int MAX_BYTES)) (\<lambda>t. Inr (0, t))
      | _ \<Rightarrow> Inr (2, []))"

section \<open>Added bullets\<close>

lemma added_loop_count:
  "count_list (map (identity \<circ> snd) (added_loop seen es)) k = count_list (map (identity \<circ> snd) es) k - seen k"
  by (induction seen es rule: added_loop.induct) (auto simp: Let_def fun_upd_def)

lemma added_loop_subseq: "subseq (added_loop seen es) es"
  by (induction seen es rule: added_loop.induct) (auto simp: Let_def fun_upd_def)

section \<open>Byte budgets\<close>

lemma sizes_simps [simp]: "sizes [] = 0" "sizes (l # ls) = int (utf8_len l) + 1 + sizes ls" "sizes (ls @ ms) = sizes ls + sizes ms"
  by (simp_all add: sizes_def)

lemma sizes_nonneg [simp]: "0 \<le> sizes ls"
  by (induction ls) simp_all

lemma bounded_loop_prefix:
  "bounded_loop ls used budget = (out, n) \<Longrightarrow> n \<le> length ls \<and> out = take (length ls - n) ls
     \<and> (out \<noteq> [] \<longrightarrow> used + sizes out \<le> budget)
     \<and> (0 < n \<longrightarrow> budget < used + sizes (take (Suc (length ls - n)) ls))"
proof (induction ls arbitrary: used out n)
  case (Cons l ls)
  let ?size = "int (utf8_len l) + 1"
  show ?case
  proof (cases "used + ?size > budget")
    case True
    with Cons.prems show ?thesis by auto
  next
    case False
    obtain o1 n1 where r: "bounded_loop ls (used + ?size) budget = (o1, n1)" by (cases "bounded_loop ls (used + ?size) budget")
    with Cons.prems False have "out = l # o1" "n = n1" by simp_all
    with Cons.IH [OF r] False show ?thesis by (cases "o1 = []") (auto simp: Suc_diff_le)
  qed
qed simp

lemma bounded_sizes: "bounded ls budget = (out, n) \<Longrightarrow> sizes out \<le> max budget 0"
  using bounded_loop_prefix [of ls 0 budget out n] by (cases "out = []") (auto simp: bounded_def)

lemma utf8_len_join: "ls \<noteq> [] \<Longrightarrow> int (utf8_len (join [10] ls)) + 1 = sizes ls"
proof (induction ls)
  case (Cons l ls)
  then show ?case by (cases "ls = []") (simp_all add: join_Cons utf8_len1_def)
qed simp

lemma utf8_len_urstrip: "utf8_len (urstrip s) \<le> utf8_len s"
proof -
  have "utf8_len (rev t) = utf8_len t" for t by (simp add: utf8_len_def rev_map [symmetric])
  moreover have "utf8_len (dropWhile u_space t) \<le> utf8_len t" for t by (induction t) auto
  ultimately show ?thesis unfolding urstrip_def by (metis rev_rev_ident)
qed

lemma length_show_nat: "n < 10 ^ Suc d \<Longrightarrow> length (show_nat n) \<le> Suc d"
proof (induction d arbitrary: n)
  case 0
  then show ?case by (simp add: show_nat.simps [of n])
next
  case (Suc d)
  show ?case
  proof (cases "n < 10")
    case True
    then show ?thesis by (simp add: show_nat.simps [of n])
  next
    case False
    have "n div 10 < 10 ^ Suc d" using Suc.prems by (simp add: less_mult_imp_div_less mult.commute)
    from Suc.IH [OF this] False show ?thesis by (simp add: show_nat.simps [of n])
  qed
qed

lemma show_nat_digits: "c \<in> set (show_nat n) \<Longrightarrow> (of_char c :: int) < 128"
proof (induction n rule: show_nat.induct)
  case (1 n)
  have d: "(of_char (char_of (48 + k) :: char) :: int) < 128" if "k < 10" for k :: nat
  proof -
    have "of_char (char_of (48 + k) :: char) = (48 + k) mod 256" by simp
    then have "(of_char (char_of (48 + k) :: char) :: int) = int ((48 + k) mod 256)" by (metis of_nat_of_char)
    with that show ?thesis by simp
  qed
  show ?case
  proof (cases "n < 10")
    case True
    with "1.prems" d show ?thesis by (simp add: show_nat.simps [of n])
  next
    case False
    with "1.prems" consider "c \<in> set (show_nat (n div 10))" | "c = char_of (48 + n mod 10)"
      by (auto simp: show_nat.simps [of n])
    then show ?thesis using "1.IH" [OF False] d [of "n mod 10"] by cases simp_all
  qed
qed

lemma utf8_len_nshow:
  assumes "n < 10 ^ 15"
  shows "utf8_len (nshow n) \<le> 15"
proof -
  have "utf8_len (asc s) = length s" if "\<And>c. c \<in> set s \<Longrightarrow> (of_char c :: int) < 128" for s
    using that by (induction s) (auto simp: utf8_len1_def)
  from this [OF show_nat_digits] have "utf8_len (nshow n) = length (show_nat n)"
    by (simp add: nshow_def ushow_def show_int_def)
  with length_show_nat [of n 14] assms show ?thesis by simp
qed

section \<open>The size of the message\<close>

lemma section_size: "n < 10 ^ 15 \<Longrightarrow> sizes (section_of title n) \<le> int (utf8_len title) + 24"
  using utf8_len_nshow [of n] by (simp add: section_of_def utf8_len1_def)

text \<open>What one group does to the budget: the body grows by at most what the budget shrinks plus the
  blank line, and the budget falls below zero only by the heading.\<close>

lemma add_group_budget:
  assumes "add_group bs (budget, body, om) (k, title) = (budget', body', om')" "length bs < 10 ^ 15"
  shows "sizes body' - sizes body \<le> budget - budget' + 1"
    and "min 0 budget - (int (utf8_len title) + 24) \<le> budget'"
    and "length om' \<le> Suc (length om)"
    and "list_all (\<lambda>(t, n). utf8_len t \<le> 16 \<and> n < 10 ^ 15) om \<Longrightarrow> utf8_len title \<le> 16 \<Longrightarrow>
         list_all (\<lambda>(t, n). utf8_len t \<le> 16 \<and> n < 10 ^ 15) om'"
proof -
  let ?sec = "section_of title (count_kind k bs)"
  let ?b1 = "budget - (int (joined_len ?sec) + 1)"
  obtain kept n where kn: "bounded (of_kind k bs) (max ?b1 0) = (kept, n)" by (cases "bounded (of_kind k bs) (max ?b1 0)")
  have cnt: "count_kind k bs < 10 ^ 15" using assms(2) unfolding count_kind_def
    by (meson le_less_trans length_filter_le)
  have "n \<le> length (of_kind k bs)" using bounded_loop_prefix [OF kn [unfolded bounded_def]] by simp
  then have n: "n < 10 ^ 15" using assms(2) unfolding of_kind_def length_map
    by (meson le_less_trans length_filter_le order_trans)
  have sec: "int (joined_len ?sec) + 1 = sizes ?sec" unfolding joined_len_def
    by (rule utf8_len_join) (simp add: section_of_def)
  note ss = section_size [OF cnt, of title]
  note kp = bounded_sizes [OF kn]
  have c: "(budget' = budget \<and> body' = body \<and> om' = om) \<or>
      (budget' = ?b1 - sizes kept \<and> body' = body @ ?sec @ kept @ [[]] \<and> om' = om @ [(title, n)])"
    using assms(1) by (cases "of_kind k bs = []") (auto simp: add_group_def Let_def kn)
  show "sizes body' - sizes body \<le> budget - budget' + 1" using c sec by auto
  show "min 0 budget - (int (utf8_len title) + 24) \<le> budget'" using c ss kp sec by auto
  show "length om' \<le> Suc (length om)" using c by auto
  show "list_all (\<lambda>(t, n). utf8_len t \<le> 16 \<and> n < 10 ^ 15) om'"
    if "list_all (\<lambda>(t, n). utf8_len t \<le> 16 \<and> n < 10 ^ 15) om" "utf8_len title \<le> 16"
    using c that n by auto
qed

lemma utf8_len_join_bound:
  "(\<And>x. x \<in> set xs \<Longrightarrow> utf8_len x \<le> b) \<Longrightarrow> utf8_len (join (asc '', '') xs) \<le> length xs * (b + 2)"
proof (induction xs)
  case (Cons x xs)
  then have "utf8_len x \<le> b" "utf8_len (join (asc '', '') xs) \<le> length xs * (b + 2)" by auto
  then show ?case by (cases "xs = []") (simp_all add: join_Cons utf8_len1_def)
qed simp

lemma truncation_size:
  assumes "list_all (\<lambda>(t, n). utf8_len t \<le> 16 \<and> n < 10 ^ 15) om" "length om \<le> 3"
  shows "utf8_len (join (asc '', '') (map (\<lambda>(t, n). nshow n @ [32] @ t) (filter (\<lambda>(t, n). n \<noteq> 0) om))) \<le> 102"
proof -
  let ?xs = "map (\<lambda>(t, n). nshow n @ [32] @ t) (filter (\<lambda>(t, n). n \<noteq> 0) om)"
  have "utf8_len x \<le> 32" if x: "x \<in> set ?xs" for x
  proof -
    obtain t n where "(t, n) \<in> set om" "x = nshow n @ [32] @ t" using x by auto
    with assms(1) utf8_len_nshow [of n] show ?thesis by (force simp: list_all_iff utf8_len1_def)
  qed
  from utf8_len_join_bound [of ?xs 32, OF this] have "utf8_len (join (asc '', '') ?xs) \<le> length ?xs * 34" by simp
  moreover have "length ?xs \<le> 3" unfolding length_map using assms(2) length_filter_le [of "\<lambda>(t, n). n \<noteq> 0" om] by linarith
  ultimately show ?thesis by linarith
qed

lemma body_lines_size:
  assumes "length bs < 10 ^ 15" "0 \<le> budget"
  shows "sizes (body_lines bs budget) \<le> budget + 290"
proof -
  let ?titles = "[(breaking, asc ''BREAKING''), (visible, asc ''CONSUMER-VISIBLE''), (changed, asc ''Other changes'')]"
  let ?ok = "list_all (\<lambda>(t, n). utf8_len t \<le> 16 \<and> n < 10 ^ 15)"
  obtain b1 body1 om1 where g1: "add_group bs (budget, [], []) (breaking, asc ''BREAKING'') = (b1, body1, om1)" by (metis prod_cases3)
  obtain b2 body2 om2 where g2: "add_group bs (b1, body1, om1) (visible, asc ''CONSUMER-VISIBLE'') = (b2, body2, om2)" by (metis prod_cases3)
  obtain b3 body3 om3 where g3: "add_group bs (b2, body2, om2) (changed, asc ''Other changes'') = (b3, body3, om3)" by (metis prod_cases3)
  have t: "utf8_len (asc ''BREAKING'') = 8" "utf8_len (asc ''CONSUMER-VISIBLE'') = 16" "utf8_len (asc ''Other changes'') = 13"
    by (simp_all add: utf8_len1_def)
  note a1 = add_group_budget [OF g1 assms(1)] note a2 = add_group_budget [OF g2 assms(1)] note a3 = add_group_budget [OF g3 assms(1)]
  have om: "?ok om3" "length om3 \<le> 3" using a1(3,4) a2(3,4) a3(3,4) t by simp_all
  have size3: "sizes body3 \<le> budget + 112" using a1(1,2) a2(1,2) a3(1,2) t assms(2) by (simp add: min_def split: if_splits)
  have "foldl (add_group bs) (budget, [], []) ?titles = (b3, body3, om3)" by (simp only: foldl.simps g1 g2 g3)
  then have "sizes (body_lines bs budget) \<le> sizes body3 + 174"
    using truncation_size [OF om] by (simp add: body_lines_def utf8_len1_def)
  with size3 show ?thesis by linarith
qed

lemma render_notes_size:
  assumes "length bs < 10 ^ 15" "int (joined_len head) + 300 \<le> max_bytes" "head \<noteq> []"
  shows "int (utf8_len (render_notes head bs max_bytes)) \<le> max_bytes"
proof -
  let ?budget = "max_bytes - int (joined_len head) - 300"
  let ?body = "body_lines bs ?budget"
  have "int (utf8_len (join [10] (head @ ?body))) + 1 = sizes head + sizes ?body"
    using utf8_len_join [of "head @ ?body"] assms(3) by simp
  moreover have "int (joined_len head) + 1 = sizes head" unfolding joined_len_def by (rule utf8_len_join [OF assms(3)])
  moreover have "sizes ?body \<le> ?budget + 290" by (rule body_lines_size) (use assms in simp_all)
  moreover have "utf8_len (urstrip (join [10] (head @ ?body))) \<le> utf8_len (join [10] (head @ ?body))" by (rule utf8_len_urstrip)
  ultimately show ?thesis by (simp add: render_notes_def utf8_len1_def)
qed

section \<open>Properties\<close>

text \<open>C15.  The bullets counted as added are the multiset difference of the two changelogs by identity (the
  first hundred characters with whitespace squeezed): a bullet that stood there once and stands there twice
  is added once, an edited tail adds nothing, and the bullets keep their order.\<close>

theorem added_entries_difference:
  "(\<forall>k. count_list (map (identity \<circ> snd) (added_entries old_text new_text)) k =
      count_list (map (identity \<circ> snd) (entries new_text)) k - count_list (map (identity \<circ> snd) (entries old_text)) k)
   \<and> subseq (added_entries old_text new_text) (entries new_text)"
  by (simp only: added_entries_def added_loop_count added_loop_subseq simp_thms)

text \<open>C16.  The message keeps to its byte limit: when the head leaves the reserve of 300 bytes, the rendered
  notes, with the sections, the kept bullets, the blank lines and the truncation pointer, have at most
  \<open>max_bytes\<close> bytes, however many bullets there are.\<close>

theorem message_within_limit:
  assumes "length bs < 10 ^ 15" "int (joined_len head) + 300 \<le> max_bytes" "head \<noteq> []"
  shows "int (utf8_len (render_notes head bs max_bytes)) \<le> max_bytes"
  using assms by (rule render_notes_size)

theorem message_within_limit_witness:
  "int (utf8_len (render_notes [asc ''head''] [(breaking, asc ''- bullet''), (changed, asc ''- other'')] 305)) \<le> 305"
  by (rule message_within_limit) (simp_all add: joined_len_def utf8_len1_def)

end
