(* ===== verification/BitcoinTx_Props.thy ===== *)
theory BitcoinTx_Props
  imports BitcoinTx
begin

text \<open>
  Theorems on the transaction codec, the BIP143 preimage and the BIP341 signature message.
\<close>

section \<open>CompactSize\<close>

lemma length_compact_size: "compact_size n = Inr bs \<Longrightarrow> 0 < length bs \<and> length bs \<le> 9"
  by (auto simp: compact_size_def to_bytes_le_def rbind_eq_Inr_iff split: if_splits)

lemma compact_size_Inr: "0 \<le> n \<Longrightarrow> n < 2 ^ 64 \<Longrightarrow> \<exists>bs. compact_size n = Inr bs"
  by (auto simp: compact_size_def to_bytes_le_def)

lemma slice_middle: "i = length xs \<Longrightarrow> j = i + length ys \<Longrightarrow> slice i j (xs @ ys @ zs) = ys"
  by (simp add: slice_def)

lemma read_tail:
  assumes "0 \<le> n" "n < 256 ^ k"
  shows "from_le (slice (length pre + 1) (length pre + 1 + k) (pre @ (t # le_bytes k n) @ post)) = n"
proof -
  have "slice (length pre + 1) (length pre + 1 + k) ((pre @ [t]) @ le_bytes k n @ post) = le_bytes k n"
    by (rule slice_middle) simp_all
  then show ?thesis using assms by (simp add: from_le_le_bytes)
qed

lemma read_compact_size_written:
  assumes "compact_size n = Inr bs"
  shows "read_compact_size (pre @ bs @ post) (length pre) = Inr (n, length pre + length bs)"
proof -
  consider (a) "0 \<le> n" "n < 0xFD" "bs = [n]"
    | (b) "0xFD \<le> n" "n < 256 ^ 2" "bs = 0xFD # le_bytes 2 n"
    | (c) "256 ^ 2 \<le> n" "n < 256 ^ 4" "bs = 0xFE # le_bytes 4 n"
    | (d) "256 ^ 4 \<le> n" "n < 256 ^ 8" "bs = 0xFF # le_bytes 8 n"
    using assms by (auto simp: compact_size_def to_bytes_le_def rbind_eq_Inr_iff split: if_splits)
  then show ?thesis
  proof cases
    case a
    then show ?thesis by (simp add: read_compact_size_def nth_append)
  next
    case b
    with read_tail [of n 2 pre "0xFD" post] show ?thesis
      by (simp add: read_compact_size_def nth_append numeral_eq_Suc del: le_bytes.simps)
  next
    case c
    with read_tail [of n 4 pre "0xFE" post] show ?thesis
      by (simp add: read_compact_size_def nth_append numeral_eq_Suc del: le_bytes.simps)
  next
    case d
    with read_tail [of n 8 pre "0xFF" post] show ?thesis
      by (simp add: read_compact_size_def nth_append numeral_eq_Suc del: le_bytes.simps)
  qed
qed

section \<open>Items of a byte string\<close>

text \<open>A writer and a reader at an offset that agree; \<open>parse_many\<close> inherits the contract.\<close>

locale item_codec =
  fixes ser :: "'a \<Rightarrow> bytes result" and get :: "bytes \<Rightarrow> nat \<Rightarrow> ('a \<times> nat) result" and wf :: "'a \<Rightarrow> bool"
  assumes writes: "wf x \<Longrightarrow> \<exists>bs. ser x = Inr bs"
    and reads: "wf x \<Longrightarrow> ser x = Inr bs \<Longrightarrow> get (pre @ bs @ post) (length pre) = Inr (x, length pre + length bs)"
begin

lemma many:
  "list_all wf xs \<Longrightarrow> \<exists>bss. rmap ser xs = Inr bss \<and>
     (\<forall>pre post. parse_many (get (pre @ concat bss @ post)) (length xs) (length pre) = Inr (xs, length pre + length (concat bss)))"
proof (induction xs)
  case Nil
  show ?case by simp
next
  case (Cons x xs)
  then obtain bs bss where bs: "ser x = Inr bs" and bss: "rmap ser xs = Inr bss"
    and ih: "\<And>pre post. parse_many (get (pre @ concat bss @ post)) (length xs) (length pre) = Inr (xs, length pre + length (concat bss))"
    using writes [of x] by auto
  have "parse_many (get (pre @ concat (bs # bss) @ post)) (length (x # xs)) (length pre)
      = Inr (x # xs, length pre + length (concat (bs # bss)))" for pre post
    using reads [of x bs pre "concat bss @ post"] ih [of "pre @ bs" post] bs Cons.prems by simp
  with bs bss show ?case by auto
qed

end

definition ser_in :: "tx_in \<Rightarrow> bytes result" where
  "ser_in v = rbind (spk_bytes (ti_scriptsig v)) (\<lambda>sb. Inr (ti_txid v @ ti_vout v @ sb @ ti_seq v))"

definition wf_in :: "tx_in \<Rightarrow> bool" where
  "wf_in v \<longleftrightarrow> length (ti_txid v) = 32 \<and> length (ti_vout v) = 4 \<and> length (ti_seq v) = 4 \<and> int (length (ti_scriptsig v)) < 2 ^ 64"

definition wf_out :: "tx_out \<Rightarrow> bool" where
  "wf_out x \<longleftrightarrow> length (to_val x) = 8 \<and> int (length (to_spk x)) < 2 ^ 64"

lemma spk_bytes_Inr: "int (length s) < 2 ^ 64 \<Longrightarrow> \<exists>cs. compact_size (int (length s)) = Inr cs \<and> spk_bytes s = Inr (cs @ s)"
  using compact_size_Inr [of "int (length s)"] by (auto simp: spk_bytes_def)

lemma parse_in_written:
  assumes "wf_in v" "ser_in v = Inr bs"
  shows "parse_in (pre @ bs @ post) (length pre) = Inr (v, length pre + length bs)"
proof -
  obtain cs where cs: "compact_size (int (length (ti_scriptsig v))) = Inr cs" "spk_bytes (ti_scriptsig v) = Inr (cs @ ti_scriptsig v)"
    using spk_bytes_Inr assms(1) by (auto simp: wf_in_def)
  have bs: "bs = ti_txid v @ ti_vout v @ cs @ ti_scriptsig v @ ti_seq v" using assms(2) cs by (simp add: ser_in_def)
  let ?raw = "pre @ bs @ post" and ?o2 = "length pre + 36 + length cs"
  have l: "length (ti_txid v) = 32" "length (ti_vout v) = 4" "length (ti_seq v) = 4" using assms(1) by (simp_all add: wf_in_def)
  have r: "read_compact_size ?raw (length pre + 36) = Inr (int (length (ti_scriptsig v)), ?o2)"
    using read_compact_size_written [OF cs(1), of "pre @ ti_txid v @ ti_vout v" "ti_scriptsig v @ ti_seq v @ post"] bs l by simp
  have s1: "slice (length pre) (length pre + 32) ?raw = ti_txid v"
    using slice_middle [of _ pre _ "ti_txid v" "ti_vout v @ cs @ ti_scriptsig v @ ti_seq v @ post"] bs l by simp
  have s2: "slice (length pre + 32) (length pre + 36) ?raw = ti_vout v"
    using slice_middle [of "length pre + 32" "pre @ ti_txid v" "length pre + 36" "ti_vout v" "cs @ ti_scriptsig v @ ti_seq v @ post"] bs l by simp
  have s3: "slice ?o2 (?o2 + length (ti_scriptsig v)) ?raw = ti_scriptsig v"
    using slice_middle [of ?o2 "pre @ ti_txid v @ ti_vout v @ cs" "?o2 + length (ti_scriptsig v)" "ti_scriptsig v" "ti_seq v @ post"] bs l by simp
  have s4: "slice (?o2 + length (ti_scriptsig v)) (?o2 + length (ti_scriptsig v) + 4) ?raw = ti_seq v"
    using slice_middle [of "?o2 + length (ti_scriptsig v)" "pre @ ti_txid v @ ti_vout v @ cs @ ti_scriptsig v" "?o2 + length (ti_scriptsig v) + 4" "ti_seq v" post] bs l by simp
  show ?thesis unfolding parse_in_def r using s1 s2 s3 s4 l bs by simp
qed

interpretation ins: item_codec ser_in parse_in wf_in
proof
  show "\<exists>bs. ser_in v = Inr bs" if "wf_in v" for v
    using spk_bytes_Inr [of "ti_scriptsig v"] that by (auto simp: ser_in_def wf_in_def)
qed (rule parse_in_written)

lemma parse_out_written:
  assumes "wf_out x" "out_bytes x = Inr bs"
  shows "parse_out (pre @ bs @ post) (length pre) = Inr (x, length pre + length bs)"
proof -
  obtain cs where cs: "compact_size (int (length (to_spk x))) = Inr cs"
    using compact_size_Inr [of "int (length (to_spk x))"] assms(1) by (auto simp: wf_out_def)
  have bs: "bs = to_val x @ cs @ to_spk x" using assms(2) cs by (simp add: out_bytes_def)
  let ?raw = "pre @ bs @ post" and ?o2 = "length pre + 8 + length cs"
  have l: "length (to_val x) = 8" using assms(1) by (simp add: wf_out_def)
  have r: "read_compact_size ?raw (length pre + 8) = Inr (int (length (to_spk x)), ?o2)"
    using read_compact_size_written [OF cs, of "pre @ to_val x" "to_spk x @ post"] bs l by simp
  have s1: "slice (length pre) (length pre + 8) ?raw = to_val x"
    using slice_middle [of _ pre _ "to_val x" "cs @ to_spk x @ post"] bs l by simp
  have s2: "slice ?o2 (?o2 + length (to_spk x)) ?raw = to_spk x"
    using slice_middle [of ?o2 "pre @ to_val x @ cs" "?o2 + length (to_spk x)" "to_spk x" post] bs l by simp
  show ?thesis unfolding parse_out_def r using s1 s2 l bs by simp
qed

interpretation outs: item_codec out_bytes parse_out wf_out
proof
  show "\<exists>bs. out_bytes x = Inr bs" if "wf_out x" for x
    using compact_size_Inr [of "int (length (to_spk x))"] that by (auto simp: out_bytes_def wf_out_def)
qed (rule parse_out_written)

section \<open>Transactions\<close>

definition ser_tx :: "tx \<Rightarrow> bytes result" where
  "ser_tx t =
     rbind (compact_size (int (length (tx_vins t)))) (\<lambda>c1.
     rbind (rmap ser_in (tx_vins t)) (\<lambda>ins.
     rbind (compact_size (int (length (tx_vouts t)))) (\<lambda>c2.
     rbind (rmap out_bytes (tx_vouts t)) (\<lambda>outs.
       Inr (tx_version t @ c1 @ concat ins @ c2 @ concat outs @ tx_locktime t)))))"

definition wf_tx :: "tx \<Rightarrow> bool" where
  "wf_tx t \<longleftrightarrow> length (tx_version t) = 4 \<and> length (tx_locktime t) = 4 \<and> list_all wf_in (tx_vins t) \<and> list_all wf_out (tx_vouts t)
     \<and> int (length (tx_vins t)) < 2 ^ 64 \<and> int (length (tx_vouts t)) < 2 ^ 64"

lemma parse_tx_written:
  assumes "wf_tx t"
  shows "\<exists>raw. ser_tx t = Inr raw \<and> parse_tx raw = Inr t"
proof -
  have l: "length (tx_version t) = 4" "length (tx_locktime t) = 4" using assms by (simp_all add: wf_tx_def)
  obtain c1 c2 where c1: "compact_size (int (length (tx_vins t))) = Inr c1" and c2: "compact_size (int (length (tx_vouts t))) = Inr c2"
    using compact_size_Inr assms unfolding wf_tx_def by (metis of_nat_0_le_iff)
  obtain bi where bi: "rmap ser_in (tx_vins t) = Inr bi"
    and pi: "\<And>pre post. parse_many (parse_in (pre @ concat bi @ post)) (length (tx_vins t)) (length pre) = Inr (tx_vins t, length pre + length (concat bi))"
    using ins.many assms unfolding wf_tx_def by blast
  obtain bo where bo: "rmap out_bytes (tx_vouts t) = Inr bo"
    and po: "\<And>pre post. parse_many (parse_out (pre @ concat bo @ post)) (length (tx_vouts t)) (length pre) = Inr (tx_vouts t, length pre + length (concat bo))"
    using outs.many assms unfolding wf_tx_def by blast
  let ?raw = "tx_version t @ c1 @ concat bi @ c2 @ concat bo @ tx_locktime t"
  let ?o1 = "4 + length c1" let ?o2 = "?o1 + length (concat bi)" let ?o3 = "?o2 + length c2" let ?o4 = "?o3 + length (concat bo)"
  have r1: "read_compact_size ?raw 4 = Inr (int (length (tx_vins t)), ?o1)"
    using read_compact_size_written [OF c1, of "tx_version t" "concat bi @ c2 @ concat bo @ tx_locktime t"] l by simp
  have p1: "parse_many (parse_in ?raw) (length (tx_vins t)) ?o1 = Inr (tx_vins t, ?o2)"
    using pi [of "tx_version t @ c1" "c2 @ concat bo @ tx_locktime t"] l by simp
  have r2: "read_compact_size ?raw ?o2 = Inr (int (length (tx_vouts t)), ?o3)"
    using read_compact_size_written [OF c2, of "tx_version t @ c1 @ concat bi" "concat bo @ tx_locktime t"] l by (simp add: add.assoc)
  have p2: "parse_many (parse_out ?raw) (length (tx_vouts t)) ?o3 = Inr (tx_vouts t, ?o4)"
    using po [of "tx_version t @ c1 @ concat bi @ c2" "tx_locktime t"] l by (simp add: add.assoc)
  have s: "slice 0 4 ?raw = tx_version t" using l by (simp add: slice_def)
  have e: "slice ?o4 (?o4 + 4) ?raw = tx_locktime t"
    using slice_middle [of _ "tx_version t @ c1 @ concat bi @ c2 @ concat bo" _ "tx_locktime t" "[]"] l by (simp add: add.assoc)
  have "parse_tx ?raw = Inr t"
    unfolding parse_tx_def using r1 p1 r2 p2 s e l by (simp add: add.assoc)
  moreover have "ser_tx t = Inr ?raw" by (simp add: ser_tx_def c1 bi c2 bo)
  ultimately show ?thesis by blast
qed

section \<open>What the parser returns\<close>

lemma slice_exact: "j \<le> length xs \<Longrightarrow> length (slice i j xs) = j - i"
  by (simp add: slice_def)

lemma read_compact_size_bounds:
  assumes "read_compact_size raw o1 = Inr (n, o2)" "is_bytes raw"
  shows "o1 < o2" "0 \<le> n" "n < 2 ^ 64"
proof -
  have b: "0 \<le> from_le (slice i j raw) \<and> from_le (slice i j raw) < 256 ^ 8" if "j - i \<le> 8" for i j
  proof -
    have "is_bytes (slice i j raw)" using assms(2) by (rule is_bytes_slice)
    then have "0 \<le> from_le (slice i j raw) \<and> from_le (slice i j raw) < 256 ^ length (slice i j raw)" by (rule from_le_bounds)
    moreover have "(256 :: int) ^ length (slice i j raw) \<le> 256 ^ 8" using that by (intro power_increasing) (auto simp: length_slice)
    ultimately show ?thesis by linarith
  qed
  have first: "is_byte (raw ! o1)" if "o1 < length raw" using assms(2) that by (simp add: is_bytes_def list_all_length)
  show "o1 < o2" using assms(1) by (auto simp: read_compact_size_def Let_def split: if_splits)
  show "0 \<le> n" "n < 2 ^ 64"
    using assms(1) b [of "o1 + 3" "o1 + 1"] b [of "o1 + 5" "o1 + 1"] b [of "o1 + 9" "o1 + 1"] first
    by (auto simp: read_compact_size_def Let_def is_byte_def split: if_splits)
qed

text \<open>A reader that never steps back and whose items are well-formed when they lie in the string.\<close>

locale item_reader =
  fixes get :: "bytes \<Rightarrow> nat \<Rightarrow> ('a \<times> nat) result" and wf :: "'a \<Rightarrow> bool"
  assumes forward: "is_bytes raw \<Longrightarrow> get raw o1 = Inr (x, o2) \<Longrightarrow> o1 \<le> o2"
    and inside: "is_bytes raw \<Longrightarrow> get raw o1 = Inr (x, o2) \<Longrightarrow> o2 \<le> length raw \<Longrightarrow> wf x"
begin

lemma many_wf:
  "is_bytes raw \<Longrightarrow> parse_many (get raw) n o1 = Inr (xs, o2) \<Longrightarrow>
     o1 \<le> o2 \<and> length xs = n \<and> (o2 \<le> length raw \<longrightarrow> list_all wf xs)"
proof (induction n arbitrary: o1 xs)
  case (Suc n)
  then obtain x o3 ys where x: "get raw o1 = Inr (x, o3)" and ys: "parse_many (get raw) n o3 = Inr (ys, o2)" "xs = x # ys"
    by (auto simp: rbind_eq_Inr_iff)
  from Suc.IH [OF Suc.prems(1) ys(1)] forward [OF Suc.prems(1) x] inside [OF Suc.prems(1) x] ys(2) show ?case by auto
qed simp

end

interpretation rins: item_reader parse_in wf_in
proof
  fix raw o1 v o2 assume a: "is_bytes raw" "parse_in raw o1 = Inr (v, o2)"
  from a(2) obtain n o3 where r: "read_compact_size raw (o1 + 36) = Inr (n, o3)" and o2: "o2 = o3 + nat n + 4"
    and v: "v = \<lparr> ti_txid = slice o1 (o1 + 32) raw, ti_vout = slice (o1 + 32) (o1 + 36) raw,
       ti_scriptsig = slice o3 (o3 + nat n) raw, ti_seq = slice (o3 + nat n) (o3 + nat n + 4) raw \<rparr>"
    by (auto simp: parse_in_def rbind_eq_Inr_iff Let_def)
  note b = read_compact_size_bounds [OF r a(1)]
  show "o1 \<le> o2" using b(1) o2 by simp
  show "wf_in v" if "o2 \<le> length raw" using that b o2 unfolding wf_in_def v by (simp add: slice_exact)
qed

interpretation routs: item_reader parse_out wf_out
proof
  fix raw o1 v o2 assume a: "is_bytes raw" "parse_out raw o1 = Inr (v, o2)"
  from a(2) obtain n o3 where r: "read_compact_size raw (o1 + 8) = Inr (n, o3)" and o2: "o2 = o3 + nat n"
    and v: "v = \<lparr> to_val = slice o1 (o1 + 8) raw, to_spk = slice o3 (o3 + nat n) raw \<rparr>"
    by (auto simp: parse_out_def rbind_eq_Inr_iff Let_def)
  note b = read_compact_size_bounds [OF r a(1)]
  show "o1 \<le> o2" using b(1) o2 by simp
  show "wf_out v" if "o2 \<le> length raw" using that b o2 unfolding wf_out_def v by (simp add: slice_exact)
qed

lemma parse_tx_wf:
  assumes "is_bytes raw" "parse_tx raw = Inr t"
  shows "wf_tx t"
proof -
  from assms(2) obtain n1 o1 vins o2 n2 o3 vouts o4 where
    r1: "read_compact_size raw 4 = Inr (n1, o1)" and p1: "parse_many (parse_in raw) (nat n1) o1 = Inr (vins, o2)"
    and r2: "read_compact_size raw o2 = Inr (n2, o3)" and p2: "parse_many (parse_out raw) (nat n2) o3 = Inr (vouts, o4)"
    and o4: "o4 + 4 = length raw"
    and t: "t = \<lparr> tx_version = slice 0 4 raw, tx_vins = vins, tx_vouts = vouts, tx_locktime = slice o4 (o4 + 4) raw \<rparr>"
    by (auto simp: parse_tx_def rbind_eq_Inr_iff split: if_splits)
  note b1 = read_compact_size_bounds [OF r1 assms(1)] and b2 = read_compact_size_bounds [OF r2 assms(1)]
  note m1 = rins.many_wf [OF assms(1) p1] and m2 = routs.many_wf [OF assms(1) p2]
  have "o2 \<le> length raw" "o4 \<le> length raw" using b1(1) b2(1) m1 m2 o4 by auto
  with m1 m2 b1 b2 o4 show ?thesis unfolding wf_tx_def t by (simp add: slice_exact)
qed

section \<open>The BIP143 preimage\<close>

lemma length_hashes143 [simp]:
  "length (hash_prevouts143 t ht) = 32" "length (hash_sequence143 t ht) = 32" "length (dsha256 b) = 32" "length zeros32 = 32"
  by (simp_all add: hash_prevouts143_def hash_sequence143_def zeros32_def dsha256_def)

lemma length_hash_outputs143: "hash_outputs143 t i ht = Inr h \<Longrightarrow> length h = 32"
  by (auto simp: hash_outputs143_def rbind_eq_Inr_iff split: if_splits)

lemma preimage_parts:
  assumes "bip143_preimage t i sc amount ht = Inr p"
  obtains ho cs where "hash_outputs143 t i ht = Inr ho" "i < length (tx_vins t)" "compact_size (int (length sc)) = Inr cs"
    "- (256 ^ 8) \<le> 2 * amount \<and> 2 * amount < 256 ^ 8" "0 \<le> ht \<and> ht < 256 ^ 4"
    "p = tx_version t @ hash_prevouts143 t ht @ hash_sequence143 t ht @ outpoint_bytes (tx_vins t ! i)
       @ cs @ sc @ le_bytes 8 (amount mod 256 ^ 8) @ ti_seq (tx_vins t ! i) @ ho @ tx_locktime t @ le_bytes 4 ht"
  using assms by (auto simp: bip143_preimage_def rbind_eq_Inr_iff to_bytes_le_signed_def to_bytes_le_def Let_def split: if_splits)

lemma matching_inputs_unique:
  assumes "wf_tx t" "i < length (tx_vins t)" "distinct (map outpoint_bytes (tx_vins t))"
  shows "matching_inputs (tx_vins t) (outpoint_bytes (tx_vins t ! i)) = [i]"
proof -
  let ?vs = "tx_vins t"
  have l: "length (ti_txid (?vs ! j)) = 32" "length (ti_vout (?vs ! j)) = 4" if "j < length ?vs" for j
    using assms(1) that by (auto simp: wf_tx_def wf_in_def list_all_length)
  have m: "ti_txid (?vs ! j) = slice 0 32 (outpoint_bytes (?vs ! i)) \<and> ti_vout (?vs ! j) = slice 32 36 (outpoint_bytes (?vs ! i)) \<longleftrightarrow> j = i"
    if "j < length ?vs" for j
  proof -
    have "slice 0 32 (outpoint_bytes (?vs ! i)) = ti_txid (?vs ! i)" "slice 32 36 (outpoint_bytes (?vs ! i)) = ti_vout (?vs ! i)"
      using l [OF assms(2)] by (simp_all add: outpoint_bytes_def slice_def)
    moreover have "j = i" if "outpoint_bytes (?vs ! j) = outpoint_bytes (?vs ! i)"
      using assms(2,3) that \<open>j < length ?vs\<close> by (metis distinct_conv_nth length_map nth_map)
    ultimately show ?thesis by (auto simp: outpoint_bytes_def)
  qed
  have "matching_inputs ?vs (outpoint_bytes (?vs ! i)) = filter (\<lambda>j. j = i) [0..<length ?vs]"
    unfolding matching_inputs_def by (rule filter_cong [OF refl]) (use m in simp)
  also have "\<dots> = filter (\<lambda>j. j = i) ([0..<i] @ [i..<length ?vs])"
    using assms(2) by (metis le_add_diff_inverse less_imp_le upt_add_eq_append zero_le)
  also have "\<dots> = [i]" using assms(2) by (simp add: upt_conv_Cons)
  finally show ?thesis .
qed

lemma decompose_preimage:
  assumes "wf_tx t" "distinct (map outpoint_bytes (tx_vins t))" "bip143_preimage t i sc amount ht = Inr p"
  shows "decompose143 t p = Inr (i, sc, amount, ht)"
proof -
  let ?v = "tx_vins t ! i" and ?hp = "hash_prevouts143 t ht" and ?hs = "hash_sequence143 t ht"
  from assms(3) obtain ho cs where ho: "hash_outputs143 t i ht = Inr ho" and i: "i < length (tx_vins t)"
    and cs: "compact_size (int (length sc)) = Inr cs" and am: "- (256 ^ 8) \<le> 2 * amount \<and> 2 * amount < 256 ^ 8"
    and ht: "0 \<le> ht \<and> ht < 256 ^ 4"
    and p: "p = tx_version t @ ?hp @ ?hs @ outpoint_bytes ?v @ cs @ sc @ le_bytes 8 (amount mod 256 ^ 8) @ ti_seq ?v @ ho @ tx_locktime t @ le_bytes 4 ht"
    by (rule preimage_parts)
  have v: "wf_in ?v" using assms(1) i by (simp add: wf_tx_def list_all_length)
  have l: "length (tx_version t) = 4" "length (tx_locktime t) = 4" "length (outpoint_bytes ?v) = 36" "length (ti_seq ?v) = 4" "length ho = 32"
    using assms(1) v length_hash_outputs143 [OF ho] by (simp_all add: wf_tx_def wf_in_def outpoint_bytes_def)
  let ?amt = "le_bytes 8 (amount mod 256 ^ 8)" and ?a = "104 + length cs + length sc"
  have lp: "length p = ?a + 52" using p l by simp
  have s1: "slice 0 4 p = tx_version t" using l by (simp add: p slice_def)
  have s2: "slice 68 104 p = outpoint_bytes ?v"
    using slice_middle [of 68 "tx_version t @ ?hp @ ?hs" 104 "outpoint_bytes ?v"
        "cs @ sc @ ?amt @ ti_seq ?v @ ho @ tx_locktime t @ le_bytes 4 ht"] l unfolding p by (simp del: le_bytes.simps)
  have r: "read_compact_size p 104 = Inr (int (length sc), 104 + length cs)"
    using read_compact_size_written [OF cs, of "tx_version t @ ?hp @ ?hs @ outpoint_bytes ?v"
        "sc @ ?amt @ ti_seq ?v @ ho @ tx_locktime t @ le_bytes 4 ht"] l unfolding p by (simp del: le_bytes.simps)
  have s3: "slice (104 + length cs) ?a p = sc"
    using slice_middle [of "104 + length cs" "tx_version t @ ?hp @ ?hs @ outpoint_bytes ?v @ cs" ?a sc
        "?amt @ ti_seq ?v @ ho @ tx_locktime t @ le_bytes 4 ht"] l unfolding p by (simp del: le_bytes.simps)
  have s4: "slice ?a (?a + 8) p = ?amt"
    using slice_middle [of ?a "tx_version t @ ?hp @ ?hs @ outpoint_bytes ?v @ cs @ sc" "?a + 8" ?amt
        "ti_seq ?v @ ho @ tx_locktime t @ le_bytes 4 ht"] l unfolding p by (simp del: le_bytes.simps)
  have s5: "slice (?a + 8) (?a + 12) p = ti_seq ?v"
    using slice_middle [of "?a + 8" "tx_version t @ ?hp @ ?hs @ outpoint_bytes ?v @ cs @ sc @ ?amt" "?a + 12" "ti_seq ?v"
        "ho @ tx_locktime t @ le_bytes 4 ht"] l unfolding p by (simp del: le_bytes.simps)
  have s6: "slice (length p - 8) (length p - 4) p = tx_locktime t"
    using slice_middle [of "?a + 44" "tx_version t @ ?hp @ ?hs @ outpoint_bytes ?v @ cs @ sc @ ?amt @ ti_seq ?v @ ho" "?a + 48"
        "tx_locktime t" "le_bytes 4 ht"] l lp unfolding p by (simp del: le_bytes.simps)
  have s7: "drop (length p - 4) p = le_bytes 4 ht"
  proof -
    have "p = (tx_version t @ ?hp @ ?hs @ outpoint_bytes ?v @ cs @ sc @ ?amt @ ti_seq ?v @ ho @ tx_locktime t) @ le_bytes 4 ht" using p by simp
    then show ?thesis by (metis append_eq_conv_conj diff_add_inverse2 length_append length_le_bytes)
  qed
  have a: "from_le_signed ?amt = amount"
    using from_le_signed_roundtrip [of amount 8 ?amt] am by (simp add: to_bytes_le_signed_def)
  have h: "from_le (le_bytes 4 ht) = ht" using ht by (simp add: from_le_le_bytes del: le_bytes.simps)
  have m: "matching_inputs (tx_vins t) (outpoint_bytes ?v) = [i]" by (rule matching_inputs_unique [OF assms(1) i assms(2)])
  show ?thesis
    unfolding decompose143_def Let_def s1 s2 m r rbind_simps prod.case nat_int list.sel s3 s4 s5 s6 s7 a h
    by (simp add: py_assert_def)
qed

section \<open>The generators\<close>

text \<open>What \<open>gen_bip143\<close> established of a case it returns.\<close>

definition verified143 :: "case143 \<Rightarrow> bool" where
  "verified143 c \<longleftrightarrow> (\<exists>raw t p. fromhex (c_raw c) = Inr raw \<and> parse_tx raw = Inr t \<and>
     bip143_preimage t (c_index c) (c_script c) (c_amount c) (c_hash_type c) = Inr p \<and> c_sighash c = uhex (dsha256 p))"

lemma check_case143_verified:
  assumes "fromhex rawhex = Inr raw" "parse_tx raw = Inr t" "check_case143 rawhex t ph sh = Inr c"
  shows "verified143 c"
  using assms unfolding verified143_def check_case143_def
  by (auto simp: rbind_eq_Inr_iff py_assert_def split: if_splits)

lemma cases_from_verified:
  assumes "fromhex rawhex = Inr raw" "parse_tx raw = Inr t"
  shows "cases_from rawhex t chunk pos = Inr cs \<Longrightarrow> list_all verified143 cs"
proof (induction "length chunk - pos" arbitrary: pos cs rule: less_induct)
  case less
  show ?case
  proof (cases "re_search_at preimage_re chunk pos")
    case None
    with less.prems show ?thesis by (simp add: cases_from.simps [of rawhex t chunk pos])
  next
    case pm: (Some pm)
    show ?thesis
    proof (cases "re_search_at sighash_re chunk (m_end pm)")
      case None
      with less.prems pm show ?thesis by (simp add: cases_from.simps [of rawhex t chunk pos])
    next
      case sm: (Some sm)
      from less.prems pm sm obtain c cs' where c: "check_case143 rawhex t (group0 chunk pm 1) (group0 chunk sm 1) = Inr c"
        and cs': "cases_from rawhex t chunk (m_end sm) = Inr cs'" "cs = c # cs'"
        by (auto simp: cases_from.simps [of rawhex t chunk pos] rbind_eq_Inr_iff)
      have "length chunk - m_end sm < length chunk - pos" using sighash_advances [OF pm sm] by linarith
      from less.hyps [OF this cs'(1)] check_case143_verified [OF assms c] cs'(2) show ?thesis by simp
    qed
  qed
qed

lemma gen_bip143_verified:
  assumes "gen_bip143 text0 = Inr cases"
  shows "map fst cases = BIP143_NAMES \<and> list_all (verified143 \<circ> snd) cases"
proof -
  from assms obtain example starts xs css where css: "rmap (context_cases example starts) xs = Inr css"
    and len: "length (concat css) = length BIP143_NAMES" and cs: "cases = zip BIP143_NAMES (concat css)"
    by (auto simp: gen_bip143_def rbind_eq_Inr_iff py_assert_def Let_def split: if_splits)
  have "list_all (list_all verified143) css"
  proof (rule rmap_all [OF css])
    fix x y assume "context_cases example starts x = Inr y"
    then show "list_all verified143 y"
      using cases_from_verified by (auto simp: context_cases_def rbind_eq_Inr_iff split: prod.splits)
  qed
  then have v: "list_all verified143 (concat css)" by (auto simp: list_all_iff)
  have "list_all (verified143 \<circ> snd) cases" using v unfolding cs list_all_iff by (auto dest!: set_zip_rightD simp del: set_concat)
  with len cs show ?thesis by simp
qed

lemma emit_verified: "verified143 c \<Longrightarrow> \<exists>out. emit_case143 (name, c) = Inr out"
  by (auto simp: verified143_def emit_case143_def Let_def)

section \<open>The BIP341 signature message\<close>

lemma rmap_spk_Inr: "list_all (\<lambda>u. int (length (snd u)) < 2 ^ 64) us \<Longrightarrow> \<exists>ys. rmap (\<lambda>u. spk_bytes (snd u)) us = Inr ys"
  by (rule rmap_total) (use spk_bytes_Inr in \<open>fastforce simp: list_all_iff\<close>)

lemma sig_msg_parts:
  assumes "bip341_sig_msg t utxos i ht 0 None = Inr m" "ht AND 0x80 = 0"
  obtains outs single a b c d where
    "m = [0, ht] @ tx_version t @ tx_locktime t @ (sha256 a @ sha256 b @ sha256 c @ sha256 d) @ outs @ [0] @ le_bytes 4 (int i) @ single"
    "outs = [] \<longleftrightarrow> ht AND 3 \<noteq> 0 \<and> ht AND 3 \<noteq> 1" "outs = [] \<or> length outs = 32"
    "single = [] \<longleftrightarrow> ht AND 3 \<noteq> 3" "single = [] \<or> length single = 32"
proof -
  have ne: "sha256 x \<noteq> []" for x using length_sha256 [of x] by (metis list.size(3) zero_neq_numeral)
  from assms obtain ins outs inp single where
    ins: "sha_all_inputs t utxos = Inr ins"
    and outs: "(if ht AND 3 = 0 \<or> ht AND 3 = 1 then rbind (rmap out_bytes (tx_vouts t)) (\<lambda>bs. Inr (sha256 (concat bs))) else Inr []) = Inr outs"
    and inp: "to_bytes_le (int i) 4 = Inr inp"
    and single: "(if ht AND 3 = 3 then (if length (tx_vouts t) \<le> i then Inl IndexError
        else rbind (out_bytes (tx_vouts t ! i)) (\<lambda>b. Inr (sha256 b))) else Inr []) = Inr single"
    and m: "m = [0, ht] @ tx_version t @ tx_locktime t @ ins @ outs @ [0] @ inp @ single"
    unfolding bip341_sig_msg_def by (simp add: rbind_eq_Inr_iff mk_bytes_def Let_def split: if_splits)
      (auto split: if_splits)
  from ins obtain a b c d where "ins = sha256 a @ sha256 b @ sha256 c @ sha256 d"
    by (auto simp: sha_all_inputs_def rbind_eq_Inr_iff)
  moreover have "inp = le_bytes 4 (int i)" using inp by (auto simp: to_bytes_le_def split: if_splits)
  ultimately show thesis using m outs single that ne by (auto simp: rbind_eq_Inr_iff split: if_splits)
qed

section \<open>Exactness of the check\<close>

lemma nibble_cases: "0 \<le> (n :: int) \<Longrightarrow> n < 16 \<Longrightarrow> P 0 \<Longrightarrow> P 1 \<Longrightarrow> P 2 \<Longrightarrow> P 3 \<Longrightarrow> P 4 \<Longrightarrow> P 5 \<Longrightarrow> P 6 \<Longrightarrow> P 7 \<Longrightarrow>
    P 8 \<Longrightarrow> P 9 \<Longrightarrow> P 10 \<Longrightarrow> P 11 \<Longrightarrow> P 12 \<Longrightarrow> P 13 \<Longrightarrow> P 14 \<Longrightarrow> P 15 \<Longrightarrow> P n"
proof -
  assume "0 \<le> n" "n < 16"
  then have "n \<in> {0, 1, 2, 3, 4, 5, 6, 7, 8, 9, 10, 11, 12, 13, 14, 15}" unfolding insert_iff empty_iff by presburger
  then show "P 0 \<Longrightarrow> P 1 \<Longrightarrow> P 2 \<Longrightarrow> P 3 \<Longrightarrow> P 4 \<Longrightarrow> P 5 \<Longrightarrow> P 6 \<Longrightarrow> P 7 \<Longrightarrow> P 8 \<Longrightarrow> P 9 \<Longrightarrow> P 10 \<Longrightarrow> P 11 \<Longrightarrow> P 12 \<Longrightarrow> P 13 \<Longrightarrow> P 14 \<Longrightarrow> P 15 \<Longrightarrow> P n"
    by (elim insertE emptyE) simp_all
qed

lemma hexval_digit:
  assumes "0 \<le> n" "n < 16"
  shows "hexval (of_char (hex_digit n)) = Some n \<and> \<not> ((9 \<le> (of_char (hex_digit n) :: int) \<and> (of_char (hex_digit n) :: int) \<le> 13) \<or> of_char (hex_digit n) = (32 :: int))"
  by (rule nibble_cases [OF assms]) (simp_all add: hexval_def hex_digit_def)

lemma fromhex_uhex: "is_bytes b \<Longrightarrow> fromhex (uhex b) = Inr b"
proof (induction b)
  case (Cons x b)
  then have b: "0 \<le> x" "x < 256" and ih: "fromhex (uhex b) = Inr b" by (auto simp: is_byte_def)
  have "0 \<le> x div 16" "x div 16 < 16" "0 \<le> x mod 16" "x mod 16 < 16" using b by simp_all
  note h = hexval_digit [OF this(1,2)] hexval_digit [OF this(3,4)]
  have "uhex (x # b) = of_char (hex_digit (x div 16)) # of_char (hex_digit (x mod 16)) # uhex b"
    by (simp add: uhex_def hex_def)
  with h ih show ?case by (auto split: option.splits)
qed (simp add: uhex_def hex_def)

definition byte_tx :: "tx \<Rightarrow> bool" where
  "byte_tx t \<longleftrightarrow> is_bytes (tx_version t) \<and> is_bytes (tx_locktime t) \<and>
     list_all (\<lambda>v. is_bytes (ti_txid v) \<and> is_bytes (ti_vout v) \<and> is_bytes (ti_seq v)) (tx_vins t)"

lemma hash_outputs143_Inr:
  assumes "wf_tx t"
  shows "\<exists>h. hash_outputs143 t i ht = Inr h"
proof -
  have o: "\<exists>b. out_bytes x = Inr b" if "x \<in> set (tx_vouts t)" for x
    using outs.writes assms that by (auto simp: wf_tx_def list_all_iff)
  then obtain bs where "rmap out_bytes (tx_vouts t) = Inr bs" using rmap_total by metis
  moreover have "\<exists>b. out_bytes (tx_vouts t ! i) = Inr b" if "i < length (tx_vouts t)" using o that by simp
  ultimately show ?thesis by (auto simp: hash_outputs143_def not_le)
qed

lemma preimage_total:
  assumes "wf_tx t" "i < length (tx_vins t)" "int (length sc) < 2 ^ 64" "- (2 ^ 63) \<le> amount" "amount < 2 ^ 63" "0 \<le> ht" "ht < 2 ^ 32"
  shows "\<exists>p. bip143_preimage t i sc amount ht = Inr p"
proof -
  obtain cs where "compact_size (int (length sc)) = Inr cs" using compact_size_Inr [of "int (length sc)"] assms(3) by auto
  moreover obtain h where "hash_outputs143 t i ht = Inr h" using hash_outputs143_Inr [OF assms(1)] by blast
  ultimately show ?thesis using assms(2,4-7) by (simp add: bip143_preimage_def to_bytes_le_signed_def to_bytes_le_def Let_def del: le_bytes.simps)
qed

lemma is_bytes_dsha256 [simp]: "is_bytes (dsha256 b)" "is_bytes zeros32"
  by (simp_all add: dsha256_def zeros32_def)

lemma preimage_bytes:
  assumes "bip143_preimage t i sc amount ht = Inr p" "byte_tx t" "is_bytes sc"
  shows "is_bytes p"
proof -
  from assms(1) obtain ho cs where ho: "hash_outputs143 t i ht = Inr ho" and i: "i < length (tx_vins t)"
    and cs: "compact_size (int (length sc)) = Inr cs"
    and p: "p = tx_version t @ hash_prevouts143 t ht @ hash_sequence143 t ht @ outpoint_bytes (tx_vins t ! i) @ cs @ sc
      @ le_bytes 8 (amount mod 256 ^ 8) @ ti_seq (tx_vins t ! i) @ ho @ tx_locktime t @ le_bytes 4 ht"
    by (rule preimage_parts)
  have "is_bytes ho" using ho by (auto simp: hash_outputs143_def rbind_eq_Inr_iff split: if_splits)
  moreover have "is_bytes cs" using cs
    by (auto simp: compact_size_def to_bytes_le_def rbind_eq_Inr_iff is_byte_def simp del: le_bytes.simps split: if_splits)
  moreover have "is_bytes (hash_prevouts143 t ht)" "is_bytes (hash_sequence143 t ht)"
    by (simp_all add: hash_prevouts143_def hash_sequence143_def)
  moreover have "is_bytes (tx_version t)" "is_bytes (tx_locktime t)" "is_bytes (outpoint_bytes (tx_vins t ! i))" "is_bytes (ti_seq (tx_vins t ! i))"
    using assms(2) i by (auto simp: byte_tx_def outpoint_bytes_def list_all_length)
  ultimately show ?thesis using assms(3) unfolding p by (simp del: le_bytes.simps)
qed

lemma check_case143_exact:
  assumes "wf_tx t" "distinct (map outpoint_bytes (tx_vins t))" "bip143_preimage t i sc amount ht = Inr p" "is_bytes p"
  shows "check_case143 rawhex t (uhex p) sh =
    (if sh = uhex (dsha256 p)
     then Inr \<lparr> c_raw = rawhex, c_index = i, c_script = sc, c_amount = amount, c_hash_type = ht, c_sighash = sh \<rparr>
     else Inl AssertionError)"
  using decompose_preimage [OF assms(1-3)] assms(3) fromhex_uhex [OF assms(4)]
  by (auto simp: check_case143_def py_assert_def)

section \<open>Properties\<close>

definition demo_tx :: tx where
  "demo_tx = \<lparr> tx_version = [1, 0, 0, 0],
     tx_vins = [\<lparr> ti_txid = replicate 32 7, ti_vout = [0, 0, 0, 0], ti_scriptsig = [], ti_seq = [255, 255, 255, 255] \<rparr>,
                \<lparr> ti_txid = replicate 32 9, ti_vout = [1, 0, 0, 0], ti_scriptsig = [81], ti_seq = [254, 255, 255, 255] \<rparr>],
     tx_vouts = [\<lparr> to_val = replicate 8 1, to_spk = [81, 82] \<rparr>], tx_locktime = [0, 0, 0, 0] \<rparr>"

lemma demo_tx_ok: "wf_tx demo_tx" "byte_tx demo_tx" "distinct (map outpoint_bytes (tx_vins demo_tx))"
  by (simp_all add: demo_tx_def wf_tx_def wf_in_def wf_out_def byte_tx_def is_byte_def outpoint_bytes_def numeral_eq_Suc)

text \<open>C17.  Writing a transaction in its legacy form (CompactSize counts and script lengths) and parsing
  it returns the transaction: the parser accepts the bytes, consumes all of them and recovers every field.\<close>

theorem parse_tx_roundtrip:
  assumes "wf_tx t"
  shows "\<exists>raw. ser_tx t = Inr raw \<and> parse_tx raw = Inr t"
  using assms by (rule parse_tx_written)

theorem parse_tx_roundtrip_witness: "\<exists>raw. ser_tx demo_tx = Inr raw \<and> parse_tx raw = Inr demo_tx"
  by (rule parse_tx_roundtrip) (rule demo_tx_ok)

text \<open>C18.  Every transaction the parser accepts is well-formed: the version, the lock time and each input's
  and output's fixed-width fields have their full width although Python slices clip silently, because the
  final length check leaves no room for a clipped slice.\<close>

theorem parse_tx_field_widths:
  assumes "is_bytes raw" "parse_tx raw = Inr t"
  shows "wf_tx t"
  using assms by (rule parse_tx_wf)

theorem parse_tx_field_widths_witness:
  "wf_tx \<lparr> tx_version = [1, 0, 0, 0], tx_vins = [], tx_vouts = [\<lparr> to_val = [8, 7, 6, 5, 4, 3, 2, 1], to_spk = [81] \<rparr>], tx_locktime = [9, 0, 0, 0] \<rparr>"
  by (rule parse_tx_field_widths [of "[1, 0, 0, 0, 0, 1, 8, 7, 6, 5, 4, 3, 2, 1, 1, 81, 9, 0, 0, 0]"]) code_simp+

text \<open>The generator recovers the signing parameters of a case from the published preimage: for every
  well-formed transaction with distinct outpoints the preimage exists, and cutting it up at the fixed offsets
  gives back the input index, the script code, the amount (signed) and the hash type.\<close>

theorem preimage_decomposes:
  assumes "wf_tx t" "distinct (map outpoint_bytes (tx_vins t))" "i < length (tx_vins t)" "int (length sc) < 2 ^ 64"
    "- (2 ^ 63) \<le> amount" "amount < 2 ^ 63" "0 \<le> ht" "ht < 2 ^ 32"
  shows "\<exists>p. bip143_preimage t i sc amount ht = Inr p \<and> length p \<le> 165 + length sc \<and> decompose143 t p = Inr (i, sc, amount, ht)"
proof -
  obtain p where p: "bip143_preimage t i sc amount ht = Inr p" using preimage_total [OF assms(1,3-8)] by blast
  have "length p \<le> 165 + length sc"
  proof -
    from p obtain ho cs where "hash_outputs143 t i ht = Inr ho" "compact_size (int (length sc)) = Inr cs"
      and e: "p = tx_version t @ hash_prevouts143 t ht @ hash_sequence143 t ht @ outpoint_bytes (tx_vins t ! i) @ cs @ sc
        @ le_bytes 8 (amount mod 256 ^ 8) @ ti_seq (tx_vins t ! i) @ ho @ tx_locktime t @ le_bytes 4 ht"
      by (rule preimage_parts)
    moreover have "wf_in (tx_vins t ! i)" using assms(1,3) by (simp add: wf_tx_def list_all_length)
    ultimately show ?thesis using assms(1) length_hash_outputs143 [of t i ht ho] length_compact_size [of "int (length sc)" cs]
      by (simp add: wf_tx_def wf_in_def outpoint_bytes_def del: le_bytes.simps)
  qed
  with p decompose_preimage [OF assms(1,2) p] show ?thesis by blast
qed

theorem preimage_decomposes_witness:
  "\<exists>p. bip143_preimage demo_tx 1 [81, 82, 83] (- 5) 0x83 = Inr p \<and> length p \<le> 165 + length [81, 82, 83 :: int]
     \<and> decompose143 demo_tx p = Inr (1, [81, 82, 83], - 5, 0x83)"
  by (rule preimage_decomposes) (rule demo_tx_ok, rule demo_tx_ok, simp_all add: demo_tx_def)

text \<open>The check of a published BIP143 case is exact: given the preimage of the case it accepts the double
  SHA-256 digest of that preimage and no other text, and a wrong digest is an \<open>AssertionError\<close>.\<close>

theorem published_case_checked:
  assumes "wf_tx t" "byte_tx t" "distinct (map outpoint_bytes (tx_vins t))" "i < length (tx_vins t)" "int (length sc) < 2 ^ 64" "is_bytes sc"
    "- (2 ^ 63) \<le> amount" "amount < 2 ^ 63" "0 \<le> ht" "ht < 2 ^ 32"
  shows "\<exists>p. bip143_preimage t i sc amount ht = Inr p \<and> check_case143 rawhex t (uhex p) sh =
    (if sh = uhex (dsha256 p)
     then Inr \<lparr> c_raw = rawhex, c_index = i, c_script = sc, c_amount = amount, c_hash_type = ht, c_sighash = sh \<rparr>
     else Inl AssertionError)"
proof -
  obtain p where p: "bip143_preimage t i sc amount ht = Inr p" using preimage_total [OF assms(1,4,5,7-10)] by blast
  from check_case143_exact [OF assms(1,3) p preimage_bytes [OF p assms(2,6)]] p show ?thesis by blast
qed

theorem published_case_checked_witness:
  "\<exists>p. bip143_preimage demo_tx 0 [81] 7 1 = Inr p \<and> check_case143 [] demo_tx (uhex p) [] =
    (if [] = uhex (dsha256 p)
     then Inr \<lparr> c_raw = [], c_index = 0, c_script = [81], c_amount = 7, c_hash_type = 1, c_sighash = [] \<rparr>
     else Inl AssertionError)"
  by (rule published_case_checked) (rule demo_tx_ok, rule demo_tx_ok, rule demo_tx_ok, simp_all add: demo_tx_def is_byte_def)

text \<open>What a hash type leaves out of the preimage: under NONE the outputs, under SINGLE every output but
  the one of the signed input, under both the sequence numbers of the other inputs, and under ANYONECANPAY every input but the signed one.\<close>

theorem hash_type_scope:
  assumes "i < length (tx_vins t)" "i < length ins'" "ins' ! i = tx_vins t ! i"
    "i < length (tx_vouts t)" "i < length outs'" "outs' ! i = tx_vouts t ! i"
    "map outpoint_bytes ins'' = map outpoint_bytes (tx_vins t)" "ins'' ! i = tx_vins t ! i"
  shows "(ht AND 0x1F = 2 \<longrightarrow> bip143_preimage (t\<lparr>tx_vouts := outs\<rparr>) i sc a ht = bip143_preimage t i sc a ht)
    \<and> (ht AND 0x1F = 3 \<longrightarrow> bip143_preimage (t\<lparr>tx_vouts := outs'\<rparr>) i sc a ht = bip143_preimage t i sc a ht)
    \<and> (ht AND 0x1F = 2 \<or> ht AND 0x1F = 3 \<longrightarrow> bip143_preimage (t\<lparr>tx_vins := ins''\<rparr>) i sc a ht = bip143_preimage t i sc a ht)
    \<and> (ht AND 0x80 \<noteq> 0 \<longrightarrow> bip143_preimage (t\<lparr>tx_vins := ins'\<rparr>) i sc a ht = bip143_preimage t i sc a ht)"
proof -
  have "length ins'' = length (tx_vins t)" using assms(7) by (rule map_eq_imp_length_eq)
  with assms show ?thesis
    by (auto simp: bip143_preimage_def hash_outputs143_def hash_prevouts143_def hash_sequence143_def Let_def)
qed

theorem hash_type_scope_witness:
  "bip143_preimage (demo_tx\<lparr>tx_vouts := []\<rparr>) 0 [81] 7 2 = bip143_preimage demo_tx 0 [81] 7 2"
  using hash_type_scope [of 0 demo_tx "tx_vins demo_tx" "tx_vouts demo_tx" "tx_vins demo_tx" 2 "[]" "[81]" 7] by (simp add: demo_tx_def)

text \<open>The BIP341 key-path message without ANYONECANPAY has the length the BIP states: 175 bytes with the
  epoch for DEFAULT, ALL and SINGLE, and 143 for NONE, whatever the sizes of the transaction and the scripts.\<close>

theorem sig_msg_length:
  assumes "wf_tx t" "bip341_sig_msg t utxos i ht 0 None = Inr m" "ht AND 0x80 = 0"
  shows "length m = (if ht AND 3 = 2 then 143 else 175)"
proof -
  from assms(2,3) obtain outs single a b c d where
    m: "m = [0, ht] @ tx_version t @ tx_locktime t @ (sha256 a @ sha256 b @ sha256 c @ sha256 d) @ outs @ [0] @ le_bytes 4 (int i) @ single"
    and o: "outs = [] \<longleftrightarrow> ht AND 3 \<noteq> 0 \<and> ht AND 3 \<noteq> 1" "outs = [] \<or> length outs = 32"
    and s: "single = [] \<longleftrightarrow> ht AND 3 \<noteq> 3" "single = [] \<or> length single = 32"
    by (rule sig_msg_parts)
  have "ht AND 3 = ht mod 4" using take_bit_eq_mask [of 2 ht] by (simp add: take_bit_eq_mod mask_eq_exp_minus_1)
  then consider "ht AND 3 = 0" | "ht AND 3 = 1" | "ht AND 3 = 2" | "ht AND 3 = 3" by (smt (verit) pos_mod_bound pos_mod_sign)
  then show ?thesis using o s assms(1) m by cases (auto simp: wf_tx_def simp del: le_bytes.simps)
qed

theorem sig_msg_length_witness:
  "\<exists>m. bip341_sig_msg demo_tx [([5], [81]), ([6], [82])] 0 2 0 None = Inr m \<and> length m = (if 2 AND 3 = (2 :: int) then 143 else 175)"
proof -
  obtain m where m: "bip341_sig_msg demo_tx [([5], [81]), ([6], [82])] 0 2 0 None = Inr m"
    by (simp add: bip341_sig_msg_def mk_bytes_def is_byte_def sha_all_inputs_def spk_bytes_def compact_size_def to_bytes_le_def Let_def)
  from sig_msg_length [OF demo_tx_ok(1) m] m show ?thesis by simp
qed

end
