(* ===== verification/CtCompare.thy ===== *)
theory CtCompare
  imports Regex "HOL-Library.List_Lexorder"
begin

text \<open>
  \<open>scripts/checks/check-ct-compare.py\<close>: the gate that counts, per source file, the constant-time and the
  plain comparisons and compares the counts with a pinned table.  The repository is an argument: the
  module directories, the text of a file, the text of the pin.
\<close>

definition CT_FNS :: "ustr list" where "CT_FNS = [asc ''eql'', asc ''lt'', asc ''gt'']"
definition PLAIN_FNS :: "ustr list" where "PLAIN_FNS = [asc ''eql'', asc ''eqlBytes'']"

section \<open>Comments\<close>

text \<open>The scan of one line from a state (inside a string, after a backslash): what is kept.\<close>

fun strip_line :: "bool \<Rightarrow> bool \<Rightarrow> ustr \<Rightarrow> ustr" where
  "strip_line in_str esc [] = []"
| "strip_line in_str esc (c # cs) =
     (if esc then c # strip_line in_str False cs
      else if c = 0x5C then c # strip_line in_str True cs
      else if c = 0x22 then c # strip_line (\<not> in_str) False cs
      else if c = 0x2F \<and> \<not> in_str \<and> take 1 cs = [0x2F] then []
      else c # strip_line in_str False cs)"

definition strip_comments :: "ustr \<Rightarrow> ustr" where
  "strip_comments src = join [10] (map (strip_line False False) (usplit (CHR 0x0A) src))"

section \<open>Aliases\<close>

definition const_re :: re where
  "const_re = rseq [RWordB, rlit ''const'', rplus rspace, RGroup 1 (rplus rword), rstar rspace, rlit ''='', rstar rspace,
     RGroup 2 (rplus (RSet (\<lambda>x. u_word x \<or> x = 46))), rstar rspace, rlit '';'']"

definition consts_of :: "ustr \<Rightarrow> (ustr \<times> ustr) list" where
  "consts_of src = foldl (\<lambda>d m. dict_set d (group0 src m 1) (group0 src m 2)) [] (finditer const_re src)"

definition add_name :: "ustr \<Rightarrow> ustr list \<Rightarrow> ustr list" where
  "add_name n names = (if n \<in> set names then names else names @ [n])"

lemma set_add_name [simp]: "set (add_name n names) = insert n (set names)"
  by (auto simp: add_name_def)

text \<open>The two ways a constant grows the set: it is defined as a name of the root, or as a proper prefix of it.\<close>

definition prefixes_of :: "ustr list \<Rightarrow> (ustr \<times> ustr) list" where
  "prefixes_of parts = map (\<lambda>i. (join [46] (take i parts), join [46] (drop i parts))) [1..<length parts]"

definition alias_step :: "(ustr \<times> ustr) list \<Rightarrow> ustr list \<Rightarrow> ustr \<times> ustr \<Rightarrow> ustr list" where
  "alias_step ps names nv = (case nv of (name, value) \<Rightarrow>
     foldl (\<lambda>ns (pre, suf). if value = pre then add_name (name @ [46] @ suf) ns else ns)
       (if value \<in> set names then add_name name names else names) ps)"

definition alias_round :: "(ustr \<times> ustr) list \<Rightarrow> (ustr \<times> ustr) list \<Rightarrow> ustr list \<Rightarrow> ustr list" where
  "alias_round ps cdefs names = foldl (alias_step ps) names cdefs"

fun alias_loop :: "nat \<Rightarrow> (ustr list \<Rightarrow> ustr list) \<Rightarrow> ustr list \<Rightarrow> ustr list" where
  "alias_loop 0 f names = names"
| "alias_loop (Suc n) f names = (let names' = f names in if names' = names then names' else alias_loop n f names')"

definition resolve_aliases :: "ustr \<Rightarrow> ustr \<Rightarrow> ustr list" where
  "resolve_aliases src root =
     alias_loop 4 (alias_round (prefixes_of (usplit (CHR ''.'') root)) (consts_of src)) [root]"

section \<open>Counting\<close>

definition call_re :: "ustr \<Rightarrow> ustr \<Rightarrow> re" where
  "call_re root fn = rseq [RNotBehind (RSet (\<lambda>x. u_word x \<or> x = 46)) 1, ru root, rlit ''.'', ru fn, rstar rspace, rlit ''('']"

definition count_calls :: "ustr \<Rightarrow> ustr list \<Rightarrow> ustr list \<Rightarrow> int" where
  "count_calls src roots fns =
     sum_list (map (\<lambda>root. sum_list (map (\<lambda>fn. int (length (finditer (call_re root fn) src))) fns)) roots)"

definition measure_text :: "ustr \<Rightarrow> int \<times> int" where
  "measure_text t =
     (let src = strip_comments t;
          ct_roots = resolve_aliases src (asc ''std.crypto.timing_safe'');
          plain_roots = resolve_aliases src (asc ''std.mem'')
      in (count_calls src ct_roots CT_FNS, count_calls src plain_roots PLAIN_FNS))"

section \<open>The repository\<close>

text \<open>\<open>cr_modules\<close>: the entries of \<open>modules/\<close> with the entries of their \<open>src\<close> directory, \<open>None\<close> without one;
  \<open>cr_file\<close>: the text of an existing file; \<open>cr_is_dir\<close>: whether an entry of \<open>modules/\<close> is a directory.\<close>

record ct_repo =
  cr_modules :: "(ustr \<times> ustr list option) list"
  cr_file :: "ustr \<Rightarrow> ustr option"
  cr_pin :: "ustr option"
  cr_is_dir :: "ustr \<Rightarrow> bool"

type_synonym rows = "(ustr \<times> int \<times> int) list"

definition measure_file :: "ct_repo \<Rightarrow> ustr \<Rightarrow> (int \<times> int) result" where
  "measure_file r path = (case cr_file r path of None \<Rightarrow> Inl (RuntimeError ''open'') | Some t \<Rightarrow> Inr (measure_text t))"

definition source_paths :: "ct_repo \<Rightarrow> ustr list option \<Rightarrow> ustr list" where
  "source_paths r only =
     concat (map (\<lambda>mo. case map_of (cr_modules r) mo of
         Some (Some names) \<Rightarrow>
           map (\<lambda>name. asc ''modules/'' @ mo @ asc ''/src/'' @ name)
             (filter (\<lambda>name. endswith name (asc ''.zig'') \<and> name \<noteq> asc ''ctgrind_harness.zig'') (sort names))
       | _ \<Rightarrow> [])
     (filter (\<lambda>mo. case only of None \<Rightarrow> True | Some ms \<Rightarrow> mo \<in> set ms) (sort (map fst (cr_modules r)))))"

definition scan_all :: "ct_repo \<Rightarrow> ustr list option \<Rightarrow> rows result" where
  "scan_all r only =
     rbind (rmap (\<lambda>rel. rbind (measure_file r rel) (\<lambda>m. Inr (rel, m))) (source_paths r only)) (\<lambda>ms.
       Inr (foldl (\<lambda>d (rel, ct, plain). if ct \<noteq> 0 then dict_set d rel (ct, plain) else d) [] ms))"

section \<open>The pin\<close>

definition pin_row :: "ustr \<Rightarrow> (ustr \<times> int \<times> int) result" where
  "pin_row line = (case usplit (CHR 0x09) line of
     [path, ct, plain] \<Rightarrow> rbind (parse_int ct) (\<lambda>c. rbind (parse_int plain) (\<lambda>p. Inr (path, c, p)))
   | _ \<Rightarrow> Inl ValueError)"

definition is_row :: "ustr \<Rightarrow> bool" where
  "is_row line \<longleftrightarrow> line \<noteq> [] \<and> \<not> startswith line (asc ''#'')"

definition read_pin :: "ustr option \<Rightarrow> rows result" where
  "read_pin pin = (case pin of None \<Rightarrow> Inr [] | Some t \<Rightarrow>
     rbind (rmap pin_row (filter is_row (usplit (CHR 0x0A) t))) (\<lambda>rs. Inr (foldl (\<lambda>d (p, v). dict_set d p v) [] rs)))"

text \<open>The notes above a row: \<open>(notes, pending, in_header)\<close>.\<close>

definition notes_step :: "(ustr \<times> ustr list) list \<times> ustr list \<times> bool \<Rightarrow> ustr \<Rightarrow> (ustr \<times> ustr list) list \<times> ustr list \<times> bool" where
  "notes_step st line = (case st of (notes1, pending, in_header) \<Rightarrow>
     if startswith line (asc ''#'') then (notes1, if in_header then pending else pending @ [line], in_header)
     else if line = [] then st
     else (dict_set notes1 (hd (usplit (CHR 0x09) line)) pending, [], False))"

definition read_notes :: "ustr option \<Rightarrow> (ustr \<times> ustr list) list" where
  "read_notes pin = (case pin of None \<Rightarrow> [] | Some t \<Rightarrow> fst (foldl notes_step ([], [], True) (usplit (CHR 0x0A) t)))"

definition HEADER :: ustr where
  \<open>HEADER = join [10]
    [ asc ''# Constant-time comparison sites, pinned. See scripts/checks/check-ct-compare.py for'',
      asc ''# why this file exists -- in short: swapping `std.crypto.timing_safe.eql` for'',
      asc ''# `std.mem.eql` is invisible to every value test AND to ctgrind (measured on'',
      asc ''# ctap2pin, 2026-09-09: not one context moves), so the only thing that can hold'',
      asc ''# the decision in place is a count that goes red when it changes.'',
      asc ''#'',
      asc ''# path<TAB>constant-time compares<TAB>plain std.mem compares in the same file'',
      asc ''#'',
      asc ''# '' @ [9888] @ asc '' The second column is context, not a verdict: plenty of files legitimately'',
      asc ''# compare public bytes with `std.mem.eql`. It is pinned so that a swap shows up'',
      asc ''# as BOTH a drop on the left and a rise on the right, which is what a mutation'',
      asc ''# looks like and what a refactor usually does not.'',
      [] ]\<close>

definition note_lines :: "(ustr \<times> ustr list) list \<Rightarrow> ustr \<Rightarrow> ustr list" where
  "note_lines notes1 path = (case map_of notes1 path of None \<Rightarrow> [] | Some ls \<Rightarrow> ls)"

definition row_line :: "ustr \<times> int \<times> int \<Rightarrow> ustr" where
  "row_line row = (case row of (path, ct, plain) \<Rightarrow> path @ [9] @ ushow ct @ [9] @ ushow plain)"

definition pin_text :: "(ustr \<times> ustr list) list \<Rightarrow> rows \<Rightarrow> ustr" where
  "pin_text notes1 rows = HEADER @ concat (map (\<lambda>row.
     concat (map (\<lambda>l. l @ [10]) (note_lines notes1 (fst row))) @ row_line row @ [10]) (sort_key fst rows))"

text \<open>The text \<open>write_pin\<close> writes.\<close>

definition write_pin :: "ustr option \<Rightarrow> rows \<Rightarrow> ustr" where
  "write_pin pin rows = pin_text (read_notes pin) rows"

section \<open>The gate\<close>

datatype failure =
    Gone ustr
  | Moved ustr "int \<times> int" "int \<times> int"
  | Unpinned ustr

text \<open>Exit code, failures reported, pin written.\<close>

type_synonym outcome = "int \<times> failure list \<times> ustr option"

definition check_row :: "ct_repo \<Rightarrow> rows \<Rightarrow> ustr \<times> int \<times> int \<Rightarrow> failure list result" where
  "check_row r found row = (case row of (path, want) \<Rightarrow>
     if cr_file r path = None then Inr [Gone path]
     else rbind (measure_file r path) (\<lambda>m.
       (let got = (case map_of found path of Some v \<Rightarrow> v | None \<Rightarrow> m) in
        Inr (if got \<noteq> want then [Moved path got want] else []))))"

definition module_of :: "ustr \<Rightarrow> ustr result" where
  "module_of path = (case usplit (CHR ''/'') path of _ # mo # _ \<Rightarrow> Inr mo | _ \<Rightarrow> Inl IndexError)"

fun keep_modules :: "ustr list \<Rightarrow> rows \<Rightarrow> rows result" where
  "keep_modules only [] = Inr []"
| "keep_modules only (row # rows) = rbind (module_of (fst row)) (\<lambda>mo. rbind (keep_modules only rows) (\<lambda>rs.
     Inr (if mo \<in> set only then row # rs else rs)))"

definition compare_pin :: "ct_repo \<Rightarrow> rows \<Rightarrow> rows \<Rightarrow> failure list result" where
  "compare_pin r pinned found =
     rbind (rmap (check_row r found) (sort_key fst pinned)) (\<lambda>fs.
       Inr (concat fs @ map Unpinned (filter (\<lambda>p. p \<notin> fst ` set pinned) (sort (map fst found)))))"

definition parse_only :: "ustr list \<Rightarrow> ustr list option" where
  "parse_only argv = foldl (\<lambda>only arg. if startswith arg (asc ''--modules='')
     then Some (filter (\<lambda>m. m \<noteq> []) (usplit (CHR '','') (drop 10 arg))) else only) None argv"

definition ct_main :: "ct_repo \<Rightarrow> ustr list \<Rightarrow> outcome result" where
  "ct_main r argv =
     (let update = (asc ''--update'' \<in> set argv); only = parse_only argv in
      if (case only of None \<Rightarrow> False | Some ms \<Rightarrow> list_ex (\<lambda>m. \<not> cr_is_dir r m) ms) then Inr (2, [], None)
      else if update \<and> only \<noteq> None then Inr (2, [], None)
      else rbind (scan_all r only) (\<lambda>found.
        if update then Inr (0, [], Some (write_pin (cr_pin r) found))
        else rbind (read_pin (cr_pin r)) (\<lambda>pinned.
          if pinned = [] then Inr (2, [], None)
          else if found = [] \<and> only = None then Inr (2, [], None)
          else rbind (case only of None \<Rightarrow> Inr pinned | Some ms \<Rightarrow> keep_modules ms pinned) (\<lambda>pinned1.
            rbind (compare_pin r pinned1 found) (\<lambda>fails. Inr (if fails \<noteq> [] then 1 else 0, fails, None))))))"

end
