(* ===== verification/Regex_Facts.thy ===== *)
theory Regex_Facts
  imports Regex
begin

text \<open>
  What a match says about the text: membership rules for sequences, literals and groups, and the captures a pattern leaves alone.
  They turn a successful search into facts about positions.
\<close>

named_theorems rmt_mem

lemma mem_seq [rmt_mem]: "(j, c') \<in> set (rmt (RSeq r1 r2) s i c) \<longleftrightarrow> (\<exists>k d. (k, d) \<in> set (rmt r1 s i c) \<and> (j, c') \<in> set (rmt r2 s k d))"
proof
  assume "(j, c') \<in> set (rmt (RSeq r1 r2) s i c)"
  then obtain x where x: "x \<in> set (rmt r1 s i c)" "(j, c') \<in> set (case x of (k, d) \<Rightarrow> rmt r2 s k d)"
    unfolding rmt.simps set_concat set_map by blast
  moreover obtain k d where "x = (k, d)" by (rule prod.exhaust)
  ultimately show "\<exists>k d. (k, d) \<in> set (rmt r1 s i c) \<and> (j, c') \<in> set (rmt r2 s k d)" by auto
qed (auto simp: image_iff intro!: bexI)

lemma mem_rseq [rmt_mem]:
  "(j, c') \<in> set (rmt (rseq (r # rs)) s i c) \<longleftrightarrow> (\<exists>k d. (k, d) \<in> set (rmt r s i c) \<and> (j, c') \<in> set (rmt (rseq rs) s k d))"
  by (cases rs) (simp_all only: rseq.simps mem_seq, auto)

lemma mem_set [rmt_mem]: "(j, c') \<in> set (rmt (RSet p) s i c) \<longleftrightarrow> i < length s \<and> p (s ! i) \<and> j = Suc i \<and> c' = c"
  by auto

lemma mem_group [rmt_mem]: "(j, c') \<in> set (rmt (RGroup k r) s i c) \<longleftrightarrow> (\<exists>d. (j, d) \<in> set (rmt r s i c) \<and> c' = (k, i, j) # d)"
  by auto

lemma mem_boundary [rmt_mem]: "(j, c') \<in> set (rmt RWordB s i c) \<longleftrightarrow> word_boundary s i \<and> j = i \<and> c' = c"
  by auto

lemma mem_lit:
  "(j, c') \<in> set (rmt (rlit t) s i c) \<longleftrightarrow> j = i + length t \<and> c' = c \<and> (t = [] \<or> j \<le> length s) \<and> slice i j s = asc t"
proof (induction t arbitrary: i c)
  case Nil
  show ?case by (auto simp: slice_def)
next
  case (Cons ch t)
  have sl: "i < length s \<Longrightarrow> slice i (Suc k) s = s ! i # slice (Suc i) (Suc k) s" if "i \<le> k" for k
    using that by (simp add: slice_def Suc_diff_le flip: Cons_nth_drop_Suc)
  have "(j, c') \<in> set (rmt (rlit (ch # t)) s i c) \<longleftrightarrow>
    i < length s \<and> s ! i = of_char ch \<and> j = Suc i + length t \<and> c' = c \<and> (t = [] \<or> j \<le> length s) \<and> slice (Suc i) j s = asc t"
    by (simp only: rlit.simps mem_seq rchr_def mem_set Cons.IH) blast
  also have "\<dots> \<longleftrightarrow> j = i + length (ch # t) \<and> c' = c \<and> j \<le> length s \<and> slice i j s = asc (ch # t)"
  proof (cases "i < length s \<and> j = Suc i + length t")
    case True
    with sl [of "i + length t"] show ?thesis by auto
  next
    case False
    then show ?thesis by auto
  qed
  finally show ?case by simp
qed

text \<open>A pattern without groups keeps the captures.\<close>

primrec group_free :: "re \<Rightarrow> bool" where
  "group_free REps = True"
| "group_free (RSet p) = True"
| "group_free (RSeq r1 r2) = (group_free r1 \<and> group_free r2)"
| "group_free (RAlt r1 r2) = (group_free r1 \<and> group_free r2)"
| "group_free (RRep g lo hi r) = group_free r"
| "group_free (RGroup k r) = False"
| "group_free (RNotBehind r w) = True"
| "group_free (RAhead b r) = True"
| "group_free RBol = True"
| "group_free REol = True"
| "group_free RStart = True"
| "group_free REnd = True"
| "group_free RWordB = True"

lemma rep_keeps_captures:
  assumes "\<And>i c j d. (j, d) \<in> set (f i c) \<Longrightarrow> d = c"
  shows "(j, c') \<in> set (rep_match f len g lo hi i c) \<Longrightarrow> c' = c"
  using assms
proof (induction f len g lo hi i c arbitrary: j c' rule: rep_match.induct)
  case (1 f len g lo hi i c)
  obtain k d where k: "(k, d) \<in> set (f i c)" "(j, c') \<in> set (rep_match f len g lo (map_option (\<lambda>h. h - 1) hi) k d)"
    by (rule mem_rep_Suc [OF "1.prems"(1)])
  have "c' = d" by (rule "1.IH" [OF k(1) refl k(2)]) (rule "1.prems"(2))
  with "1.prems"(2) [OF k(1)] show ?case by simp
next
  case (2 f len g hi i c)
  show ?case
  proof (cases "(j, c') = (i, c)")
    case False
    obtain k d where k: "hi \<noteq> Some 0" "(k, d) \<in> set (f i c)" "i < k \<and> k \<le> len"
      "(j, c') \<in> set (rep_match f len g 0 (map_option (\<lambda>h. h - 1) hi) k d)"
      by (rule mem_rep_0 [OF "2.prems"(1) False])
    have "c' = d" by (rule "2.IH" [OF k(1,2) refl k(3,4)]) (rule "2.prems"(2))
    with "2.prems"(2) [OF k(2)] show ?thesis by simp
  qed simp
qed

lemma group_free_captures: "group_free r \<Longrightarrow> (j, c') \<in> set (rmt r s i c) \<Longrightarrow> c' = c"
proof (induction r arbitrary: i j c c')
  case (RSeq r1 r2)
  then show ?case by (metis group_free.simps(3) mem_seq)
next
  case (RAlt r1 r2)
  then show ?case by auto
next
  case (RRep g lo hi r)
  have "\<And>i c j d. (j, d) \<in> set (rmt r s i c) \<Longrightarrow> d = c" using RRep.IH RRep.prems(1) by simp
  from rep_keeps_captures [OF this] RRep.prems(2) show ?case by simp
qed (auto split: if_splits)

lemma group_free_lit [simp]: "group_free (rlit t)"
  by (induction t) (simp_all add: rchr_def)

lemma group_free_rseq: "list_all group_free rs \<Longrightarrow> group_free (rseq rs)"
  by (induction rs rule: rseq.induct) simp_all

lemma group_free_shorthands [simp]:
  "group_free (rstar r) = group_free r" "group_free (rplus r) = group_free r" "group_free (ropt r) = group_free r"
  by (simp_all add: rstar_def rplus_def ropt_def)

lemma mem_rseq_append:
  "(j, c') \<in> set (rmt (rseq (xs @ ys)) s i c) \<longleftrightarrow> (\<exists>k d. (k, d) \<in> set (rmt (rseq xs) s i c) \<and> (j, c') \<in> set (rmt (rseq ys) s k d))"
proof (induction xs arbitrary: i c)
  case Nil
  show ?case by simp
next
  case (Cons r xs)
  show ?case unfolding append_Cons mem_rseq Cons.IH by blast
qed

section \<open>Classes of characters and iteration\<close>

text \<open>A repeated class matches characters of the class only.\<close>

lemma extend_class:
  assumes "k = Suc i \<and> p (s ! i)" "k \<le> j \<and> (\<forall>l. k \<le> l \<and> l < j \<longrightarrow> p (s ! l))"
  shows "i \<le> j \<and> (\<forall>l. i \<le> l \<and> l < j \<longrightarrow> p (s ! l))"
proof -
  have "p (s ! l)" if "i \<le> l" "l < j" for l using assms that by (cases "l = i") auto
  with assms show ?thesis by auto
qed

lemma rep_class:
  assumes "\<And>i c j d. (j, d) \<in> set (f i c) \<Longrightarrow> j = Suc i \<and> p (s ! i)"
  shows "(j, c') \<in> set (rep_match f len g lo hi i c) \<Longrightarrow> i \<le> j \<and> (\<forall>k. i \<le> k \<and> k < j \<longrightarrow> p (s ! k))"
  using assms
proof (induction f len g lo hi i c arbitrary: j c' rule: rep_match.induct)
  case (1 f len g lo hi i c)
  obtain k d where k: "(k, d) \<in> set (f i c)" "(j, c') \<in> set (rep_match f len g lo (map_option (\<lambda>h. h - 1) hi) k d)"
    by (rule mem_rep_Suc [OF "1.prems"(1)])
  show ?case by (rule extend_class [where p = p and s = s, OF "1.prems"(2) [OF k(1)]]) (rule "1.IH" [OF k(1) refl k(2)], rule "1.prems"(2))
next
  case (2 f len g hi i c)
  show ?case
  proof (cases "(j, c') = (i, c)")
    case False
    obtain k d where k: "hi \<noteq> Some 0" "(k, d) \<in> set (f i c)" "i < k \<and> k \<le> len"
      "(j, c') \<in> set (rep_match f len g 0 (map_option (\<lambda>h. h - 1) hi) k d)"
      by (rule mem_rep_0 [OF "2.prems"(1) False])
    show ?thesis by (rule extend_class [where p = p and s = s, OF "2.prems"(2) [OF k(2)]]) (rule "2.IH" [OF k(1,2) refl k(3,4)], rule "2.prems"(2))
  qed auto
qed

lemma mem_plus_class:
  assumes "(j, c') \<in> set (rmt (rplus (RSet p)) s i c)"
  shows "list_all p (slice i j s)"
proof -
  have "(j, c') \<in> set (rep_match (rmt (RSet p) s) (length s) True 1 None i c)" using assms by (simp add: rplus_def)
  from rep_class [OF _ this, of p s] have "\<forall>k. i \<le> k \<and> k < j \<longrightarrow> p (s ! k)" by (auto split: if_splits)
  then show ?thesis by (auto simp: list_all_length slice_def)
qed

lemma search_from_mem: "search_from adv r s i = Some (a, b, c) \<Longrightarrow> (b, c) \<in> set (rmt r s a [])"
proof (induction adv r s i rule: search_from.induct)
  case (1 adv r s i)
  show ?case
  proof (cases "match_adv adv r s i")
    case None
    with 1 show ?thesis by (auto simp: search_from.simps [of adv] split: if_splits)
  next
    case (Some x)
    with "1.prems" have x: "match_adv adv r s i = Some (a, b, c)" by (auto simp: search_from.simps [of adv] split: if_splits)
    then obtain ys where y: "filter (\<lambda>(j, c). adv \<longrightarrow> j \<noteq> i) (rmt r s i []) = (b, c) # ys" "a = i"
      by (auto simp: match_adv_def split: list.splits)
    then have "(b, c) \<in> set (filter (\<lambda>(j, c). adv \<longrightarrow> j \<noteq> i) (rmt r s i []))" by simp
    with y(2) show ?thesis by simp
  qed
qed

lemma finditer_mem: "(a, b, c) \<in> set (finditer r s) \<Longrightarrow> (b, c) \<in> set (rmt r s a [])"
proof -
  have "(a, b, c) \<in> set (find_all_from adv r s i) \<Longrightarrow> (b, c) \<in> set (rmt r s a [])" for adv i
  proof (induction adv r s i rule: find_all_from.induct)
    case (1 adv r s i)
    have "search_from adv r s i \<noteq> None"
    proof
      assume "search_from adv r s i = None"
      then have "find_all_from adv r s i = []" by (subst find_all_from.simps) simp
      with "1.prems" show False by simp
    qed
    then obtain a' b' c' where m: "search_from adv r s i = Some (a', b', c')" by auto
    then have "find_all_from adv r s i = (if i \<le> a' \<and> a' \<le> b' \<and> b' \<le> length s \<and> (i < b' \<or> \<not> adv)
        then (a', b', c') # find_all_from (a' = b') r s b' else [])" by (subst find_all_from.simps) simp
    with 1 m search_from_mem [OF m] show ?case by (auto split: if_splits)
  qed
  then show "(a, b, c) \<in> set (finditer r s) \<Longrightarrow> (b, c) \<in> set (rmt r s a [])" by (simp add: finditer_def)
qed

end
