(* ===== verification/CtCompare_Props.thy ===== *)
theory CtCompare_Props
  imports CtCompare Regex_Facts
begin

text \<open>
  Theorems on the constant-time gate: the comment scan, alias resolution against its specification as a
  closure, the pin's round trip, and that a pin written by \<open>--update\<close> is accepted by the next run.
\<close>

section \<open>Comments\<close>

lemma strip_line_prefix: "\<exists>rest. l = strip_line in_str esc l @ rest"
  by (induction in_str esc l rule: strip_line.induct) auto

lemma strip_line_hd: "take 1 (strip_line in_str esc l) = [x] \<Longrightarrow> take 1 l = [x]"
  by (cases l) (auto split: if_splits)

lemma strip_line_idem: "strip_line in_str esc (strip_line in_str esc l) = strip_line in_str esc l"
proof (induction in_str esc l rule: strip_line.induct)
  case (2 in_str esc c cs)
  then show ?case using strip_line_hd [of in_str False cs "0x2F"] by auto
qed simp

lemma strip_line_no_newline: "10 \<notin> set l \<Longrightarrow> 10 \<notin> set (strip_line in_str esc l)"
  using strip_line_prefix [of l in_str esc] by (metis Un_iff set_append)

lemma lines_of_strip: "usplit (CHR 0x0A) (strip_comments src) = map (strip_line False False) (usplit (CHR 0x0A) src)"
proof -
  have "10 \<notin> set w" if "w \<in> set (map (strip_line False False) (split_on 10 src))" for w
    using that split_on_no_sep [of _ 10 src] strip_line_no_newline by auto
  from split_on_join [of "map (strip_line False False) (split_on 10 src)", OF _ this] show ?thesis unfolding strip_comments_def usplit_def by simp
qed

section \<open>Aliases\<close>

text \<open>
  What an expression denotes in a file: a dotted path stands for itself, and its first name may be replaced by what a constant of the file binds it to, any
  number of times.
\<close>

inductive denotes :: "(ustr \<times> ustr) list \<Rightarrow> ustr list \<Rightarrow> ustr list \<Rightarrow> bool" for cdefs :: "(ustr \<times> ustr) list" where
  den_refl: "denotes cdefs p p"
| den_unfold: "(name, val) \<in> set cdefs \<Longrightarrow> denotes cdefs (usplit CHR ''.'' val @ p) q \<Longrightarrow> denotes cdefs (name # p) q"

definition names_path :: "(ustr \<times> ustr) list \<Rightarrow> ustr \<Rightarrow> ustr \<Rightarrow> bool" where
  "names_path cdefs root e \<longleftrightarrow> denotes cdefs (usplit CHR ''.'' e) (usplit CHR ''.'' root)"

text \<open>Every constant whose value denotes a proper prefix of the root is bound to that prefix as it is spelled.\<close>

definition prefixes_spelled_out :: "(ustr \<times> ustr) list \<Rightarrow> ustr \<Rightarrow> bool" where
  "prefixes_spelled_out cdefs root \<longleftrightarrow> (\<forall>(name, val) \<in> set cdefs. \<forall>i. 0 < i \<and> i < length (usplit CHR ''.'' root)
     \<and> denotes cdefs (usplit CHR ''.'' val) (take i (usplit CHR ''.'' root)) \<longrightarrow> val = join [46] (take i (usplit CHR ''.'' root)))"

text \<open>The rules by which the rounds grow the set.\<close>

inductive names_root :: "(ustr \<times> ustr) list \<Rightarrow> (ustr \<times> ustr) list \<Rightarrow> ustr \<Rightarrow> ustr \<Rightarrow> bool"
  for ps :: "(ustr \<times> ustr) list" and cdefs :: "(ustr \<times> ustr) list" and root :: ustr where
  nr_root: "names_root ps cdefs root root"
| nr_alias: "(name, val) \<in> set cdefs \<Longrightarrow> names_root ps cdefs root val \<Longrightarrow> names_root ps cdefs root name"
| nr_pre: "(name, val) \<in> set cdefs \<Longrightarrow> (val, suf) \<in> set ps \<Longrightarrow> names_root ps cdefs root (name @ [46] @ suf)"

lemma set_prefix_fold:
  "set (foldl (\<lambda>ns (pre, suf). if val = pre then add_name (name @ [46] @ suf) ns else ns) ns ps) =
     set ns \<union> {name @ [46] @ suf |suf. (val, suf) \<in> set ps}"
  by (induction ps arbitrary: ns) auto

lemma set_alias_step:
  "set (alias_step ps names (name, val)) =
     set names \<union> (if val \<in> set names then {name} else {}) \<union> {name @ [46] @ suf |suf. (val, suf) \<in> set ps}"
  unfolding alias_step_def prod.case set_prefix_fold by auto

lemma alias_step_mono: "set names \<subseteq> set (alias_step ps names nv)"
  by (cases nv) (auto simp: set_alias_step)

lemma alias_round_mono: "set names \<subseteq> set (alias_round ps cdefs names)"
  unfolding alias_round_def by (induction cdefs arbitrary: names) (use alias_step_mono in \<open>fastforce+\<close>)

lemma alias_step_sound:
  assumes "set names \<subseteq> Collect (names_root ps cdefs root)" "nv \<in> set cdefs"
  shows "set (alias_step ps names nv) \<subseteq> Collect (names_root ps cdefs root)"
proof -
  obtain name val where nv: "nv = (name, val)" by (cases nv)
  show ?thesis unfolding nv set_alias_step
    using assms nr_alias [of name val cdefs ps root] nr_pre [of name val cdefs _ ps root] by (auto simp: nv)
qed

lemma alias_round_sound:
  assumes "set names \<subseteq> Collect (names_root ps cdefs root)" "set cs \<subseteq> set cdefs"
  shows "set (alias_round ps cs names) \<subseteq> Collect (names_root ps cdefs root)"
  using assms unfolding alias_round_def
  by (induction cs arbitrary: names) (simp_all add: alias_step_sound)

lemma alias_loop_sound:
  "set names \<subseteq> Collect (names_root ps cdefs root) \<Longrightarrow>
     set (alias_loop n (alias_round ps cdefs) names) \<subseteq> Collect (names_root ps cdefs root)"
proof (induction n arbitrary: names)
  case (Suc n)
  have "set (alias_round ps cdefs names) \<subseteq> Collect (names_root ps cdefs root)"
    by (rule alias_round_sound [OF Suc.prems]) simp
  then show ?case using Suc.prems Suc.IH [of "alias_round ps cdefs names"] by (simp add: Let_def)
qed simp

lemma alias_loop_mono: "set names \<subseteq> set (alias_loop n (alias_round ps cdefs) names)"
proof (induction n arbitrary: names)
  case (Suc n)
  show ?case using alias_round_mono [of names ps cdefs] Suc.IH [of "alias_round ps cdefs names"]
    by (auto simp: Let_def)
qed simp

text \<open>A set that a round does not grow is closed.\<close>

lemma alias_round_step:
  assumes "nv \<in> set cs"
  shows "set (alias_step ps names nv) \<subseteq> set (alias_round ps cs names)"
  using assms unfolding alias_round_def
proof (induction cs arbitrary: names)
  case (Cons a cs)
  show ?case
  proof (cases "a = nv")
    case True
    then show ?thesis using alias_round_mono [of "alias_step ps names nv" ps cs] by (simp add: alias_round_def)
  next
    case False
    then have "nv \<in> set cs" using Cons.prems by simp
    moreover have "set (alias_step ps names nv) \<subseteq> set (alias_step ps (alias_step ps names a) nv)"
      using alias_step_mono [of names ps a] by (cases nv) (auto simp: set_alias_step)
    ultimately show ?thesis using Cons.IH [of "alias_step ps names a"] by auto
  qed
qed simp

lemma closed_complete:
  assumes "set (alias_round ps cdefs names) \<subseteq> set names" "root \<in> set names" "names_root ps cdefs root e"
  shows "e \<in> set names"
  using assms(3)
proof induction
  case (nr_alias name val)
  then have "name \<in> set (alias_step ps names (name, val))" by (simp add: set_alias_step)
  with alias_round_step [OF nr_alias(1), of ps names] assms(1) show ?case by blast
next
  case (nr_pre name val suf)
  then have "name @ [46] @ suf \<in> set (alias_step ps names (name, val))" by (auto simp: set_alias_step)
  with alias_round_step [OF nr_pre(1), of ps names] assms(1) show ?case by blast
qed (rule assms(2))

text \<open>The rules against the meaning: a constant has no dot in its name, so what they give denotes the root.\<close>

lemma mem_dict_set: "x \<in> set (dict_set d k v) \<Longrightarrow> x = (k, v) \<or> x \<in> set d"
  by (induction d) (auto split: if_splits)

lemma consts_of_groups:
  assumes "(name, val) \<in> set (consts_of src)"
  shows "\<exists>m \<in> set (finditer const_re src). name = group0 src m 1"
proof -
  have "x \<in> set (foldl (\<lambda>d m. dict_set d (group0 src m 1) (group0 src m 2)) d ms) \<Longrightarrow> x \<in> set d \<or> (\<exists>m \<in> set ms. fst x = group0 src m 1)" for x d ms
    by (induction ms arbitrary: d) (fastforce dest: mem_dict_set)+
  from this [of "(name, val)" "[]"] assms show ?thesis by (auto simp: consts_of_def)
qed

lemma const_name_chars:
  assumes "(name, val) \<in> set (consts_of src)"
  shows "list_all u_word name"
proof -
  obtain a b c where m: "(a, b, c) \<in> set (finditer const_re src)" "name = group0 src (a, b, c) 1" using consts_of_groups [OF assms] by auto
  let ?A = "[RWordB, rlit ''const'', rplus rspace]" and ?B = "[rstar rspace, rlit ''='', rstar rspace]"
    and ?v = "rplus (RSet (\<lambda>x. u_word x \<or> x = 46))" and ?C = "[rstar rspace, rlit '';'']"
  have re: "const_re = rseq (?A @ RGroup 1 (rplus rword) # ?B @ RGroup 2 ?v # ?C)" by (simp add: const_re_def)
  have free: "group_free (rseq ?A)" "group_free (rseq ?B)" "group_free (rseq ?C)" "group_free (rplus rword)" "group_free ?v"
    by (simp_all add: rspace_def rword_def del: rlit.simps)
  obtain k0 d0 k1 d1 k2 d2 k3 d3 where p: "(k0, d0) \<in> set (rmt (rseq ?A) src a [])" "(k1, d1) \<in> set (rmt (rplus rword) src k0 d0)"
    "(k2, d2) \<in> set (rmt (rseq ?B) src k1 ((1, k0, k1) # d1))" "(k3, d3) \<in> set (rmt ?v src k2 d2)"
    "(b, c) \<in> set (rmt (rseq ?C) src k3 ((2, k2, k3) # d3))"
    using finditer_mem [OF m(1)] unfolding re mem_rseq_append mem_rseq [of _ _ "RGroup _ _"] mem_group by blast
  have "c = [(2, k2, k3), (1, k0, k1)]"
    using group_free_captures [OF free(1) p(1)] group_free_captures [OF free(4) p(2)] group_free_captures [OF free(2) p(3)]
      group_free_captures [OF free(5) p(4)] group_free_captures [OF free(3) p(5)] by simp
  then have "name = slice k0 k1 src" using m(2) by (simp add: group0_def group_def)
  then show ?thesis using mem_plus_class [of k1 d1 u_word src k0 d0] p(2) by (simp add: rword_def)
qed

lemma const_name_no_dot: "(name, val) \<in> set (consts_of src) \<Longrightarrow> 46 \<notin> set name"
  using const_name_chars [of name val src] by (auto simp: list_all_iff u_word_def u_digit_def u_upper_def u_lower_def)

lemma root_parts:
  assumes "0 < i" "i < length (usplit CHR ''.'' root)"
  shows "usplit CHR ''.'' (join [46] (take i (usplit CHR ''.'' root))) = take i (usplit CHR ''.'' root)"
    "usplit CHR ''.'' (join [46] (drop i (usplit CHR ''.'' root))) = drop i (usplit CHR ''.'' root)"
proof -
  have "46 \<notin> set w" if "w \<in> set (usplit CHR ''.'' root)" for w using that split_on_no_sep [of w 46 root] by (simp add: usplit_def)
  then show "usplit CHR ''.'' (join [46] (take i (usplit CHR ''.'' root))) = take i (usplit CHR ''.'' root)"
    "usplit CHR ''.'' (join [46] (drop i (usplit CHR ''.'' root))) = drop i (usplit CHR ''.'' root)"
    using split_on_join [of "take i (usplit CHR ''.'' root)" 46] split_on_join [of "drop i (usplit CHR ''.'' root)" 46] assms
    by (auto simp: usplit_def dest: in_set_takeD in_set_dropD)
qed

lemma names_root_denotes:
  assumes "names_root (prefixes_of (usplit CHR ''.'' root)) (consts_of src) root e"
  shows "names_path (consts_of src) root e"
  using assms
proof induction
  case nr_root
  show ?case by (simp add: names_path_def den_refl)
next
  case (nr_alias name val)
  have "usplit CHR ''.'' name = [name]" using const_name_no_dot [OF nr_alias(1)] split_on_id [of 46 name] by (simp add: usplit_def)
  then show ?case using den_unfold [OF nr_alias(1), of "[]"] nr_alias.IH by (simp add: names_path_def)
next
  case (nr_pre name val suf)
  then obtain i where i: "0 < i" "i < length (usplit CHR ''.'' root)" "val = join [46] (take i (usplit CHR ''.'' root))"
    "suf = join [46] (drop i (usplit CHR ''.'' root))" by (auto simp: prefixes_of_def Suc_le_eq)
  have "usplit CHR ''.'' (name @ [46] @ suf) = name # drop i (usplit CHR ''.'' root)"
    using const_name_no_dot [OF nr_pre(1)] split_on_append [of 46 name suf] root_parts(2) [OF i(1,2)] i(4) by (simp add: usplit_def)
  moreover have "denotes (consts_of src) (usplit CHR ''.'' val @ drop i (usplit CHR ''.'' root)) (usplit CHR ''.'' root)"
    using root_parts(1) [OF i(1,2)] i(3) by (simp add: den_refl)
  ultimately show ?case using den_unfold [OF nr_pre(1)] by (simp add: names_path_def)
qed

text \<open>Unfolding never touches what follows the first name.\<close>

lemma denotes_suffix: "denotes cdefs (x @ t) q \<Longrightarrow> x \<noteq> [] \<Longrightarrow> \<exists>y. q = y @ t \<and> y \<noteq> [] \<and> denotes cdefs x y"
proof (induction "x @ t" q arbitrary: x rule: denotes.induct)
  case den_refl
  then show ?case by (intro exI [of _ x]) (simp add: denotes.den_refl)
next
  case (den_unfold name val p q)
  then obtain x' where x: "x = name # x'" "p = x' @ t" by (cases x) auto
  have "usplit CHR ''.'' val @ p = (usplit CHR ''.'' val @ x') @ t" "usplit CHR ''.'' val @ x' \<noteq> []" by (simp_all add: x(2) usplit_def)
  from den_unfold(3) [OF this] obtain y where "q = y @ t" "y \<noteq> []" "denotes cdefs (usplit CHR ''.'' val @ x') y" by blast
  then show ?case using denotes.den_unfold [OF den_unfold(1)] x(1) by blast
qed

lemma denotes_names_root:
  assumes "denotes cdefs p (usplit CHR ''.'' root)" "prefixes_spelled_out cdefs root"
  shows "names_root (prefixes_of (usplit CHR ''.'' root)) cdefs root (join [46] p)"
  using assms(1)
proof (induction p "usplit CHR ''.'' root" rule: denotes.induct)
  case den_refl
  have "join [46] (usplit CHR ''.'' root) = root" using join_split_on [of 46 root] by (simp add: usplit_def)
  then show ?case by (simp add: nr_root)
next
  case (den_unfold name val p)
  show ?case
  proof (cases "p = []")
    case True
    have "join [46] (usplit CHR ''.'' val) = val" using join_split_on [of 46 val] by (simp add: usplit_def)
    then show ?thesis using nr_alias [OF den_unfold(1)] den_unfold(3) True by simp
  next
    case False
    obtain y where y: "usplit CHR ''.'' root = y @ p" "y \<noteq> []" "denotes cdefs (usplit CHR ''.'' val) y"
      using denotes_suffix [OF den_unfold(2)] by (auto simp: usplit_def)
    have i: "0 < length y" "length y < length (usplit CHR ''.'' root)" "take (length y) (usplit CHR ''.'' root) = y" "drop (length y) (usplit CHR ''.'' root) = p"
      using y(1,2) False by simp_all
    then have "val = join [46] y" using assms(2) den_unfold(1) y(3) unfolding prefixes_spelled_out_def by fastforce
    then have "(val, join [46] p) \<in> set (prefixes_of (usplit CHR ''.'' root))" using i unfolding prefixes_of_def
      by (auto simp: image_iff Suc_le_eq intro!: bexI [of _ "length y"])
    from nr_pre [OF den_unfold(1) this] show ?thesis using False by (simp add: join_Cons)
  qed
qed

section \<open>The pin\<close>

definition row_path :: "ustr \<Rightarrow> bool" where
  "row_path p \<longleftrightarrow> p \<noteq> [] \<and> \<not> startswith p (asc ''#'') \<and> 9 \<notin> set p \<and> 10 \<notin> set p"

definition is_note :: "ustr \<Rightarrow> bool" where
  "is_note l \<longleftrightarrow> startswith l (asc ''#'') \<and> 10 \<notin> set l"

definition written_lines :: "(ustr \<times> ustr list) list \<Rightarrow> rows \<Rightarrow> ustr list" where
  "written_lines notes1 rows = concat (map (\<lambda>row. note_lines notes1 (fst row) @ [row_line row]) rows)"

definition header_lines :: "ustr list" where
  "header_lines = butlast (usplit (CHR 0x0A) HEADER)"

lemma header_lines_ok: "list_all is_note header_lines" "last (usplit (CHR 0x0A) HEADER) = []"
  by code_simp+

lemma join_last_empty: "ls \<noteq> [] \<Longrightarrow> last ls = [] \<Longrightarrow> join [c] ls = concat (map (\<lambda>l. l @ [c]) (butlast ls))"
  by (induction ls) (auto simp: join_Cons)

lemma HEADER_lines: "HEADER = concat (map (\<lambda>l. l @ [10]) header_lines)"
proof -
  have "HEADER = join [10] (split_on 10 HEADER)" by (rule join_split_on [symmetric])
  also have "\<dots> = concat (map (\<lambda>l. l @ [10]) (butlast (split_on 10 HEADER)))"
    by (rule join_last_empty) (use header_lines_ok(2) in \<open>simp_all add: usplit_def\<close>)
  finally show ?thesis by (simp add: header_lines_def usplit_def)
qed

lemma pin_text_lines:
  "pin_text notes1 rows = concat (map (\<lambda>l. l @ [10]) (header_lines @ written_lines notes1 (sort_key fst rows)))"
proof -
  have "concat (map (\<lambda>row. concat (map (\<lambda>l. l @ [10]) (note_lines notes1 (fst row))) @ row_line row @ [10]) rs)
      = concat (map (\<lambda>l. l @ [10]) (written_lines notes1 rs))" for rs
    by (induction rs) (simp_all add: written_lines_def)
  then show ?thesis by (simp add: pin_text_def HEADER_lines [symmetric])
qed

lemma row_line_facts:
  assumes "row_path p"
  shows "pin_row (row_line (p, v)) = Inr (p, v)" "is_row (row_line (p, v))" "10 \<notin> set (row_line (p, v))"
    "hd (usplit (CHR 0x09) (row_line (p, v))) = p"
proof -
  obtain a b where v: "v = (a, b)" by (cases v)
  have n: "9 \<notin> set (ushow a)" "9 \<notin> set (ushow b)" "10 \<notin> set (ushow a)" "10 \<notin> set (ushow b)"
    by (rule ushow_no_space; simp)+
  have p: "p \<noteq> []" "9 \<notin> set p" "10 \<notin> set p" "\<not> startswith p (asc ''#'')" using assms by (simp_all add: row_path_def)
  have s: "split_on 9 (row_line (p, v)) = [p, ushow a, ushow b]"
    using p n by (simp add: row_line_def v split_on_append split_on_id)
  then show "pin_row (row_line (p, v)) = Inr (p, v)" "hd (usplit (CHR 0x09) (row_line (p, v))) = p"
    by (simp_all add: pin_row_def usplit_def parse_int_ushow v)
  show "is_row (row_line (p, v))" using p by (cases p) (auto simp: is_row_def row_line_def v startswith_def)
  show "10 \<notin> set (row_line (p, v))" using p n by (simp add: row_line_def v)
qed

definition notes_ok :: "(ustr \<times> ustr list) list \<Rightarrow> bool" where
  "notes_ok notes1 \<longleftrightarrow> (\<forall>(p, ls) \<in> set notes1. list_all is_note ls)"

lemma notes_ok_lines: "notes_ok notes1 \<Longrightarrow> list_all is_note (note_lines notes1 p)"
  by (auto simp: note_lines_def notes_ok_def split: option.splits dest: map_of_SomeD)

lemma set_dict_set: "set (dict_set d k v) \<subseteq> insert (k, v) (set d)"
  by (induction d k v rule: dict_set.induct) auto

lemma read_notes_ok: "notes_ok (read_notes pin)"
proof -
  have "notes_ok (fst (foldl notes_step st ls)) \<and> list_all is_note (fst (snd (foldl notes_step st ls)))"
    if "notes_ok (fst st)" "list_all is_note (fst (snd st))" "\<And>l. l \<in> set ls \<Longrightarrow> 10 \<notin> set l" for st ls
    using that
  proof (induction ls arbitrary: st)
    case (Cons l ls)
    obtain n pd h where st: "st = (n, pd, h)" by (cases st)
    have "notes_ok (fst (notes_step st l)) \<and> list_all is_note (fst (snd (notes_step st l)))"
      using Cons.prems set_dict_set [of n "hd (usplit (CHR 0x09) l)" pd] is_note_def [of l]
      by (auto simp: st notes_step_def notes_ok_def list_all_iff)
    with Cons.IH [of "notes_step st l"] Cons.prems(3) show ?case by simp
  qed simp
  note step = this
  show ?thesis
  proof (cases pin)
    case None
    then show ?thesis by (simp add: read_notes_def notes_ok_def)
  next
    case (Some t)
    have "notes_ok (fst (foldl notes_step ([], [], True) (split_on 10 t)))"
      using step [of "([], [], True)" "split_on 10 t"] split_on_no_sep [of _ 10 t] by (simp add: notes_ok_def)
    then show ?thesis by (simp add: read_notes_def Some usplit_def)
  qed
qed

lemma is_note_not_row: "is_note l \<Longrightarrow> \<not> is_row l"
  by (simp add: is_note_def is_row_def)

lemma written_split:
  assumes "notes_ok notes1" "list_all (row_path \<circ> fst) rows"
  shows "usplit (CHR 0x0A) (pin_text notes1 rows) = header_lines @ written_lines notes1 (sort_key fst rows) @ [[]]"
proof -
  have "10 \<notin> set l" if "l \<in> set (header_lines @ written_lines notes1 (sort_key fst rows))" for l
  proof -
    from that consider "l \<in> set header_lines" | row where "row \<in> set rows" "l \<in> set (note_lines notes1 (fst row)) \<or> l = row_line row"
      by (auto simp: written_lines_def)
    then show ?thesis
    proof cases
      case 1
      with header_lines_ok(1) show ?thesis by (auto simp: list_all_iff is_note_def)
    next
      case (2 row)
      obtain p v where row: "row = (p, v)" by (cases row)
      have "row_path p" using assms(2) 2(1) by (force simp: list_all_iff row)
      from row_line_facts(3) [OF this, of v] notes_ok_lines [OF assms(1), of p] 2(2) show ?thesis
        by (auto simp: row list_all_iff is_note_def)
    qed
  qed
  from split_on_lines [of "header_lines @ written_lines notes1 (sort_key fst rows)" 10, OF this] show ?thesis
    by (simp add: usplit_def pin_text_lines)
qed

lemma filter_written:
  assumes "notes_ok notes1" "list_all (row_path \<circ> fst) rows"
  shows "filter is_row (written_lines notes1 rows) = map row_line rows"
  using assms(2)
proof (induction rows)
  case (Cons row rows)
  obtain p v where row: "row = (p, v)" by (cases row)
  have "filter is_row (note_lines notes1 p) = []"
    using notes_ok_lines [OF assms(1), of p] is_note_not_row by (auto simp: list_all_iff filter_empty_conv)
  with Cons row row_line_facts(2) [of p v] show ?case by (simp add: written_lines_def)
qed (simp add: written_lines_def)

lemma read_written_pin:
  assumes "notes_ok notes1" "list_all (row_path \<circ> fst) rows" "distinct (map fst rows)"
  shows "read_pin (Some (pin_text notes1 rows)) = Inr (sort_key fst rows)"
proof -
  let ?rs = "sort_key fst rows"
  have ok: "list_all (row_path \<circ> fst) ?rs" using assms(2) by (simp add: list_all_iff)
  have "filter is_row header_lines = []"
    using header_lines_ok(1) is_note_not_row by (auto simp: list_all_iff filter_empty_conv)
  then have f: "filter is_row (usplit (CHR 0x0A) (pin_text notes1 rows)) = map row_line ?rs"
    by (simp add: written_split [OF assms(1,2)] filter_written [OF assms(1) ok] is_row_def)
  have "rmap pin_row (map row_line rs) = Inr rs" if "list_all (row_path \<circ> fst) rs" for rs
    using that by (induction rs) (auto simp: row_line_facts(1))
  from this [OF ok] have "read_pin (Some (pin_text notes1 rows)) = Inr (foldl (\<lambda>d (p, v). dict_set d p v) [] ?rs)"
    by (simp add: read_pin_def f)
  moreover have "distinct (map fst ?rs)" using assms(3) by (metis distinct_map distinct_sort inj_on_def set_sort)
  ultimately show ?thesis using foldl_dict_set_distinct [of "[]" ?rs] by simp
qed

section \<open>Notes across an update\<close>

lemma notes_fold_header: "list_all is_note ls \<Longrightarrow> foldl notes_step (n, pd, True) ls = (n, pd, True)"
  by (induction ls) (auto simp: notes_step_def is_note_def)

lemma notes_fold_notes: "list_all is_note ls \<Longrightarrow> foldl notes_step (n, pd, False) ls = (n, pd @ ls, False)"
  by (induction ls arbitrary: pd) (auto simp: notes_step_def is_note_def)

lemma notes_fold_row:
  assumes "row_path p"
  shows "notes_step (n, pd, h) (row_line (p, v)) = (dict_set n p pd, [], False)"
  using row_line_facts(2,4) [OF assms, of v] by (simp add: notes_step_def is_row_def)

lemma notes_fold_rows:
  assumes "notes_ok notes1"
  shows "list_all (row_path \<circ> fst) rows \<Longrightarrow> distinct (map fst n @ map fst rows) \<Longrightarrow>
    foldl notes_step (n, [], False) (written_lines notes1 rows) = (n @ map (\<lambda>row. (fst row, note_lines notes1 (fst row))) rows, [], False)"
proof (induction rows arbitrary: n)
  case (Cons row rows)
  obtain p v where row: "row = (p, v)" by (cases row)
  have p: "row_path p" "p \<notin> fst ` set n" using Cons.prems row by auto
  let ?n = "n @ [(p, note_lines notes1 p)]"
  have "foldl notes_step (n, [], False) (note_lines notes1 p @ [row_line row]) = (?n, [], False)"
    using p(2) by (simp add: notes_fold_notes [OF notes_ok_lines [OF assms]] row notes_fold_row [OF p(1)] dict_set_new)
  moreover have "written_lines notes1 (row # rows) = (note_lines notes1 p @ [row_line row]) @ written_lines notes1 rows"
    by (simp add: written_lines_def row)
  moreover have "foldl notes_step (?n, [], False) (written_lines notes1 rows) = (?n @ map (\<lambda>row. (fst row, note_lines notes1 (fst row))) rows, [], False)"
    by (rule Cons.IH) (use Cons.prems row in auto)
  ultimately show ?case by (simp add: row)
qed (simp add: written_lines_def)

lemma read_written_notes:
  assumes "notes_ok notes1" "list_all (row_path \<circ> fst) rows" "distinct (map fst rows)" "sort_key fst rows = r0 # rs"
  shows "read_notes (Some (pin_text notes1 rows)) = (fst r0, []) # map (\<lambda>row. (fst row, note_lines notes1 (fst row))) rs"
proof -
  obtain p v where r0: "r0 = (p, v)" by (cases r0)
  have mem: "set (r0 # rs) = set rows" using assms(4) by (metis set_sort)
  have ok: "list_all (row_path \<circ> fst) (r0 # rs)" using assms(2) unfolding list_all_iff mem .
  have d: "distinct (map fst (r0 # rs))" using assms(3,4) by (metis distinct_map distinct_sort inj_on_def set_sort)
  have h: "foldl notes_step ([], [], True) (header_lines @ note_lines notes1 p) = ([], [], True)"
    by (rule notes_fold_header) (use header_lines_ok(1) notes_ok_lines [OF assms(1)] in simp)
  have r: "notes_step ([], [], True) (row_line r0) = ([(p, [])], [], False)"
    unfolding r0 using ok r0 by (subst notes_fold_row) simp_all
  have l: "header_lines @ written_lines notes1 (r0 # rs) = (header_lines @ note_lines notes1 p) @ row_line r0 # written_lines notes1 rs"
    by (simp add: written_lines_def r0)
  have f: "foldl notes_step ([(p, [])], [], False) (written_lines notes1 rs)
      = ([(p, [])] @ map (\<lambda>row. (fst row, note_lines notes1 (fst row))) rs, [], False)"
    by (rule notes_fold_rows [OF assms(1)]) (use ok d r0 in auto)
  have e: "notes_step st [] = st" for st by (auto simp: notes_step_def startswith_def split: prod.splits)
  have "foldl notes_step ([], [], True) ((header_lines @ written_lines notes1 (r0 # rs)) @ [[]])
      = ((p, []) # map (\<lambda>row. (fst row, note_lines notes1 (fst row))) rs, [], False)"
    unfolding l using h r f by (simp add: e del: foldl_append, simp add: e)
  then show ?thesis unfolding read_notes_def by (simp add: written_split [OF assms(1,2)] assms(4) r0)
qed

section \<open>Scanning\<close>

lemma fold_found_keys:
  "set (foldl (\<lambda>d (rel, ct, plain). if ct \<noteq> 0 then dict_set d rel (ct, plain) else d) d ms) \<subseteq> set d \<union> set ms"
proof (induction ms arbitrary: d)
  case (Cons m ms)
  obtain rel ct plain where m: "m = (rel, ct, plain)" by (metis prod_cases3)
  have "set (foldl (\<lambda>d (rel, ct, plain). if ct \<noteq> 0 then dict_set d rel (ct, plain) else d) (if ct \<noteq> 0 then dict_set d rel (ct, plain) else d) ms)
      \<subseteq> set (if ct \<noteq> 0 then dict_set d rel (ct, plain) else d) \<union> set ms" by (rule Cons.IH)
  then show ?case using set_dict_set [of d rel "(ct, plain)"] by (auto simp: m split: if_splits)
qed simp

lemma fold_found_distinct:
  "distinct (map fst d) \<Longrightarrow> distinct (map fst (foldl (\<lambda>d (rel, ct, plain). if ct \<noteq> 0 then dict_set d rel (ct, plain) else d) d ms))"
  by (induction ms arbitrary: d) (auto simp: distinct_dict_set)

lemma scan_all_facts:
  assumes "scan_all r only = Inr found"
  shows "distinct (map fst found)"
    and "(p, v) \<in> set found \<Longrightarrow> p \<in> set (source_paths r only) \<and> measure_file r p = Inr v"
proof -
  from assms obtain ms where ms: "rmap (\<lambda>rel. rbind (measure_file r rel) (\<lambda>m. Inr (rel, m))) (source_paths r only) = Inr ms"
    and f: "found = foldl (\<lambda>d (rel, ct, plain). if ct \<noteq> 0 then dict_set d rel (ct, plain) else d) [] ms"
    by (auto simp: scan_all_def rbind_eq_Inr_iff)
  show "distinct (map fst found)" unfolding f by (rule fold_found_distinct) simp
  have "list_all (\<lambda>(p, v). p \<in> set (source_paths r only) \<and> measure_file r p = Inr v) ms"
    by (rule rmap_all [OF ms]) (auto simp: rbind_eq_Inr_iff)
  then show "p \<in> set (source_paths r only) \<and> measure_file r p = Inr v" if "(p, v) \<in> set found"
    using that fold_found_keys [of "[]" ms] unfolding f by (auto simp: list_all_iff)
qed

definition plain_names :: "ct_repo \<Rightarrow> bool" where
  "plain_names r \<longleftrightarrow> (\<forall>(mo, ns) \<in> set (cr_modules r). 9 \<notin> set mo \<and> 10 \<notin> set mo \<and>
     (case ns of None \<Rightarrow> True | Some names \<Rightarrow> list_all (\<lambda>n. 9 \<notin> set n \<and> 10 \<notin> set n) names))"

lemma source_paths_row:
  assumes "plain_names r" "p \<in> set (source_paths r only)"
  shows "row_path p"
proof -
  let ?ps = "\<lambda>mo. case map_of (cr_modules r) mo of Some (Some names) \<Rightarrow> map (\<lambda>name. asc ''modules/'' @ mo @ asc ''/src/'' @ name)
      (filter (\<lambda>name. endswith name (asc ''.zig'') \<and> name \<noteq> asc ''ctgrind_harness.zig'') (sort names)) | _ \<Rightarrow> []"
  from assms(2) obtain mo where mo: "p \<in> set (?ps mo)" unfolding source_paths_def set_concat set_map by blast
  then obtain names where m: "map_of (cr_modules r) mo = Some (Some names)" by (cases "map_of (cr_modules r) mo"; cases "the (map_of (cr_modules r) mo)") auto
  with mo obtain name where "name \<in> set names" and p: "p = asc ''modules/'' @ mo @ asc ''/src/'' @ name" by (auto simp del: asc_simps)
  with m have "(mo, Some names) \<in> set (cr_modules r)" "name \<in> set names" by (auto dest: map_of_SomeD)
  with assms(1) have "9 \<notin> set mo" "10 \<notin> set mo" "9 \<notin> set name" "10 \<notin> set name"
    by (auto simp: plain_names_def list_all_iff)
  then show ?thesis by (simp add: row_path_def p startswith_def)
qed

lemma scan_pin_irrelevant: "scan_all (r\<lparr>cr_pin := x\<rparr>) only = scan_all r only"
  by (simp add: scan_all_def source_paths_def measure_file_def)

lemma compare_own_pin:
  assumes "scan_all r only = Inr found"
  shows "compare_pin r (sort_key fst found) found = Inr []"
proof -
  note f = scan_all_facts [OF assms]
  have row: "check_row r found row = Inr []" if "row \<in> set found" for row
  proof -
    obtain p v where row: "row = (p, v)" by (cases row)
    have m: "measure_file r p = Inr v" using f(2) that row by blast
    then have "cr_file r p \<noteq> None" by (auto simp: measure_file_def split: option.splits)
    moreover have "map_of found p = Some v" using f(1) that row by simp
    ultimately show ?thesis using m by (simp add: check_row_def row)
  qed
  have "rmap (check_row r found) rs = Inr (map (\<lambda>_. []) rs)" if "set rs \<subseteq> set found" for rs
    using that row by (induction rs) auto
  from this [of "sort_key fst (sort_key fst found)"] show ?thesis by (auto simp: compare_pin_def filter_empty_conv)
qed

section \<open>Properties\<close>

text \<open>Stripping comments keeps the lines and is stable: line \<open>i\<close> of the result is the kept prefix of line \<open>i\<close>,
  and stripping again changes nothing, so nothing the scan recognises as a comment is left.\<close>

theorem strip_comments_stable:
  "length (usplit (CHR 0x0A) (strip_comments src)) = length (usplit (CHR 0x0A) src)
   \<and> (\<forall>i < length (usplit (CHR 0x0A) src). \<exists>rest. usplit (CHR 0x0A) src ! i = usplit (CHR 0x0A) (strip_comments src) ! i @ rest)
   \<and> strip_comments (strip_comments src) = strip_comments src"
proof -
  have "strip_comments (strip_comments src) = strip_comments src"
    by (subst strip_comments_def, subst lines_of_strip, simp only: map_map o_def strip_line_idem strip_comments_def)
  then show ?thesis by (auto simp: lines_of_strip strip_line_prefix)
qed

theorem strip_comments_stable_witness:
  "strip_comments (asc ''a = 1; // note'') = asc ''a = 1; '' \<and> strip_comments (strip_comments (asc ''a = 1; // note'')) = asc ''a = 1; ''"
proof -
  have "strip_comments (asc ''a = 1; // note'') = asc ''a = 1; ''" by code_simp
  with strip_comments_stable [of "asc ''a = 1; // note''"] show ?thesis by simp
qed

text \<open>
  C24: alias resolution against the meaning of expressions in the file, \<^const>\<open>names_path\<close>.  Every name found denotes the root, through whatever constants.  When
  the last round adds nothing and every constant that stands for a proper prefix of the root is bound to that prefix as it is spelled, the names found are all the
  expressions that denote the root.  Chains of constants that name the root itself may have any length; chains that name a proper prefix are outside
  the second part, and the theorem after this one shows that the script loses them.
\<close>

theorem resolve_aliases_closure:
  "set (resolve_aliases src root) \<subseteq> Collect (names_path (consts_of src) root)
   \<and> (alias_round (prefixes_of (usplit CHR ''.'' root)) (consts_of src) (resolve_aliases src root) = resolve_aliases src root
      \<and> prefixes_spelled_out (consts_of src) root \<longrightarrow> set (resolve_aliases src root) = Collect (names_path (consts_of src) root))"
proof -
  let ?ps = "prefixes_of (usplit CHR ''.'' root)" and ?names = "resolve_aliases src root"
  have "set ?names \<subseteq> Collect (names_root ?ps (consts_of src) root)"
    unfolding resolve_aliases_def by (rule alias_loop_sound) (simp add: nr_root)
  then have sound: "set ?names \<subseteq> Collect (names_path (consts_of src) root)" using names_root_denotes by blast
  have root: "root \<in> set ?names" unfolding resolve_aliases_def using alias_loop_mono [of "[root]"] by auto
  have "e \<in> set ?names" if "alias_round ?ps (consts_of src) ?names = ?names" "prefixes_spelled_out (consts_of src) root" "names_path (consts_of src) root e" for e
  proof -
    have "join [46] (usplit CHR ''.'' e) = e" using join_split_on [of 46 e] by (simp add: usplit_def)
    with denotes_names_root [OF that(3) [unfolded names_path_def] that(2)] have "names_root ?ps (consts_of src) root e" by simp
    then show ?thesis using closed_complete [of ?ps "consts_of src" ?names root] that(1) root by simp
  qed
  with sound show ?thesis by blast
qed

text \<open>The constants of a small file, of which one names a prefix and two name the root.\<close>

definition demo_src :: ustr where
  "demo_src = asc ''const c = std.crypto; const ts = c.timing_safe; const t2 = ts;''"

lemma demo_consts: "consts_of demo_src = [(asc ''c'', asc ''std.crypto''), (asc ''ts'', asc ''c.timing_safe''), (asc ''t2'', asc ''ts'')]"
  by code_simp

inductive_simps denotes_simps: "denotes cdefs (n # p) q" "denotes cdefs [] q"

theorem resolve_aliases_closure_witness:
  "set (resolve_aliases demo_src (asc ''std.crypto.timing_safe'')) = Collect (names_path (consts_of demo_src) (asc ''std.crypto.timing_safe''))"
proof -
  have r: "usplit CHR ''.'' (asc ''std.crypto.timing_safe'') = [asc ''std'', asc ''crypto'', asc ''timing_safe'']"
    and s: "usplit CHR ''.'' (asc ''std.crypto'') = [asc ''std'', asc ''crypto'']" "usplit CHR ''.'' (asc ''c.timing_safe'') = [asc ''c'', asc ''timing_safe'']"
      "usplit CHR ''.'' (asc ''ts'') = [asc ''ts'']" by code_simp+
  have "prefixes_spelled_out (consts_of demo_src) (asc ''std.crypto.timing_safe'')"
    unfolding prefixes_spelled_out_def r demo_consts by (auto simp: denotes_simps s [simplified] less_Suc_eq numeral_3_eq_3)
  moreover have "alias_round (prefixes_of (usplit CHR ''.'' (asc ''std.crypto.timing_safe''))) (consts_of demo_src) (resolve_aliases demo_src (asc ''std.crypto.timing_safe''))
      = resolve_aliases demo_src (asc ''std.crypto.timing_safe'')" by code_simp
  ultimately show ?thesis using resolve_aliases_closure [of demo_src "asc ''std.crypto.timing_safe''"] by blast
qed

text \<open>An alias of an alias of a proper prefix is not followed: with \<open>const crypto = std.crypto; const c2 = crypto;\<close>
  the expression \<open>c2.timing_safe\<close> names the root in the file, but the resolver does not find it and its calls are not
  counted.\<close>

theorem prefix_alias_chain_missed:
  "asc ''crypto.timing_safe'' \<in> set (resolve_aliases (asc ''const crypto = std.crypto; const c2 = crypto; x = c2.timing_safe.eql(a, b);'') (asc ''std.crypto.timing_safe''))
   \<and> asc ''c2.timing_safe'' \<notin> set (resolve_aliases (asc ''const crypto = std.crypto; const c2 = crypto; x = c2.timing_safe.eql(a, b);'') (asc ''std.crypto.timing_safe''))
   \<and> measure_text (asc ''const crypto = std.crypto; const c2 = crypto; x = c2.timing_safe.eql(a, b);'') = (0, 0)"
  by code_simp

text \<open>C26.  What \<open>--update\<close> writes is accepted: on a repository whose file names hold no tab or newline, if the
  scan finds a comparison then the run after the update reports nothing and exits 0.\<close>

theorem update_then_check_passes:
  assumes "plain_names r" "scan_all r None = Inr found" "found \<noteq> []"
  shows "ct_main r [asc ''--update''] = Inr (0, [], Some (write_pin (cr_pin r) found))
    \<and> ct_main (r\<lparr>cr_pin := Some (write_pin (cr_pin r) found)\<rparr>) [] = Inr (0, [], None)"
proof -
  note f = scan_all_facts [OF assms(2)]
  have paths: "list_all (row_path \<circ> fst) found" using f(2) source_paths_row [OF assms(1)] unfolding list_all_iff o_def by (metis prod.collapse)
  have only: "parse_only [asc ''--update''] = None" "parse_only [] = None" by code_simp+
  let ?r = "r\<lparr>cr_pin := Some (write_pin (cr_pin r) found)\<rparr>"
  have scan: "scan_all ?r None = Inr found" using assms(2) by (simp add: scan_pin_irrelevant)
  have pin: "read_pin (cr_pin ?r) = Inr (sort_key fst found)"
    using read_written_pin [OF read_notes_ok [of "cr_pin r"] paths f(1)] by (simp add: write_pin_def)
  have cmp: "compare_pin ?r (sort_key fst found) found = Inr []" by (rule compare_own_pin [OF scan])
  have ne: "sort_key fst found \<noteq> []" using assms(3) by (metis set_empty set_sort)
  show ?thesis using assms(2,3) by (simp add: ct_main_def only scan pin [simplified] cmp ne Let_def del: asc_simps)
qed

definition demo_repo :: ct_repo where
  "demo_repo = \<lparr> cr_modules = [(asc ''m'', Some [asc ''a.zig''])],
     cr_file = (\<lambda>p. if p = asc ''modules/m/src/a.zig'' then Some (asc ''x = std.crypto.timing_safe.eql(a, b);'') else None), cr_pin = None, cr_is_dir = (\<lambda>m. m = asc ''m'') \<rparr>"

theorem update_then_check_passes_witness:
  "ct_main demo_repo [asc ''--update''] = Inr (0, [], Some (write_pin None [(asc ''modules/m/src/a.zig'', 1, 0)]))
    \<and> ct_main (demo_repo\<lparr>cr_pin := Some (write_pin None [(asc ''modules/m/src/a.zig'', 1, 0)])\<rparr>) [] = Inr (0, [], None)"
proof -
  have "scan_all demo_repo None = Inr [(asc ''modules/m/src/a.zig'', 1, 0)]" by code_simp
  moreover have "plain_names demo_repo" by (simp add: plain_names_def demo_repo_def)
  ultimately show ?thesis using update_then_check_passes [of demo_repo "[(asc ''modules/m/src/a.zig'', 1, 0)]"]
    by (simp add: demo_repo_def)
qed

text \<open>Which notes survive an update: reading the notes back from the written pin gives every row its old notes,
  except the first row in path order, whose notes stand directly under the header, are taken for a part of it and are
  lost at the next update.\<close>

theorem notes_after_update:
  assumes "list_all (row_path \<circ> fst) rows" "distinct (map fst rows)" "sort_key fst rows = r0 # rs"
  shows "read_notes (Some (write_pin pin rows)) =
    (fst r0, []) # map (\<lambda>row. (fst row, note_lines (read_notes pin) (fst row))) rs"
  unfolding write_pin_def by (rule read_written_notes [OF read_notes_ok assms])

theorem notes_after_update_witness:
  "read_notes (Some (write_pin (Some (asc ''a'' @ [9] @ asc ''1'' @ [9] @ asc ''0'' @ [10] @ asc ''# why'' @ [10] @ asc ''b'' @ [9] @ asc ''1'' @ [9] @ asc ''0'' @ [10]))
       [(asc ''a'', 1, 0), (asc ''b'', 2, 0)])) = [(asc ''a'', []), (asc ''b'', [asc ''# why''])]"
proof -
  let ?pin = "Some (asc ''a'' @ [9] @ asc ''1'' @ [9] @ asc ''0'' @ [10] @ asc ''# why'' @ [10] @ asc ''b'' @ [9] @ asc ''1'' @ [9] @ asc ''0'' @ [10])"
  have "note_lines (read_notes ?pin) (asc ''b'') = [asc ''# why'']" by code_simp
  moreover have "list_all (row_path \<circ> fst) [(asc ''a'', 1, 0 :: int), (asc ''b'', 2 :: int, 0)]" by (simp add: row_path_def startswith_def)
  ultimately show ?thesis
    using notes_after_update [of "[(asc ''a'', 1, 0), (asc ''b'', 2, 0)]" "(asc ''a'', 1, 0)" "[(asc ''b'', 2, 0)]" ?pin] by simp
qed

end
