(* ===== verification/SecretScan.thy ===== *)
theory SecretScan
  imports CtCompare "HOL-Library.Product_Lexorder"
begin

text \<open>
  \<open>scripts/checks/check-secret-api.py\<close>, first half: the patterns, the comment blanking, bracket matching, the
  containers and functions of a Zig file, and the predicates on types and names.
\<close>

section \<open>Patterns\<close>

definition rw :: re where "rw = rstar rword"
definition rw1 :: re where "rw1 = rplus rword"
definition rs0 :: re where "rs0 = rstar rspace"
definition rs1 :: re where "rs1 = rplus rspace"

text \<open>\<open>^(a|b|...)$\<close>.\<close>

definition exactly :: "re list \<Rightarrow> re" where
  "exactly alts = rseq [RStart, ralt alts, REnd]"

definition matches :: "re \<Rightarrow> ustr \<Rightarrow> bool" where
  "matches r s \<longleftrightarrow> re_match r s \<noteq> None"

definition found_in :: "re \<Rightarrow> ustr \<Rightarrow> bool" where
  "found_in r s \<longleftrightarrow> re_search r s \<noteq> None"

definition SKIP_FILE :: re where
  "SKIP_FILE = rseq [ralt [rlit ''_test'', rlit ''_vectors'', RSeq RStart (rlit ''bench''), RSeq RStart (rlit ''ctgrind_harness''),
     RSeq RStart (rlit ''test_shim''), rseq [RStart, rlit ''fuzz'', rw], rseq [RStart, rlit ''testkit'', rw]], rlit ''.zig'', REnd]"

definition SECRET_TYPE :: re where
  "SECRET_TYPE = exactly [rlit ''SecretKey'', rlit ''PrivateKey'', rlit ''KeyPair'', rlit ''Keypair'', rlit ''SigningKey'', rlit ''Seed'',
     rlit ''SharedSecret'', RSeq rw (rlit ''Secret''), RSeq rw (rlit ''Secrets''), RSeq (rlit ''Secret'') rw, RSeq rw1 (rlit ''SecretKey''),
     RSeq rw1 (rlit ''PrivateKey''), RSeq rw1 (rlit ''KeyPair''), RSeq rw1 (rlit ''SigningKey'')]"

definition SECRET_NAME :: re where
  "SECRET_NAME = exactly [rlit ''seed'', RSeq rw1 (rlit ''_seed''), RSeq (rlit ''seed_'') rw1, rlit ''sk'', RSeq rw1 (rlit ''_sk''),
     RSeq (rlit ''sk_'') rw1, rseq [rw, rlit ''secret'', rw], rlit ''priv'', RSeq (rlit ''priv_'') rw1, RSeq rw1 (rlit ''_priv''),
     rlit ''privkey'', rlit ''private_key'', RSeq rw1 (rlit ''_private_key''), rlit ''password'', rlit ''passphrase'', rlit ''psk'',
     rlit ''ikm'', rlit ''prk'', rlit ''nonce_k'', rlit ''msk'', rlit ''master_key'', RSeq (rlit ''ephemeral'') rw, rlit ''key_pair'',
     rlit ''keypair'', rlit ''kp'', rlit ''shared_key'', rlit ''session_key'', rlit ''traffic_key'', rlit ''static_key'', rlit ''identity_key'']"

definition CRYPTO_NAME :: re where
  "CRYPTO_NAME = exactly [rlit ''key'', RSeq rw1 (rlit ''_key''), RSeq (rlit ''key_'') rw1, rlit ''k'', rlit ''mac_key'', rlit ''enc_key'',
     rlit ''kek'', rlit ''cek'', rlit ''dek'']"

definition NOT_SECRET_NAME :: re where
  "NOT_SECRET_NAME = ralt [rlit_i ''public'', rlit_i ''pub_'', rlit_i ''_pub'', RSeq (rlit_i ''pk'') REnd, RSeq RStart (rlit_i ''pk_''),
     rlit_i ''peer'', rlit_i ''remote'', rlit_i ''their'', rlit_i ''verif'', RSeq (rlit_i ''id'') REnd, RSeq (rlit_i ''_len'') REnd, rlit_i ''length'']"

definition SECRET_RET_FN :: re where
  "SECRET_RET_FN = ralt [rlit_i ''secret'', rlit_i ''seed'', rlit_i ''private'', RSeq (rlit_i ''priv'') (RSet (\<lambda>x. u_upper x \<or> u_lower x \<or> x = 95)),
     rlit_i ''sharedkey'', rlit_i ''sessionkey'', rlit_i ''traffickey'', rseq [rlit_i ''derive'', rw, rlit_i ''key'']]"

definition PUBLIC_FN :: re where "PUBLIC_FN = rlit_i ''public''"

definition NOT_SECRET_TYPE :: re where
  "NOT_SECRET_TYPE = exactly [RSeq (rlit ''Encrypted'') rw, RSeq (rlit ''Public'') rw, rseq [rw, rlit ''Public'', rw],
     RSeq rw (ralt [rlit ''Len'', rlit ''Length'', rlit ''Size'', rlit ''Error'', rlit ''Tag'', rlit ''Kind'', rlit ''Id'', rlit ''Label'', rlit ''Options'']),
     rlit ''SecretSharing'']"

definition ACCESSOR :: re where
  "ACCESSOR = exactly [RSeq (rlit ''public'') rw, rseq [rw, RSet (one_of ''Ll''), rlit ''en''], rseq [rw, RSet (one_of ''Ll''), rlit ''ength''],
     rlit ''position'', rlit ''remaining'', rlit ''levelList'', rlit ''count'', rlit ''size'', rlit ''id'', rlit ''keyId'', RSeq (rlit ''algorithm'') rw]"

definition WIPE_FNS :: "ustr list" where
  "WIPE_FNS = [asc ''deinit'', asc ''wipe'', asc ''zeroize'', asc ''clear'', asc ''destroy'', asc ''secureZero'']"

definition MARKER :: re where
  "MARKER = rseq [rlit ''secret-api-ok:'', rs0, ropt (RGroup 1 (RSeq rnonspace (rstar rdot))), REnd]"

section \<open>Scanning text\<close>

text \<open>Comments are blanked: every line keeps its length.\<close>

definition blank_line :: "ustr \<Rightarrow> ustr" where
  "blank_line l = (let kept = strip_line False False l in kept @ replicate (length l - length kept) 32)"

definition blank_comments :: "ustr \<Rightarrow> ustr" where
  "blank_comments src = join [10] (map blank_line (usplit (CHR 0x0A) src))"

definition closer :: "int \<Rightarrow> int option" where
  "closer c = (if c = 40 then Some 41 else if c = 91 then Some 93 else if c = 123 then Some 125 else None)"

text \<open>The position a character literal at \<open>i\<close> ends at, if it is one.\<close>

definition char_literal_end :: "ustr \<Rightarrow> nat \<Rightarrow> nat option" where
  "char_literal_end s i =
     (case find_from [39] s (if s ! (i + 1) = 0x5C then i + 2 else i + 1) of
        None \<Rightarrow> None | Some j \<Rightarrow> if j - i \<le> 12 then Some j else None)"

lemma char_literal_end_gt: "char_literal_end s i = Some j \<Longrightarrow> i < j \<and> j < length s"
  by (auto simp: char_literal_end_def split: option.splits if_splits dest!: find_from_SomeD)

text \<open>One round of the scan: the result, or the next position, stack and string flag.\<close>

definition match_step :: "ustr \<Rightarrow> nat \<Rightarrow> int list \<Rightarrow> bool \<Rightarrow> nat + (nat \<times> int list \<times> bool)" where
  "match_step s i stack in_str =
     (let c = s ! i in
      if in_str then
        (if c = 0x5C then Inr (i + 2, stack, True) else Inr (i + 1, stack, \<not> (c = 0x22 \<or> c = 10)))
      else if c = 0x22 then Inr (i + 1, stack, True)
      else if c = 39 \<and> i + 2 < length s then
        (case char_literal_end s i of Some j \<Rightarrow> Inr (j + 1, stack, False) | None \<Rightarrow> Inr (i + 1, stack, False))
      else (case closer c of
          Some d \<Rightarrow> Inr (i + 1, d # stack, False)
        | None \<Rightarrow>
            if c = 41 \<or> c = 93 \<or> c = 125
            then (if tl stack = [] then Inl (i + 1) else Inr (i + 1, tl stack, False))
            else Inr (i + 1, stack, False)))"

lemma match_step_next: "match_step s i stack in_str = Inr (k, st, b) \<Longrightarrow> i < k"
  by (auto simp: match_step_def Let_def split: if_splits option.splits dest: char_literal_end_gt)

lemma match_step_done: "match_step s i stack in_str = Inl k \<Longrightarrow> k = i + 1"
  by (auto simp: match_step_def Let_def split: if_splits option.splits)

function match_loop :: "ustr \<Rightarrow> nat \<Rightarrow> int list \<Rightarrow> bool \<Rightarrow> nat" where
  "match_loop s i stack in_str =
     (if length s \<le> i then length s
      else (case match_step s i stack in_str of Inl k \<Rightarrow> k | Inr (k, st, b) \<Rightarrow> match_loop s k st b))"
  by pat_completeness auto
termination
  by (relation "measure (\<lambda>(s, i, stack, in_str). length s - i)") (auto dest!: match_step_next)

declare match_loop.simps [simp del]

text \<open>\<open>match_close(s, i)\<close>: the index just after the partner of the bracket at \<open>i\<close>.\<close>

definition match_close :: "ustr \<Rightarrow> nat \<Rightarrow> nat" where
  "match_close s i = match_loop s i [] False"

lemma match_loop_bounds: "i < length s \<Longrightarrow> i < match_loop s i stack in_str \<and> match_loop s i stack in_str \<le> length s"
proof (induction "length s - i" arbitrary: i stack in_str rule: less_induct)
  case less
  show ?case
  proof (cases "match_step s i stack in_str")
    case (Inl k)
    with less.prems match_step_done [OF Inl] show ?thesis by (simp add: match_loop.simps [of s i])
  next
    case (Inr x)
    obtain k st b where x: "x = (k, st, b)" by (cases x)
    have k: "i < k" using match_step_next Inr x by blast
    have e: "match_loop s i stack in_str = match_loop s k st b" using less.prems Inr x by (simp add: match_loop.simps [of s i])
    show ?thesis
    proof (cases "k < length s")
      case True
      have "k < match_loop s k st b \<and> match_loop s k st b \<le> length s" by (rule less.hyps) (use True k in simp_all)
      with e k show ?thesis by simp
    next
      case False
      with e less.prems show ?thesis by (simp add: match_loop.simps [of s k])
    qed
  qed
qed

lemma match_close_bounds: "i < length s \<Longrightarrow> i < match_close s i \<and> match_close s i \<le> length s"
  by (simp add: match_close_def match_loop_bounds)

text \<open>\<open>split_top\<close>: the comma-separated parts at bracket depth zero, stripped, without the empty ones.\<close>

definition split_top_step :: "ustr list \<times> int \<times> ustr \<Rightarrow> int \<Rightarrow> ustr list \<times> int \<times> ustr" where
  "split_top_step st c = (case st of (parts, d, cur) \<Rightarrow>
     (let d' = (if c \<in> {40, 91, 123} then d + 1 else if c \<in> {41, 93, 125} then d - 1 else d) in
      if c = 44 \<and> d' = 0 then (parts @ [cur], d', []) else (parts, d', cur @ [c])))"

definition split_top :: "ustr \<Rightarrow> ustr list" where
  "split_top s = (case foldl split_top_step ([], 0, []) s of (parts, d, cur) \<Rightarrow>
     filter (\<lambda>p. p \<noteq> []) (map ustrip (if ustrip cur \<noteq> [] then parts @ [cur] else parts)))"

definition squeeze :: "ustr \<Rightarrow> ustr" where
  "squeeze t = join [32] (uwords t)"

section \<open>Files\<close>

definition ident :: "nat \<Rightarrow> re" where "ident k = RGroup k rw1"

definition ANYFN :: re where
  "ANYFN = rseq [RNotBehind (RSet (\<lambda>x. u_word x \<or> x = 46)) 1,
     RGroup 1 (RSeq (ropt (RSeq (rlit ''pub'') rs1)) (ropt (ralt [RSeq (rlit ''inline'') rs1, RSeq (rlit ''noinline'') rs1, RSeq (rlit ''export'') rs1]))),
     rlit ''fn'', rs1, ident 2, rs0, rlit ''('']"

definition CONTAINER :: re where
  "CONTAINER = rseq [RWordB, rlit ''const'', rs1, ident 1, rs0, ropt (rseq [rlit '':'', rs0, rlit ''type'', rs0]), rlit ''='', rs0,
     ropt (RAlt (RSeq (rlit ''extern'') rs1) (RSeq (rlit ''packed'') rs1)), ralt [rlit ''struct'', rlit ''union'', rlit ''opaque''], RWordB,
     rstar (RSet (\<lambda>x. x \<noteq> 123 \<and> x \<noteq> 59)), rlit ''{'']"

definition TYPE_FN :: re where "TYPE_FN = rseq [RWordB, rlit ''fn'', rs1, ident 1, rs0, rlit ''('']"

definition zig_import :: re where
  "zig_import = rseq [rs0, rlit ''='', rs0, rlit ''@import('', rs0, ru [0x22], RGroup 2 (RSeq (rplus (RSet (\<lambda>x. x \<noteq> 0x22))) (rlit ''.zig'')), ru [0x22], rs0, rlit '')'']"

definition IMPORT_WHOLE :: re where
  "IMPORT_WHOLE = rseq [RWordB, rlit ''pub'', rs1, rlit ''const'', rs1, ident 1, zig_import]"

definition IMPORT_ANY :: re where "IMPORT_ANY = rseq [RWordB, rlit ''const'', rs1, ident 1, zig_import]"

definition REEXPORT :: re where
  "REEXPORT = rseq [RWordB, rlit ''pub'', rs1, rlit ''const'', rs1, ident 1, rs0, rlit ''='', rs0, ident 2, rlit ''.'',
     RGroup 3 (rplus (RSet (\<lambda>x. u_word x \<or> x = 46))), rs0, rlit '';'']"

record file_info =
  f_path :: ustr
  f_raw_lines :: "ustr list"
  f_src :: ustr
  f_containers :: "(nat \<times> nat \<times> ustr) list"

definition type_body_re :: re where "type_body_re = rseq [rs0, rlit ''type'', rs0, rlit ''{'']"

definition struct_containers :: "ustr \<Rightarrow> (nat \<times> nat \<times> ustr) list" where
  "struct_containers src = map (\<lambda>m. let ob = m_end m - 1 in (ob, match_close src ob, group0 src m 1)) (finditer CONTAINER src)"

definition generic_containers :: "ustr \<Rightarrow> (nat \<times> nat \<times> ustr) list" where
  "generic_containers src = List.map_filter (\<lambda>m.
     let pe = match_close src (m_end m - 1) in
     case re_match type_body_re (slice pe (pe + 40) src) of None \<Rightarrow> None
     | Some mm \<Rightarrow> (let ob = pe + m_end mm - 1 in Some (ob, match_close src ob, group0 src m 1))) (finditer TYPE_FN src)"

definition mk_file_info :: "ustr \<Rightarrow> ustr \<Rightarrow> file_info" where
  "mk_file_info path raw = (let src = blank_comments raw in
     \<lparr> f_path = path, f_raw_lines = usplit (CHR 0x0A) raw, f_src = src,
       f_containers = sort (struct_containers src @ generic_containers src) \<rparr>)"

text \<open>\<open>FileInfo.fields\<close>: the parts of a container body, bodies and nested containers cut out.\<close>

function field_parts :: "ustr \<Rightarrow> nat \<Rightarrow> nat \<Rightarrow> int \<Rightarrow> ustr \<Rightarrow> ustr list" where
  "field_parts src i stop depth cur =
     (if stop \<le> i + 1 \<or> length src \<le> i then [cur]
      else (let c = src ! i in
        if c = 123 \<and> depth = 0 then field_parts src (match_close src i) stop depth (cur @ [32])
        else (let d = (if c = 40 \<or> c = 91 then depth + 1 else if c = 41 \<or> c = 93 then depth - 1 else depth) in
          if d = 0 \<and> (c = 44 \<or> c = 59) then cur # field_parts src (i + 1) stop d []
          else field_parts src (i + 1) stop d (cur @ [c]))))"
  by pat_completeness auto
termination
proof (relation "measure (\<lambda>(src, i, stop, depth, cur). length src - i)", goal_cases)
  case (2 src i stop depth cur c)
  then show ?case using match_close_bounds [of i src] by simp linarith
next
  case (3 src i stop depth cur c d)
  then have "i < length src" by simp
  then show ?case by simp
next
  case (4 src i stop depth cur c d)
  then have "i < length src" by simp
  then show ?case by simp
qed simp

declare field_parts.simps [simp del]

definition field_re :: re where
  "field_re = rseq [RStart, rs0, ident 1, rs0, rlit '':'', rs0, RGroup 2 (RRep False 1 None rdot), rs0, ropt (RSeq (rlit ''='') (rstar rdot)), REnd]"

definition file_fields :: "file_info \<Rightarrow> nat \<Rightarrow> nat \<Rightarrow> (ustr \<times> ustr) list" where
  "file_fields fi start stop = List.map_filter (\<lambda>part. let t = squeeze part in case re_match field_re t of None \<Rightarrow> None
     | Some m \<Rightarrow> if group0 t m 1 \<in> set (map asc [''const'', ''var'', ''fn'', ''pub'', ''test'', ''comptime'']) then None
                 else Some (group0 t m 1, group0 t m 2)) (field_parts (f_src fi) (start + 1) stop 0 [])"

text \<open>Innermost container first.\<close>

definition enclosing :: "file_info \<Rightarrow> nat \<Rightarrow> ustr list" where
  "enclosing fi pos = map snd (rev (sort (map (\<lambda>(st, en, n). (st, n)) (filter (\<lambda>(st, en, n). st < pos \<and> pos < en) (f_containers fi)))))"

definition line_of :: "file_info \<Rightarrow> nat \<Rightarrow> nat" where
  "line_of fi pos = count_list (take pos (f_src fi)) 10 + 1"

text \<open>The comment lines upwards from the line above: \<open>None\<close> without a marker.\<close>

fun marker_in :: "ustr list \<Rightarrow> ustr option" where
  "marker_in [] = None"
| "marker_in (l # ls) = (let t = ustrip l in
     if \<not> startswith t (asc ''//'') then None
     else (case re_search MARKER t of Some m \<Rightarrow> Some (group0 t m 1) | None \<Rightarrow> marker_in ls))"

definition marker_above :: "file_info \<Rightarrow> nat \<Rightarrow> ustr option" where
  "marker_above fi ln = marker_in (rev (take (ln - 1) (f_raw_lines fi)))"

section \<open>Functions of a file\<close>

record fn_info =
  n_name :: ustr
  n_params :: "ustr list"
  n_ret :: ustr
  n_body :: ustr
  n_pos :: nat
  n_pub :: bool

definition type_brace_re :: re where
  "type_brace_re = rseq [ralt [rlit ''error'', rlit ''struct'', rlit ''union'', rlit ''enum''], rs0,
     ropt (rseq [rlit ''('', rstar (RSet (\<lambda>x. x \<noteq> 41)), rlit '')'']), rs0, REnd]"

text \<open>The position of the body's brace, of the semicolon, or the end.\<close>

function body_start :: "ustr \<Rightarrow> nat \<Rightarrow> nat \<Rightarrow> nat" where
  "body_start src pe j =
     (if length src \<le> j then j
      else if src ! j = 123
      then (if found_in type_brace_re (slice pe j src) then body_start src pe (match_close src j) else j)
      else if src ! j = 59 then j
      else body_start src pe (j + 1))"
  by pat_completeness auto
termination
proof (relation "measure (\<lambda>(src, pe, j). length src - j)", goal_cases)
  case (2 src pe j)
  then show ?case using match_close_bounds [of j src] by simp linarith
qed simp_all

declare body_start.simps [simp del]

definition fn_at :: "ustr \<Rightarrow> rmatch \<Rightarrow> fn_info" where
  "fn_at src m =
     (let po = m_end m - 1; pe = match_close src po; j = body_start src pe pe in
      \<lparr> n_name = group0 src m 2, n_params = split_top (slice (po + 1) (pe - 1) src), n_ret = squeeze (slice pe j src),
        n_body = (if j < length src \<and> src ! j = 123 then slice j (match_close src j) src else []),
        n_pos = m_start m, n_pub = startswith (ustrip (group0 src m 1)) (asc ''pub'') \<rparr>)"

definition all_fns :: "file_info \<Rightarrow> fn_info list" where
  "all_fns fi = map (fn_at (f_src fi)) (finditer ANYFN (f_src fi))"

section \<open>Types and names\<close>

definition ropts :: re where "ropts = RSeq (rstar (rlit ''?'')) rs0"

definition norm_type :: "ustr \<Rightarrow> ustr" where
  "norm_type t = re_sub (rseq [RStart, ralt [rlit ''comptime'', rlit ''noalias''], rs1]) (\<lambda>_. []) (squeeze t)"

definition is_pointer :: "ustr \<Rightarrow> bool" where
  "is_pointer t = matches (rseq [RStart, ropts, ralt [rlit ''*'', rlit ''[]'', rlit ''[*'', rlit ''[:'']]) t"

definition pointee :: "ustr \<Rightarrow> ustr" where
  "pointee t = re_sub (rseq [RStart, ropts, rlit ''*'', rs0,
     ropt (rseq [rlit ''align('', rstar (RSet (\<lambda>x. x \<noteq> 41)), rlit '')'', rs0]), ropt (RSeq (rlit ''const'') rs1), ropt (RSeq (rlit ''volatile'') rs1)])
     (\<lambda>_. []) t"

definition type_name :: "ustr \<Rightarrow> ustr option" where
  "type_name t = (let u = ustrip (dropWhile (\<lambda>x. x = 63) t) in
     case re_match (rseq [RStart, ropt (RSeq (rstar (RSet (\<lambda>x. u_word x \<or> x = 46))) (rlit ''.'')), ident 1, REnd]) u of
       None \<Rightarrow> None | Some m \<Rightarrow> Some (group0 u m 1))"

definition is_byte_array :: "ustr \<Rightarrow> bool" where
  "is_byte_array t = matches (rseq [RStart, ropts, rlit ''['', rplus (RSet (\<lambda>x. x \<noteq> 93)), rlit '']'', rs0, rlit ''u8'', REnd]) t"

definition is_byte_slice :: "ustr \<Rightarrow> bool" where
  "is_byte_slice t = matches (rseq [RStart, ropts, rlit ''[]'', ropt (RSeq (rlit ''const'') rs1), rlit ''u8'', REnd]) t"

definition resolve_self :: "ustr option \<Rightarrow> file_info \<Rightarrow> nat \<Rightarrow> ustr option" where
  "resolve_self tn fi pos =
     (if tn = Some (asc ''Self'') \<or> tn = Some (asc ''@This()'') \<or> tn = None
      then (case enclosing fi pos of [] \<Rightarrow> tn | n # _ \<Rightarrow> Some n) else tn)"

definition secret_name :: "ustr \<Rightarrow> bool \<Rightarrow> bool" where
  "secret_name pname crypto \<longleftrightarrow> \<not> found_in NOT_SECRET_NAME pname \<and> (matches SECRET_NAME pname \<or> (crypto \<and> matches CRYPTO_NAME pname))"

definition secret_type :: "ustr \<Rightarrow> bool" where
  "secret_type t \<longleftrightarrow> matches SECRET_TYPE t \<and> \<not> matches NOT_SECRET_TYPE t"

end
