(* ===== verification/SecretApi.thy ===== *)
theory SecretApi
  imports SecretScan
begin

text \<open>
  \<open>scripts/checks/check-secret-api.py\<close>, second half: the secret types of a module as fixpoints, its public surface,
  the functions that burn, the findings, and the baseline with its modes.  The repository is an argument.  The globals
  the script clears and restores around a scan are values here.
\<close>

section \<open>Loops that run until nothing grows\<close>

partial_function (option) grow_loop :: "('s \<Rightarrow> 's) \<Rightarrow> ('s \<Rightarrow> 'k) \<Rightarrow> 's \<Rightarrow> 's option" where
  "grow_loop f key x = (let y = f x in if key y = key x then Some y else grow_loop f key y)"

declare grow_loop.simps [code]

definition dict_pop :: "('k \<times> 'v) list \<Rightarrow> 'k \<Rightarrow> ('k \<times> 'v) list" where
  "dict_pop d k = filter (\<lambda>x. fst x \<noteq> k) d"

definition dict_add :: "(ustr \<times> ustr list) list \<Rightarrow> ustr \<Rightarrow> ustr \<Rightarrow> (ustr \<times> ustr list) list" where
  "dict_add d k x = dict_set d k (add_name x (case map_of d k of None \<Rightarrow> [] | Some xs \<Rightarrow> xs))"

section \<open>Secret types\<close>

record secrets =
  s_inline :: "ustr list"
  s_ref :: "ustr list"
  s_fields :: "(ustr \<times> ustr list) list"

definition names_of :: "secrets \<Rightarrow> ustr list \<times> ustr list" where
  "names_of st = (s_inline st, s_ref st)"

definition all_indirect :: "(ustr \<times> (ustr \<times> ustr) list) list \<Rightarrow> ustr list" where
  "all_indirect conts = map fst (filter (\<lambda>(name, flds). flds \<noteq> [] \<and>
     list_all (\<lambda>(_, t). matches (rseq [RStart, ropts, ralt [rlit ''*'', rlit ''[]'', rlit ''[*'']]) t) flds) conts)"

definition indirect_re :: re where
  "indirect_re = ralt [rlit ''*'', rlit ''[]'', rlit ''ArrayList'', rlit ''HashMap'', rlit ''[*'']"

definition cap_re :: re where
  "cap_re = rseq [RWordB, RGroup 1 (RSeq (RSet u_upper) rw), RWordB]"

definition type_names_in :: "ustr \<Rightarrow> ustr list" where
  "type_names_in t = map (\<lambda>m. group0 t m 1) (finditer cap_re t)"

definition secret_field_name :: "bool \<Rightarrow> ustr \<Rightarrow> ustr \<Rightarrow> bool" where
  "secret_field_name crypto fname ftype \<longleftrightarrow>
     (matches SECRET_NAME fname \<or> (crypto \<and> (fname = asc ''key'' \<or> fname = asc ''keys''))) \<and> \<not> found_in NOT_SECRET_NAME fname
     \<and> contains (asc ''u8'') ftype"

definition inline_field :: "bool \<Rightarrow> ustr list \<Rightarrow> ustr \<times> ustr \<Rightarrow> bool" where
  "inline_field crypto inl fld = (case fld of (fname, ftype) \<Rightarrow>
     list_ex (\<lambda>t. secret_type t \<or> t \<in> set inl) (type_names_in ftype) \<or> secret_field_name crypto fname ftype)"

definition ref_field :: "ustr list \<Rightarrow> ustr \<times> ustr \<Rightarrow> bool" where
  "ref_field rfs fld = list_ex (\<lambda>t. t \<in> set rfs) (type_names_in (snd fld))"

definition field_step :: "bool \<Rightarrow> ustr \<Rightarrow> secrets \<Rightarrow> ustr \<times> ustr \<Rightarrow> secrets" where
  "field_step crypto name st fld =
     (let inl = inline_field crypto (s_inline st) fld; touches = inl \<or> ref_field (s_ref st) fld;
          st1 = (if touches then st\<lparr>s_fields := dict_add (s_fields st) name (fst fld)\<rparr> else st)
      in if inl \<and> \<not> found_in indirect_re (snd fld) \<and> name \<notin> set (s_inline st)
         then st1\<lparr>s_inline := s_inline st @ [name], s_ref := add_name name (s_ref st)\<rparr>
         else if touches \<and> name \<notin> set (s_ref st) then st1\<lparr>s_ref := s_ref st @ [name]\<rparr>
         else st1)"

definition container_step :: "bool \<Rightarrow> secrets \<Rightarrow> ustr \<times> (ustr \<times> ustr) list \<Rightarrow> secrets" where
  "container_step crypto st c = (case c of (name, flds) \<Rightarrow>
     if matches NOT_SECRET_TYPE name then st else foldl (field_step crypto name) st flds)"

definition container_round :: "bool \<Rightarrow> (ustr \<times> (ustr \<times> ustr) list) list \<Rightarrow> secrets \<Rightarrow> secrets" where
  "container_round crypto conts st = foldl (container_step crypto) st conts"

definition alias_re :: re where
  "alias_re = rseq [RWordB, rlit ''const'', rs1, RGroup 1 (RSeq (RSet u_upper) rw), rs0, rlit ''='', rs0,
     rstar (RSeq rw1 (rlit ''.'')), RGroup 2 (RSeq (RSet u_upper) rw), rs0, rlit '';'']"

definition secret_alias_step :: "ustr list \<Rightarrow> secrets \<Rightarrow> ustr \<times> ustr \<Rightarrow> secrets" where
  "secret_alias_step ind st at = (case at of (a, t) \<Rightarrow>
     if a = t then st
     else if ((secret_type t \<and> t \<notin> set ind) \<or> t \<in> set (s_inline st)) \<and> a \<notin> set (s_inline st) \<and> \<not> matches NOT_SECRET_TYPE a
     then st\<lparr>s_inline := s_inline st @ [a], s_ref := add_name a (s_ref st), s_fields := dict_pop (s_fields st) a\<rparr>
     else if t \<in> set (s_ref st) \<and> a \<notin> set (s_ref st)
     then st\<lparr>s_ref := s_ref st @ [a],
       s_fields := (case map_of (s_fields st) t of None \<Rightarrow> s_fields st | Some fs \<Rightarrow> dict_set (s_fields st) a fs)\<rparr>
     else st)"

definition secret_alias_round :: "ustr list \<Rightarrow> (ustr \<times> ustr) list \<Rightarrow> secrets \<Rightarrow> secrets" where
  "secret_alias_round ind al st = foldl (secret_alias_step ind) st al"

text \<open>What a scan keeps in the globals: \<open>DERIVED\<close>, \<open>DERIVED_REF\<close>, \<open>SECRET_FIELDS\<close>, \<open>ALL_INDIRECT\<close>.\<close>

record senv =
  v_derived :: "ustr list"
  v_ref :: "ustr list"
  v_fields :: "(ustr \<times> ustr list) list"
  v_indirect :: "ustr list"

definition conts_of :: "file_info list \<Rightarrow> (ustr \<times> (ustr \<times> ustr) list) list" where
  "conts_of fis = concat (map (\<lambda>fi. map (\<lambda>(st, en, name). (name, file_fields fi st en)) (f_containers fi)) fis)"

definition aliases_of :: "file_info list \<Rightarrow> (ustr \<times> ustr) list" where
  "aliases_of fis = concat (map (\<lambda>fi. map (\<lambda>m. (group0 (f_src fi) m 1, group0 (f_src fi) m 2)) (finditer alias_re (f_src fi))) fis)"

definition derive_secret_types :: "file_info list \<Rightarrow> bool \<Rightarrow> senv option" where
  "derive_secret_types fis crypto =
     (let conts = conts_of fis; ind = all_indirect conts in
      case grow_loop (container_round crypto conts) names_of \<lparr>s_inline = [], s_ref = [], s_fields = []\<rparr> of None \<Rightarrow> None
      | Some st \<Rightarrow> (case grow_loop (secret_alias_round ind (aliases_of fis)) names_of st of None \<Rightarrow> None
          | Some st2 \<Rightarrow> Some \<lparr>v_derived = s_inline st2, v_ref = filter (\<lambda>n. n \<notin> set (s_inline st2)) (s_ref st2),
              v_fields = s_fields st2, v_indirect = ind\<rparr>))"

section \<open>Parameters and results\<close>

definition amp :: "ustr \<Rightarrow> ustr" where "amp t = 38 # t"

definition secret_param :: "senv \<Rightarrow> ustr \<Rightarrow> ustr \<Rightarrow> file_info \<Rightarrow> nat \<Rightarrow> bool \<Rightarrow> ustr option" where
  "secret_param env pname ptype fi pos crypto =
     (if is_byte_slice ptype then (if secret_name pname crypto then Some pname else None)
      else (let t = (if is_pointer ptype then pointee ptype else ptype);
                tn = (if ustrip t = asc ''@This()'' then resolve_self None fi pos
                      else if type_name t = Some (asc ''Self'') then resolve_self (type_name t) fi pos else type_name t) in
        case tn of
          Some n \<Rightarrow>
            if n \<noteq> [] \<and> n \<in> set (v_indirect env) \<and> n \<notin> set (v_derived env) \<and> matches SECRET_TYPE n then Some (amp n)
            else if n \<noteq> [] \<and> (secret_type n \<or> n \<in> set (v_derived env)) then Some n
            else if n \<noteq> [] \<and> n \<in> set (v_ref env) then Some (amp n)
            else if secret_name pname crypto \<and> is_byte_array t then Some pname else None
        | None \<Rightarrow> if secret_name pname crypto \<and> is_byte_array t then Some pname else None))"

text \<open>What follows the last \<open>!\<close>.\<close>

definition after_bang :: "ustr \<Rightarrow> ustr" where
  "after_bang r = (if 33 \<in> set r then rev (takeWhile (\<lambda>x. x \<noteq> 33) (rev r)) else r)"

definition secret_ret :: "senv \<Rightarrow> ustr \<Rightarrow> ustr \<Rightarrow> file_info \<Rightarrow> nat \<Rightarrow> ustr option" where
  "secret_ret env fname ret fi pos =
     (let r0 = ustrip (dropWhile (\<lambda>x. x = 63) (ustrip (after_bang ret)));
          r = (if r0 = asc ''Self'' then (case resolve_self (Some r0) fi pos of Some n \<Rightarrow> (if n = [] then r0 else n) | None \<Rightarrow> r0) else r0)
      in case type_name r of
           Some n \<Rightarrow> if n \<noteq> [] \<and> (secret_type n \<or> n \<in> set (v_derived env)) then Some n
             else if is_byte_array r \<and> found_in SECRET_RET_FN fname \<and> \<not> found_in PUBLIC_FN fname then Some r else None
         | None \<Rightarrow> if is_byte_array r \<and> found_in SECRET_RET_FN fname \<and> \<not> found_in PUBLIC_FN fname then Some r else None)"

section \<open>Calls and burns\<close>

definition TRIVIAL_CALL :: re where
  "TRIVIAL_CALL = rseq [RNotBehind (RSet (\<lambda>x. u_word x \<or> x = 46 \<or> x = 64)) 1,
     RGroup 1 (RSeq (RSet (\<lambda>x. u_upper x \<or> u_lower x \<or> x = 95)) (rstar (RSet (\<lambda>x. u_word x \<or> x = 46)))), rs0, rlit ''('']"

definition last_part :: "ustr \<Rightarrow> ustr" where
  "last_part callee = last (usplit (CHR ''.'') callee)"

definition is_trivial :: "ustr \<Rightarrow> bool" where
  "is_trivial body = list_all (\<lambda>m. last_part (group0 body m 1) \<in> set (map asc
     [''if'', ''while'', ''for'', ''switch'', ''return'', ''catch'', ''orelse'', ''struct'', ''union'', ''enum'']
     @ WIPE_FNS @ map asc [''asBytes'', ''sliceAsBytes'', ''asSlice''])) (finditer TRIVIAL_CALL body)"

definition BURN :: re where "BURN = rlit_i ''burn''"

definition CALL_RE :: re where
  "CALL_RE = RAlt (rseq [RNotBehind (RSet (\<lambda>x. u_word x \<or> x = 64)) 1, ident 1, rs0, rlit ''(''])
     (rseq [rlit ''@call('', rs0, rlit ''.'', rw1, rs0, rlit '','', rs0, rstar (RSeq rw1 (rlit ''.'')), ident 2, rs0, rlit '',''])"

definition calls_in :: "ustr \<Rightarrow> ustr list" where
  "calls_in body = map (\<lambda>m. if group0 body m 1 \<noteq> [] then group0 body m 1 else group0 body m 2) (finditer CALL_RE body)"

section \<open>The repository\<close>

text \<open>\<open>q_files\<close>: the files under a module's \<open>src\<close> in the order of the walk; \<open>q_build\<close>: the text of \<open>build.zig\<close>.  Paths
  are relative to the repository.\<close>

record sec_repo =
  q_modules :: "ustr list"
  q_files :: "ustr \<Rightarrow> (ustr \<times> ustr) list"
  q_build :: ustr
  q_baseline :: "ustr option"

definition base_name :: "ustr \<Rightarrow> ustr" where "base_name p = last (usplit (CHR ''/'') p)"
definition dir_name :: "ustr \<Rightarrow> ustr" where "dir_name p = join [47] (butlast (usplit (CHR ''/'') p))"

definition src_dir :: "ustr \<Rightarrow> ustr" where "src_dir mo = asc ''modules/'' @ mo @ asc ''/src''"

definition module_files :: "sec_repo \<Rightarrow> ustr \<Rightarrow> (ustr \<times> file_info) list" where
  "module_files r mo = foldl (\<lambda>d (p, t). if endswith (base_name p) (asc ''.zig'') \<and> \<not> found_in SKIP_FILE (base_name p)
     then dict_set d p (mk_file_info p t) else d) [] (q_files r mo)"

text \<open>\<open>os.path.normpath\<close> on a relative path.\<close>

definition norm_path :: "ustr \<Rightarrow> ustr" where
  "norm_path p = (let cs = foldl (\<lambda>st c. if c = [] \<or> c = asc ''.'' then st
        else if c = asc ''..'' \<and> st \<noteq> [] \<and> last st \<noteq> asc ''..'' then butlast st else st @ [c]) [] (usplit (CHR ''/'') p)
     in if cs = [] then asc ''.'' else join [47] cs)"

definition join_path :: "ustr \<Rightarrow> ustr \<Rightarrow> ustr" where
  "join_path d p = (if startswith p (asc ''/'') then p else d @ [47] @ p)"

definition import_aliases :: "file_info \<Rightarrow> ustr \<Rightarrow> (ustr \<times> ustr) list" where
  "import_aliases fi f = foldl (\<lambda>d m. dict_set d (group0 (f_src fi) m 1) (norm_path (join_path (dir_name f) (group0 (f_src fi) m 2)))) []
     (finditer IMPORT_ANY (f_src fi))"

definition new_imports :: "(ustr \<times> file_info) list \<Rightarrow> ustr list \<Rightarrow> ustr \<Rightarrow> ustr list" where
  "new_imports files whole f = (case map_of files f of None \<Rightarrow> [] | Some fi \<Rightarrow>
     foldl (\<lambda>acc m. case map_of (import_aliases fi f) (group0 (f_src fi) m 1) of None \<Rightarrow> acc
         | Some t \<Rightarrow> if t \<in> fst ` set files \<and> t \<notin> set whole \<and> t \<notin> set acc then acc @ [t] else acc) [] (finditer IMPORT_WHOLE (f_src fi)))"

definition add_partial :: "(ustr \<times> file_info) list \<Rightarrow> ustr list \<Rightarrow> ustr \<Rightarrow> (ustr \<times> ustr list) list \<Rightarrow> (ustr \<times> ustr list) list" where
  "add_partial files whole f partial = (case map_of files f of None \<Rightarrow> partial | Some fi \<Rightarrow>
     foldl (\<lambda>pa m. case map_of (import_aliases fi f) (group0 (f_src fi) m 2) of None \<Rightarrow> pa
         | Some t \<Rightarrow> if t \<in> fst ` set files \<and> t \<notin> set whole
             then (let ps = usplit (CHR ''.'') (group0 (f_src fi) m 3) in dict_add (dict_add pa t (hd ps)) t (last ps)) else pa)
       partial (finditer REEXPORT (f_src fi)))"

lemma new_imports_facts: "distinct (new_imports files whole f) \<and> set (new_imports files whole f) \<subseteq> fst ` set files - set whole"
proof (cases "map_of files f")
  case (Some fi)
  let ?step = "\<lambda>acc m. case map_of (import_aliases fi f) (group0 (f_src fi) m 1) of None \<Rightarrow> acc
         | Some t \<Rightarrow> if t \<in> fst ` set files \<and> t \<notin> set whole \<and> t \<notin> set acc then acc @ [t] else acc"
  have "distinct (foldl ?step acc ms) \<and> set (foldl ?step acc ms) \<subseteq> fst ` set files - set whole"
    if "distinct acc \<and> set acc \<subseteq> fst ` set files - set whole" for acc ms
    using that
  proof (induction ms arbitrary: acc)
    case (Cons m ms)
    have "distinct (?step acc m) \<and> set (?step acc m) \<subseteq> fst ` set files - set whole"
      using Cons.prems by (cases "map_of (import_aliases fi f) (group0 (f_src fi) m 1)") auto
    from Cons.IH [OF this] show ?case by simp
  qed simp
  from this [of "[]"] Some show ?thesis by (simp add: new_imports_def)
qed (simp add: new_imports_def)

function surface_loop :: "(ustr \<times> file_info) list \<Rightarrow> ustr list \<Rightarrow> (ustr \<times> ustr list) list \<Rightarrow> ustr list \<Rightarrow> ustr list \<times> (ustr \<times> ustr list) list" where
  "surface_loop files whole partial todo =
     (if todo = [] then (whole, partial)
      else (let f = last todo; new = new_imports files whole f; whole' = whole @ new in
        surface_loop files whole' (add_partial files whole' f partial) (butlast todo @ new)))"
  by pat_completeness auto
termination
proof (relation "measure (\<lambda>(files, whole, partial, todo). 2 * card (fst ` set files - set whole) + length todo)", goal_cases)
  case (2 files whole partial todo f new whole')
  have "card (fst ` set files - set whole') + length new = card (fst ` set files - set whole)"
  proof -
    have n: "distinct new" "set new \<subseteq> fst ` set files - set whole" using new_imports_facts 2 by auto
    have "fst ` set files - set whole' = (fst ` set files - set whole) - set new" using 2 by auto
    then show ?thesis using n card_Diff_subset [of "set new" "fst ` set files - set whole"]
        card_mono [of "fst ` set files - set whole" "set new"] by (simp add: distinct_card)
  qed
  with 2 show ?case by (cases todo rule: rev_cases) auto
qed simp

declare surface_loop.simps [simp del]

definition public_surface :: "ustr \<Rightarrow> (ustr \<times> file_info) list \<Rightarrow> ustr list \<times> (ustr \<times> ustr list) list" where
  "public_surface mo files = (let root = src_dir mo @ asc ''/root.zig'' in
     if root \<notin> fst ` set files then (map fst files, []) else surface_loop files [root] [] [root])"

section \<open>The build table\<close>

definition quoted :: "nat \<Rightarrow> re" where
  "quoted k = rseq [ru [0x22], RGroup k (rplus (RSet (\<lambda>x. x \<noteq> 0x22))), ru [0x22]]"

definition dep_line_re :: re where
  "dep_line_re = rseq [rlit ''.{'', rs0, rlit ''.name'', rs0, rlit ''='', rs0, quoted 1, RGroup 2 (rstar rdot), rlit ''}'']"

definition deps_re :: re where
  "deps_re = rseq [RNotBehind (rlit ''test_'') 5, rlit ''.deps'', rs0, rlit ''='', rs0, rlit ''&.{'', RGroup 1 (rstar (RSet (\<lambda>x. x \<noteq> 125))), rlit ''}'']"

definition module_deps :: "sec_repo \<Rightarrow> (ustr \<times> ustr list) list" where
  "module_deps r = foldl (\<lambda>d l. case re_search dep_line_re l of None \<Rightarrow> d
     | Some m \<Rightarrow> (let rest = group0 l m 2 in dict_set d (group0 l m 1)
         (case re_search deps_re rest of None \<Rightarrow> []
          | Some dm \<Rightarrow> (let t = group0 rest dm 1 in map (\<lambda>q. group0 t q 1) (finditer (quoted 1) t))))) [] (usplit (CHR 0x0A) (q_build r))"

definition libs_re :: re where
  "libs_re = rseq [rlit ''.name'', rs0, rlit ''='', rs0, quoted 1, rs0, rlit '','', rs0, rlit ''.libs'', rs0, rlit ''='', rs0, rlit ''&.{'',
     RGroup 2 (rstar (RSet (\<lambda>x. x \<noteq> 125))), rlit ''}'']"

definition crypto_modules :: "sec_repo \<Rightarrow> ustr list" where
  "crypto_modules r = map (\<lambda>m. group0 (q_build r) m 1)
     (filter (\<lambda>m. contains (0x22 # asc ''crypto'' @ [0x22]) (group0 (q_build r) m 2)) (finditer libs_re (q_build r)))"

definition STD_KEYED :: re where
  "STD_KEYED = rseq [rlit ''std.crypto.'', ralt [rlit ''auth'', rlit ''aead'', rlit ''kdf'', rlit ''sign'', rlit ''dh'', rlit ''ecc'', rlit ''core.aes'', rlit ''stream''], RWordB]"

text \<open>The transitive dependencies that are modules, in the order they are visited.\<close>

definition deps_of :: "(ustr \<times> ustr list) list \<Rightarrow> ustr \<Rightarrow> ustr list" where
  "deps_of deps mo = (case map_of deps mo of None \<Rightarrow> [] | Some ds \<Rightarrow> ds)"

function dep_walk :: "ustr list \<Rightarrow> (ustr \<times> ustr list) list \<Rightarrow> ustr list \<Rightarrow> ustr list \<Rightarrow> ustr list" where
  "dep_walk mods deps seen todo =
     (if todo = [] then seen
      else (let d = last todo in
        if d \<in> set seen \<or> d \<notin> set mods then dep_walk mods deps seen (butlast todo)
        else dep_walk mods deps (seen @ [d]) (butlast todo @ deps_of deps d)))"
  by pat_completeness auto
termination
proof (relation "measures [\<lambda>(mods, deps, seen, todo). card (set mods - set seen), \<lambda>(mods, deps, seen, todo). length todo]", goal_cases)
  case (3 mods deps seen todo d)
  then have "set mods - set (seen @ [d]) \<subset> set mods - set seen" by auto
  then have "card (set mods - set (seen @ [d])) < card (set mods - set seen)" by (rule psubset_card_mono [rotated]) simp
  then show ?case by simp
qed simp_all

declare dep_walk.simps [simp del]

section \<open>One module\<close>

record entry =
  y_file :: ustr
  y_fi :: file_info
  y_fn :: fn_info
  y_public :: bool

record scan =
  z_files :: "(ustr \<times> file_info) list"
  z_crypto :: bool
  z_env :: senv
  z_entries :: "entry list"
  z_bodies :: "(ustr \<times> ustr list) list"

definition is_public :: "ustr list \<Rightarrow> (ustr \<times> ustr list) list \<Rightarrow> ustr \<Rightarrow> file_info \<Rightarrow> fn_info \<Rightarrow> bool" where
  "is_public whole partial f fi fn =
     (if f \<in> set whole then True
      else (case map_of partial f of None \<Rightarrow> False
        | Some names \<Rightarrow> n_name fn \<in> set names \<or> list_ex (\<lambda>c. c \<in> set names) (enclosing fi (n_pos fn))))"

definition file_fns :: "(ustr \<times> file_info) list \<Rightarrow> (ustr \<times> file_info \<times> fn_info) list" where
  "file_fns files = concat (map (\<lambda>(f, fi). map (\<lambda>fn. (f, fi, fn)) (all_fns fi)) files)"

definition bodies_of :: "(ustr \<times> file_info \<times> fn_info) list \<Rightarrow> (ustr \<times> ustr list) list" where
  "bodies_of fns = foldl (\<lambda>d (f, fi, fn). dict_set d (n_name fn) ((case map_of d (n_name fn) of None \<Rightarrow> [] | Some bs \<Rightarrow> bs) @ [n_body fn])) [] fns"

definition prepare :: "sec_repo \<Rightarrow> ustr \<Rightarrow> scan option" where
  "prepare r mo =
     (let files = module_files r mo; fis = map snd files;
          crypto = (mo \<in> set (crypto_modules r) \<or> list_ex (\<lambda>fi. found_in STD_KEYED (f_src fi)) fis) in
      case derive_secret_types fis crypto of None \<Rightarrow> None
      | Some env \<Rightarrow> (let (whole, partial) = public_surface mo files; fns = file_fns files in
          Some \<lparr> z_files = files, z_crypto = crypto, z_env = env,
            z_entries = map (\<lambda>(f, fi, fn). \<lparr> y_file = f, y_fi = fi, y_fn = fn, y_public = is_public whole partial f fi fn \<rparr>)
              (filter (\<lambda>(f, fi, fn). n_pub fn) fns),
            z_bodies = bodies_of fns \<rparr>))"

definition fn_names :: "scan \<Rightarrow> ustr list" where
  "fn_names z = map (\<lambda>y. n_name (y_fn y)) (z_entries z)"

text \<open>The names in a file that stand for a visited dependency, four rounds deep.\<close>

definition import_re :: re where
  "import_re = rseq [RWordB, rlit ''const'', rs1, ident 1, rs0, rlit ''='', rs0, rlit ''@import('', ru [0x22],
     RGroup 2 (rplus (RSet (\<lambda>x. x \<noteq> 0x22 \<and> x \<noteq> 46))), ru [0x22], rlit '')'']"

definition member_re :: re where
  "member_re = rseq [RWordB, rlit ''const'', rs1, ident 1, rs0, rlit ''='', rs0, ident 2, rplus (RSeq (rlit ''.'') rw1), rs0, rlit '';'']"

definition member_round :: "ustr \<Rightarrow> ustr list \<Rightarrow> ustr list" where
  "member_round src names = foldl (\<lambda>acc m. if group0 src m 2 \<in> set names then add_name (group0 src m 1) acc else acc) names (finditer member_re src)"

definition dep_names :: "ustr list \<Rightarrow> ustr \<Rightarrow> ustr list" where
  "dep_names seen src = alias_loop 4 (member_round src)
     (foldl (\<lambda>acc m. if group0 src m 2 \<in> set seen then add_name (group0 src m 1) acc else acc) [] (finditer import_re src))"

definition dep_call_re :: "ustr list \<Rightarrow> ustr list \<Rightarrow> re option" where
  "dep_call_re al bu = (if al = [] \<or> bu = [] then None else Some (rseq [RWordB, ralt (map ru (sort al)),
     rstar (RSeq (rlit ''.'') rw1), rlit ''.'', ralt (map ru (sort bu)), rs0, rlit ''('']))"

definition calls_dep :: "re option \<Rightarrow> ustr \<Rightarrow> bool" where
  "calls_dep rc body = (case rc of None \<Rightarrow> False | Some x \<Rightarrow> found_in x body)"

definition thin :: "ustr list \<Rightarrow> bool" where
  "thin bs = list_all (\<lambda>b. length (squeeze b) \<le> 600) bs"

definition burn_step :: "ustr list \<Rightarrow> ustr list \<Rightarrow> ustr \<times> ustr list \<Rightarrow> ustr list" where
  "burn_step pubs burned nb = (case nb of (n, bs) \<Rightarrow>
     if n \<in> set pubs \<and> n \<notin> set burned \<and> thin bs \<and> list_ex (\<lambda>b. list_ex (\<lambda>c. c \<noteq> n \<and> c \<in> set burned) (calls_in b)) bs
     then burned @ [n] else burned)"

definition burn_round :: "ustr list \<Rightarrow> (ustr \<times> ustr list) list \<Rightarrow> ustr list \<Rightarrow> ustr list" where
  "burn_round pubs bodies burned = foldl (burn_step pubs) burned bodies"

definition burned_start :: "re option \<Rightarrow> (ustr \<times> ustr list) list \<Rightarrow> ustr list" where
  "burned_start rc bodies = map fst (filter (\<lambda>(n, bs). list_ex (\<lambda>b. found_in BURN b \<or> calls_dep rc b) bs) bodies)"

definition dep_aliases :: "scan \<Rightarrow> ustr list \<Rightarrow> ustr list" where
  "dep_aliases z seen = foldl (\<lambda>acc fi. foldl (\<lambda>a n. add_name n a) acc (dep_names seen (f_src fi))) [] (map snd (z_files z))"

definition burned_names :: "scan \<Rightarrow> ustr list \<Rightarrow> ustr list \<Rightarrow> (re option \<times> ustr list) option" where
  "burned_names z seen dep_burned =
     (let rc = dep_call_re (dep_aliases z seen) dep_burned in
      case grow_loop (burn_round (fn_names z) (z_bodies z)) id (burned_start rc (z_bodies z)) of None \<Rightarrow> None
      | Some burned \<Rightarrow> Some (rc, burned))"

text \<open>\<open>BURNED_PUB\<close>: the cache; an entry is put in empty before its module is scanned, which stops cycles.\<close>

type_synonym cache = "(ustr \<times> ustr list) list"

fun fold_deps :: "(cache \<Rightarrow> ustr \<Rightarrow> (cache \<times> ustr list) option) \<Rightarrow> cache \<Rightarrow> ustr list \<Rightarrow> ustr list \<Rightarrow> (cache \<times> ustr list) option" where
  "fold_deps g cache [] acc = Some (cache, acc)"
| "fold_deps g cache (d # ds) acc = (case g cache d of None \<Rightarrow> None
     | Some (cache', bu) \<Rightarrow> fold_deps g cache' ds (foldl (\<lambda>a n. add_name n a) acc bu))"

definition dep_closure :: "sec_repo \<Rightarrow> ustr \<Rightarrow> ustr list" where
  "dep_closure r mo = dep_walk (q_modules r) (module_deps r) [] (deps_of (module_deps r) mo)"

fun burned_pub_names :: "nat \<Rightarrow> sec_repo \<Rightarrow> cache \<Rightarrow> ustr \<Rightarrow> (cache \<times> ustr list) option" where
  "burned_pub_names 0 r cache mo = None"
| "burned_pub_names (Suc n) r cache mo = (case map_of cache mo of Some bu \<Rightarrow> Some (cache, bu)
     | None \<Rightarrow> (case fold_deps (burned_pub_names n r) (dict_set cache mo []) (dep_closure r mo) [] of None \<Rightarrow> None
         | Some (cache', dep_burned) \<Rightarrow> (case prepare r mo of None \<Rightarrow> None
             | Some z \<Rightarrow> (case burned_names z (dep_closure r mo) dep_burned of None \<Rightarrow> None
                 | Some (rc, burned) \<Rightarrow> (let bu = filter (\<lambda>n. n \<in> set burned) (fn_names z) in Some (dict_set cache' mo bu, bu))))))"

section \<open>Findings\<close>

record finding =
  d_module :: ustr
  d_rel :: ustr
  d_line :: nat
  d_name :: ustr
  d_kind :: ustr
  d_why :: ustr

text \<open>One parameter: its name if it touches a secret, and the by-value text if it is passed by value.\<close>

definition passes_on :: "ustr \<Rightarrow> ustr \<Rightarrow> bool" where
  "passes_on pn body = found_in (rseq [RSet (one_of ''(,''), rs0, ropt (rlit ''&''), ru pn, rs0, RSet (one_of '',)'')]) body"

definition uses_field :: "ustr list \<Rightarrow> ustr \<Rightarrow> bool" where
  "uses_field flds body = list_ex (\<lambda>f. found_in (rseq [rlit ''.'', ru f, RWordB]) body) flds"

definition strip_amp :: "ustr \<Rightarrow> ustr" where "strip_amp w = dropWhile (\<lambda>x. x = 38) w"

definition param_secret :: "scan \<Rightarrow> file_info \<Rightarrow> fn_info \<Rightarrow> ustr \<Rightarrow> (ustr \<times> ustr option) option" where
  "param_secret z fi fn prm =
     (case find_from [58] prm 0 of None \<Rightarrow> None
      | Some i \<Rightarrow>
          (let pn = ustrip (re_sub (rseq [RWordB, ralt [rlit ''comptime'', rlit ''noalias''], RWordB]) (\<lambda>_. []) (take i prm));
               pt = norm_type (drop (i + 1) prm) in
           if pt = asc ''type'' \<or> pt = asc ''anytype'' \<or> pn = asc ''_'' then None
           else (case secret_param (z_env z) pn pt fi (n_pos fn) (z_crypto z) of None \<Rightarrow> None
             | Some why \<Rightarrow>
                 if (case map_of (v_fields (z_env z)) (strip_amp why) of None \<Rightarrow> False
                     | Some flds \<Rightarrow> n_body fn \<noteq> [] \<and> \<not> uses_field flds (n_body fn) \<and> \<not> passes_on pn (n_body fn)) then None
                 else Some (pn, if \<not> is_pointer pt \<and> \<not> startswith why (asc ''&'') then Some (pn @ [58] @ why) else None))))"

definition needs_no_burn :: "re option \<Rightarrow> ustr list \<Rightarrow> ustr list \<Rightarrow> ustr option \<Rightarrow> fn_info \<Rightarrow> bool" where
  "needs_no_burn rc burned touches rs fn \<longleftrightarrow>
     n_name fn \<in> set WIPE_FNS \<or> n_body fn = [] \<or> found_in BURN (n_body fn) \<or> is_trivial (n_body fn)
     \<or> (touches = [asc ''self''] \<and> rs = None \<and> matches ACCESSOR (n_name fn))
     \<or> list_ex (\<lambda>c. c \<noteq> n_name fn \<and> c \<in> set burned) (calls_in (n_body fn)) \<or> calls_dep rc (n_body fn)"

definition entry_findings :: "ustr \<Rightarrow> scan \<Rightarrow> re option \<Rightarrow> ustr list \<Rightarrow> entry \<Rightarrow> finding list" where
  "entry_findings mo z rc burned y =
     (let fi = y_fi y; fn = y_fn y; ps = List.map_filter (param_secret z fi fn) (n_params fn);
          touches = map fst ps; byval = List.map_filter snd ps;
          rs = secret_ret (z_env z) (n_name fn) (n_ret fn) fi (n_pos fn); ln = line_of fi (n_pos fn);
          mk = (\<lambda>nm k w. \<lparr> d_module = mo, d_rel = y_file y, d_line = ln, d_name = nm, d_kind = asc k, d_why = w \<rparr>)
      in if \<not> y_public y \<or> (touches = [] \<and> rs = None) then []
         else (case marker_above fi ln of
             Some marker \<Rightarrow> if ustrip marker = [] then [mk (n_name fn) ''marker-without-reason'' []] else []
           | None \<Rightarrow>
               (let twin = ((n_name fn @ asc ''Into'') \<in> set (fn_names z));
                    qual = join [46] (rev (enclosing fi (n_pos fn)) @ [n_name fn])
                in (if byval \<noteq> [] \<and> \<not> twin then [mk qual ''byval'' (join [44] byval)] else [])
                   @ (case rs of Some t \<Rightarrow> if twin then [] else [mk qual ''ret'' t] | None \<Rightarrow> [])
                   @ (if needs_no_burn rc burned touches rs fn then []
                      else [mk qual ''noburn'' (if touches \<noteq> [] then join [44] touches else (case rs of Some t \<Rightarrow> t | None \<Rightarrow> []))]))))"

definition fuel_for :: "sec_repo \<Rightarrow> nat" where
  "fuel_for r = Suc (Suc (length (q_modules r)))"

definition scan_module :: "sec_repo \<Rightarrow> cache \<Rightarrow> ustr \<Rightarrow> (cache \<times> finding list) option" where
  "scan_module r cache mo =
     (case prepare r mo of None \<Rightarrow> None
      | Some z \<Rightarrow> (case fold_deps (burned_pub_names (fuel_for r) r) cache (dep_closure r mo) [] of None \<Rightarrow> None
          | Some (cache', dep_burned) \<Rightarrow> (case burned_names z (dep_closure r mo) dep_burned of None \<Rightarrow> None
              | Some (rc, burned) \<Rightarrow> Some (cache', concat (map (entry_findings mo z rc burned) (z_entries z))))))"

section \<open>The baseline\<close>

definition finding_key :: "finding \<Rightarrow> ustr" where
  "finding_key fd = d_module fd @ [9] @ d_rel fd @ [58] @ d_name fd @ [9] @ d_kind fd"

definition read_baseline :: "ustr option \<Rightarrow> ustr list" where
  "read_baseline b = (case b of None \<Rightarrow> [] | Some t \<Rightarrow> filter is_row (usplit (CHR 0x0A) t))"

definition SECRET_HEADER :: ustr where
  \<open>SECRET_HEADER = join [10]
    [ asc ''# Known findings of scripts/checks/check-secret-api.py, burned down by the'',
      asc ''# dead-stack campaign (~/CML maturity log, 2026-10). `--ratchet` fails on a'',
      asc ''# finding NOT listed here and on a row here that no longer fires -- delete it.'',
      asc ''# Never add a row by hand to get a new module past the gate: fix the shape,'',
      asc ''# or put `secret-api-ok: <reason>` above the function.'',
      asc ''#'',
      asc ''# module<TAB>file:function<TAB>kind (byval | ret | noburn)'',
      [] ]\<close>

definition baseline_text :: "ustr list \<Rightarrow> ustr" where
  "baseline_text rows = SECRET_HEADER @ concat (map (\<lambda>k. k @ [10]) (sort (remdups rows)))"

definition row_module :: "ustr \<Rightarrow> ustr" where
  "row_module b = takeWhile (\<lambda>x. x \<noteq> 9) b"

text \<open>Exit code, baseline written, keys reported as new, keys reported as gone.\<close>

record verdict =
  w_exit :: int
  w_baseline :: "ustr option"
  w_new :: "ustr list"
  w_gone :: "ustr list"

definition ratchet :: "ustr list \<Rightarrow> ustr list \<Rightarrow> verdict" where
  "ratchet base got =
     (let new = filter (\<lambda>k. k \<notin> set base) (sort (remdups got)); gone = sort (remdups (filter (\<lambda>b. b \<notin> set got) base)) in
      \<lparr> w_exit = (if new \<noteq> [] \<or> gone \<noteq> [] then 1 else 0), w_baseline = None, w_new = new, w_gone = gone \<rparr>)"

definition prune :: "ustr list \<Rightarrow> ustr list \<Rightarrow> ustr list \<Rightarrow> verdict" where
  "prune base got scanned =
     (let keep = filter (\<lambda>b. row_module b \<notin> set scanned \<or> b \<in> set got) base; new = sort (remdups (filter (\<lambda>k. k \<notin> set base) got)) in
      \<lparr> w_exit = (if new \<noteq> [] then 1 else 0), w_baseline = Some (baseline_text keep), w_new = new, w_gone = [] \<rparr>)"

fun scan_all_modules :: "sec_repo \<Rightarrow> cache \<Rightarrow> ustr list \<Rightarrow> finding list option option" where
  "scan_all_modules r cache [] = Some (Some [])"
| "scan_all_modules r cache (m # ms) =
     (if m \<notin> set (q_modules r) then Some None
      else (case scan_module r cache m of None \<Rightarrow> None
        | Some (cache', fs) \<Rightarrow> (case scan_all_modules r cache' ms of None \<Rightarrow> None | Some None \<Rightarrow> Some None | Some (Some fs') \<Rightarrow> Some (Some (fs @ fs')))))"

definition plain_exit :: "int \<Rightarrow> verdict" where
  "plain_exit c = \<lparr> w_exit = c, w_baseline = None, w_new = [], w_gone = [] \<rparr>"

text \<open>\<open>main\<close>: \<open>None\<close> would mean that it does not return.\<close>

definition secret_main :: "sec_repo \<Rightarrow> ustr list \<Rightarrow> verdict option" where
  "secret_main r args =
     (let only = parse_only args;
          modules = (case only of Some (m # ms) \<Rightarrow> m # ms | _ \<Rightarrow> sort (q_modules r)) in
      case scan_all_modules r [] modules of None \<Rightarrow> None
      | Some None \<Rightarrow> Some (plain_exit 2)
      | Some (Some findings) \<Rightarrow>
          (let got = map finding_key findings; base = read_baseline (q_baseline r) in
           if asc ''--update-baseline'' \<in> set args
           then (if only \<noteq> None then Some (plain_exit 2) else Some ((plain_exit 0)\<lparr>w_baseline := Some (baseline_text got)\<rparr>))
           else if asc ''--prune'' \<in> set args then Some (prune base got modules)
           else if asc ''--summary'' \<in> set args then Some (plain_exit (if findings \<noteq> [] then 1 else 0))
           else if asc ''--ratchet'' \<in> set args
           then Some (ratchet (case only of None \<Rightarrow> base | Some ms \<Rightarrow> filter (\<lambda>b. row_module b \<in> set ms) base) got)
           else Some (plain_exit (if findings \<noteq> [] then 1 else 0))))"

end
