(* ===== verification/SecretApi_Props.thy ===== *)
theory SecretApi_Props
  imports SecretApi CtCompare_Props
begin

text \<open>
  Theorems on the secret-API gate: comment blanking, bracket matching, the secret types against the documented rules, that every scan returns, and
  the baseline modes.
\<close>

section \<open>Growing loops\<close>

text \<open>A round that keeps an invariant and whose key only changes by growing within a bound reaches a round that
  changes nothing.\<close>

locale growing =
  fixes f :: "'s \<Rightarrow> 's" and key :: "'s \<Rightarrow> 'k" and ok :: "'s \<Rightarrow> bool" and weight :: "'s \<Rightarrow> nat" and bound :: nat
  assumes keep: "ok x \<Longrightarrow> ok (f x)"
    and grows: "ok x \<Longrightarrow> key (f x) \<noteq> key x \<Longrightarrow> weight x < weight (f x)"
    and bounded: "ok x \<Longrightarrow> weight x \<le> bound"
begin

lemma returns:
  "ok x \<Longrightarrow> \<exists>n. grow_loop f key x = Some (f ((f ^^ n) x)) \<and> ok ((f ^^ n) x) \<and> key (f ((f ^^ n) x)) = key ((f ^^ n) x)"
proof (induction "bound - weight x" arbitrary: x rule: less_induct)
  case less
  show ?case
  proof (cases "key (f x) = key x")
    case True
    then have "grow_loop f key x = Some (f ((f ^^ 0) x))" by (simp add: grow_loop.simps)
    with less.prems True show ?thesis by (intro exI [of _ 0]) simp
  next
    case False
    have g: "weight x < weight (f x)" by (rule grows [OF less.prems False])
    have "weight (f x) \<le> bound" by (rule bounded [OF keep [OF less.prems]])
    with g have "bound - weight (f x) < bound - weight x" by linarith
    from less.hyps [OF this keep [OF less.prems]] obtain n where
      "grow_loop f key (f x) = Some (f ((f ^^ n) (f x)))" "ok ((f ^^ n) (f x))" "key (f ((f ^^ n) (f x))) = key ((f ^^ n) (f x))" by blast
    with False show ?thesis by (intro exI [of _ "Suc n"], subst grow_loop.simps) (simp add: funpow_swap1)
  qed
qed

end

text \<open>Steps that either keep the names or add one, and folds of them.\<close>

definition name_count :: "secrets \<Rightarrow> nat" where
  "name_count st = card (set (s_inline st)) + card (set (s_ref st))"

definition grown :: "secrets \<Rightarrow> secrets \<Rightarrow> bool" where
  "grown st st' \<longleftrightarrow> set (s_inline st) \<subseteq> set (s_inline st') \<and> set (s_ref st) \<subseteq> set (s_ref st')
     \<and> (names_of st' = names_of st \<or> name_count st < name_count st')"

lemma grown_refl [simp]: "grown st st"
  by (simp add: grown_def)

lemma grown_trans: "grown a b \<Longrightarrow> grown b c \<Longrightarrow> grown a c"
  by (auto simp: grown_def names_of_def name_count_def)

lemma grown_foldl: "(\<And>st x. x \<in> set xs \<Longrightarrow> grown st (g st x)) \<Longrightarrow> grown st (foldl g st xs)"
proof (induction xs arbitrary: st)
  case (Cons x xs)
  have "grown st (g st x)" by (rule Cons.prems) simp
  moreover have "grown (g st x) (foldl g (g st x) xs)" by (rule Cons.IH) (rule Cons.prems, simp)
  ultimately show ?case by (simp add: grown_trans)
qed simp

definition names_within :: "ustr set \<Rightarrow> secrets \<Rightarrow> bool" where
  "names_within N st \<longleftrightarrow> set (s_inline st) \<subseteq> N \<and> set (s_ref st) \<subseteq> N"

lemma foldl_inv: "I st \<Longrightarrow> (\<And>st x. I st \<Longrightarrow> x \<in> set xs \<Longrightarrow> I (g st x)) \<Longrightarrow> I (foldl g st xs)"
proof (induction xs arbitrary: st)
  case (Cons x xs)
  have "I (g st x)" by (rule Cons.prems(2) [OF Cons.prems(1)]) simp
  from Cons.IH [OF this] Cons.prems(2) show ?case by simp
qed simp

lemma name_count_bound: "names_within (set N) st \<Longrightarrow> name_count st \<le> 2 * card (set N)"
  unfolding name_count_def names_within_def using card_mono [of "set N"] by (metis List.finite_set add_mono mult_2)

lemma field_step_grown: "grown st (field_step crypto name st fld)"
proof -
  have "card (set (s_ref st)) \<le> card (insert name (set (s_ref st)))" by (rule card_mono) auto
  then show ?thesis by (auto simp: field_step_def Let_def grown_def names_of_def name_count_def card_insert_if)
qed

lemma field_step_within: "names_within N st \<Longrightarrow> name \<in> N \<Longrightarrow> names_within N (field_step crypto name st fld)"
  by (auto simp: field_step_def Let_def names_within_def)

lemma container_round_grown: "grown st (container_round crypto conts st)"
  unfolding container_round_def
  by (rule grown_foldl) (auto simp: container_step_def intro: grown_foldl field_step_grown split: prod.splits)

lemma container_round_within:
  assumes "names_within (set N) st" "fst ` set conts \<subseteq> set N"
  shows "names_within (set N) (container_round crypto conts st)"
  unfolding container_round_def
proof (rule foldl_inv [where I = "names_within (set N)"])
  fix st x assume st: "names_within (set N) st" and x: "x \<in> set conts"
  obtain name flds where nf: "x = (name, flds)" by (cases x)
  then have "name \<in> set N" using assms(2) x by force
  then have "names_within (set N) (foldl (field_step crypto name) st flds)"
    by (intro foldl_inv [where I = "names_within (set N)"] st) (rule field_step_within)
  with st show "names_within (set N) (container_step crypto st x)" by (simp add: container_step_def nf)
qed (rule assms(1))

interpretation co: growing "container_round crypto conts" names_of "\<lambda>st. names_within (set N) st \<and> fst ` set conts \<subseteq> set N"
    name_count "2 * card (set N)" for crypto conts N
proof
  fix st assume a: "names_within (set N) st \<and> fst ` set conts \<subseteq> set N"
  then show "names_within (set N) (container_round crypto conts st) \<and> fst ` set conts \<subseteq> set N" using container_round_within by blast
  show "name_count st \<le> 2 * card (set N)" using a name_count_bound by blast
  show "name_count st < name_count (container_round crypto conts st)" if "names_of (container_round crypto conts st) \<noteq> names_of st"
    using container_round_grown [of st crypto conts] that by (simp add: grown_def)
qed

lemma secret_alias_step_grown: "grown st (secret_alias_step ind st x)"
proof -
  have "card (set (s_ref st)) \<le> card (insert (fst x) (set (s_ref st)))" by (rule card_mono) auto
  then show ?thesis
    by (cases x) (auto simp: secret_alias_step_def grown_def names_of_def name_count_def card_insert_if)
qed

lemma secret_alias_step_within: "names_within N st \<Longrightarrow> fst x \<in> N \<Longrightarrow> names_within N (secret_alias_step ind st x)"
  by (cases x) (auto simp: secret_alias_step_def names_within_def)

interpretation al: growing "secret_alias_round ind as" names_of "\<lambda>st. names_within (set N) st \<and> fst ` set as \<subseteq> set N"
    name_count "2 * card (set N)" for ind as N
proof
  fix st assume a: "names_within (set N) st \<and> fst ` set as \<subseteq> set N"
  then show "names_within (set N) (secret_alias_round ind as st) \<and> fst ` set as \<subseteq> set N"
    unfolding secret_alias_round_def by (auto intro!: foldl_inv [where I = "names_within (set N)"] secret_alias_step_within)
  show "name_count st \<le> 2 * card (set N)" using a name_count_bound by blast
  have "grown st (secret_alias_round ind as st)" unfolding secret_alias_round_def by (rule grown_foldl) (rule secret_alias_step_grown)
  then show "name_count st < name_count (secret_alias_round ind as st)" if "names_of (secret_alias_round ind as st) \<noteq> names_of st"
    using that by (simp add: grown_def)
qed

lemma burn_round_facts:
  "set burned \<subseteq> set (burn_round pubs bodies burned) \<and> set (burn_round pubs bodies burned) \<subseteq> set burned \<union> fst ` set bodies
   \<and> (burn_round pubs bodies burned = burned \<or> card (set burned) < card (set (burn_round pubs bodies burned)))"
  unfolding burn_round_def
proof (induction bodies arbitrary: burned)
  case (Cons nb bodies)
  let ?b = "burn_step pubs burned nb"
  have s: "?b = burned \<or> (?b = burned @ [fst nb] \<and> fst nb \<notin> set burned)" by (auto simp: burn_step_def split: prod.splits)
  then have c: "?b = burned \<or> card (set burned) < card (set ?b)" by (auto simp: card_insert_if)
  have "card (set ?b) \<le> card (set (foldl (burn_step pubs) ?b bodies))" by (rule card_mono) (use Cons.IH [of ?b] in auto)
  with s c Cons.IH [of ?b] show ?case by auto
qed simp

interpretation bu: growing "burn_round pubs bodies" id "\<lambda>b. set b \<subseteq> set (N :: ustr list) \<and> fst ` set bodies \<subseteq> set N" "\<lambda>b. card (set b)" "card (set N)"
  for pubs bodies N
proof
  fix b assume a: "set b \<subseteq> set N \<and> fst ` set bodies \<subseteq> set N"
  show "set (burn_round pubs bodies b) \<subseteq> set N \<and> fst ` set bodies \<subseteq> set N" using a burn_round_facts [of b pubs bodies] by blast
  show "card (set b) < card (set (burn_round pubs bodies b))" if "id (burn_round pubs bodies b) \<noteq> id b"
    using burn_round_facts [of b pubs bodies] that by simp
  show "card (set b) \<le> card (set N)" using a by (intro card_mono) auto
qed

section \<open>Every scan returns\<close>


text \<open>The two fixpoints of \<open>derive_secret_types\<close>: the rounds the loops end in.\<close>

definition no_secrets :: secrets where
  "no_secrets = \<lparr>s_inline = [], s_ref = [], s_fields = []\<rparr>"

lemma derive_stages:
  fixes crypto fis
  defines "cr \<equiv> container_round crypto (conts_of fis)" and "ar \<equiv> secret_alias_round (all_indirect (conts_of fis)) (aliases_of fis)"
  obtains n k where "names_of (cr ((cr ^^ n) no_secrets)) = names_of ((cr ^^ n) no_secrets)"
    "names_of (ar ((ar ^^ k) (cr ((cr ^^ n) no_secrets)))) = names_of ((ar ^^ k) (cr ((cr ^^ n) no_secrets)))"
    "\<exists>env. derive_secret_types fis crypto = Some env \<and> v_derived env = s_inline ((ar ^^ k) (cr ((cr ^^ n) no_secrets)))
       \<and> set (v_ref env) = set (s_ref ((ar ^^ k) (cr ((cr ^^ n) no_secrets)))) - set (s_inline ((ar ^^ k) (cr ((cr ^^ n) no_secrets))))"
proof -
  let ?conts = "conts_of fis" and ?as = "aliases_of fis" and ?N = "map fst (conts_of fis)"
  have "names_within (set ?N) no_secrets \<and> fst ` set ?conts \<subseteq> set ?N" by (simp add: names_within_def no_secrets_def)
  from co.returns [OF this, of crypto] obtain n where
    x: "grow_loop cr names_of no_secrets = Some (cr ((cr ^^ n) no_secrets))" "names_within (set ?N) ((cr ^^ n) no_secrets)"
    "names_of (cr ((cr ^^ n) no_secrets)) = names_of ((cr ^^ n) no_secrets)" unfolding cr_def by blast
  let ?st = "cr ((cr ^^ n) no_secrets)" let ?M = "map fst ?conts @ map fst ?as"
  have "names_within (set ?N) ?st" unfolding cr_def by (rule container_round_within) (use x(2) in \<open>simp_all add: cr_def\<close>)
  then have "names_within (set ?M) ?st \<and> fst ` set ?as \<subseteq> set ?M" by (auto simp: names_within_def)
  from al.returns [OF this, of "all_indirect ?conts"] obtain k where
    y: "grow_loop ar names_of ?st = Some (ar ((ar ^^ k) ?st))" "names_of (ar ((ar ^^ k) ?st)) = names_of ((ar ^^ k) ?st)" unfolding ar_def by blast
  show thesis
  proof (rule that [OF x(3) y(2)])
    show "\<exists>env. derive_secret_types fis crypto = Some env \<and> v_derived env = s_inline ((ar ^^ k) ?st)
       \<and> set (v_ref env) = set (s_ref ((ar ^^ k) ?st)) - set (s_inline ((ar ^^ k) ?st))"
      using y(2) by (auto simp: derive_secret_types_def Let_def x(1) [unfolded cr_def no_secrets_def] y(1) [unfolded cr_def ar_def no_secrets_def]
          names_of_def cr_def ar_def no_secrets_def)
  qed
qed

lemma derive_returns: "\<exists>env. derive_secret_types fis crypto = Some env"
  by (rule derive_stages [of crypto fis]) blast

lemma prepare_returns: "\<exists>z. prepare r mo = Some z"
  using derive_returns by (auto simp: prepare_def Let_def split: option.splits prod.splits)

lemma burned_names_returns: "\<exists>rc burned. burned_names z seen dep_burned = Some (rc, burned)"
proof -
  let ?rc = "dep_call_re (dep_aliases z seen) dep_burned"
  let ?N = "map fst (z_bodies z)"
  have "set (burned_start ?rc (z_bodies z)) \<subseteq> set ?N \<and> fst ` set (z_bodies z) \<subseteq> set ?N" by (auto simp: burned_start_def)
  from bu.returns [OF this, of "fn_names z"] show ?thesis by (auto simp: burned_names_def Let_def)
qed

lemma dep_walk_modules: "set seen \<subseteq> set mods \<Longrightarrow> set (dep_walk mods deps seen todo) \<subseteq> set mods"
proof (induction mods deps seen todo rule: dep_walk.induct)
  case (1 mods deps seen todo)
  show ?case
  proof (cases "todo = []")
    case True
    with "1.prems" show ?thesis by (subst dep_walk.simps) simp
  next
    case False
    show ?thesis
    proof (cases "last todo \<in> set seen \<or> last todo \<notin> set mods")
      case True
      with False "1.IH"(1) [OF False refl True "1.prems"] show ?thesis by (simp add: dep_walk.simps [of mods deps seen todo] Let_def)
    next
      case c: False
      then have "set (seen @ [last todo]) \<subseteq> set mods" using "1.prems" by simp
      from "1.IH"(2) [OF False refl c this] False c show ?thesis by (simp add: dep_walk.simps [of mods deps seen todo] Let_def)
    qed
  qed
qed

lemma dep_closure_modules: "set (dep_closure r mo) \<subseteq> set (q_modules r)"
  unfolding dep_closure_def by (rule dep_walk_modules) simp

text \<open>Each nested scan enters a new module into the cache, so the number of modules not yet there bounds the depth.\<close>

definition missing :: "sec_repo \<Rightarrow> cache \<Rightarrow> nat" where
  "missing r cache = card (set (q_modules r) - fst ` set cache)"

lemma missing_mono: "fst ` set c \<subseteq> fst ` set c' \<Longrightarrow> missing r c' \<le> missing r c"
  unfolding missing_def by (rule card_mono) auto

lemma fold_deps_returns:
  assumes "\<And>c d. d \<in> set (q_modules r) \<Longrightarrow> missing r c < n \<Longrightarrow> \<exists>c' bu. g c d = Some (c', bu) \<and> fst ` set c \<subseteq> fst ` set c'"
  shows "set ds \<subseteq> set (q_modules r) \<Longrightarrow> missing r c < n \<Longrightarrow> \<exists>c' bu. fold_deps g c ds acc = Some (c', bu) \<and> fst ` set c \<subseteq> fst ` set c'"
proof (induction ds arbitrary: c acc)
  case (Cons d ds)
  obtain c1 b1 where c1: "g c d = Some (c1, b1)" "fst ` set c \<subseteq> fst ` set c1" using assms [of d c] Cons.prems by auto
  have "missing r c1 < n" using missing_mono [OF c1(2), of r] Cons.prems(2) by simp
  with Cons.IH [of c1] Cons.prems(1) obtain c2 b2 where "fold_deps g c1 ds (foldl (\<lambda>a n. add_name n a) acc b1) = Some (c2, b2)" "fst ` set c1 \<subseteq> fst ` set c2"
    by (meson set_subset_Cons subset_trans)
  with c1 show ?case by auto
qed simp

lemma burned_pub_returns:
  "mo \<in> set (q_modules r) \<Longrightarrow> missing r cache < n \<Longrightarrow>
     \<exists>cache' bu. burned_pub_names n r cache mo = Some (cache', bu) \<and> fst ` set cache \<subseteq> fst ` set cache'"
proof (induction n arbitrary: cache mo)
  case (Suc n)
  show ?case
  proof (cases "map_of cache mo")
    case None
    let ?c = "dict_set cache mo []"
    have keys: "fst ` set ?c = insert mo (fst ` set cache)" by (rule dict_set_keys)
    have "mo \<notin> fst ` set cache" using None by (simp add: map_of_eq_None_iff)
    then have "set (q_modules r) - fst ` set ?c \<subset> set (q_modules r) - fst ` set cache" using Suc.prems(1) unfolding keys by auto
    then have "missing r ?c < missing r cache" unfolding missing_def by (rule psubset_card_mono [rotated]) simp
    then have m: "missing r ?c < n" using Suc.prems(2) by simp
    from fold_deps_returns [of r n "burned_pub_names n r", OF _ dep_closure_modules m] Suc.IH obtain c' b where
      f: "fold_deps (burned_pub_names n r) ?c (dep_closure r mo) [] = Some (c', b)" "fst ` set ?c \<subseteq> fst ` set c'" by blast
    obtain z where z: "prepare r mo = Some z" using prepare_returns by blast
    obtain rc burned where b: "burned_names z (dep_closure r mo) b = Some (rc, burned)" using burned_names_returns by blast
    have "fst ` set cache \<subseteq> fst ` set (dict_set c' mo (filter (\<lambda>n. n \<in> set burned) (fn_names z)))"
      using f(2) unfolding dict_set_keys keys by auto
    with None f(1) z b show ?thesis by (simp add: Let_def)
  qed simp
qed simp

lemma scan_module_returns: "\<exists>cache' fs. scan_module r cache mo = Some (cache', fs)"
proof -
  have "missing r cache \<le> length (q_modules r)" unfolding missing_def
    by (rule order_trans [OF card_mono card_length]) auto
  then have m: "missing r cache < fuel_for r" by (simp add: fuel_for_def)
  have "\<exists>c' bu. fold_deps (burned_pub_names (fuel_for r) r) cache (dep_closure r mo) [] = Some (c', bu) \<and> fst ` set cache \<subseteq> fst ` set c'"
    by (rule fold_deps_returns [OF _ dep_closure_modules m]) (rule burned_pub_returns)
  then obtain c' b where
    "fold_deps (burned_pub_names (fuel_for r) r) cache (dep_closure r mo) [] = Some (c', b)" by blast
  moreover obtain z where "prepare r mo = Some z" using prepare_returns by blast
  moreover obtain rc burned where "burned_names z (dep_closure r mo) b = Some (rc, burned)" using burned_names_returns by blast
  ultimately show ?thesis by (simp add: scan_module_def)
qed

lemma scan_all_modules_returns: "\<exists>x. scan_all_modules r cache ms = Some x"
proof (induction ms arbitrary: cache)
  case (Cons m ms)
  obtain c fs where "scan_module r cache m = Some (c, fs)" using scan_module_returns by blast
  with Cons.IH [of c] show ?case by (auto split: option.splits)
qed simp

section \<open>What is secret\<close>








subsection \<open>Only the rules\<close>





subsection \<open>All of the rules\<close>












section \<open>Blanking and brackets\<close>

definition blanked :: "int \<Rightarrow> int \<Rightarrow> bool" where
  "blanked a b \<longleftrightarrow> b = a \<or> (b = 32 \<and> a \<noteq> 10)"

lemma blank_line_blanked: "10 \<notin> set l \<Longrightarrow> list_all2 blanked l (blank_line l)"
proof -
  assume n: "10 \<notin> set l"
  obtain rest where r: "l = strip_line False False l @ rest" using strip_line_prefix by blast
  have "blank_line l = strip_line False False l @ replicate (length rest) 32"
    unfolding blank_line_def Let_def using r by (metis add_diff_cancel_left' length_append)
  moreover have "list_all2 blanked (strip_line False False l) (strip_line False False l)" by (simp add: list_all2_refl blanked_def)
  moreover have "list_all2 blanked rest (replicate (length rest) 32)"
    using n r by (auto simp: list_all2_conv_all_nth blanked_def) (metis UnCI nth_mem set_append)
  ultimately show ?thesis using r by (metis list_all2_appendI)
qed

lemma join_blanked: "(\<And>l. l \<in> set ls \<Longrightarrow> list_all2 blanked l (f l)) \<Longrightarrow> list_all2 blanked (join [10] ls) (join [10] (map f ls))"
proof (induction ls)
  case (Cons l ls)
  have l: "list_all2 blanked l (f l)" using Cons.prems by simp
  have ih: "list_all2 blanked (join [10] ls) (join [10] (map f ls))" using Cons by simp
  have ten: "list_all2 blanked [10] [10]" by (simp add: blanked_def)
  show ?case
  proof (cases "ls = []")
    case False
    then show ?thesis using list_all2_appendI [OF l list_all2_appendI [OF ten ih]] by (simp only: join_Cons list.map map_is_Nil_conv if_False)
  qed (use l in simp)
qed simp

lemma blank_comments_blanked: "list_all2 blanked src (blank_comments src)"
proof -
  have "list_all2 blanked (join [10] (split_on 10 src)) (join [10] (map blank_line (split_on 10 src)))"
    by (rule join_blanked, rule blank_line_blanked, rule split_on_no_sep)
  then show ?thesis by (simp add: blank_comments_def usplit_def join_split_on)
qed

text \<open>Text with nested brackets and without quotes.\<close>

inductive balanced :: "ustr \<Rightarrow> bool" where
  bal_empty: "balanced []"
| bal_plain: "c \<notin> {34, 39, 40, 41, 91, 93, 123, 125} \<Longrightarrow> balanced x \<Longrightarrow> balanced (c # x)"
| bal_nest: "closer o1 = Some c1 \<Longrightarrow> balanced x \<Longrightarrow> balanced y \<Longrightarrow> balanced (o1 # x @ c1 # y)"

lemma closer_cases: "closer o1 = Some c1 \<Longrightarrow> o1 \<notin> {34, 39} \<and> closer c1 = None \<and> (c1 = 41 \<or> c1 = 93 \<or> c1 = 125)"
  by (auto simp: closer_def split: if_splits)

lemma match_open:
  assumes "closer o1 = Some c1"
  shows "match_loop (pre @ o1 # s) (length pre) stack False = match_loop (pre @ o1 # s) (length pre + 1) (c1 # stack) False"
  using assms closer_cases [OF assms] by (subst match_loop.simps) (simp add: match_step_def Let_def)

lemma match_shut:
  assumes "closer o1 = Some c1"
  shows "match_loop (pre @ c1 # s) (length pre) (d # stack) False =
    (if stack = [] then length pre + 1 else match_loop (pre @ c1 # s) (length pre + 1) stack False)"
  using closer_cases [OF assms] by (subst match_loop.simps) (auto simp: match_step_def Let_def)

lemma match_balanced:
  "balanced x \<Longrightarrow> stack \<noteq> [] \<Longrightarrow> match_loop (pre @ x @ post) (length pre) stack False = match_loop (pre @ x @ post) (length pre + length x) stack False"
proof (induction x arbitrary: pre post stack rule: balanced.induct)
  case (bal_plain c x)
  have "match_loop (pre @ (c # x) @ post) (length pre) stack False = match_loop (pre @ (c # x) @ post) (length pre + 1) stack False"
    using bal_plain.hyps(1) by (subst match_loop.simps) (simp add: match_step_def Let_def closer_def)
  with bal_plain.IH [of stack "pre @ [c]" post] bal_plain.prems show ?case by simp
next
  case (bal_nest o1 c1 x y)
  let ?s = "pre @ (o1 # x @ c1 # y) @ post"
  have "match_loop ?s (length pre) stack False = match_loop ?s (length pre + 1) (c1 # stack) False"
    using match_open [OF bal_nest.hyps(1), of pre "x @ c1 # y @ post" stack] by simp
  also have "\<dots> = match_loop ?s (length pre + 1 + length x) (c1 # stack) False"
    using bal_nest.IH(1) [of "c1 # stack" "pre @ [o1]" "c1 # y @ post"] by simp
  also have "\<dots> = match_loop ?s (length pre + 2 + length x) stack False"
    using match_shut [OF bal_nest.hyps(1), of "pre @ o1 # x" "y @ post" c1 stack] bal_nest.prems by simp
  also have "\<dots> = match_loop ?s (length pre + 2 + length x + length y) stack False"
    using bal_nest.IH(2) [of stack "pre @ o1 # x @ [c1]" post] bal_nest.prems by simp
  finally show ?case by (simp add: add.assoc)
qed simp

lemma match_close_balanced:
  assumes "closer o1 = Some c1" "balanced x"
  shows "match_close (pre @ o1 # x @ c1 # post) (length pre) = length pre + length x + 2"
proof -
  let ?s = "pre @ o1 # x @ c1 # post"
  have "match_close ?s (length pre) = match_loop ?s (length pre + 1) [c1] False"
    unfolding match_close_def by (rule match_open [OF assms(1)])
  also have "\<dots> = match_loop ?s (length pre + 1 + length x) [c1] False"
    using match_balanced [OF assms(2), of "[c1]" "pre @ [o1]" "c1 # post"] by simp
  also have "\<dots> = length pre + length x + 2"
    using match_shut [OF assms(1), of "pre @ o1 # x" post c1 "[]"] by simp
  finally show ?thesis .
qed

section \<open>The baseline\<close>

definition secret_header_lines :: "ustr list" where
  "secret_header_lines = butlast (usplit (CHR 0x0A) SECRET_HEADER)"

lemma secret_header_ok: "list_all is_note secret_header_lines" "last (usplit (CHR 0x0A) SECRET_HEADER) = []"
  by code_simp+

lemma SECRET_HEADER_lines: "SECRET_HEADER = concat (map (\<lambda>l. l @ [10]) secret_header_lines)"
proof -
  have "SECRET_HEADER = join [10] (split_on 10 SECRET_HEADER)" by (rule join_split_on [symmetric])
  also have "\<dots> = concat (map (\<lambda>l. l @ [10]) (butlast (split_on 10 SECRET_HEADER)))"
    by (rule join_last_empty) (use secret_header_ok(2) in \<open>simp_all add: usplit_def\<close>)
  finally show ?thesis by (simp add: secret_header_lines_def usplit_def)
qed

definition plain_row :: "ustr \<Rightarrow> bool" where
  "plain_row k \<longleftrightarrow> is_row k \<and> 10 \<notin> set k"

lemma read_written_baseline:
  assumes "list_all plain_row rows"
  shows "read_baseline (Some (baseline_text rows)) = sort (remdups rows)"
proof -
  let ?ls = "secret_header_lines @ sort (remdups rows)"
  have "10 \<notin> set l" if "l \<in> set ?ls" for l
    using that assms secret_header_ok(1) by (auto simp: list_all_iff plain_row_def is_note_def)
  from split_on_lines [of ?ls 10, OF this] have "usplit (CHR 0x0A) (baseline_text rows) = ?ls @ [[]]"
    by (simp add: usplit_def baseline_text_def SECRET_HEADER_lines)
  moreover have "filter is_row secret_header_lines = []"
    using secret_header_ok(1) is_note_not_row by (auto simp: list_all_iff filter_empty_conv)
  moreover have "filter is_row (sort (remdups rows)) = sort (remdups rows)"
    using assms by (intro filter_True) (auto simp: list_all_iff plain_row_def)
  moreover have "\<not> is_row []" by (simp add: is_row_def)
  ultimately show ?thesis by (simp add: read_baseline_def)
qed

lemma read_baseline_plain: "list_all plain_row (read_baseline b)"
  using split_on_no_sep [of _ 10] by (auto simp: read_baseline_def plain_row_def list_all_iff usplit_def split: option.splits)

lemma ratchet_equal: "set base = set got \<Longrightarrow> ratchet base got = \<lparr> w_exit = 0, w_baseline = None, w_new = [], w_gone = [] \<rparr>"
  by (auto simp: ratchet_def Let_def filter_empty_conv)

lemma baseline_irrelevant:
  "prepare (r\<lparr>q_baseline := b\<rparr>) mo = prepare r mo" "dep_closure (r\<lparr>q_baseline := b\<rparr>) mo = dep_closure r mo"
  "fuel_for (r\<lparr>q_baseline := b\<rparr>) = fuel_for r"
  by (simp_all add: prepare_def module_files_def crypto_modules_def dep_closure_def module_deps_def fuel_for_def)

lemma burned_pub_baseline: "burned_pub_names n (r\<lparr>q_baseline := b\<rparr>) = burned_pub_names n r"
proof (induction n)
  case (Suc n)
  show ?case by (intro ext) (simp add: Suc baseline_irrelevant cong: option.case_cong)
qed (simp add: fun_eq_iff)

lemma scan_all_baseline: "scan_all_modules (r\<lparr>q_baseline := b\<rparr>) cache ms = scan_all_modules r cache ms"
proof (induction ms arbitrary: cache)
  case (Cons m ms)
  have "scan_module (r\<lparr>q_baseline := b\<rparr>) cache m = scan_module r cache m"
    by (simp add: scan_module_def baseline_irrelevant burned_pub_baseline cong: option.case_cong)
  with Cons show ?case by (simp cong: option.case_cong)
qed simp

section \<open>Properties\<close>

text \<open>C28.  The gate always returns: the fixpoints settle, and the nested scans of dependencies, cyclic ones included,
  end because every nested scan enters its module into the cache first.\<close>

theorem secret_gate_returns: "\<exists>v. secret_main r args = Some v"
proof -
  obtain x where "scan_all_modules r [] (case parse_only args of Some (m # ms) \<Rightarrow> m # ms | _ \<Rightarrow> sort (q_modules r)) = Some x"
    using scan_all_modules_returns by blast
  then show ?thesis by (cases x) (auto simp: secret_main_def Let_def)
qed




definition key_file :: file_info where
  "key_file = mk_file_info (asc ''k.zig'') (asc ''const Key = struct { seed: [32]u8, }; const Share = Key; const Box = struct { s: Share, };'')"

text \<open>A container whose only secret is a field of an alias type is not derived: the alias round runs after the
  container rounds have settled and they are not run again.\<close>

theorem alias_field_missed:
  "map_option v_derived (derive_secret_types [key_file] False) = Some [asc ''Key'', asc ''Share'']
   \<and> asc ''Box'' \<notin> set (case derive_secret_types [key_file] False of Some env \<Rightarrow> v_derived env @ v_ref env | None \<Rightarrow> [])"
  by code_simp

text \<open>Blanking comments keeps offsets and line numbers: the text keeps its length, every character is kept or
  becomes a blank, no newline is lost, and the number of newlines before any position is the one of the source.\<close>

theorem blanking_keeps_offsets:
  "length (blank_comments src) = length src \<and> list_all2 blanked src (blank_comments src)
   \<and> count_list (take pos (blank_comments src)) 10 = count_list (take pos src) 10"
proof -
  have c: "list_all2 blanked xs ys \<Longrightarrow> count_list ys 10 = count_list xs 10" for xs ys
    by (induction rule: list_all2_induct) (auto simp: blanked_def)
  have "list_all2 blanked (take pos src) (take pos (blank_comments src))" by (rule list_all2_takeI [OF blank_comments_blanked])
  from c [OF this] show ?thesis using blank_comments_blanked [of src] list_all2_lengthD [of blanked src "blank_comments src"] by auto
qed

text \<open>Bracket matching finds the partner: for an opening bracket followed by balanced text and its closing bracket,
  the result is the index just after that closing bracket, whatever surrounds it.\<close>

theorem match_close_partner:
  assumes "closer o1 = Some c1" "balanced x"
  shows "match_close (pre @ o1 # x @ c1 # post) (length pre) = length pre + length x + 2"
  using assms by (rule match_close_balanced)

theorem match_close_partner_witness: "match_close (asc ''f'' @ 40 # (97 # 91 # [98] @ 93 # []) @ 41 # asc '' {)'') (length (asc ''f'')) = length (asc ''f'') + length [97 :: int, 91, 98, 93] + 2"
proof -
  have "balanced (97 # 91 # [98] @ 93 # [])"
    by (rule bal_plain, simp, rule bal_nest) (auto simp: closer_def intro: bal_plain bal_empty)
  from match_close_partner [OF _ this, of 40 41 "asc ''f''" "asc '' {)''"] show ?thesis by (simp add: closer_def)
qed

text \<open>A rewritten baseline satisfies the ratchet: after \<open>--update-baseline\<close> the run with \<open>--ratchet\<close> on the same
  sources reports nothing new and nothing gone and exits 0.\<close>

theorem update_then_ratchet:
  assumes "scan_all_modules r [] (sort (q_modules r)) = Some (Some fds)" "list_all (plain_row \<circ> finding_key) fds"
  shows "\<exists>t. secret_main r [asc ''--update-baseline''] = Some \<lparr> w_exit = 0, w_baseline = Some t, w_new = [], w_gone = [] \<rparr>
    \<and> secret_main (r\<lparr>q_baseline := Some t\<rparr>) [asc ''--ratchet''] = Some \<lparr> w_exit = 0, w_baseline = None, w_new = [], w_gone = [] \<rparr>"
proof -
  let ?got = "map finding_key fds"
  have p: "list_all plain_row ?got" using assms(2) by (simp add: list_all_iff)
  have only: "parse_only [asc ''--update-baseline''] = None" "parse_only [asc ''--ratchet''] = None" by code_simp+
  have u: "secret_main r [asc ''--update-baseline''] = Some \<lparr> w_exit = 0, w_baseline = Some (baseline_text ?got), w_new = [], w_gone = [] \<rparr>"
    using assms(1) by (simp add: secret_main_def only plain_exit_def Let_def del: asc_simps)
  have ne: "asc ''--update-baseline'' \<notin> set [asc ''--ratchet'']" "asc ''--prune'' \<notin> set [asc ''--ratchet'']" "asc ''--summary'' \<notin> set [asc ''--ratchet'']"
    by code_simp+
  have rb: "read_baseline (Some (baseline_text ?got)) = sort (remdups ?got)" by (rule read_written_baseline [OF p])
  have "ratchet (sort (remdups ?got)) ?got = \<lparr> w_exit = 0, w_baseline = None, w_new = [], w_gone = [] \<rparr>" by (rule ratchet_equal) simp
  then have "secret_main (r\<lparr>q_baseline := Some (baseline_text ?got)\<rparr>) [asc ''--ratchet''] = Some \<lparr> w_exit = 0, w_baseline = None, w_new = [], w_gone = [] \<rparr>"
    using assms(1) ne rb by (simp add: secret_main_def only scan_all_baseline Let_def del: asc_simps)
  with u show ?thesis by blast
qed

definition demo_sec_repo :: sec_repo where
  "demo_sec_repo = \<lparr> q_modules = [asc ''m''], q_files = (\<lambda>_. [(asc ''modules/m/src/root.zig'', asc ''pub fn f(sk: SecretKey) void { g(sk); }'')]),
     q_build = [], q_baseline = None \<rparr>"

theorem update_then_ratchet_witness:
  "\<exists>t. secret_main demo_sec_repo [asc ''--update-baseline''] = Some \<lparr> w_exit = 0, w_baseline = Some t, w_new = [], w_gone = [] \<rparr>
    \<and> secret_main (demo_sec_repo\<lparr>q_baseline := Some t\<rparr>) [asc ''--ratchet''] = Some \<lparr> w_exit = 0, w_baseline = None, w_new = [], w_gone = [] \<rparr>"
proof -
  let ?f = "\<lambda>k w. \<lparr> d_module = asc ''m'', d_rel = asc ''modules/m/src/root.zig'', d_line = 1, d_name = asc ''f'', d_kind = asc k, d_why = asc w \<rparr>"
  have "scan_all_modules demo_sec_repo [] (sort (q_modules demo_sec_repo)) = Some (Some [?f ''byval'' ''sk:SecretKey'', ?f ''noburn'' ''sk''])"
    by code_simp
  then show ?thesis by (rule update_then_ratchet) code_simp
qed

text \<open>Pruning never adds a row: the rows read back from the pruned baseline are rows of the old one; the rows of
  modules outside the scan all stay; and a row of a scanned module stays exactly when its finding still fires.\<close>

theorem prune_keeps_only_firing:
  "\<exists>t. w_baseline (prune (read_baseline b) got scanned) = Some t
    \<and> set (read_baseline (Some t)) = {row \<in> set (read_baseline b). row_module row \<in> set scanned \<longrightarrow> row \<in> set got}"
proof -
  let ?keep = "filter (\<lambda>x. row_module x \<notin> set scanned \<or> x \<in> set got) (read_baseline b)"
  have "list_all plain_row ?keep" using read_baseline_plain [of b] by (simp add: list_all_iff)
  from read_written_baseline [OF this] show ?thesis by (auto simp: prune_def Let_def)
qed

theorem prune_keeps_only_firing_witness:
  "\<exists>t. w_baseline (prune (read_baseline (Some (asc ''a'' @ [10] @ asc ''b''))) [asc ''b''] [asc ''a'', asc ''b'']) = Some t
    \<and> set (read_baseline (Some t)) = {asc ''b''}"
proof -
  have "read_baseline (Some (asc ''a'' @ [10] @ asc ''b'')) = [asc ''a'', asc ''b'']" by code_simp
  moreover have "row_module (asc ''a'') = asc ''a''" "row_module (asc ''b'') = asc ''b''" by code_simp+
  ultimately show ?thesis using prune_keeps_only_firing [of "Some (asc ''a'' @ [10] @ asc ''b'')" "[asc ''b'']" "[asc ''a'', asc ''b'']"] by auto
qed

end
