(* ===== verification/FuzzCoverage.thy ===== *)
theory FuzzCoverage
  imports BitcoinTx "HOL-Library.List_Lexorder"
begin

text \<open>
  \<open>scripts/lib/fuzz-coverage.py\<close>: the coverage maps of the fuzzer, the ELF section that identifies the executable, the
  resolved addresses and the report.  The files and the output of \<open>addr2line\<close> are arguments.
\<close>

section \<open>Coverage maps\<close>

record cov =
  cv_runs :: int
  cv_unique :: int
  cv_pcs_len :: nat
  cv_bits :: bytes
  cv_pcs :: "int list"

text \<open>\<open>struct.unpack_from("<Q", data, off)\<close> where the data is long enough.\<close>

definition u64_at :: "bytes \<Rightarrow> nat \<Rightarrow> int" where
  "u64_at data off = from_le (slice off (off + 8) data)"

definition words_for :: "nat \<Rightarrow> nat" where
  "words_for n = (n + 63) div 64"

definition read_cov :: "bytes \<Rightarrow> cov option" where
  "read_cov data =
     (if length data < 24 then None
      else (let runs = u64_at data 0; unique = u64_at data 8; pcs_len = nat (u64_at data 16); words = words_for pcs_len in
        if pcs_len = 0 \<or> length data \<noteq> 24 + 8 * words + 8 * pcs_len then None
        else Some \<lparr> cv_runs = runs, cv_unique = unique, cv_pcs_len = pcs_len, cv_bits = slice 24 (24 + 8 * words) data,
          cv_pcs = map (\<lambda>i. u64_at data (24 + 8 * words + 8 * i)) [0..<pcs_len] \<rparr>))"

text \<open>Removing the lowest set bit makes a positive number smaller.\<close>

lemma and_minus_odd: "odd (v :: int) \<Longrightarrow> v AND - v = 1"
proof -
  assume o: "odd v"
  have "(- v) div 2 = NOT (v div 2)" using o by (auto simp: not_int_def elim!: oddE)
  then have "v AND - v = of_bool (odd v \<and> odd (- v)) + 2 * ((v div 2) AND NOT (v div 2))" by (subst and_rec) simp
  with o show ?thesis by simp
qed

lemma and_minus_even: "v AND - v = 2 * ((v div 2) AND - (v div 2))" if "even (v :: int)"
proof -
  have "(- v) div 2 = - (v div 2)" using that by (auto elim!: evenE)
  moreover have "v AND - v = of_bool (odd v \<and> odd (- v)) + 2 * ((v div 2) AND (- v) div 2)" by (rule and_rec)
  ultimately show ?thesis using that by simp
qed

lemma low_bit: "0 < (v :: int) \<Longrightarrow> \<exists>k. v AND - v = 2 ^ k \<and> bit v k"
proof (induction "nat v" arbitrary: v rule: less_induct)
  case less
  show ?case
  proof (cases "odd v")
    case True
    then have "v AND - v = 2 ^ 0 \<and> bit v 0" by (simp add: and_minus_odd bit_0)
    then show ?thesis by blast
  next
    case False
    then have h: "0 < v div 2" using less.prems by presburger
    have "v div 2 < v" using less.prems by simp
    with less.prems have "nat (v div 2) < nat v" by simp
    from less.hyps [OF this h] obtain k where "v div 2 AND - (v div 2) = 2 ^ k" "bit (v div 2) k" by blast
    then have "v AND - v = 2 ^ Suc k \<and> bit v (Suc k)" using False by (simp add: and_minus_even bit_Suc)
    then show ?thesis by blast
  qed
qed

lemma xor_low_bit:
  assumes "bit (v :: int) k"
  shows "v XOR 2 ^ k = v - 2 ^ k"
proof -
  have "v XOR 2 ^ k = unset_bit k v"
    by (rule bit_eqI) (auto simp: bit_simps assms)
  also have "\<dots> = v - 2 ^ k" using assms by (simp add: unset_bit_eq)
  finally show ?thesis .
qed

function set_bits_of :: "nat \<Rightarrow> nat \<Rightarrow> int \<Rightarrow> nat list" where
  "set_bits_of base n v =
     (if v \<le> 0 then []
      else (let low = v AND - v; i = base + bit_length (nat low) - 1 in
        (if i < n then [i] else []) @ set_bits_of base n (v XOR low)))"
  by pat_completeness auto
termination
proof (relation "measure (\<lambda>(base, n, v). nat v)", goal_cases)
  case (2 base n v low i)
  then obtain k where "low = 2 ^ k" "bit v k" using low_bit [of v] by force
  then have "v XOR low < v" using xor_low_bit [of v k] by simp
  with 2 show ?case by simp
qed simp

declare set_bits_of.simps [simp del]

definition seen_set :: "bytes \<Rightarrow> nat \<Rightarrow> nat list" where
  "seen_set bits pcs_len = concat (map (\<lambda>w. set_bits_of (w * 64) pcs_len (from_le (slice (8 * w) (8 * w + 8) bits))) [0..<words_for pcs_len])"

text \<open>The snapshot: what \<open>json.dump\<close> is given.\<close>

type_synonym snapshot = "(ustr \<times> int \<times> int \<times> ustr) list"

definition cmd_snapshot :: "(ustr \<times> bytes) list \<Rightarrow> snapshot" where
  "cmd_snapshot files = foldl (\<lambda>d (name, data). case read_cov data of None \<Rightarrow> d
     | Some c \<Rightarrow> dict_set d name (cv_runs c, cv_unique c, uhex (cv_bits c))) [] (sort_key fst files)"

section \<open>Executables\<close>

text \<open>\<open>struct.unpack_from\<close> with its length check.\<close>

definition unpack_le :: "nat \<Rightarrow> bytes \<Rightarrow> nat \<Rightarrow> nat result" where
  "unpack_le k data off = (if off + k \<le> length data then Inr (nat (from_le (slice off (off + k) data))) else Inl StructError)"

fun read_secs :: "bytes \<Rightarrow> nat \<Rightarrow> nat \<Rightarrow> nat \<Rightarrow> (nat \<times> nat \<times> nat \<times> nat) list result" where
  "read_secs table shentsize i 0 = Inr []"
| "read_secs table shentsize i (Suc n) =
     (let off = i * shentsize in
      rbind (unpack_le 4 table off) (\<lambda>name. rbind (unpack_le 4 table (off + 4)) (\<lambda>typ.
      rbind (unpack_le 8 table (off + 24)) (\<lambda>offset. rbind (unpack_le 8 table (off + 32)) (\<lambda>sz.
      rbind (read_secs table shentsize (i + 1) n) (\<lambda>secs. Inr ((name, typ, offset, sz) # secs)))))))"

text \<open>The name of a section; without a terminator Python cuts off the last byte.\<close>

definition section_name :: "bytes \<Rightarrow> nat \<Rightarrow> bytes" where
  "section_name strtab name = (case find_from [0] strtab name of Some e \<Rightarrow> slice name e strtab | None \<Rightarrow> slice name (length strtab - 1) strtab)"

text \<open>\<open>f.seek(off)\<close> and \<open>f.read(sz)\<close>: both take a signed 64-bit number; the first raises \<open>ValueError\<close> for a larger one, the second \<open>OverflowError\<close>.\<close>

definition read_at :: "bytes \<Rightarrow> nat \<Rightarrow> nat \<Rightarrow> bytes result" where
  "read_at file off sz = (if 2 ^ 63 \<le> int off then Inl ValueError else if 2 ^ 63 \<le> int sz then Inl OverflowError else Inr (slice off (off + sz) file))"

fun find_section :: "bytes \<Rightarrow> bytes \<Rightarrow> bytes \<Rightarrow> (nat \<times> nat \<times> nat \<times> nat) list \<Rightarrow> bytes option result" where
  "find_section file strtab want [] = Inr None"
| "find_section file strtab want ((name, typ, offset, sz) # secs) =
     (if section_name strtab name = want
      then rbind (read_at file offset sz) (\<lambda>b. Inr (Some (if typ \<noteq> 8 then b else replicate sz 0)))
      else find_section file strtab want secs)"

definition elf_section :: "bytes \<Rightarrow> bytes \<Rightarrow> bytes option result" where
  "elf_section file want =
     (let ident = slice 0 64 file in
      if length ident < 64 \<or> slice 0 4 ident \<noteq> [0x7F, 0x45, 0x4C, 0x46] \<or> ident ! 4 \<noteq> 2 \<or> ident ! 5 \<noteq> 1 then Inr None
      else (let shoff = nat (from_le (slice 0x28 0x30 ident)); shentsize = nat (from_le (slice 0x3A 0x3C ident));
                shnum = nat (from_le (slice 0x3C 0x3E ident)); shstrndx = nat (from_le (slice 0x3E 0x40 ident)) in
        if shoff = 0 \<or> shentsize < 64 \<or> shnum = 0 then Inr None
        else rbind (read_at file shoff (shentsize * shnum)) (\<lambda>table.
          rbind (read_secs table shentsize 0 shnum) (\<lambda>secs.
          if length secs \<le> shstrndx then Inl IndexError
          else (case secs ! shstrndx of (_, _, stroff, strsize) \<Rightarrow>
            rbind (read_at file stroff strsize) (\<lambda>strtab. find_section file strtab want secs))))))"

datatype exe_match = ByContent ustr | BySize ustr | NoMatch nat | NoCache

definition pack_pcs :: "int list \<Rightarrow> bytes" where
  "pack_pcs pcs = concat (map (le_bytes 8) pcs)"

fun find_exe_loop :: "bytes \<Rightarrow> (ustr \<times> bytes) list \<Rightarrow> ustr list \<Rightarrow> exe_match result" where
  "find_exe_loop want [] size_only = Inr (if length size_only = 1 then BySize (hd size_only) else NoMatch (length size_only))"
| "find_exe_loop want ((p, file) # exes) size_only =
     rbind (elf_section file (asc ''__sancov_pcs1'')) (\<lambda>sec. case sec of
        None \<Rightarrow> find_exe_loop want exes size_only
      | Some s \<Rightarrow> if length s \<noteq> length want then find_exe_loop want exes size_only
          else if s = want then Inr (ByContent p) else find_exe_loop want exes (size_only @ [p]))"

text \<open>\<open>exes\<close>: the files \<open>o/*/module\<close> in directory order, \<open>None\<close> without the directory.\<close>

definition find_exe :: "(ustr \<times> bytes) list option \<Rightarrow> cov \<Rightarrow> exe_match result" where
  "find_exe exes c = (case exes of None \<Rightarrow> Inr NoCache | Some xs \<Rightarrow> find_exe_loop (pack_pcs (cv_pcs c)) xs [])"

section \<open>Resolved addresses\<close>

text \<open>Lines of the output; \<open>addr2line\<close> writes no other line separator.\<close>

definition out_lines :: "ustr \<Rightarrow> ustr list" where
  "out_lines t = (let ls = usplit (CHR 0x0A) t in if last ls = [] then butlast ls else ls)"

text \<open>\<open>s.rpartition(sep)\<close>: what precedes and what follows the last separator, the whole text second without one.\<close>

definition rpartition :: "int \<Rightarrow> ustr \<Rightarrow> ustr \<times> ustr" where
  "rpartition c s = (if c \<in> set s then (rev (drop 1 (dropWhile (\<lambda>x. x \<noteq> c) (rev s))), rev (takeWhile (\<lambda>x. x \<noteq> c) (rev s))) else ([], s))"

text \<open>The line number of a frame; \<open>addr2line\<close> prints ASCII digits or a question mark, so digits of other scripts are left out.\<close>

definition digits_to_int :: "ustr \<Rightarrow> int" where
  "digits_to_int ln = (if ln \<noteq> [] \<and> list_all u_digit ln then (case parse_int ln of Inr n \<Rightarrow> n | Inl _ \<Rightarrow> 0) else 0)"

type_synonym frame = "ustr \<times> ustr \<times> int"

definition resolve_step :: "frame list list \<times> ustr option \<Rightarrow> ustr \<Rightarrow> frame list list \<times> ustr option" where
  "resolve_step st l = (case st of (out, func) \<Rightarrow>
     if startswith l (asc ''0x'') \<and> func = None then (out @ [[]], None)
     else if out = [] then st
     else (case func of None \<Rightarrow> (out, Some l)
       | Some fn \<Rightarrow> (case rpartition 58 l of (path, ln) \<Rightarrow>
           (out[length out - 1 := last out @ [(fn, path, digits_to_int (hd (usplit (CHR 0x20) ln)))]], None))))"

definition resolve :: "ustr \<Rightarrow> frame list list" where
  "resolve stdout1 = fst (foldl resolve_step ([], None) (out_lines stdout1))"

section \<open>Reach items\<close>

definition split_paren_step :: "ustr list \<times> int \<times> ustr \<Rightarrow> int \<Rightarrow> ustr list \<times> int \<times> ustr" where
  "split_paren_step st c = (case st of (parts, d, cur) \<Rightarrow>
     (let d' = (if c = 40 then d + 1 else if c = 41 then d - 1 else d) in
      if c = 44 \<and> d' = 0 then (parts @ [cur], d', []) else (parts, d', cur @ [c])))"

definition split_paren :: "ustr \<Rightarrow> ustr list" where
  "split_paren spec = (case foldl split_paren_step ([], 0, []) spec of (parts, d, cur) \<Rightarrow>
     filter (\<lambda>p. p \<noteq> []) (map ustrip (parts @ [cur])))"

datatype reach_item = ReachFn ustr ustr | ReachLine ustr ustr int int

definition parse_reach_item :: "ustr \<Rightarrow> reach_item result" where
  "parse_reach_item part =
     (if startswith part (asc ''fn:'') then Inr (ReachFn part (drop 3 part))
      else (case rpartition 58 part of (f, rng) \<Rightarrow>
        if f = [] \<or> rng = [] then Inl (SystemExit ''bad reach item'')
        else (let a = takeWhile (\<lambda>x. x \<noteq> 45) rng; b = drop 1 (dropWhile (\<lambda>x. x \<noteq> 45) rng) in
          rbind (parse_int a) (\<lambda>lo. rbind (parse_int (if b \<noteq> [] then b else a)) (\<lambda>hi. Inr (ReachLine part f lo hi))))))"

definition parse_reach :: "ustr \<Rightarrow> reach_item list result" where
  "parse_reach spec = rmap parse_reach_item (split_paren spec)"

section \<open>The report\<close>

datatype reach_verdict = NO_PC | MISS | HIT

definition frames_at :: "frame list list \<Rightarrow> nat \<Rightarrow> frame list" where
  "frames_at frames i = (if i < length frames then frames ! i else [])"

definition item_pcs :: "frame list list \<Rightarrow> nat \<Rightarrow> reach_item \<Rightarrow> nat list" where
  "item_pcs frames n item = filter (\<lambda>i. case item of
       ReachFn _ f \<Rightarrow> list_ex (\<lambda>(fn, _, _). contains f fn) (frames_at frames i)
     | ReachLine _ f a z \<Rightarrow> list_ex (\<lambda>(_, p, ln). (endswith p (47 # f) \<or> p = f) \<and> a \<le> ln \<and> ln \<le> z) (frames_at frames i)) [0..<n]"

text \<open>The verdict on an item and the numbers printed with it: seen, all, first seen in this run.\<close>

definition item_verdict :: "frame list list \<Rightarrow> nat \<Rightarrow> nat list \<Rightarrow> nat list \<Rightarrow> reach_item \<Rightarrow> reach_verdict \<times> nat \<times> nat \<times> nat" where
  "item_verdict frames n seen_now seen_then item =
     (let here = item_pcs frames n item; hit = filter (\<lambda>i. i \<in> set seen_now) here; new = filter (\<lambda>i. i \<notin> set seen_then) hit in
      (if here = [] then NO_PC else if hit = [] then MISS else HIT, length hit, length here, length new))"

text \<open>Per source file of the module: the PCs whose chain touches it, and those seen.\<close>

definition file_counts :: "ustr \<Rightarrow> frame list list \<Rightarrow> nat \<Rightarrow> nat list \<Rightarrow> (ustr \<times> nat \<times> nat) list" where
  "file_counts src_marker frames n seen_now =
     (let files = (\<lambda>i. remdups (filter (contains src_marker) (map (\<lambda>(_, p, _). p) (frames_at frames i))));
          all_files = sort (remdups (concat (map files [0..<n])))
      in map (\<lambda>p. (p, length (filter (\<lambda>i. p \<in> set (files i)) [0..<n]), length (filter (\<lambda>i. p \<in> set (files i) \<and> i \<in> set seen_now) [0..<n]))) all_files)"

record kv =
  k_runs_delta :: int
  k_maps :: nat
  k_reach_items :: nat
  k_reach_miss :: nat
  k_exe :: "ustr option"
  k_verdicts :: "(ustr \<times> (reach_verdict \<times> nat \<times> nat \<times> nat) list) list"
  k_files :: "(ustr \<times> (ustr \<times> nat \<times> nat) list) list"

definition exe_path :: "exe_match \<Rightarrow> ustr option" where
  "exe_path e = (case e of ByContent p \<Rightarrow> Some p | BySize p \<Rightarrow> Some p | _ \<Rightarrow> None)"

text \<open>One map of the cache.  \<open>addr2line\<close> gives the output for an executable and its addresses.\<close>

definition report_map :: "(ustr \<Rightarrow> int list \<Rightarrow> ustr) \<Rightarrow> (ustr \<times> bytes) list option \<Rightarrow> snapshot \<Rightarrow> ustr \<Rightarrow> reach_item list \<Rightarrow> kv \<Rightarrow> ustr \<times> bytes \<Rightarrow> kv result" where
  "report_map addr2line exes before src_marker reach k nd = (case nd of (name, data) \<Rightarrow>
     case read_cov data of None \<Rightarrow> Inr k
     | Some c \<Rightarrow>
         (let runs0 = (case map_of before name of None \<Rightarrow> 0 | Some (r, _, _) \<Rightarrow> r) in
          if cv_runs c = runs0 then Inr k
          else rbind (case map_of before name of None \<Rightarrow> Inr [] | Some (_, _, h) \<Rightarrow> fromhex h) (\<lambda>old_bits.
            (let n = cv_pcs_len c; seen_now = seen_set (cv_bits c) n; seen_then = seen_set old_bits n;
                 k1 = k\<lparr>k_maps := k_maps k + 1, k_runs_delta := k_runs_delta k + (cv_runs c - runs0)\<rparr> in
             rbind (find_exe exes c) (\<lambda>e. case exe_path e of
                None \<Rightarrow> Inr (k1\<lparr>k_reach_miss := k_reach_miss k1 + length reach\<rparr>)
              | Some exe \<Rightarrow>
                  (let frames = resolve (addr2line exe (cv_pcs c)); vs = map (item_verdict frames n seen_now seen_then) reach in
                   Inr (k1\<lparr>k_exe := Some exe, k_reach_miss := k_reach_miss k1 + length (filter (\<lambda>v. fst v \<noteq> HIT) vs),
                     k_verdicts := k_verdicts k1 @ [(name, vs)], k_files := k_files k1 @ [(name, file_counts src_marker frames n seen_now)]\<rparr>)))))))"

fun report_maps :: "(kv \<Rightarrow> ustr \<times> bytes \<Rightarrow> kv result) \<Rightarrow> kv \<Rightarrow> (ustr \<times> bytes) list \<Rightarrow> kv result" where
  "report_maps f k [] = Inr k"
| "report_maps f k (x # xs) = rbind (f k x) (\<lambda>k'. report_maps f k' xs)"

definition cmd_report :: "(ustr \<Rightarrow> int list \<Rightarrow> ustr) \<Rightarrow> (ustr \<times> bytes) list \<Rightarrow> (ustr \<times> bytes) list option \<Rightarrow> snapshot \<Rightarrow> ustr \<Rightarrow> ustr \<Rightarrow> kv result" where
  "cmd_report addr2line files exes before mo reach_spec =
     rbind (if reach_spec \<noteq> [] then parse_reach reach_spec else Inr []) (\<lambda>reach.
       report_maps (report_map addr2line exes before (asc ''/modules/'' @ mo @ asc ''/src/'') reach)
         \<lparr> k_runs_delta = 0, k_maps = 0, k_reach_items = length reach, k_reach_miss = 0, k_exe = None, k_verdicts = [], k_files = [] \<rparr>
         (sort_key fst files))"

definition kv_text :: "kv \<Rightarrow> ustr" where
  "kv_text k = concat (map (\<lambda>(n, v). asc n @ [61] @ v @ [10])
     ([(''runs_delta'', ushow (k_runs_delta k)), (''maps'', ushow (int (k_maps k))), (''reach_items'', ushow (int (k_reach_items k))),
       (''reach_miss'', ushow (int (k_reach_miss k)))] @ (case k_exe k of None \<Rightarrow> [] | Some e \<Rightarrow> [(''exe'', e)])))"


text \<open>The command line: a snapshot without its output file passes the guard and then fails on \<open>argv[3]\<close>.\<close>

datatype fuzz_command = Snapshot ustr ustr | Report ustr ustr ustr ustr ustr | FuzzUsage

definition fuzz_main :: "ustr list \<Rightarrow> fuzz_command result" where
  "fuzz_main argv =
     (if length argv \<ge> 3 \<and> argv ! 1 = asc ''snapshot'' then (if length argv = 3 then Inl IndexError else Inr (Snapshot (argv ! 2) (argv ! 3)))
      else if length argv \<ge> 6 \<and> argv ! 1 = asc ''report''
      then Inr (Report (argv ! 2) (argv ! 3) (argv ! 4) (argv ! 5) (if length argv > 6 then argv ! 6 else []))
      else Inr FuzzUsage)"

end
