(* ===== verification/FuzzCoverage_Props.thy ===== *)
theory FuzzCoverage_Props
  imports FuzzCoverage
begin

text \<open>
  Properties of the coverage maps: the set of seen PCs is the set of one bits of the map's words, a map file is its header, its words
  and its addresses and nothing else, and a report without a miss rests on resolved executables.
\<close>

section \<open>Seen PCs\<close>

lemma bit_length_pow2 [simp]: "bit_length (2 ^ k) = Suc k"
proof (induction k)
  case (Suc k)
  have "bit_length (2 ^ Suc k) = Suc (bit_length (2 ^ Suc k div 2))" by (subst bit_length.simps) simp
  with Suc show ?case by simp
qed (simp add: bit_length.simps)

lemma bit_from_le:
  assumes "is_bytes bs"
  shows "bit (from_le bs) i \<longleftrightarrow> i div 8 < length bs \<and> bit (bs ! (i div 8)) (i mod 8)"
  using assms
proof (induction bs arbitrary: i)
  case (Cons b bs)
  then have b: "take_bit 8 b = b" by (simp add: is_byte_def take_bit_int_eq_self)
  then have "from_le (b # bs) = concat_bit 8 b (from_le bs)" by (simp add: concat_bit_eq push_bit_eq_mult)
  then have "bit (from_le (b # bs)) i \<longleftrightarrow> (if i < 8 then bit b i else bit (from_le bs) (i - 8))"
    by (auto simp: bit_concat_bit_iff)
  also have "\<dots> \<longleftrightarrow> i div 8 < length (b # bs) \<and> bit ((b # bs) ! (i div 8)) (i mod 8)"
  proof (cases "i < 8")
    case False
    then obtain j where "i = j + 8" by (metis add.commute le_Suc_ex not_less)
    moreover have "(j + 8) div 8 = Suc (j div 8)" by presburger
    ultimately show ?thesis using Cons by simp
  qed simp
  finally show ?case .
qed simp

lemma bit_from_le_word:
  assumes "is_bytes bs"
  shows "bit (from_le (slice (8 * w) (8 * w + 8) bs)) k \<longleftrightarrow> k < 64 \<and> bit (from_le bs) (w * 64 + k)"
proof -
  have "is_bytes (slice (8 * w) (8 * w + 8) bs)" using assms by (auto simp: slice_def is_bytes_def list_all_iff dest: in_set_takeD in_set_dropD)
  moreover have "(w * 64 + k) div 8 = 8 * w + k div 8" "(w * 64 + k) mod 8 = k mod 8" by presburger+
  ultimately show ?thesis using assms by (auto simp: bit_from_le slice_def)
qed

lemma set_set_bits_of:
  assumes "0 \<le> v"
  shows "set (set_bits_of base n v) = {i. i < n \<and> (\<exists>k. i = base + k \<and> bit v k)} \<and> distinct (set_bits_of base n v)"
  using assms
proof (induction base n v rule: set_bits_of.induct)
  case (1 base n v)
  show ?case
  proof (cases "v = 0")
    case True
    then show ?thesis by (simp add: set_bits_of.simps)
  next
    case False
    with "1.prems" have pos: "0 < v" by simp
    then obtain k where k: "v AND - v = 2 ^ k" "bit v k" using low_bit by blast
    have x: "v XOR 2 ^ k = unset_bit k v" by (rule bit_eqI) (auto simp: bit_simps k(2))
    have i: "bit_length (nat (2 ^ k)) = Suc k" by (simp add: nat_power_eq)
    have u: "0 \<le> unset_bit k v" using "1.prems" by simp
    have IH: "set (set_bits_of base n (unset_bit k v)) = {i. i < n \<and> (\<exists>j. i = base + j \<and> bit (unset_bit k v) j)}"
        "distinct (set_bits_of base n (unset_bit k v))"
      using "1.IH" [OF _ refl refl] pos u k(1) x by auto
    have "set_bits_of base n v = (if base + k < n then [base + k] else []) @ set_bits_of base n (unset_bit k v)"
      using pos by (subst set_bits_of.simps) (simp add: Let_def k(1) i x)
    with IH k(2) show ?thesis by (auto simp: bit_simps)
  qed
qed

lemma set_seen_set:
  assumes "is_bytes bits"
  shows "set (seen_set bits n) = {i. i < n \<and> bit (from_le bits) i}"
proof -
  have nn: "0 \<le> from_le (slice (8 * w) (8 * w + 8) bits)" for w
    using assms from_le_bounds [of "slice (8 * w) (8 * w + 8) bits"]
    by (auto simp: slice_def is_bytes_def list_all_iff dest: in_set_takeD in_set_dropD)
  have "i \<in> set (seen_set bits n) \<longleftrightarrow> (\<exists>w<words_for n. \<exists>k<64. i < n \<and> i = w * 64 + k \<and> bit (from_le bits) i)" for i
    using assms by (auto simp: seen_set_def set_set_bits_of [OF nn] bit_from_le_word)
  moreover have "(\<exists>w<words_for n. \<exists>k<64. i < n \<and> i = w * 64 + k \<and> b) \<longleftrightarrow> i < n \<and> b" for i and b :: bool
  proof -
    have "i < n \<Longrightarrow> i div 64 < words_for n \<and> i mod 64 < 64 \<and> i = i div 64 * 64 + i mod 64"
      unfolding words_for_def by auto
    then show ?thesis by blast
  qed
  ultimately show ?thesis by auto
qed

text \<open>
  C35: the loop that repeatedly takes the lowest set bit of each 64-bit word computes exactly the indexes below the number of PCs whose
  bit is one in the little-endian integer of the whole map, whatever the length of the bytes (a snapshot of a shorter map included).
\<close>

theorem seen_set_is_set_bits:
  assumes "is_bytes bits"
  shows "set (seen_set bits pcs_len) = {i. i < pcs_len \<and> bit (from_le bits) i}"
  using assms by (rule set_seen_set)

theorem seen_set_is_set_bits_witness:
  "is_bytes [5, 128] \<and> set (seen_set [5, 128] 70) = {i. i < 70 \<and> bit (from_le [5, 128]) i}"
  using seen_set_is_set_bits [of "[5, 128]" 70] by (simp add: is_byte_def)

section \<open>Map files\<close>

definition cov_wf :: "cov \<Rightarrow> bool" where
  "cov_wf c \<longleftrightarrow> 0 \<le> cv_runs c \<and> cv_runs c < 2 ^ 64 \<and> 0 \<le> cv_unique c \<and> cv_unique c < 2 ^ 64
     \<and> 0 < cv_pcs_len c \<and> cv_pcs_len c < 2 ^ 64 \<and> is_bytes (cv_bits c) \<and> length (cv_bits c) = 8 * words_for (cv_pcs_len c)
     \<and> length (cv_pcs c) = cv_pcs_len c \<and> list_all (\<lambda>a. 0 \<le> a \<and> a < 2 ^ 64) (cv_pcs c)"

text \<open>The layout that \<open>SeenPcsHeader\<close> documents.\<close>

definition cov_bytes :: "cov \<Rightarrow> bytes" where
  "cov_bytes c = le_bytes 8 (cv_runs c) @ le_bytes 8 (cv_unique c) @ le_bytes 8 (int (cv_pcs_len c)) @ cv_bits c @ pack_pcs (cv_pcs c)"

lemma length_pack_pcs [simp]: "length (pack_pcs pcs) = 8 * length pcs"
  by (induction pcs) (simp_all add: pack_pcs_def)

lemma u64_at_le_bytes:
  assumes "0 \<le> v" "v < 2 ^ 64" "length pre = off"
  shows "u64_at (pre @ le_bytes 8 v @ post) off = v"
proof -
  have "slice off (off + 8) (pre @ le_bytes 8 v @ post) = le_bytes 8 v" using assms(3) by (simp add: slice_def del: le_bytes.simps)
  then show ?thesis using assms(1,2) by (simp add: u64_at_def from_le_le_bytes del: le_bytes.simps)
qed

lemma u64_at_pack_pcs:
  assumes "list_all (\<lambda>a. 0 \<le> a \<and> a < 2 ^ 64) pcs" "i < length pcs" "length pre = off"
  shows "u64_at (pre @ pack_pcs pcs) (off + 8 * i) = pcs ! i"
proof -
  have "pack_pcs pcs = pack_pcs (take i pcs) @ le_bytes 8 (pcs ! i) @ pack_pcs (drop (Suc i) pcs)"
    using id_take_nth_drop [OF assms(2)] unfolding pack_pcs_def by (metis concat.simps(2) concat_append list.simps(9) map_append)
  then show ?thesis
    using u64_at_le_bytes [of "pcs ! i" "pre @ pack_pcs (take i pcs)" "off + 8 * i" "pack_pcs (drop (Suc i) pcs)"] assms
    by (auto simp: list_all_length)
qed


lemma slice_join: "i \<le> j \<Longrightarrow> j \<le> k \<Longrightarrow> slice i j xs @ slice j k xs = slice i k xs"
proof -
  assume h: "i \<le> j" "j \<le> k"
  then have "k - i = (j - i) + (k - j)" "drop (j - i) (drop i xs) = drop j xs" by simp_all
  then show ?thesis unfolding slice_def by (simp only: take_add)
qed

lemma u64_at_bounds:
  assumes "is_bytes data" "off + 8 \<le> length data"
  shows "0 \<le> u64_at data off \<and> u64_at data off < 2 ^ 64 \<and> le_bytes 8 (u64_at data off) = slice off (off + 8) data"
proof -
  have l: "length (slice off (off + 8) data) = 8" using assms(2) by (simp add: length_slice)
  have "0 \<le> u64_at data off \<and> u64_at data off < 256 ^ 8"
    using from_le_bounds [OF is_bytes_slice [OF assms(1), of off "off + 8"]] l unfolding u64_at_def by simp
  moreover have "le_bytes 8 (u64_at data off) = slice off (off + 8) data"
    unfolding u64_at_def by (rule le_bytes_from_le [OF is_bytes_slice [OF assms(1)]]) (simp add: l)
  ultimately show ?thesis by simp
qed

lemma pack_pcs_read:
  assumes "is_bytes data" "off + 8 * n \<le> length data"
  shows "pack_pcs (map (\<lambda>i. u64_at data (off + 8 * i)) [0..<n]) = slice off (off + 8 * n) data"
  using assms(2)
proof (induction n)
  case 0
  then show ?case by (simp add: pack_pcs_def slice_def)
next
  case (Suc n)
  then have "pack_pcs (map (\<lambda>i. u64_at data (off + 8 * i)) [0..<Suc n]) = slice off (off + 8 * n) data @ slice (off + 8 * n) (off + 8 * n + 8) data"
    using u64_at_bounds [OF assms(1), of "off + 8 * n"] by (simp add: pack_pcs_def del: le_bytes.simps)
  also have "\<dots> = slice off (off + 8 * Suc n) data" by (subst slice_join) (simp_all add: ac_simps)
  finally show ?case .
qed

lemma read_cov_bytes:
  assumes "cov_wf c"
  shows "read_cov (cov_bytes c) = Some c"
proof -
  let ?d = "cov_bytes c" and ?w = "8 * words_for (cv_pcs_len c)"
  note wf = assms [unfolded cov_wf_def]
  have u: "u64_at ?d 0 = cv_runs c" "u64_at ?d 8 = cv_unique c" "u64_at ?d 16 = int (cv_pcs_len c)"
    using wf u64_at_le_bytes [of "cv_runs c" "[]" 0 "le_bytes 8 (cv_unique c) @ le_bytes 8 (int (cv_pcs_len c)) @ cv_bits c @ pack_pcs (cv_pcs c)"]
      u64_at_le_bytes [of "cv_unique c" "le_bytes 8 (cv_runs c)" 8 "le_bytes 8 (int (cv_pcs_len c)) @ cv_bits c @ pack_pcs (cv_pcs c)"]
      u64_at_le_bytes [of "int (cv_pcs_len c)" "le_bytes 8 (cv_runs c) @ le_bytes 8 (cv_unique c)" 16 "cv_bits c @ pack_pcs (cv_pcs c)"]
    by (simp_all add: cov_bytes_def del: le_bytes.simps)
  have b: "slice 24 (24 + ?w) ?d = cv_bits c" using wf by (simp add: slice_def cov_bytes_def del: le_bytes.simps)
  have "u64_at ?d (24 + ?w + 8 * i) = cv_pcs c ! i" if "i < cv_pcs_len c" for i
    using u64_at_pack_pcs [of "cv_pcs c" i "le_bytes 8 (cv_runs c) @ le_bytes 8 (cv_unique c) @ le_bytes 8 (int (cv_pcs_len c)) @ cv_bits c" "24 + ?w"] wf that
    by (simp add: cov_bytes_def del: le_bytes.simps)
  then have p: "map (\<lambda>i. u64_at ?d (24 + ?w + 8 * i)) [0..<cv_pcs_len c] = cv_pcs c"
    using wf by (auto intro!: nth_equalityI)
  have l: "length ?d = 24 + ?w + 8 * cv_pcs_len c" using wf by (simp add: cov_bytes_def del: le_bytes.simps)
  show ?thesis using wf unfolding read_cov_def Let_def u nat_int b p l by simp
qed

lemma read_cov_Some:
  assumes "is_bytes data" "read_cov data = Some c"
  shows "cov_wf c \<and> data = cov_bytes c"
proof -
  let ?n = "nat (u64_at data 16)" and ?w = "8 * words_for (nat (u64_at data 16))"
  have l: "length data = 24 + ?w + 8 * ?n" "?n \<noteq> 0"
    and c: "c = \<lparr> cv_runs = u64_at data 0, cv_unique = u64_at data 8, cv_pcs_len = ?n, cv_bits = slice 24 (24 + ?w) data,
      cv_pcs = map (\<lambda>i. u64_at data (24 + ?w + 8 * i)) [0..<?n] \<rparr>"
    using assms(2) by (auto simp: read_cov_def Let_def split: if_splits)
  note b = u64_at_bounds [OF assms(1)]
  have h: "0 \<le> u64_at data off \<and> u64_at data off < 2 ^ 64 \<and> le_bytes 8 (u64_at data off) = slice off (off + 8) data"
    if "off + 8 \<le> 24" for off using b that l(1) by simp
  have p: "0 \<le> u64_at data (24 + ?w + 8 * i) \<and> u64_at data (24 + ?w + 8 * i) < 2 ^ 64" if "i < ?n" for i
    using b [of "24 + ?w + 8 * i"] that l(1) by simp
  have "cov_wf c"
    unfolding cov_wf_def c using h [of 0] h [of 8] h [of 16] p l is_bytes_slice [OF assms(1)]
    by (auto simp: list_all_iff length_slice)
  moreover have "cov_bytes c = slice 0 8 data @ slice 8 16 data @ slice 16 24 data @ slice 24 (24 + ?w) data @ slice (24 + ?w) (24 + ?w + 8 * ?n) data"
    unfolding cov_bytes_def c using h [of 0] h [of 8] h [of 16] pack_pcs_read [OF assms(1), of "24 + ?w" ?n] l(1) by simp
  then have "cov_bytes c = slice 0 (24 + ?w + 8 * ?n) data" by (simp add: slice_join)
  then have "cov_bytes c = data" using l(1) by (simp add: slice_def)
  ultimately show ?thesis by simp
qed

text \<open>
  C36: reading a map is exact.  On every byte string \<open>read_cov\<close> succeeds with a coverage record exactly when the record's fields are in
  range and the file is the record's documented layout, with no byte more or less; every other file is skipped.
\<close>

theorem read_cov_exact:
  assumes "is_bytes data"
  shows "read_cov data = Some c \<longleftrightarrow> cov_wf c \<and> data = cov_bytes c"
proof
  show "read_cov data = Some c \<Longrightarrow> cov_wf c \<and> data = cov_bytes c" by (rule read_cov_Some [OF assms])
  show "cov_wf c \<and> data = cov_bytes c \<Longrightarrow> read_cov data = Some c" using read_cov_bytes [of c] by simp
qed

theorem read_cov_exact_witness:
  "read_cov (cov_bytes \<lparr> cv_runs = 7, cv_unique = 3, cv_pcs_len = 1, cv_bits = [1, 0, 0, 0, 0, 0, 0, 0], cv_pcs = [4096] \<rparr>)
     = Some \<lparr> cv_runs = 7, cv_unique = 3, cv_pcs_len = 1, cv_bits = [1, 0, 0, 0, 0, 0, 0, 0], cv_pcs = [4096] \<rparr>"
proof -
  let ?c = "\<lparr> cv_runs = 7, cv_unique = 3, cv_pcs_len = 1, cv_bits = [1, 0, 0, 0, 0, 0, 0, 0], cv_pcs = [4096] \<rparr>"
  have w: "cov_wf ?c" by (simp add: cov_wf_def words_for_def is_byte_def)
  have "is_bytes (cov_bytes ?c)" by (simp add: cov_bytes_def pack_pcs_def is_byte_def del: le_bytes.simps)
  then show ?thesis by (rule read_cov_exact [THEN iffD2]) (rule conjI [OF w refl])
qed


section \<open>Reports\<close>

text \<open>When an executable of the cache carries the PC list, one that carries it is taken, whatever others of the same size are met before.\<close>

lemma find_exe_loop_content:
  assumes "find_exe_loop want xs so = Inr e" "(q, file) \<in> set xs" "elf_section file (asc ''__sancov_pcs1'') = Inr (Some want)"
  shows "\<exists>p file'. e = ByContent p \<and> (p, file') \<in> set xs \<and> elf_section file' (asc ''__sancov_pcs1'') = Inr (Some want)"
  using assms
proof (induction xs arbitrary: so)
  case (Cons x xs)
  obtain p' fl where x: "x = (p', fl)" by (cases x)
  obtain sec where sec: "elf_section fl (asc ''__sancov_pcs1'') = Inr sec" using Cons.prems(1) x by (auto simp: rbind_eq_Inr_iff)
  show ?case
  proof (cases "sec = Some want")
    case True
    with Cons.prems(1) sec x show ?thesis by auto
  next
    case False
    then obtain so' where "find_exe_loop want xs so' = Inr e" using Cons.prems(1) sec x by (auto split: option.splits if_splits)
    moreover have "(q, file) \<in> set xs" using Cons.prems(2,3) sec x False by auto
    ultimately show ?thesis using Cons.IH Cons.prems(3) by fastforce
  qed
qed simp

definition carries :: "bytes \<Rightarrow> cov \<Rightarrow> bool" where
  "carries file c \<longleftrightarrow> elf_section file (asc ''__sancov_pcs1'') = Inr (Some (pack_pcs (cv_pcs c)))"

text \<open>What a report without a miss promises of a map for one item.\<close>

definition item_reached :: "(ustr \<Rightarrow> int list \<Rightarrow> ustr) \<Rightarrow> (ustr \<times> bytes) list \<Rightarrow> cov \<Rightarrow> reach_item \<Rightarrow> bool" where
  "item_reached addr2line exes c item \<longleftrightarrow> (\<exists>p file i. (p, file) \<in> set exes \<and> carries file c
     \<and> bit (from_le (cv_bits c)) i \<and> i \<in> set (item_pcs (resolve (addr2line p (cv_pcs c))) (cv_pcs_len c) item))"

definition runs_before :: "snapshot \<Rightarrow> ustr \<Rightarrow> int" where
  "runs_before before name = (case map_of before name of None \<Rightarrow> 0 | Some (r, _, _) \<Rightarrow> r)"

lemma item_verdict_HIT:
  assumes "fst (item_verdict frames n (seen_set bits n) old item) = HIT" "is_bytes bits"
  shows "\<exists>i. bit (from_le bits) i \<and> i \<in> set (item_pcs frames n item)"
proof -
  have "filter (\<lambda>i. i \<in> set (seen_set bits n)) (item_pcs frames n item) \<noteq> []"
    using assms(1) by (auto simp: item_verdict_def Let_def split: if_splits)
  then obtain i where "i \<in> set (item_pcs frames n item)" "i \<in> set (seen_set bits n)" by (auto simp: filter_empty_conv)
  with assms(2) show ?thesis by (auto simp: set_seen_set)
qed

lemma report_map_step:
  assumes "report_map a2l exes before mk reach k (name, data) = Inr k'" "is_bytes data"
  shows "k_reach_miss k \<le> k_reach_miss k' \<and> (k_reach_miss k' = 0 \<longrightarrow> item \<in> set reach \<longrightarrow> read_cov data = Some c \<longrightarrow>
    cv_runs c \<noteq> runs_before before name \<longrightarrow> exes = Some xs \<longrightarrow> (q, file) \<in> set xs \<longrightarrow> carries file c \<longrightarrow> item_reached a2l xs c item)"
proof (cases "\<exists>c. read_cov data = Some c \<and> cv_runs c \<noteq> runs_before before name")
  case False
  then have "k' = k" using assms(1) by (auto simp: report_map_def runs_before_def Let_def split: option.splits if_splits)
  with False show ?thesis by auto
next
  case True
  then obtain c' where c: "read_cov data = Some c'" "cv_runs c' \<noteq> runs_before before name" by blast
  then obtain e old where e: "find_exe exes c' = Inr e"
    and k': "(case exe_path e of
                None \<Rightarrow> k_reach_miss k' = k_reach_miss k + length reach
              | Some exe \<Rightarrow> k_reach_miss k' = k_reach_miss k + length (filter (\<lambda>v. fst v \<noteq> HIT)
                  (map (item_verdict (resolve (a2l exe (cv_pcs c'))) (cv_pcs_len c') (seen_set (cv_bits c') (cv_pcs_len c')) old) reach)))"
    using assms(1) by (auto simp: report_map_def runs_before_def Let_def rbind_eq_Inr_iff split: option.splits)
  have "item_reached a2l xs c' item" if z: "k_reach_miss k' = 0" and it: "item \<in> set reach" and xs: "exes = Some xs" and q: "(q, file) \<in> set xs" "carries file c'"
  proof -
    have "find_exe_loop (pack_pcs (cv_pcs c')) xs [] = Inr e" using e xs by (simp add: find_exe_def)
    from find_exe_loop_content [OF this q(1)] q(2) obtain p file' where p: "e = ByContent p" "(p, file') \<in> set xs" "carries file' c'"
      by (auto simp: carries_def)
    have b: "is_bytes (cv_bits c')" using read_cov_Some [OF assms(2) c(1)] by (simp add: cov_wf_def)
    have "fst (item_verdict (resolve (a2l p (cv_pcs c'))) (cv_pcs_len c') (seen_set (cv_bits c') (cv_pcs_len c')) old item) = HIT"
      using z it k' p(1) by (auto simp: filter_empty_conv exe_path_def)
    from item_verdict_HIT [OF this b] p(2,3) show ?thesis by (auto simp: item_reached_def)
  qed
  moreover have "k_reach_miss k \<le> k_reach_miss k'" using k' by (auto split: option.splits)
  ultimately show ?thesis using c by auto
qed

lemma report_maps_no_miss:
  assumes "report_maps (report_map a2l exes before mk reach) k files = Inr k'" "\<forall>(n, d)\<in>set files. is_bytes d" "k_reach_miss k' = 0"
    "item \<in> set reach" "(name, data) \<in> set files" "read_cov data = Some c" "cv_runs c \<noteq> runs_before before name"
    "exes = Some xs" "(q, file) \<in> set xs" "carries file c"
  shows "item_reached a2l xs c item"
proof -
  have mono: "k_reach_miss k \<le> k_reach_miss k'"
    if "report_maps (report_map a2l exes before mk reach) k fs = Inr k'" "\<forall>(n, d)\<in>set fs. is_bytes d" for k fs
    using that
  proof (induction fs arbitrary: k)
    case (Cons x fs)
    obtain n d where x: "x = (n, d)" by (cases x)
    then obtain k1 where "report_map a2l exes before mk reach k (n, d) = Inr k1" "report_maps (report_map a2l exes before mk reach) k1 fs = Inr k'"
      using Cons.prems(1) by (auto simp: rbind_eq_Inr_iff)
    then show ?case using Cons.IH [of k1] Cons.prems(2) report_map_step [of a2l exes before mk reach k n d k1] x by fastforce
  qed simp
  show ?thesis using assms
  proof (induction files arbitrary: k)
    case (Cons x fs)
    obtain n d where x: "x = (n, d)" by (cases x)
    then obtain k1 where k1: "report_map a2l exes before mk reach k (n, d) = Inr k1" "report_maps (report_map a2l exes before mk reach) k1 fs = Inr k'"
      using Cons.prems(1) by (auto simp: rbind_eq_Inr_iff)
    have "k_reach_miss k1 = 0" using mono [OF k1(2)] Cons.prems(2,3) by simp
    with Cons k1 x show ?case using report_map_step [OF k1(1), of item c] by auto
  qed simp
qed


text \<open>
  C37: a report that counts no miss is evidence.  When \<open>cmd_report\<close> ends with \<open>reach_miss = 0\<close>, then for every map whose run counter
  moved since the snapshot and whose PC list is the \<open>__sancov_pcs1\<close> section of some executable of the cache, and for every reach item, there is an
  executable whose section is exactly that PC list, and a PC whose seen bit is one in the map and whose frames, resolved in that
  executable, match the item.  A stale build of the same size is never used while the right one is there.
\<close>

theorem report_without_miss_reached:
  assumes "cmd_report addr2line files (Some xs) before mo spec = Inr k" "k_reach_miss k = 0"
    and "spec \<noteq> []" "parse_reach spec = Inr reach" "item \<in> set reach"
    and "(name, data) \<in> set files" "\<forall>(n, d)\<in>set files. is_bytes d"
    and "read_cov data = Some c" "cv_runs c \<noteq> runs_before before name"
    and "(q, file) \<in> set xs" "carries file c"
  shows "item_reached addr2line xs c item"
proof -
  obtain k0 where "report_maps (report_map addr2line (Some xs) before (asc ''/modules/'' @ mo @ asc ''/src/'') reach) k0 (sort_key fst files) = Inr k"
    using assms(1,3,4) by (auto simp: cmd_report_def)
  from report_maps_no_miss [OF this _ assms(2,5) _ assms(8,9) refl assms(10,11)] assms(6,7) show ?thesis by simp
qed

text \<open>A small executable with the section, a map of one PC and what \<open>addr2line\<close> answers.\<close>

definition demo_elf :: bytes where
  "demo_elf = [127, 69, 76, 70, 2, 1] @ replicate 34 0 @ [64] @ replicate 17 0 @ [64, 0, 2, 0, 1, 0, 0, 0, 0, 0, 1] @ replicate 19 0 @ [206, 0, 0, 0, 0, 0, 0, 0, 8] @ replicate 31 0 @ [13, 0, 0, 0, 3] @ replicate 19 0 @ [192, 0, 0, 0, 0, 0, 0, 0, 14] @ replicate 31 0 @ [95, 95, 115, 97, 110, 99, 111, 118, 95, 112, 99, 115, 49, 0, 0, 16, 0, 0, 0, 0, 0, 0]"

definition demo_map :: bytes where
  "demo_map = [1, 0, 0, 0, 0, 0, 0, 0, 1, 0, 0, 0, 0, 0, 0, 0, 1, 0, 0, 0, 0, 0, 0, 0, 1, 0, 0, 0, 0, 0, 0, 0, 0, 16, 0, 0, 0, 0, 0, 0]"

definition demo_addr2line :: "ustr \<Rightarrow> int list \<Rightarrow> ustr" where
  "demo_addr2line exe pcs = asc ''0x1000'' @ [10] @ asc ''m.decode'' @ [10] @ asc ''/r/modules/m/src/a.zig:12'' @ [10]"

lemma demo_report:
  "case cmd_report demo_addr2line [(asc ''f0'', demo_map)] (Some [(asc ''o/h/m'', demo_elf)]) [] (asc ''m'') (asc ''a.zig:10-20'') of
     Inr k \<Rightarrow> k_reach_miss k = 0 | Inl _ \<Rightarrow> False"
  by code_simp

theorem report_without_miss_reached_witness:
  "\<exists>c. read_cov demo_map = Some c \<and> item_reached demo_addr2line [(asc ''o/h/m'', demo_elf)] c (ReachLine (asc ''a.zig:10-20'') (asc ''a.zig'') 10 20)"
proof -
  obtain k where k: "cmd_report demo_addr2line [(asc ''f0'', demo_map)] (Some [(asc ''o/h/m'', demo_elf)]) [] (asc ''m'') (asc ''a.zig:10-20'') = Inr k"
      "k_reach_miss k = 0" using demo_report by (auto split: sum.splits)
  have r: "parse_reach (asc ''a.zig:10-20'') = Inr [ReachLine (asc ''a.zig:10-20'') (asc ''a.zig'') 10 20]" by code_simp
  have "case read_cov demo_map of Some c \<Rightarrow> cv_runs c \<noteq> 0 | None \<Rightarrow> False" by code_simp
  then obtain c where c: "read_cov demo_map = Some c" "cv_runs c \<noteq> 0" by (auto split: option.splits)
  have b: "is_bytes demo_map" by code_simp
  have ne: "asc ''a.zig:10-20'' \<noteq> []" by code_simp
  have "case read_cov demo_map of Some c \<Rightarrow> carries demo_elf c | None \<Rightarrow> False" by code_simp
  with c(1) have q: "(asc ''o/h/m'', demo_elf) \<in> set [(asc ''o/h/m'', demo_elf)]" "carries demo_elf c" by simp_all
  from report_without_miss_reached [OF k ne r _ _ _ c(1) _ q, of _ "asc ''f0''"] b c show ?thesis by (simp add: runs_before_def)
qed

text \<open>
  Without such an executable a single one of the same size is taken: here its section is another PC list, and the report counts no miss.
\<close>

theorem stale_executable_accepted:
  "(case cmd_report demo_addr2line [(asc ''f0'', take 33 demo_map @ [32] @ drop 34 demo_map)] (Some [(asc ''o/h/m'', demo_elf)]) [] (asc ''m'') (asc ''a.zig:10-20'') of
     Inr k \<Rightarrow> k_reach_miss k = 0 | Inl _ \<Rightarrow> False)
   \<and> (case read_cov (take 33 demo_map @ [32] @ drop 34 demo_map) of Some c \<Rightarrow> \<not> carries demo_elf c | None \<Rightarrow> False)"
  by (intro conjI) code_simp+

end
