(* ===== verification/CiRedIssue.thy ===== *)
theory CiRedIssue
  imports Regex "HOL-Library.List_Lexorder"
begin

text \<open>
  \<open>scripts/lib/ci-red-issue.py\<close>: the issue that reports a red scheduled run.  What \<open>gh\<close> answers is an argument, the read
  answers decoded from their JSON lines; the writing calls are values, listed in the order they are made, and may fail.
\<close>

section \<open>Patterns\<close>

definition TITLE :: ustr where "TITLE = asc ''Scheduled CI is red''"
definition BOT :: ustr where "BOT = asc ''github-actions[bot]''"
definition RED :: "ustr list" where "RED = [asc ''failure'', asc ''timed_out'']"
definition INCONCLUSIVE :: "ustr list" where "INCONCLUSIVE = [asc ''cancelled'']"
definition MAX_LOGS :: nat where "MAX_LOGS = 12"

definition DATE_TAG_RE :: re where
  "DATE_TAG_RE = rseq [RStart, rlit ''20'', rdigit, rdigit, rchr CHR ''-'', rdigit, rdigit, rchr CHR ''-'', rdigit, rdigit,
     ropt (rseq [rchr CHR ''.'', rplus rdigit]), REnd]"

definition mod_char :: "int \<Rightarrow> bool" where
  "mod_char x \<longleftrightarrow> u_lower x \<or> u_digit x \<or> one_of ''_-'' x"

definition mod_name :: re where "mod_name = RGroup 1 (rplus (RSet mod_char))"

text \<open>The time stamp and the indentation a line of a log may start with.\<close>

definition line_lead :: re where
  "line_lead = rseq [RBol, ropt (rseq [rplus rnonspace, rlit ''Z '']), rstar rspace]"

definition LOG_RES :: "re list" where
  "LOG_RES =
    [rseq [line_lead, rstar (RSet (one_of ''+|` -'')), rlit ''test-'', mod_name, RWordB, rstar rdot, RWordB, rlit ''failure'', RWordB],
     rseq [rlit ''failed command: '', rstar rnonspace, rlit ''/.zig-cache/o/'', rplus (RSet (\<lambda>x. u_digit x \<or> 97 \<le> x \<and> x \<le> 102)), rchr CHR ''/'',
       ropt (rlit ''interop-''), mod_name],
     rseq [line_lead, rlit ''error: modules/'', mod_name, rchr CHR ''/''],
     rseq [line_lead, rlit ''FAIL '', mod_name, rchr CHR ''/'']]"

definition ANSI_RE :: re where
  "ANSI_RE = rseq [RSet (\<lambda>x. x = 27), rchr CHR ''['', rstar (RSet (\<lambda>x. u_digit x \<or> x = 59)), RSet (\<lambda>x. 65 \<le> x \<and> x \<le> 90 \<or> 97 \<le> x \<and> x \<le> 122)]"

definition modules_in_log :: "ustr \<Rightarrow> ustr list \<Rightarrow> ustr list" where
  "modules_in_log text1 known =
     (let t = re_sub ANSI_RE (\<lambda>_. []) text1;
          found = concat (map (\<lambda>r. map (\<lambda>m. group0 t m 1) (finditer r t)) LOG_RES)
      in sort (remdups (filter (\<lambda>m. m \<in> set known) found)))"

section \<open>What gh answers and is told\<close>

record job =
  j_id :: int
  j_name :: ustr
  j_conclusion :: "ustr option"
  j_html_url :: ustr

record issue =
  i_number :: int
  i_title :: ustr
  i_user :: ustr

datatype gh_write =
    Comment int ustr       \<comment> \<open>POST \<open>issues/n/comments\<close>\<close>
  | CloseIssue int         \<comment> \<open>PATCH \<open>issues/n\<close> to closed, completed\<close>
  | OpenIssue ustr ustr    \<comment> \<open>POST \<open>issues\<close> with title and body\<close>
  | EditBody int ustr      \<comment> \<open>PATCH \<open>issues/n\<close> with a body\<close>

record gh_view =
  gv_jobs :: "job list result"
  gv_issues :: "issue list result"
  gv_log :: "int \<Rightarrow> ustr result"
  gv_write :: "gh_write \<Rightarrow> unit result"

definition open_issue :: "gh_view \<Rightarrow> int option result" where
  "open_issue gh = rbind (gv_issues gh) (\<lambda>issues.
     let numbers = map i_number (filter (\<lambda>i. i_title i = TITLE \<and> i_user i = BOT) issues) in
     Inr (if numbers = [] then None else Some (Min (set numbers))))"

definition body_for :: "(job \<times> ustr list) list \<Rightarrow> ustr \<Rightarrow> ustr \<Rightarrow> ustr list \<Rightarrow> ustr" where
  "body_for failing sha run_url orphans =
     join [10]
      ([asc ''The scheduled full CI run at `'' @ sha @ asc ''` is red. No tag was cut.'', [], asc ''Run: '' @ run_url, []]
       @ (if orphans \<noteq> [] then [asc ''Date tag(s) without a Release: '' @ join (asc '', '') orphans @ asc ''. A person deletes each or cuts its ''
            @ asc ''Release (CONVENTIONS.md '' @ [167] @ asc ''8); until then every scheduled run stays red.'', []] else [])
       @ [asc ''| Lane | Modules named by its log |'', asc ''|------|--------------------------|'']
       @ map (\<lambda>(job, mods). asc ''| ['' @ j_name job @ asc ''](''  @ j_html_url job @ asc '') | ''
            @ (if mods \<noteq> [] then join (asc '', '') mods else asc ''(none named)'') @ asc '' |'') failing
       @ [[], asc ''Kept up to date by `scripts/lib/ci-red-issue.py`; a green scheduled run closes it.''])
     @ [10]"

section \<open>The report\<close>

definition env_get :: "(ustr \<times> ustr) list \<Rightarrow> string \<Rightarrow> ustr result" where
  "env_get env k = (case map_of env (asc k) of None \<Rightarrow> Inl KeyError | Some v \<Rightarrow> Inr v)"

definition env_get_or :: "(ustr \<times> ustr) list \<Rightarrow> string \<Rightarrow> ustr \<Rightarrow> ustr" where
  "env_get_or env k d = (case map_of env (asc k) of None \<Rightarrow> d | Some v \<Rightarrow> v)"

text \<open>The writing calls in order; the first that fails ends the report.\<close>

fun do_writes :: "gh_view \<Rightarrow> gh_write list \<Rightarrow> 'a \<Rightarrow> 'a result \<times> gh_write list" where
  "do_writes gh [] x = (Inr x, [])"
| "do_writes gh (w # ws) x = (case gv_write gh w of Inl e \<Rightarrow> (Inl e, [w])
     | Inr _ \<Rightarrow> (case do_writes gh ws x of (r, done1) \<Rightarrow> (r, w # done1)))"

definition is_red :: "job \<Rightarrow> bool" where
  "is_red j \<longleftrightarrow> (\<exists>c\<in>set RED. j_conclusion j = Some c)"

definition is_inconclusive :: "job \<Rightarrow> bool" where
  "is_inconclusive j \<longleftrightarrow> (\<exists>c\<in>set INCONCLUSIVE. j_conclusion j = Some c)"

text \<open>A log that cannot be read costs its module names only; any other error would end the report.\<close>

fun failing_of :: "gh_view \<Rightarrow> ustr list \<Rightarrow> nat \<Rightarrow> job list \<Rightarrow> (job \<times> ustr list) list result" where
  "failing_of gh known i [] = Inr []"
| "failing_of gh known i (job # jobs) =
     rbind (if i < MAX_LOGS
            then (case gv_log gh (j_id job) of Inr t \<Rightarrow> Inr (modules_in_log t known) | Inl (RuntimeError _) \<Rightarrow> Inr [] | Inl e \<Rightarrow> Inl e)
            else Inr []) (\<lambda>mods.
     rbind (failing_of gh known (i + 1) jobs) (\<lambda>rest. Inr ((job, mods) # rest)))"

datatype ci_outcome = Inconclusive | Nothing | Closed | Opened | Updated

text \<open>What the report decides: its outcome and the calls it makes with \<open>--write\<close>.\<close>

definition report_plan :: "gh_view \<Rightarrow> (ustr \<times> ustr) list \<Rightarrow> ustr list \<Rightarrow> (ci_outcome \<times> gh_write list) result" where
  "report_plan gh env known =
     rbind (env_get env ''GITHUB_REPOSITORY'') (\<lambda>repo. rbind (env_get env ''GITHUB_RUN_ID'') (\<lambda>run. rbind (env_get env ''GITHUB_SHA'') (\<lambda>sha.
     let server = env_get_or env ''GITHUB_SERVER_URL'' (asc ''https://github.com'');
         run_url = server @ asc ''/'' @ repo @ asc ''/actions/runs/'' @ run in
     rbind (gv_jobs gh) (\<lambda>jobs.
     if jobs = [] then Inl (RuntimeError ''the run lists no jobs: refusing to read that as green'')
     else let red = sort_key j_name (filter is_red jobs) in
     rbind (open_issue gh) (\<lambda>number.
     let orphans = filter (\<lambda>t. re_match DATE_TAG_RE t \<noteq> None) (uwords (env_get_or env ''ORPHAN_TAGS'' [])) in
     if red = [] \<and> list_ex is_inconclusive jobs then Inr (Inconclusive, [])
     else if red = [] then (case number of None \<Rightarrow> Inr (Nothing, [])
       | Some n \<Rightarrow> Inr (Closed, [Comment n (asc ''Green at `'' @ sha @ asc ''`: '' @ run_url), CloseIssue n]))
     else rbind (failing_of gh known 0 red) (\<lambda>failing.
       let body = body_for failing sha run_url orphans in
       case number of None \<Rightarrow> Inr (Opened, [OpenIssue TITLE body]) | Some n \<Rightarrow> Inr (Updated, [EditBody n body])))))))"

definition report :: "gh_view \<Rightarrow> (ustr \<times> ustr) list \<Rightarrow> ustr list \<Rightarrow> bool \<Rightarrow> ci_outcome result \<times> gh_write list" where
  "report gh env known write = (case report_plan gh env known of Inl e \<Rightarrow> (Inl e, [])
     | Inr (outcome, ws) \<Rightarrow> if write then do_writes gh ws outcome else (Inr outcome, []))"

datatype ci_run = CiSelfTest | CiUsage | CiReport "ci_outcome result" "gh_write list"

text \<open>\<open>entries\<close>: the names in the modules directory.\<close>

definition ci_main :: "gh_view \<Rightarrow> (ustr \<times> ustr) list \<Rightarrow> ustr list \<Rightarrow> ustr list \<Rightarrow> ci_run" where
  "ci_main gh env entries argv =
     (if argv = [asc ''--self-test''] then CiSelfTest
      else if argv \<noteq> [] \<and> argv \<noteq> [asc ''--write''] then CiUsage
      else (case report gh env (filter (\<lambda>m. \<not> startswith m (asc ''_'')) entries) (argv = [asc ''--write'']) of (r, ws) \<Rightarrow> CiReport r ws))"

section \<open>Properties\<close>

text \<open>An open issue of the bot's own under the fixed title.\<close>

definition own_issue :: "gh_view \<Rightarrow> int \<Rightarrow> bool" where
  "own_issue gh n \<longleftrightarrow> (\<exists>is. gv_issues gh = Inr is \<and> (\<exists>i\<in>set is. i_number i = n \<and> i_title i = TITLE \<and> i_user i = BOT))"

definition all_green :: "gh_view \<Rightarrow> bool" where
  "all_green gh \<longleftrightarrow> (\<exists>js. gv_jobs gh = Inr js \<and> js \<noteq> [] \<and> (\<forall>j\<in>set js. j_conclusion j \<notin> {Some (asc ''failure''), Some (asc ''timed_out''), Some (asc ''cancelled'')}))"

definition some_red :: "gh_view \<Rightarrow> bool" where
  "some_red gh \<longleftrightarrow> (\<exists>js. gv_jobs gh = Inr js \<and> (\<exists>j\<in>set js. j_conclusion j \<in> {Some (asc ''failure''), Some (asc ''timed_out'')}))"

text \<open>When a writing call is in order.\<close>

fun write_allowed :: "gh_view \<Rightarrow> gh_write \<Rightarrow> bool" where
  "write_allowed gh (Comment n b) \<longleftrightarrow> all_green gh \<and> own_issue gh n"
| "write_allowed gh (CloseIssue n) \<longleftrightarrow> all_green gh \<and> own_issue gh n"
| "write_allowed gh (OpenIssue t b) \<longleftrightarrow> some_red gh \<and> t = TITLE \<and> (\<forall>n. \<not> own_issue gh n)"
| "write_allowed gh (EditBody n b) \<longleftrightarrow> some_red gh \<and> own_issue gh n"

lemma open_issue_own:
  assumes "open_issue gh = Inr number"
  shows "case number of None \<Rightarrow> \<forall>n. \<not> own_issue gh n | Some n \<Rightarrow> own_issue gh n"
proof -
  obtain iss where iss: "gv_issues gh = Inr iss" using assms by (auto simp: open_issue_def rbind_eq_Inr_iff)
  define ns where "ns = map i_number (filter (\<lambda>i. i_title i = TITLE \<and> i_user i = BOT) iss)"
  have number: "number = (if ns = [] then None else Some (Min (set ns)))" using assms iss by (auto simp: open_issue_def ns_def Let_def)
  have own: "own_issue gh n \<longleftrightarrow> n \<in> set ns" for n using iss by (auto simp: own_issue_def ns_def)
  show ?thesis using Min_in [of "set ns"] number own by (cases "ns = []") auto
qed

lemma do_writes_sub: "set (snd (do_writes gh ws x)) \<subseteq> set ws"
  by (induction gh ws x rule: do_writes.induct) (auto split: sum.splits prod.splits)

lemma report_plan_allowed:
  assumes "report_plan gh env known = Inr (outcome, ws)"
  shows "list_all (write_allowed gh) ws"
proof -
  obtain jobs number where j: "gv_jobs gh = Inr jobs" "jobs \<noteq> []" and n: "open_issue gh = Inr number"
    using assms by (auto simp: report_plan_def rbind_eq_Inr_iff Let_def split: if_splits)
  have red: "some_red gh \<longleftrightarrow> filter is_red jobs \<noteq> []"
    using j by (auto simp: some_red_def is_red_def RED_def filter_empty_conv)
  have green: "all_green gh \<longleftrightarrow> filter is_red jobs = [] \<and> \<not> list_ex is_inconclusive jobs"
    using j by (auto simp: all_green_def is_red_def is_inconclusive_def RED_def INCONCLUSIVE_def filter_empty_conv list_ex_iff)
  have "sort_key j_name (filter is_red jobs) = [] \<longleftrightarrow> filter is_red jobs = []" by (metis length_0_conv length_sort)
  then show ?thesis using assms j n open_issue_own [OF n] red green
    by (auto simp: report_plan_def rbind_eq_Inr_iff Let_def split: if_splits option.splits)
qed

text \<open>
  C38: the report touches nothing it must not.  Without \<open>--write\<close> no writing call is made.  With it, an issue is commented, edited or
  closed only if it is open under the fixed title and was opened by the bot, closed only when the run lists jobs and none of them
  failed, timed out or was cancelled, and a new issue is opened only on a red run when the bot has none open.
\<close>

theorem report_writes_only_own_issue:
  "case report gh env known write of (r, ws) \<Rightarrow> if write then list_all (write_allowed gh) ws else ws = []"
proof (cases "report_plan gh env known")
  case (Inr p)
  then show ?thesis
    using report_plan_allowed [of gh env known "fst p" "snd p"] do_writes_sub [of gh "snd p" "fst p"]
    by (cases p) (auto simp: report_def list_all_iff split: prod.splits)
qed (simp add: report_def)

end
