(* ===== verification/Interpolation.thy ===== *)
theory Interpolation
  imports Prelude Complex_Main
begin

text \<open>
  Interpolation at zero: the Lagrange combination of a polynomial's values over a field, and the same over the integers modulo \<open>m\<close>
  when the differences of the points are units.
\<close>

section \<open>Polynomials as coefficient lists\<close>

fun peval :: "'a::comm_semiring_0 list \<Rightarrow> 'a \<Rightarrow> 'a" where
  "peval [] x = 0"
| "peval (c # cs) x = c + x * peval cs x"

definition const_term :: "'a::zero list \<Rightarrow> 'a" where
  "const_term cs = (case cs of [] \<Rightarrow> 0 | c # _ \<Rightarrow> c)"

lemma of_int_peval: "(of_int (peval cs x) :: 'a::comm_ring_1) = peval (map of_int cs) (of_int x)"
  by (induction cs) simp_all

section \<open>Over a field\<close>

definition lag :: "'a::field set \<Rightarrow> 'a \<Rightarrow> 'a" where
  "lag S i = (\<Prod>j\<in>S - {i}. j / (j - i))"

definition lag_sum :: "'a::field set \<Rightarrow> ('a \<Rightarrow> 'a) \<Rightarrow> 'a" where
  "lag_sum S f = (\<Sum>i\<in>S. f i * lag S i)"

lemma lag_insert:
  assumes "finite S" "a \<notin> S" "i \<in> S"
  shows "lag (insert a S) i = a / (a - i) * lag S i"
proof -
  have "insert a S - {i} = insert a (S - {i})" using assms by auto
  with assms show ?thesis by (simp add: lag_def)
qed

lemma lag_sum_linear: "lag_sum S (\<lambda>x. c * f x + d * g x) = c * lag_sum S f + d * lag_sum S g"
  by (simp add: lag_sum_def sum.distrib sum_distrib_left algebra_simps)

text \<open>A factor that vanishes at one point removes the point.\<close>

lemma lag_sum_shift:
  assumes "finite S" "a \<notin> S"
  shows "lag_sum (insert a S) (\<lambda>x. (x - a) * h x) = - a * lag_sum S h"
proof -
  have "lag_sum (insert a S) (\<lambda>x. (x - a) * h x) = (\<Sum>i\<in>S. (i - a) * h i * lag (insert a S) i)"
    using assms by (simp add: lag_sum_def)
  also have "\<dots> = (\<Sum>i\<in>S. - a * (h i * lag S i))"
  proof (rule sum.cong)
    fix i assume "i \<in> S"
    then have "i \<noteq> a" using assms by auto
    then have "(i - a) * (a / (a - i)) = - a" by (simp add: field_simps)
    then have "(i - a) * (a / (a - i)) * (h i * lag S i) = - a * (h i * lag S i)" by simp
    then show "(i - a) * h i * lag (insert a S) i = - a * (h i * lag S i)"
      using lag_insert [OF assms \<open>i \<in> S\<close>] by (simp add: ac_simps)
  qed simp
  also have "\<dots> = - a * lag_sum S h" by (simp only: lag_sum_def sum_distrib_left)
  finally show ?thesis .
qed

text \<open>The recurrence that removes either of two points.\<close>

lemma lag_sum_two:
  assumes "finite S" "a \<notin> S" "b \<notin> S" "a \<noteq> b"
  shows "(b - a) * lag_sum (insert a (insert b S)) f = b * lag_sum (insert a S) f - a * lag_sum (insert b S) f"
proof -
  let ?T = "insert a (insert b S)"
  have 1: "lag_sum ?T (\<lambda>x. (x - a) * f x) = - a * lag_sum (insert b S) f"
    using lag_sum_shift [of "insert b S" a f] assms by simp
  have 2: "lag_sum ?T (\<lambda>x. (x - b) * f x) = - b * lag_sum (insert a S) f"
    using lag_sum_shift [of "insert a S" b f] assms by (simp add: insert_commute)
  have "lag_sum ?T (\<lambda>x. (x - a) * f x) - lag_sum ?T (\<lambda>x. (x - b) * f x) = lag_sum ?T (\<lambda>x. (b - a) * f x)"
    unfolding lag_sum_def by (simp add: sum_subtractf [symmetric] algebra_simps)
  also have "\<dots> = (b - a) * lag_sum ?T f" by (simp add: lag_sum_def sum_distrib_left mult.assoc)
  finally show ?thesis using 1 2 by (simp add: algebra_simps)
qed

lemma lag_sum_one:
  assumes "finite S" "S \<noteq> {}"
  shows "lag_sum S (\<lambda>_. 1) = 1"
  using assms
proof (induction "card S" arbitrary: S rule: less_induct)
  case less
  then obtain a S' where S: "S = insert a S'" "a \<notin> S'" by (metis Set.set_insert equals0I)
  show ?case
  proof (cases "S' = {}")
    case True
    with S show ?thesis by (simp add: lag_sum_def lag_def)
  next
    case False
    then obtain b T where T: "S' = insert b T" "b \<notin> T" by (metis Set.set_insert equals0I)
    with S less.prems have f: "finite T" "a \<notin> T" "a \<noteq> b" by auto
    have "card (insert a T) < card S" "card (insert b T) < card S" using S T f by simp_all
    with less.hyps f have "lag_sum (insert a T) (\<lambda>_. 1) = 1" "lag_sum (insert b T) (\<lambda>_. 1) = 1" by simp_all
    with lag_sum_two [OF f(1,2) T(2) f(3), of "\<lambda>_. 1"] have "(b - a) * lag_sum S (\<lambda>_. 1) = (b - a) * 1"
      using S T by simp
    with f show ?thesis by simp
  qed
qed

theorem lag_sum_peval:
  assumes "finite S" "length cs \<le> card S"
  shows "lag_sum S (peval cs) = const_term cs"
  using assms
proof (induction cs arbitrary: S)
  case Nil
  then show ?case by (simp add: lag_sum_def const_term_def)
next
  case (Cons c cs)
  then have "S \<noteq> {}" by auto
  then obtain a T where S: "S = insert a T" "a \<notin> T" by (metis Set.set_insert equals0I)
  with Cons.prems have T: "finite T" "length cs \<le> card T" by simp_all
  have "lag_sum S (\<lambda>x. 1 * ((x - a) * peval cs x) + a * peval cs x) = lag_sum S (\<lambda>x. (x - a) * peval cs x) + a * lag_sum S (peval cs)"
    by (simp only: lag_sum_linear) simp
  also have "\<dots> = - a * const_term cs + a * const_term cs"
    using Cons.IH [OF T] Cons.IH [of S] Cons.prems lag_sum_shift [OF T(1) S(2), of "peval cs"] S(1) by simp
  finally have x: "lag_sum S (\<lambda>x. x * peval cs x) = 0" by (simp add: algebra_simps)
  have "peval (c # cs) = (\<lambda>x. c * 1 + 1 * (x * peval cs x))" by (rule ext) simp
  then have "lag_sum S (peval (c # cs)) = lag_sum S (\<lambda>x. c * 1 + 1 * (x * peval cs x))" by (rule arg_cong)
  also have "\<dots> = c * 1 + 1 * 0"
    using lag_sum_linear [of S c "\<lambda>_. 1" 1 "\<lambda>x. x * peval cs x"] x lag_sum_one [OF Cons.prems(1) \<open>S \<noteq> {}\<close>] by simp
  finally show ?case by (simp add: const_term_def del: peval.simps)
qed

section \<open>Modulo m\<close>

lemma lag_int_cleared:
  fixes S :: "int set"
  assumes "finite S" "length cs \<le> card S"
  shows "(\<Sum>i\<in>S. peval cs i * (\<Prod>j\<in>S - {i}. j) * (\<Prod>l\<in>S - {i}. \<Prod>j\<in>S - {l}. j - l)) = const_term cs * (\<Prod>l\<in>S. \<Prod>j\<in>S - {l}. j - l)"
proof -
  let ?r = "of_int :: int \<Rightarrow> rat" and ?d = "\<lambda>l. \<Prod>j\<in>S - {l}. j - l"
  have inj: "inj_on ?r X" for X by (simp add: inj_on_def)
  have d0: "?r (?d l) \<noteq> 0" for l using assms(1) by simp
  have l: "lag (?r ` S) (?r i) = ?r (\<Prod>j\<in>S - {i}. j) / ?r (?d i)" if "i \<in> S" for i
  proof -
    have "?r ` S - {?r i} = ?r ` (S - {i})" by auto
    then show ?thesis by (simp add: lag_def prod.reindex [OF inj] prod_dividef)
  qed
  have e: "lag_sum (?r ` S) (peval (map ?r cs)) = ?r (const_term cs)"
    using lag_sum_peval [of "?r ` S" "map ?r cs"] assms card_image [OF inj [of S]] by (cases cs) (simp_all add: const_term_def)
  have "?r (const_term cs * (\<Prod>l\<in>S. ?d l)) = (\<Sum>i\<in>S. ?r (peval cs i) * (?r (\<Prod>j\<in>S - {i}. j) / ?r (?d i))) * ?r (\<Prod>l\<in>S. ?d l)"
    using l by (simp add: e [symmetric] lag_sum_def sum.reindex [OF inj] of_int_peval)
  also have "\<dots> = (\<Sum>i\<in>S. ?r (peval cs i * (\<Prod>j\<in>S - {i}. j) * (\<Prod>l\<in>S - {i}. ?d l)))"
    unfolding sum_distrib_right
  proof (rule sum.cong)
    fix i assume i: "i \<in> S"
    have "?r (\<Prod>l\<in>S. ?d l) = ?r (?d i) * ?r (\<Prod>l\<in>S - {i}. ?d l)" by (simp only: prod.remove [OF assms(1) i] of_int_mult)
    then show "?r (peval cs i) * (?r (\<Prod>j\<in>S - {i}. j) / ?r (?d i)) * ?r (\<Prod>l\<in>S. ?d l) = ?r (peval cs i * (\<Prod>j\<in>S - {i}. j) * (\<Prod>l\<in>S - {i}. ?d l))"
      using d0 [of i] by (simp only: of_int_mult) simp
  qed simp
  also have "\<dots> = ?r (\<Sum>i\<in>S. peval cs i * (\<Prod>j\<in>S - {i}. j) * (\<Prod>l\<in>S - {i}. ?d l))" by (simp only: of_int_sum)
  finally have "const_term cs * (\<Prod>l\<in>S. ?d l) = (\<Sum>i\<in>S. peval cs i * (\<Prod>j\<in>S - {i}. j) * (\<Prod>l\<in>S - {i}. ?d l))" by (simp only: of_int_eq_iff)
  then show ?thesis by (rule sym)
qed


theorem lag_mod:
  fixes S :: "int set"
  assumes "finite S" "length cs \<le> card S"
    and "\<And>i j. i \<in> S \<Longrightarrow> j \<in> S \<Longrightarrow> i \<noteq> j \<Longrightarrow> coprime (j - i) m"
    and "\<And>i. i \<in> S \<Longrightarrow> m dvd l i * (\<Prod>j\<in>S - {i}. j - i) - (\<Prod>j\<in>S - {i}. j)"
    and "\<And>i. i \<in> S \<Longrightarrow> m dvd y i - peval cs i"
  shows "m dvd (\<Sum>i\<in>S. y i * l i) - const_term cs"
proof -
  let ?d = "\<lambda>l. \<Prod>j\<in>S - {l}. j - l" and ?n = "\<lambda>i. \<Prod>j\<in>S - {i}. j"
  let ?D = "\<Prod>l\<in>S. ?d l" and ?E = "\<lambda>i. \<Prod>l\<in>S - {i}. ?d l"
  have D: "?D = ?d i * ?E i" if "i \<in> S" for i by (rule prod.remove [OF assms(1) that])
  have "?D * (\<Sum>i\<in>S. y i * l i) = (\<Sum>i\<in>S. y i * l i * (?d i * ?E i))"
    unfolding sum_distrib_left by (rule sum.cong [OF refl]) (subst D, assumption, simp only: ac_simps)
  then have "?D * ((\<Sum>i\<in>S. y i * l i) - const_term cs) = (\<Sum>i\<in>S. y i * l i * (?d i * ?E i) - peval cs i * ?n i * ?E i)"
    by (simp only: sum_subtractf lag_int_cleared [OF assms(1,2)] right_diff_distrib mult.commute [of ?D "const_term cs"])
  also have "m dvd \<dots>"
  proof (rule dvd_sum)
    fix i assume i: "i \<in> S"
    have "y i * l i * (?d i * ?E i) - peval cs i * ?n i * ?E i = ?E i * (y i * (l i * ?d i - ?n i) + ?n i * (y i - peval cs i))"
      by (simp add: algebra_simps)
    also have "m dvd \<dots>" using assms(4,5) [OF i] by (intro dvd_mult dvd_add)
    finally show "m dvd y i * l i * (?d i * ?E i) - peval cs i * ?n i * ?E i" .
  qed
  finally have "m dvd ?D * ((\<Sum>i\<in>S. y i * l i) - const_term cs)" .
  moreover have "coprime m ?D" using assms(3) by (intro prod_coprime_right) (auto simp: coprime_commute)
  ultimately show ?thesis by (simp add: coprime_dvd_mult_right_iff)
qed

end
