(* ===== verification/Dkg.thy ===== *)
theory Dkg
  imports Interpolation BitcoinTx
begin

text \<open>
  \<open>modules/dkg/tools/gjkr_oracle.py\<close>: secp256k1 in affine coordinates, the shares of the GJKR key generation, the resharing and
  the transcript.  A failed assertion is an error; the second generator is an argument of the protocol, computed by
  \<open>pedersen_h\<close>; the text of the file is an argument and \<open>json.loads\<close> a parameter.
\<close>

section \<open>Arithmetic\<close>

definition secp_P :: int where "secp_P = 0xFFFFFFFFFFFFFFFFFFFFFFFFFFFFFFFFFFFFFFFFFFFFFFFFFFFFFFFEFFFFFC2F"
definition secp_N :: int where "secp_N = 0xFFFFFFFFFFFFFFFFFFFFFFFFFFFFFFFEBAAEDCE6AF48A03BBFD25E8CD0364141"

type_synonym point = "(int \<times> int) option"

definition GX :: int where "GX = 0x79BE667EF9DCBBAC55A06295CE870B07029BFCDB2DCE28D959F2815B16F81798"
definition GY :: int where "GY = 0x483ADA7726A3C4655DA4FBFC0E1108A8FD17B448A68554199C47D08FFB10D4B8"
definition secp_G :: point where "secp_G = Some (GX, GY)"
definition H_DOMAIN :: bytes where "H_DOMAIN = asc ''zig-libs/dkg/pedersen-h/secp256k1/v1''"

text \<open>\<open>pow(x, -1, m)\<close>: by the extended Euclidean algorithm; a number without an inverse is a \<open>ValueError\<close>.\<close>

function egcd :: "int \<Rightarrow> int \<Rightarrow> int \<times> int \<times> int" where
  "egcd a b = (if b \<le> 0 then (a, 1, 0) else (case egcd b (a mod b) of (g, s, t) \<Rightarrow> (g, t, s - a div b * t)))"
  by pat_completeness auto
termination
  by (relation "measure (\<lambda>(a, b). nat b)") auto

declare egcd.simps [simp del]

definition inv_mod :: "int \<Rightarrow> int \<Rightarrow> int result" where
  "inv_mod x m = (case egcd (x mod m) m of (g, s, t) \<Rightarrow> if g = 1 then Inr (s mod m) else Inl ValueError)"

text \<open>\<open>pow(b, e, m)\<close> by squaring.\<close>

function pow_mod :: "int \<Rightarrow> int \<Rightarrow> int \<Rightarrow> int" where
  "pow_mod b e m = (if e \<le> 0 then 1 mod m
     else (let h = pow_mod (b * b mod m) (e div 2) m in if odd e then b * h mod m else h))"
  by pat_completeness auto
termination
  by (relation "measure (\<lambda>(b, e, m). nat e)") auto

declare pow_mod.simps [simp del]

section \<open>The curve\<close>

definition pt_add :: "point \<Rightarrow> point \<Rightarrow> point result" where
  "pt_add p q = (case p of None \<Rightarrow> Inr q | Some a \<Rightarrow> (case q of None \<Rightarrow> Inr p | Some b \<Rightarrow>
     if fst a = fst b \<and> (snd a + snd b) mod secp_P = 0 then Inr None
     else rbind (if fst a = fst b then rbind (inv_mod (2 * snd a) secp_P) (\<lambda>i. Inr (3 * fst a * fst a * i mod secp_P))
                 else rbind (inv_mod (fst b - fst a) secp_P) (\<lambda>i. Inr ((snd b - snd a) * i mod secp_P))) (\<lambda>lam.
       (let x = (lam * lam - fst a - fst b) mod secp_P in Inr (Some (x, (lam * (fst a - x) - snd a) mod secp_P))))))"

function mul_loop :: "int \<Rightarrow> point \<Rightarrow> point \<Rightarrow> point result" where
  "mul_loop k acc pt =
     (if k \<le> 0 then Inr acc
      else rbind (if odd k then pt_add acc pt else Inr acc) (\<lambda>acc'. rbind (pt_add pt pt) (\<lambda>pt'. mul_loop (k div 2) acc' pt')))"
  by pat_completeness auto
termination
  by (relation "measure (\<lambda>(k, acc, pt). nat k)") auto

declare mul_loop.simps [simp del]

definition pt_mul :: "int \<Rightarrow> point \<Rightarrow> point result" where
  "pt_mul k pt = mul_loop (k mod secp_N) None pt"

definition hex64 :: "int \<Rightarrow> ustr" where
  "hex64 x = asc (zfill 64 (show_hex (nat x)))"

definition enc_pt :: "point \<Rightarrow> ustr result" where
  "enc_pt pt = (case pt of None \<Rightarrow> Inl AssertionError
     | Some (x, y) \<Rightarrow> Inr (asc (if y mod 2 = 0 then ''02'' else ''03'') @ hex64 x))"

definition sqrt_mod :: "int \<Rightarrow> int" where
  "sqrt_mod r = pow_mod r ((secp_P + 1) div 4) secp_P"

definition dec_pt :: "ustr \<Rightarrow> point result" where
  "dec_pt h = rbind (fromhex h) (\<lambda>b.
     rbind (py_assert (length b = 33 \<and> b ! 0 \<in> {2, 3})) (\<lambda>_.
     (let x = from_be (drop 1 b); y = sqrt_mod ((x ^ 3 + 7) mod secp_P) in
      rbind (py_assert (y * y mod secp_P = (x ^ 3 + 7) mod secp_P)) (\<lambda>_.
        Inr (Some (x, if y mod 2 \<noteq> b ! 0 - 2 then secp_P - y else y))))))"

definition enc_sc :: "int \<Rightarrow> ustr" where
  "enc_sc s = hex64 (s mod secp_N)"

text \<open>The search for the second generator; the counter has to fit four bytes.\<close>

definition try_h :: "int \<Rightarrow> point option result" where
  "try_h counter = rbind (to_bytes_be counter 4) (\<lambda>c.
     (let x = from_be (sha256 (H_DOMAIN @ c)); rhs = (x ^ 3 + 7) mod secp_P; y = sqrt_mod rhs in
      Inr (if secp_P \<le> x \<or> y * y mod secp_P \<noteq> rhs then None else Some (Some (x, if y mod 2 \<noteq> 0 then secp_P - y else y)))))"

partial_function (option) pedersen_h :: "int \<Rightarrow> point result option" where
  "pedersen_h counter = (case try_h counter of Inl e \<Rightarrow> Some (Inl e) | Inr (Some p) \<Rightarrow> Some (Inr p) | Inr None \<Rightarrow> pedersen_h (counter + 1))"

section \<open>Polynomials\<close>

definition poly :: "int list \<Rightarrow> int \<Rightarrow> int" where
  "poly coeffs x = sum_list (map (\<lambda>k. coeffs ! k * pow_mod x (int k) secp_N) [0..<length coeffs]) mod secp_N"

definition lag_step :: "int \<Rightarrow> int \<times> int \<Rightarrow> int \<Rightarrow> int \<times> int" where
  "lag_step i nd j = (case nd of (num, den) \<Rightarrow> if j \<noteq> i then (num * j mod secp_N, den * (j - i) mod secp_N) else (num, den))"

definition lagrange0 :: "int list \<Rightarrow> int \<Rightarrow> int result" where
  "lagrange0 ids i = (case foldl (lag_step i) (1, 1) ids of (num, den) \<Rightarrow> rbind (inv_mod den secp_N) (\<lambda>v. Inr (num * v mod secp_N)))"

text \<open>The label is ASCII.\<close>

definition det_scalar :: "ustr \<Rightarrow> int" where
  "det_scalar label = from_be (sha256 label) mod secp_N"

text \<open>\<open>xs[i]\<close>: a negative index counts from the end.  The recombination of shares is
  \<open>sum(xs[i - 1] * lagrange0(ids, i) for i in ids) % N\<close>.\<close>

definition item_at :: "'a list \<Rightarrow> int \<Rightarrow> 'a result" where
  "item_at xs i = (if 0 \<le> i \<and> i < int (length xs) then Inr (xs ! nat i)
     else if i < 0 \<and> - int (length xs) \<le> i then Inr (xs ! nat (int (length xs) + i)) else Inl IndexError)"

definition recover :: "int list \<Rightarrow> int list \<Rightarrow> int result" where
  "recover xs ids = rbind (rmap (\<lambda>i. rbind (item_at xs (i - 1)) (\<lambda>x. rbind (lagrange0 ids i) (\<lambda>l. Inr (x * l)))) ids) (\<lambda>ps.
     Inr (sum_list ps mod secp_N))"

section \<open>Key generation\<close>

fun pt_sum :: "point \<Rightarrow> point list \<Rightarrow> point result" where
  "pt_sum acc [] = Inr acc"
| "pt_sum acc (p # ps) = rbind (pt_add acc p) (\<lambda>acc'. pt_sum acc' ps)"

text \<open>The product of the commitments to the powers of \<open>j\<close>.\<close>

fun commit_eval :: "nat \<Rightarrow> nat \<Rightarrow> point \<Rightarrow> point list \<Rightarrow> point result" where
  "commit_eval j k acc [] = Inr acc"
| "commit_eval j k acc (c # cs) = rbind (pt_mul (pow_mod (int j) (int k) secp_N) c) (\<lambda>m. rbind (pt_add acc m) (\<lambda>acc'. commit_eval j (k + 1) acc' cs))"

record dkg_out =
  d_ped :: "point list list"
  d_fel :: "point list list"
  d_shares :: "(int \<times> int) list list"
  d_Q :: point
  d_x :: "int list"
  d_X :: "point list"
  d_secret :: int

definition check_share :: "point \<Rightarrow> point list \<Rightarrow> point list \<Rightarrow> nat \<Rightarrow> int \<times> int \<Rightarrow> unit result" where
  "check_share h ped fel j ssp = (case ssp of (s, sp) \<Rightarrow>
     rbind (pt_mul s secp_G) (\<lambda>gs. rbind (pt_mul sp h) (\<lambda>hs. rbind (pt_add gs hs) (\<lambda>lhs.
     rbind (commit_eval j 0 None ped) (\<lambda>rhs. rbind (py_assert (lhs = rhs)) (\<lambda>_.
     rbind (commit_eval j 0 None fel) (\<lambda>rhs'. py_assert (gs = rhs'))))))))"

definition dealt :: "nat \<Rightarrow> int list \<Rightarrow> int list \<Rightarrow> (int \<times> int) list" where
  "dealt n a b = map (\<lambda>j. (poly a (int j), poly b (int j))) [1..<n + 1]"

definition cell :: "int list list \<Rightarrow> nat \<Rightarrow> nat \<Rightarrow> int result" where
  "cell a i k = rbind (item_at a (int i)) (\<lambda>row. item_at row (int k))"

definition ped_commit :: "point \<Rightarrow> nat \<Rightarrow> int list list \<Rightarrow> int list list \<Rightarrow> nat \<Rightarrow> point list result" where
  "ped_commit h t a b i = rmap (\<lambda>k. rbind (cell a i k) (\<lambda>ak. rbind (pt_mul ak secp_G) (\<lambda>p.
     rbind (cell b i k) (\<lambda>bk. rbind (pt_mul bk h) (pt_add p))))) [0..<t]"

definition fel_commit :: "nat \<Rightarrow> int list list \<Rightarrow> nat \<Rightarrow> point list result" where
  "fel_commit t a i = rmap (\<lambda>k. rbind (cell a i k) (\<lambda>ak. pt_mul ak secp_G)) [0..<t]"

text \<open>The shares of dealer \<open>i + 1\<close>.\<close>

definition dealer_shares :: "nat \<Rightarrow> int list list \<Rightarrow> int list list \<Rightarrow> nat \<Rightarrow> (int \<times> int) list result" where
  "dealer_shares n a b i = rbind (item_at a (int i)) (\<lambda>ai. rbind (item_at b (int i)) (\<lambda>bi. Inr (dealt n ai bi)))"

text \<open>The share of party \<open>j + 1\<close>: the sum of what the dealers sent it.\<close>

definition party_shares :: "nat \<Rightarrow> (int \<times> int) list list \<Rightarrow> int list" where
  "party_shares n shares = map (\<lambda>j. sum_list (map (\<lambda>row. fst (row ! j)) shares) mod secp_N) [0..<n]"

definition group_secret :: "nat \<Rightarrow> int list list \<Rightarrow> int result" where
  "group_secret n a = rbind (rmap (\<lambda>i. cell a i 0) [0..<n]) (\<lambda>cs. Inr (sum_list cs mod secp_N))"

text \<open>The two subsets that are tried.\<close>

definition tried :: "nat \<Rightarrow> nat \<Rightarrow> int list list" where
  "tried n t = [take t [1, 2, 3], map (\<lambda>k. int n - int k) [0..<t]]"

definition dkg_outputs :: "point \<Rightarrow> nat \<Rightarrow> nat \<Rightarrow> int list list \<Rightarrow> int list list \<Rightarrow> dkg_out result" where
  "dkg_outputs h n t a b =
     rbind (rmap (ped_commit h t a b) [0..<n]) (\<lambda>ped.
     rbind (rmap (fel_commit t a) [0..<n]) (\<lambda>fel.
     rbind (rmap (dealer_shares n a b) [0..<n]) (\<lambda>shares.
     rbind (rmap (\<lambda>i. rmap (\<lambda>j. check_share h (ped ! i) (fel ! i) j (shares ! i ! (j - 1))) [1..<n + 1]) [0..<n]) (\<lambda>_.
     rbind (rmap (\<lambda>row. item_at row 0) fel) (\<lambda>firsts. rbind (pt_sum None firsts) (\<lambda>Q.
     let x = party_shares n shares in
     rbind (rmap (\<lambda>v. pt_mul v secp_G) x) (\<lambda>X.
     rbind (group_secret n a) (\<lambda>secret.
     rbind (pt_mul secret secp_G) (\<lambda>sG. rbind (py_assert (sG = Q)) (\<lambda>_.
     rbind (rmap (\<lambda>s. rbind (recover x s) (\<lambda>r. py_assert (r = secret))) (tried n t)) (\<lambda>_.
     Inr \<lparr> d_ped = ped, d_fel = fel, d_shares = shares, d_Q = Q, d_x = x, d_X = X, d_secret = secret \<rparr>)))))))))))"

section \<open>Resharing\<close>

record reshare_out =
  r_g :: "(int \<times> int list) list"
  r_B :: "(int \<times> point list) list"
  r_sh :: "(int \<times> int list) list"
  r_lam :: "(int \<times> int) list"
  r_newx :: "int list"
  r_newX :: "point list"
  r_Fp :: "point list"

text \<open>\<open>{i: f(i) for i in S}\<close> and \<open>d[i]\<close>.\<close>

definition dict_of :: "(int \<Rightarrow> 'a result) \<Rightarrow> int list \<Rightarrow> (int \<times> 'a) list result" where
  "dict_of f S = rbind (rmap (\<lambda>i. rbind (f i) (\<lambda>v. Inr (i, v))) S) (\<lambda>kvs. Inr (foldl (\<lambda>d (i, v). dict_set d i v) [] kvs))"

definition lookup :: "(int \<times> 'a) list \<Rightarrow> int \<Rightarrow> 'a result" where
  "lookup d i = (case map_of d i of None \<Rightarrow> Inl KeyError | Some v \<Rightarrow> Inr v)"

definition new_share :: "int list \<Rightarrow> (int \<times> int) list \<Rightarrow> (int \<times> int list) list \<Rightarrow> nat \<Rightarrow> int result" where
  "new_share S lam sh j = rbind (rmap (\<lambda>i. rbind (lookup lam i) (\<lambda>l. rbind (lookup sh i) (\<lambda>row. rbind (item_at row (int j)) (\<lambda>s. Inr (l * s))))) S) (\<lambda>ps.
     Inr (sum_list ps mod secp_N))"

fun new_commit :: "(int \<times> int) list \<Rightarrow> (int \<times> point list) list \<Rightarrow> nat \<Rightarrow> point \<Rightarrow> int list \<Rightarrow> point result" where
  "new_commit lam B k acc [] = Inr acc"
| "new_commit lam B k acc (i # S) = rbind (lookup lam i) (\<lambda>l. rbind (lookup B i) (\<lambda>row. rbind (item_at row (int k)) (\<lambda>p.
     rbind (pt_mul l p) (\<lambda>m. rbind (pt_add acc m) (\<lambda>acc'. new_commit lam B k acc' S)))))"

definition reshare_polys :: "int list \<Rightarrow> int list \<Rightarrow> (int \<times> int list) list \<Rightarrow> (int \<times> int list) list result" where
  "reshare_polys old_x S c = dict_of (\<lambda>i. rbind (item_at old_x (i - 1)) (\<lambda>x. rbind (lookup c i) (\<lambda>cs. Inr (x # cs)))) S"

definition reshare_shares :: "(int \<times> int list) list \<Rightarrow> int list \<Rightarrow> nat \<Rightarrow> (int \<times> int list) list result" where
  "reshare_shares g S new_n = dict_of (\<lambda>i. rbind (lookup g i) (\<lambda>gi. Inr (map (\<lambda>j. poly gi (int j)) [1..<new_n + 1]))) S"

definition reshare_outputs :: "int list \<Rightarrow> point list \<Rightarrow> point \<Rightarrow> int list \<Rightarrow> nat \<Rightarrow> nat \<Rightarrow> (int \<times> int list) list \<Rightarrow> reshare_out result" where
  "reshare_outputs old_x old_X Q S new_n new_t c =
     rbind (reshare_polys old_x S c) (\<lambda>g.
     rbind (dict_of (\<lambda>i. rbind (lookup g i) (rmap (\<lambda>v. pt_mul v secp_G))) S) (\<lambda>B.
     rbind (rmap (\<lambda>i. rbind (lookup B i) (\<lambda>row. rbind (item_at row 0) (\<lambda>b0. rbind (item_at old_X (i - 1)) (\<lambda>X0. py_assert (b0 = X0))))) S) (\<lambda>_.
     rbind (reshare_shares g S new_n) (\<lambda>sh.
     rbind (dict_of (lagrange0 S) S) (\<lambda>lam.
     rbind (rmap (new_share S lam sh) [0..<new_n]) (\<lambda>newx.
     rbind (rmap (\<lambda>v. pt_mul v secp_G) newx) (\<lambda>newX.
     rbind (rmap (\<lambda>k. new_commit lam B k None S) [0..<new_t]) (\<lambda>Fp.
     rbind (item_at Fp 0) (\<lambda>F0. rbind (py_assert (F0 = Q)) (\<lambda>_.
     rbind (rmap (\<lambda>j. rbind (commit_eval j 0 None Fp) (\<lambda>rhs. py_assert (rhs = newX ! (j - 1)))) [1..<new_n + 1]) (\<lambda>_.
     rbind (recover newx (map int [1..<new_t + 1])) (\<lambda>new_secret. rbind (recover old_x S) (\<lambda>old_secret.
     rbind (py_assert (new_secret = old_secret)) (\<lambda>_.
     Inr \<lparr> r_g = g, r_B = B, r_sh = sh, r_lam = lam, r_newx = newx, r_newX = newX, r_Fp = Fp \<rparr>))))))))))))))"


section \<open>The transcript\<close>

text \<open>The JSON values the transcript holds; an object lists its keys in order, each once.\<close>

datatype json = JInt int | JStr ustr | JArr "json list" | JObj "(ustr \<times> json) list"

definition DKG_N :: nat where "DKG_N = 5"
definition DKG_T :: nat where "DKG_T = 3"
definition RS_DEALERS :: "int list" where "RS_DEALERS = [1, 2, 4]"
definition RS_N :: nat where "RS_N = 3"
definition RS_T :: nat where "RS_T = 2"

definition fixture_row :: "string \<Rightarrow> int \<Rightarrow> nat list \<Rightarrow> int list" where
  "fixture_row what i ks = map (\<lambda>k. det_scalar (asc ''gjkr-fixture/'' @ asc what @ asc ''/'' @ ushow i @ asc ''/'' @ ushow (int k))) ks"

definition build :: "int list list \<times> int list list \<times> (int \<times> int list) list" where
  "build = (map (\<lambda>i. fixture_row ''a'' (int i + 1) [0..<DKG_T]) [0..<DKG_N], map (\<lambda>i. fixture_row ''b'' (int i + 1) [0..<DKG_T]) [0..<DKG_N],
     map (\<lambda>i. (i, fixture_row ''reshare'' i [1..<RS_T])) RS_DEALERS)"

definition jobj :: "(string \<times> json) list \<Rightarrow> json" where
  "jobj kvs = JObj (map (\<lambda>(k, v). (asc k, v)) kvs)"

definition jscs :: "int list \<Rightarrow> json" where
  "jscs vs = JArr (map (\<lambda>v. JStr (enc_sc v)) vs)"

definition jpt :: "point \<Rightarrow> json result" where
  "jpt p = rbind (enc_pt p) (\<lambda>s. Inr (JStr s))"

definition jpts :: "point list \<Rightarrow> json result" where
  "jpts ps = rbind (rmap jpt ps) (\<lambda>js. Inr (JArr js))"

definition dealer_json :: "int list list \<Rightarrow> int list list \<Rightarrow> dkg_out \<Rightarrow> nat \<Rightarrow> json result" where
  "dealer_json a b d i = rbind (jpts (d_ped d ! i)) (\<lambda>ped. rbind (jpts (d_fel d ! i)) (\<lambda>fel.
     Inr (jobj [(''id'', JInt (int i + 1)), (''a'', jscs (a ! i)), (''b'', jscs (b ! i)), (''pedersen'', ped), (''feldman'', fel),
       (''shares'', JArr (map (\<lambda>(s, sp). jscs [s, sp]) (d_shares d ! i)))])))"

definition party_json :: "int list \<Rightarrow> point list \<Rightarrow> nat \<Rightarrow> json result" where
  "party_json x X j = rbind (jpt (X ! j)) (\<lambda>p. Inr (jobj [(''id'', JInt (int j + 1)), (''x'', JStr (enc_sc (x ! j))), (''X'', p)]))"

definition reshare_json :: "(int \<times> int list) list \<Rightarrow> reshare_out \<Rightarrow> int \<Rightarrow> json result" where
  "reshare_json c r i = rbind (lookup c i) (\<lambda>ci. rbind (lookup (r_B r) i) (\<lambda>Bi. rbind (jpts Bi) (\<lambda>B. rbind (lookup (r_sh r) i) (\<lambda>sh. rbind (lookup (r_lam r) i) (\<lambda>l.
     Inr (jobj [(''id'', JInt i), (''c'', jscs ci), (''commitments'', B), (''shares'', jscs sh), (''lambda'', JStr (enc_sc l))]))))))"

definition render :: "point \<Rightarrow> int list list \<Rightarrow> int list list \<Rightarrow> (int \<times> int list) list \<Rightarrow> json result" where
  "render h a b c =
     rbind (dkg_outputs h DKG_N DKG_T a b) (\<lambda>d.
     rbind (reshare_outputs (d_x d) (d_X d) (d_Q d) RS_DEALERS RS_N RS_T c) (\<lambda>r.
     rbind (jpt h) (\<lambda>hj. rbind (rmap (dealer_json a b d) [0..<DKG_N]) (\<lambda>dealers. rbind (jpt (d_Q d)) (\<lambda>Q.
     rbind (rmap (party_json (d_x d) (d_X d)) [0..<DKG_N]) (\<lambda>outs.
     rbind (rmap (reshare_json c r) RS_DEALERS) (\<lambda>polys. rbind (jpts (r_Fp r)) (\<lambda>Fp.
     rbind (rmap (party_json (r_newx r) (r_newX r)) [0..<RS_N]) (\<lambda>new_outs.
     Inr (jobj [(''n'', JInt (int DKG_N)), (''t'', JInt (int DKG_T)), (''h'', hj), (''dealers'', JArr dealers), (''group_public_key'', Q), (''outputs'', JArr outs),
       (''reshare'', jobj [(''dealers'', JArr (map JInt RS_DEALERS)), (''new_n'', JInt (int RS_N)), (''new_t'', JInt (int RS_T)), (''dealer_polys'', JArr polys),
         (''new_commitments'', Fp), (''outputs'', JArr new_outs)])]))))))))))"

text \<open>\<open>json.dumps(doc, indent=1)\<close>; every text of a transcript is printable ASCII without quote or backslash.\<close>

definition jquote :: "ustr \<Rightarrow> ustr" where
  "jquote s = [34] @ concat (map (\<lambda>c. if c = 34 \<or> c = 92 then [92, c] else [c]) s) @ [34]"

function dumps :: "nat \<Rightarrow> json \<Rightarrow> ustr" where
  "dumps ind (JInt n) = ushow n"
| "dumps ind (JStr s) = jquote s"
| "dumps ind (JArr xs) = (if xs = [] then asc ''[]'' else
     [91, 10] @ join [44, 10] (map (\<lambda>x. replicate (ind + 1) 32 @ dumps (ind + 1) x) xs) @ [10] @ replicate ind 32 @ [93])"
| "dumps ind (JObj kvs) = (if kvs = [] then asc ''{}'' else
     [123, 10] @ join [44, 10] (map (\<lambda>kv. replicate (ind + 1) 32 @ jquote (fst kv) @ [58, 32] @ dumps (ind + 1) (snd kv)) kvs) @ [10] @ replicate ind 32 @ [125])"
  by pat_completeness auto
termination
proof (relation "measure (\<lambda>(ind, j). size j)", goal_cases)
  case (3 ind kvs kv)
  have "size (snd kv) \<le> size_prod (\<lambda>_. 0) size kv" by (cases kv) simp
  with 3 have "size (snd kv) \<le> size_list (size_prod (\<lambda>_. 0) size) kvs" by (intro size_list_estimation')
  then show ?case by simp
qed (auto simp: less_Suc_eq_le intro: size_list_estimation')


definition ZIG_HEAD :: "ustr" where
  "ZIG_HEAD = join [10] [asc ''// SPDX-License-Identifier: MIT'', asc ''//! GENERATED by tools/gjkr_oracle.py --write -- do not edit by hand.'', asc ''//!'',
     asc ''//! A recorded GJKR transcript (5 parties, t = 3) and a resharing of its key to'',
     asc ''//! 3 parties, t = 2, with EVERY secret coefficient revealed (test data only) and'',
     asc ''//! every public output recomputed by the independent Python oracle. The Zig'',
     asc ''//! test replays the participants with these coefficients and asserts equality.'', [], asc ''pub const json ='', []]"

definition write_zig :: "json \<Rightarrow> ustr" where
  "write_zig doc = ZIG_HEAD @ join [10] (map (\<lambda>ln. replicate 4 32 @ [92, 92] @ ln) (usplit (CHR 0x0A) (dumps 0 doc))) @ [10, 59, 10]"

definition BODY_RE :: re where
  "BODY_RE = rseq [RBol, rlit ''    '', RSet (\<lambda>x. x = 92), RSet (\<lambda>x. x = 92), RGroup 1 (rstar rdot), REol]"

definition zig_body :: "ustr \<Rightarrow> ustr" where
  "zig_body src = join [10] (map (\<lambda>m. group0 src m 1) (finditer BODY_RE src))"

definition read_zig :: "(ustr \<Rightarrow> json result) \<Rightarrow> ustr \<Rightarrow> json result" where
  "read_zig loads src = loads (zig_body src)"

section \<open>Checking a transcript\<close>

text \<open>Equality of values: objects compare by key.\<close>

function jeq :: "json \<Rightarrow> json \<Rightarrow> bool" where
  "jeq (JInt a) v = (v = JInt a)"
| "jeq (JStr s) v = (v = JStr s)"
| "jeq (JArr xs) v = (case v of JArr ys \<Rightarrow> length xs = length ys \<and> (\<forall>p\<in>set (zip xs ys). jeq (fst p) (snd p)) | _ \<Rightarrow> False)"
| "jeq (JObj kvs) v = (case v of JObj lvs \<Rightarrow> length kvs = length lvs \<and> (\<forall>kv\<in>set kvs. case map_of lvs (fst kv) of None \<Rightarrow> False | Some w \<Rightarrow> jeq (snd kv) w) | _ \<Rightarrow> False)"
  by pat_completeness auto
termination
proof (relation "measure (\<lambda>(j, v). size j)", goal_cases)
  case (2 xs v ys p)
  then have "fst p \<in> set xs" by (metis prod.collapse set_zip_leftD)
  then show ?case by (cases p) (auto simp: less_Suc_eq_le intro: size_list_estimation')
next
  case (3 kvs v lvs kv w)
  have "size (snd kv) \<le> size_prod (\<lambda>_. 0) size kv" by (cases kv) simp
  with 3 have "size (snd kv) \<le> size_list (size_prod (\<lambda>_. 0) size) kvs" by (intro size_list_estimation')
  then show ?case by simp
qed simp

definition jget :: "json \<Rightarrow> string \<Rightarrow> json result" where
  "jget j k = (case j of JObj kvs \<Rightarrow> (case map_of kvs (asc k) of None \<Rightarrow> Inl KeyError | Some v \<Rightarrow> Inr v) | _ \<Rightarrow> Inl TypeError)"

text \<open>Iterating over a value: the elements of a list, the characters of a text, the keys of an object.\<close>

definition jiter :: "json \<Rightarrow> json list result" where
  "jiter j = (case j of JArr xs \<Rightarrow> Inr xs | JStr s \<Rightarrow> Inr (map (\<lambda>c. JStr [c]) s) | JObj kvs \<Rightarrow> Inr (map (\<lambda>kv. JStr (fst kv)) kvs) | JInt _ \<Rightarrow> Inl TypeError)"

definition jhex :: "json \<Rightarrow> int result" where
  "jhex j = (case j of JStr s \<Rightarrow> (if list_all (\<lambda>c. 0 \<le> c \<and> c < 256) s then py_int16 (map char_of s) else Inl ValueError) | _ \<Rightarrow> Inl TypeError)"

definition jrow :: "string \<Rightarrow> json \<Rightarrow> int list result" where
  "jrow k d = rbind (jget d k) (\<lambda>v. rbind (jiter v) (rmap jhex))"

text \<open>The keys of \<open>c\<close>: a text is a key no dealer has, a list or an object none at all.\<close>

definition jpolys :: "json list \<Rightarrow> (int \<times> int list) list result" where
  "jpolys ps = rbind (rmap (\<lambda>p. rbind (jget p ''id'') (\<lambda>i. rbind (jrow ''c'' p) (\<lambda>cs.
       case i of JInt n \<Rightarrow> Inr [(n, cs)] | JStr _ \<Rightarrow> Inr [] | _ \<Rightarrow> Inl TypeError))) ps) (\<lambda>rows.
     Inr (foldl (\<lambda>d (i, v). dict_set d i v) [] (concat rows)))"

definition check :: "point \<Rightarrow> json \<Rightarrow> int result" where
  "check h doc =
     rbind (jget doc ''n'') (\<lambda>n. rbind (jget doc ''t'') (\<lambda>t.
     rbind (enc_pt h) (\<lambda>hs. rbind (jget doc ''h'') (\<lambda>dh. rbind (py_assert (dh = JStr hs)) (\<lambda>_.
     rbind (jget doc ''dealers'') (\<lambda>ds. rbind (jiter ds) (\<lambda>dealers.
     rbind (rmap (jrow ''a'') dealers) (\<lambda>a. rbind (rmap (jrow ''b'') dealers) (\<lambda>b.
     rbind (jget doc ''reshare'') (\<lambda>rs. rbind (jget rs ''dealer_polys'') (\<lambda>dp. rbind (jiter dp) (\<lambda>polys. rbind (jpolys polys) (\<lambda>c.
     rbind (jget rs ''dealers'') (\<lambda>rd. rbind (jget rs ''new_n'') (\<lambda>rn. rbind (jget rs ''new_t'') (\<lambda>rt.
     rbind (py_assert (rd = JArr (map JInt RS_DEALERS) \<and> rn = JInt (int RS_N) \<and> rt = JInt (int RS_T) \<and> n = JInt (int DKG_N) \<and> t = JInt (int DKG_T))) (\<lambda>_.
     rbind (render h a b c) (\<lambda>fresh. Inr (if jeq fresh doc then 0 else 1)))))))))))))))))))"

datatype dkg_run = DkgWrote ustr | DkgExit int

definition dkg_main :: "(ustr \<Rightarrow> json result) \<Rightarrow> point \<Rightarrow> ustr \<Rightarrow> ustr list \<Rightarrow> dkg_run result" where
  "dkg_main loads h src argv =
     (if asc ''--write'' \<in> set argv then (case build of (a, b, c) \<Rightarrow> rbind (render h a b c) (\<lambda>doc. Inr (DkgWrote (write_zig doc))))
      else if asc ''--check'' \<in> set argv then rbind (read_zig loads src) (\<lambda>doc. rbind (check h doc) (\<lambda>rc. Inr (DkgExit rc)))
      else Inr (DkgExit 2))"

end
