(* ===== verification/Dkg_Props.thy ===== *)
theory Dkg_Props
  imports Dkg
begin

text \<open>
  Properties of the key generation: the arithmetic helpers against their mathematical meaning, any large enough set of shares gives
  back the group secret, and resharing keeps it.
\<close>

section \<open>Arithmetic\<close>

lemma egcd_correct: "0 \<le> a \<Longrightarrow> 0 \<le> b \<Longrightarrow> egcd a b = (g, s, t) \<Longrightarrow> g = gcd a b \<and> s * a + t * b = g"
proof (induction a b arbitrary: g s t rule: egcd.induct)
  case (1 a b)
  show ?case
  proof (cases "b \<le> 0")
    case True
    with 1 show ?thesis by (auto simp: egcd.simps)
  next
    case False
    obtain g' s' t' where r: "egcd b (a mod b) = (g', s', t')" by (cases "egcd b (a mod b)")
    with False have "g' = gcd b (a mod b) \<and> s' * b + t' * (a mod b) = g'" by (intro "1.IH") auto
    moreover have "g = g'" "s = t'" "t = s' - a div b * t'" using "1.prems"(3) False r by (auto simp: egcd.simps [of a b])
    moreover have "t' * a + (s' - a div b * t') * b = s' * b + t' * (a - a div b * b)" by (simp add: algebra_simps)
    then have "t' * a + (s' - a div b * t') * b = s' * b + t' * (a mod b)" by (simp add: minus_div_mult_eq_mod)
    ultimately show ?thesis by (metis gcd.commute gcd_red_int)
  qed
qed

lemma inv_mod_unit:
  assumes "1 < m" "coprime x m"
  obtains v where "inv_mod x m = Inr v" "m dvd v * x - 1" "0 \<le> v" "v < m"
proof -
  obtain g s t where e: "egcd (x mod m) m = (g, s, t)" by (cases "egcd (x mod m) m")
  then have g: "g = gcd (x mod m) m" "s * (x mod m) + t * m = g" using egcd_correct [of "x mod m" m g s t] assms(1) by simp_all
  then have g1: "g = 1" using assms(2) by (metis coprime_iff_gcd_eq_1 gcd.commute gcd_red_int)
  have "(s mod m * x) mod m = (s * (x mod m)) mod m" by (simp add: mod_mult_eq mod_mult_right_eq mod_mult_left_eq)
  also have "\<dots> = (s * (x mod m) + t * m) mod m" by simp
  also have "\<dots> = 1 mod m" using g g1 by simp
  finally have "m dvd s mod m * x - 1" by (simp add: mod_eq_dvd_iff)
  moreover have "inv_mod x m = Inr (s mod m)" using e g1 by (simp add: inv_mod_def)
  ultimately show thesis using that [of "s mod m"] assms(1) by simp
qed

lemma pow_mod_power: "pow_mod b e m = b ^ nat e mod m"
proof (induction b e m rule: pow_mod.induct)
  case (1 b e m)
  show ?case
  proof (cases "e \<le> 0")
    case True
    then show ?thesis by (simp add: pow_mod.simps)
  next
    case False
    then have IH: "pow_mod (b * b mod m) (e div 2) m = (b * b) ^ nat (e div 2) mod m" using 1 by (simp add: power_mod)
    have sq: "(b * b) ^ nat (e div 2) = b ^ (2 * nat (e div 2))" by (simp add: power_mult power2_eq_square)
    show ?thesis
    proof (cases "odd e")
      case True
      then obtain h where "e = 2 * h + 1" by (elim oddE)
      with False have "nat e = Suc (2 * nat (e div 2))" by (simp add: nat_add_distrib nat_mult_distrib)
      then have "b ^ nat e = b * (b * b) ^ nat (e div 2)" by (simp only: sq power_Suc)
      with True False IH show ?thesis by (subst pow_mod.simps) (simp add: Let_def mod_mult_right_eq)
    next
      case even: False
      then obtain h where "e = 2 * h" by blast
      with False have "nat e = 2 * nat (e div 2)" by (simp add: nat_mult_distrib)
      then have "b ^ nat e = (b * b) ^ nat (e div 2)" by (metis sq)
      with even False IH show ?thesis by (subst pow_mod.simps) (simp add: Let_def)
    qed
  qed
qed

lemma peval_nth: "peval cs (x :: int) = (\<Sum>k<length cs. cs ! k * x ^ k)"
proof (induction cs)
  case (Cons c cs)
  have "(\<Sum>k<length (c # cs). (c # cs) ! k * x ^ k) = c + (\<Sum>k<length cs. cs ! k * x ^ Suc k)"
    by (simp only: length_Cons sum.lessThan_Suc_shift) simp
  also have "(\<Sum>k<length cs. cs ! k * x ^ Suc k) = x * (\<Sum>k<length cs. cs ! k * x ^ k)"
    by (simp add: sum_distrib_left ac_simps)
  finally show ?case using Cons by simp
qed simp

lemma secp_N_gt1: "1 < secp_N"
  by (simp add: secp_N_def)

lemma poly_peval: "poly cs x = peval cs x mod secp_N"
proof -
  have "sum_list (map (\<lambda>k. cs ! k * pow_mod x (int k) secp_N) [0..<length cs]) = (\<Sum>k<length cs. cs ! k * (x ^ k mod secp_N))"
    by (simp add: pow_mod_power sum_list_distinct_conv_sum_set atLeast0LessThan)
  moreover have "(\<Sum>k<length cs. cs ! k * (x ^ k mod secp_N)) mod secp_N = (\<Sum>k<length cs. cs ! k * x ^ k) mod secp_N"
    by (subst (1 2) mod_sum_eq [symmetric]) (simp add: mod_mult_right_eq)
  ultimately show ?thesis by (simp add: poly_def peval_nth)
qed

section \<open>Lagrange coefficients\<close>

text \<open>Ids whose differences are units.\<close>

definition good_ids :: "int list \<Rightarrow> bool" where
  "good_ids ids \<longleftrightarrow> distinct ids \<and> (\<forall>i\<in>set ids. \<forall>j\<in>set ids. i \<noteq> j \<longrightarrow> coprime (j - i) secp_N)"

lemma lag_fold:
  assumes "distinct ids"
  shows "\<exists>num den. foldl (lag_step i) (p, q) ids = (num, den)
    \<and> num mod secp_N = p * (\<Prod>j\<in>set ids - {i}. j) mod secp_N \<and> den mod secp_N = q * (\<Prod>j\<in>set ids - {i}. j - i) mod secp_N"
  using assms
proof (induction ids arbitrary: p q)
  case (Cons j ids)
  show ?case
  proof (cases "j = i")
    case True
    then have "set (j # ids) - {i} = set ids - {i}" by auto
    with Cons True show ?thesis by (simp add: lag_step_def)
  next
    case False
    then have s: "set (j # ids) - {i} = insert j (set ids - {i})" "j \<notin> set ids - {i}" using Cons.prems by auto
    have "distinct ids" using Cons.prems by simp
    from Cons.IH [OF this, of "p * j mod secp_N" "q * (j - i) mod secp_N"] obtain num den where r: "foldl (lag_step i) (p * j mod secp_N, q * (j - i) mod secp_N) ids = (num, den)"
      and m: "num mod secp_N = p * j mod secp_N * (\<Prod>j\<in>set ids - {i}. j) mod secp_N"
      "den mod secp_N = q * (j - i) mod secp_N * (\<Prod>j\<in>set ids - {i}. j - i) mod secp_N" by blast
    have "foldl (lag_step i) (p, q) (j # ids) = (num, den)" using r False by (simp add: lag_step_def)
    moreover have "num mod secp_N = p * (\<Prod>j\<in>set (j # ids) - {i}. j) mod secp_N"
      using m(1) s by (simp add: mod_mult_left_eq mult.assoc)
    moreover have "den mod secp_N = q * (\<Prod>j\<in>set (j # ids) - {i}. j - i) mod secp_N"
      using m(2) s by (simp add: mod_mult_left_eq mult.assoc)
    ultimately show ?thesis by blast
  qed
qed simp

lemma lagrange0_spec:
  assumes "good_ids ids" "i \<in> set ids"
  obtains l where "lagrange0 ids i = Inr l" "secp_N dvd l * (\<Prod>j\<in>set ids - {i}. j - i) - (\<Prod>j\<in>set ids - {i}. j)"
proof -
  let ?n = "\<Prod>j\<in>set ids - {i}. j" and ?d = "\<Prod>j\<in>set ids - {i}. j - i"
  have dist: "distinct ids" using assms(1) by (simp add: good_ids_def)
  obtain num den where nd: "foldl (lag_step i) (1, 1) ids = (num, den)" "num mod secp_N = ?n mod secp_N" "den mod secp_N = ?d mod secp_N"
    using lag_fold [OF dist, of i 1 1] by auto
  have "coprime ?d secp_N" using assms by (intro prod_coprime_left) (simp add: good_ids_def)
  moreover have "secp_N \<noteq> 0" using secp_N_gt1 by simp
  ultimately have "coprime den secp_N"
    using coprime_mod_left_iff [of secp_N ?d] coprime_mod_left_iff [of secp_N den] unfolding nd(3) by blast
  then obtain v where v: "inv_mod den secp_N = Inr v" "secp_N dvd v * den - 1" using inv_mod_unit [OF secp_N_gt1] by blast
  have nd': "secp_N dvd num - ?n" "secp_N dvd den - ?d" using nd(2,3) by (simp_all add: mod_eq_dvd_iff)
  have "num * v mod secp_N * ?d - ?n = num * ((v * den - 1) - v * (den - ?d)) + (num - ?n) - (num * v - num * v mod secp_N) * ?d"
    by (simp add: algebra_simps)
  also have "secp_N dvd \<dots>"
    by (rule dvd_diff [OF dvd_add [OF dvd_mult [OF dvd_diff [OF v(2) dvd_mult [OF nd'(2)]]] nd'(1)] dvd_mult2 [OF dvd_minus_mod]])
  finally have "secp_N dvd num * v mod secp_N * ?d - ?n" .
  moreover have "lagrange0 ids i = Inr (num * v mod secp_N)" using nd(1) v(1) by (simp add: lagrange0_def)
  ultimately show thesis using that by blast
qed


section \<open>Recombination\<close>

lemma recover_Inr:
  assumes "good_ids ids" "\<And>i. i \<in> set ids \<Longrightarrow> 1 \<le> i \<and> i \<le> int (length xs)" "length cs \<le> length ids"
    and "\<And>i. i \<in> set ids \<Longrightarrow> secp_N dvd xs ! nat (i - 1) - peval cs i"
  shows "recover xs ids = Inr (const_term cs mod secp_N)"
proof -
  have dist: "distinct ids" using assms(1) by (simp add: good_ids_def)
  define l where "l i = (THE l. lagrange0 ids i = Inr l)" for i
  have l: "lagrange0 ids i = Inr (l i)" "secp_N dvd l i * (\<Prod>j\<in>set ids - {i}. j - i) - (\<Prod>j\<in>set ids - {i}. j)" if "i \<in> set ids" for i
  proof -
    from lagrange0_spec [OF assms(1) that] obtain v
      where v: "lagrange0 ids i = Inr v" "secp_N dvd v * (\<Prod>j\<in>set ids - {i}. j - i) - (\<Prod>j\<in>set ids - {i}. j)" by blast
    moreover have "l i = v" using v(1) by (simp add: l_def)
    ultimately show "lagrange0 ids i = Inr (l i)" "secp_N dvd l i * (\<Prod>j\<in>set ids - {i}. j - i) - (\<Prod>j\<in>set ids - {i}. j)" by simp_all
  qed
  have it: "item_at xs (i - 1) = Inr (xs ! nat (i - 1))" if "i \<in> set ids" for i
    using assms(2) [OF that] by (simp add: item_at_def)
  have "rmap (\<lambda>i. rbind (item_at xs (i - 1)) (\<lambda>x. rbind (lagrange0 ids i) (\<lambda>l. Inr (x * l)))) ids = Inr (map (\<lambda>i. xs ! nat (i - 1) * l i) ids)"
    using l(1) it by (intro rmap_Inr) simp
  moreover have "sum_list (map (\<lambda>i. xs ! nat (i - 1) * l i) ids) = (\<Sum>i\<in>set ids. xs ! nat (i - 1) * l i)"
    by (rule sum_list_distinct_conv_sum_set [OF dist])
  moreover have "secp_N dvd (\<Sum>i\<in>set ids. xs ! nat (i - 1) * l i) - const_term cs"
    using assms(1,3,4) l(2) dist by (intro lag_mod) (auto simp: good_ids_def distinct_card)
  ultimately show ?thesis by (simp add: recover_def mod_eq_dvd_iff)
qed

text \<open>Sums and multiples of polynomials.\<close>

fun padd :: "int list \<Rightarrow> int list \<Rightarrow> int list" where
  "padd [] ys = ys"
| "padd xs [] = xs"
| "padd (x # xs) (y # ys) = (x + y) # padd xs ys"

lemma peval_padd: "peval (padd xs ys) z = peval xs z + peval ys z"
  by (induction xs ys rule: padd.induct) (simp_all add: algebra_simps)

lemma const_term_Nil [simp]: "const_term [] = 0"
  by (simp add: const_term_def)

lemma const_term_Cons: "const_term (c # cs) = c"
  by (simp add: const_term_def)

lemma const_term_padd: "const_term (padd xs ys) = const_term xs + const_term ys"
  by (cases "(xs, ys)" rule: padd.cases) (simp_all add: const_term_def)

lemma length_padd: "length (padd xs ys) = max (length xs) (length ys)"
  by (induction xs ys rule: padd.induct) simp_all

lemma peval_scale: "peval (map ((*) (c :: int)) xs) z = c * peval xs z"
  by (induction xs) (simp_all add: algebra_simps)

lemma const_term_scale: "const_term (map ((*) (c :: int)) xs) = c * const_term xs"
  by (cases xs) (simp_all add: const_term_def)

definition psum :: "int list list \<Rightarrow> int list" where
  "psum ps = foldr padd ps []"

lemma psum_facts:
  "peval (psum ps) z = sum_list (map (\<lambda>p. peval p z) ps)"
  "const_term (psum ps) = sum_list (map const_term ps)"
  by (induction ps) (simp_all add: psum_def peval_padd const_term_padd)

lemma length_psum: "(\<And>p. p \<in> set ps \<Longrightarrow> length p \<le> t) \<Longrightarrow> length (psum ps) \<le> t"
  by (induction ps) (simp_all add: psum_def length_padd)

lemma good_ids_range:
  assumes "distinct ids" "set ids \<subseteq> {1..int n}" "\<And>d. 1 \<le> d \<Longrightarrow> d < int n \<Longrightarrow> coprime d secp_N"
  shows "good_ids ids"
proof -
  have b: "1 \<le> i \<and> i \<le> int n" if "i \<in> set ids" for i using that assms(2) by auto
  have "coprime (j - i) secp_N" if "i \<in> set ids" "j \<in> set ids" "i \<noteq> j" for i j
  proof (cases "i < j")
    case True
    then show ?thesis using b [OF that(1)] b [OF that(2)] by (intro assms(3)) linarith+
  next
    case False
    then have "coprime (i - j) secp_N" using b [OF that(1)] b [OF that(2)] that(3) by (intro assms(3)) linarith+
    moreover have "j - i = - (i - j)" by simp
    ultimately show ?thesis by (metis coprime_minus_left_iff)
  qed
  with assms(1) show ?thesis by (simp add: good_ids_def)
qed


section \<open>Key generation and resharing\<close>

lemma dealer_shares_rows:
  assumes "length a = n" "length b = n"
  shows "rmap (dealer_shares n a b) [0..<n] = Inr (map (\<lambda>i. dealt n (a ! i) (b ! i)) [0..<n])"
  using assms by (intro rmap_Inr) (simp add: dealer_shares_def item_at_def)

lemma dealt_nth: "j < n \<Longrightarrow> dealt n a b ! j = (poly a (int j + 1), poly b (int j + 1))"
  by (simp add: dealt_def add.commute del: upt_Suc)

lemma party_share_peval:
  assumes "j < n" "length a = n"
  shows "secp_N dvd party_shares n (map (\<lambda>i. dealt n (a ! i) (b ! i)) [0..<n]) ! j - peval (psum a) (int j + 1)"
proof -
  have "map (\<lambda>row. fst (row ! j)) (map (\<lambda>i. dealt n (a ! i) (b ! i)) [0..<n]) = map (\<lambda>p. peval p (int j + 1) mod secp_N) a"
    using assms by (intro nth_equalityI) (simp_all add: dealt_nth poly_peval)
  then have "party_shares n (map (\<lambda>i. dealt n (a ! i) (b ! i)) [0..<n]) ! j = sum_list (map (\<lambda>p. peval p (int j + 1) mod secp_N) a) mod secp_N"
    using assms(1) by (simp add: party_shares_def)
  moreover have "sum_list (map (\<lambda>p. f p mod m) ps) mod m = sum_list (map f ps) mod (m :: int)" for f m and ps :: "int list list"
    by (induction ps) (simp_all add: mod_add_left_eq, metis mod_add_right_eq)
  ultimately show ?thesis by (simp add: psum_facts mod_eq_dvd_iff [symmetric])
qed

lemma group_secret_const:
  assumes "length a = n" "\<And>ai. ai \<in> set a \<Longrightarrow> ai \<noteq> []"
  shows "group_secret n a = Inr (const_term (psum a) mod secp_N)"
proof -
  have "rmap (\<lambda>i. cell a i 0) [0..<n] = Inr (map (\<lambda>i. const_term (a ! i)) [0..<n])"
  proof (rule rmap_Inr)
    fix i assume "i \<in> set [0..<n]"
    then have "i < length a" "a ! i \<noteq> []" using assms by simp_all
    then show "cell a i 0 = Inr (const_term (a ! i))" by (cases "a ! i") (simp_all add: cell_def item_at_def const_term_def)
  qed
  moreover have "map (\<lambda>i. const_term (a ! i)) [0..<n] = map const_term a" using assms(1) by (intro nth_equalityI) simp_all
  ultimately show ?thesis by (simp add: group_secret_def psum_facts)
qed

lemma shares_recover:
  assumes "length a = n" "\<And>ai. ai \<in> set a \<Longrightarrow> ai \<noteq> [] \<and> length ai \<le> t"
    and "distinct ids" "set ids \<subseteq> {1..int n}" "t \<le> length ids" "\<And>d. 1 \<le> d \<Longrightarrow> d < int n \<Longrightarrow> coprime d secp_N"
  shows "recover (party_shares n (map (\<lambda>i. dealt n (a ! i) (b ! i)) [0..<n])) ids = group_secret n a"
proof -
  let ?x = "party_shares n (map (\<lambda>i. dealt n (a ! i) (b ! i)) [0..<n])"
  have b: "1 \<le> i \<and> i \<le> int n" if "i \<in> set ids" for i using that assms(4) by auto
  have "recover ?x ids = Inr (const_term (psum a) mod secp_N)"
  proof (rule recover_Inr)
    show "good_ids ids" by (rule good_ids_range [OF assms(3,4,6)])
    show "1 \<le> i \<and> i \<le> int (length ?x)" if "i \<in> set ids" for i using b [OF that] by (simp add: party_shares_def)
    show "length (psum a) \<le> length ids" using length_psum [of a t] assms(2,5) by fastforce
    show "secp_N dvd ?x ! nat (i - 1) - peval (psum a) i" if "i \<in> set ids" for i
      using party_share_peval [of "nat (i - 1)" n a b] b [OF that] assms(1) by (simp add: nat_less_iff)
  qed
  then show ?thesis using group_secret_const [OF assms(1)] assms(2) by simp
qed


lemma sum_list_mod_mult: "sum_list (map (\<lambda>k. f k * (h k mod m)) S) mod m = sum_list (map (\<lambda>k. f k * h k) S) mod (m :: int)"
proof (induction S)
  case (Cons k S)
  have "(f k * (h k mod m) + r) mod m = (f k * h k + r mod m) mod m" for r
    by (metis mod_add_eq mod_mod_trivial mod_mult_right_eq)
  with Cons show ?case by simp (metis mod_add_right_eq)
qed simp

lemma dict_of_distinct:
  assumes "distinct S" "\<And>i. i \<in> set S \<Longrightarrow> f i = Inr (g i)"
  shows "dict_of f S = Inr (map (\<lambda>i. (i, g i)) S)"
proof -
  have "rmap (\<lambda>i. rbind (f i) (\<lambda>v. Inr (i, v))) S = Inr (map (\<lambda>i. (i, g i)) S)" using assms(2) by (intro rmap_Inr) simp
  moreover have "foldl (\<lambda>d (i, v). dict_set d i v) [] (map (\<lambda>i. (i, g i)) S) = map (\<lambda>i. (i, g i)) S"
    using foldl_dict_set_distinct [of "[]" "map (\<lambda>i. (i, g i)) S"] assms(1) by (simp add: comp_def)
  ultimately show ?thesis by (simp add: dict_of_def)
qed

lemma lookup_map: "i \<in> set S \<Longrightarrow> lookup (map (\<lambda>i. (i, g i)) S) i = Inr (g i)"
  by (induction S) (auto simp: lookup_def split: option.splits)

lemma reshare_recover:
  fixes cs :: "int \<Rightarrow> int list"
  assumes S: "good_ids S" "\<And>i. i \<in> set S \<Longrightarrow> 1 \<le> i \<and> i \<le> int (length old_x)"
    and c: "\<And>i. i \<in> set S \<Longrightarrow> lookup c i = Inr (cs i) \<and> length (cs i) < new_t"
    and ids: "good_ids ids" "set ids \<subseteq> {1..int new_n}" "new_t \<le> length ids"
  shows "\<exists>g sh lam newx v. reshare_polys old_x S c = Inr g \<and> reshare_shares g S new_n = Inr sh \<and> dict_of (lagrange0 S) S = Inr lam
    \<and> rmap (new_share S lam sh) [0..<new_n] = Inr newx \<and> recover newx ids = Inr v \<and> recover old_x S = Inr v"
proof -
  have dist: "distinct S" using S(1) by (simp add: good_ids_def)
  define l where "l i = (THE l. lagrange0 S i = Inr l)" for i
  have l: "lagrange0 S i = Inr (l i)" if i: "i \<in> set S" for i
    using i by (rule lagrange0_spec [OF S(1)]) (simp add: l_def)
  let ?x = "\<lambda>i. old_x ! nat (i - 1)"
  let ?g = "\<lambda>i. ?x i # cs i" and ?sh = "\<lambda>i. map (\<lambda>j. poly (?x i # cs i) (int j)) [1..<new_n + 1]"
  have it: "item_at old_x (i - 1) = Inr (?x i)" if "i \<in> set S" for i
    using S(2) [OF that] by (simp add: item_at_def)
  have g: "reshare_polys old_x S c = Inr (map (\<lambda>i. (i, ?g i)) S)"
    unfolding reshare_polys_def using it c by (intro dict_of_distinct [OF dist]) simp
  have sh: "reshare_shares (map (\<lambda>i. (i, ?g i)) S) S new_n = Inr (map (\<lambda>i. (i, ?sh i)) S)"
    unfolding reshare_shares_def by (intro dict_of_distinct [OF dist]) (simp add: lookup_map del: upt_Suc)
  have lam: "dict_of (lagrange0 S) S = Inr (map (\<lambda>i. (i, l i)) S)" by (rule dict_of_distinct [OF dist l])
  let ?new = "\<lambda>j. sum_list (map (\<lambda>i. l i * poly (?g i) (int j + 1)) S) mod secp_N"
  have newx: "rmap (new_share S (map (\<lambda>i. (i, l i)) S) (map (\<lambda>i. (i, ?sh i)) S)) [0..<new_n] = Inr (map ?new [0..<new_n])"
  proof (rule rmap_Inr)
    fix j assume "j \<in> set [0..<new_n]"
    then have "item_at (?sh i) (int j) = Inr (poly (?g i) (int j + 1))" for i
      by (simp add: item_at_def add.commute del: upt_Suc)
    then have "rmap (\<lambda>i. rbind (lookup (map (\<lambda>i. (i, l i)) S) i) (\<lambda>l. rbind (lookup (map (\<lambda>i. (i, ?sh i)) S) i) (\<lambda>row. rbind (item_at row (int j)) (\<lambda>s. Inr (l * s))))) S
        = Inr (map (\<lambda>i. l i * poly (?g i) (int j + 1)) S)"
      by (intro rmap_Inr) (simp add: lookup_map del: upt_Suc)
    then show "new_share S (map (\<lambda>i. (i, l i)) S) (map (\<lambda>i. (i, ?sh i)) S) j = Inr (?new j)" by (simp add: new_share_def del: upt_Suc)
  qed
  let ?cs = "psum (map (\<lambda>i. map ((*) (l i)) (?g i)) S)"
  have old: "recover old_x S = Inr (const_term ?cs mod secp_N)"
  proof -
    have "rmap (\<lambda>i. rbind (item_at old_x (i - 1)) (\<lambda>x. rbind (lagrange0 S i) (\<lambda>l. Inr (x * l)))) S = Inr (map (\<lambda>i. ?x i * l i) S)"
      using it l by (intro rmap_Inr) simp
    then show ?thesis by (simp add: recover_def psum_facts const_term_Cons comp_def mult.commute)
  qed
  have b: "1 \<le> i \<and> i \<le> int new_n" if "i \<in> set ids" for i using that ids(2) by auto
  have "recover (map ?new [0..<new_n]) ids = Inr (const_term ?cs mod secp_N)"
  proof (rule recover_Inr [OF ids(1)])
    show "1 \<le> i \<and> i \<le> int (length (map ?new [0..<new_n]))" if "i \<in> set ids" for i using b [OF that] by simp
    have "length ?cs \<le> new_t" using c by (intro length_psum) (auto simp: Suc_le_eq)
    then show "length ?cs \<le> length ids" using ids(3) by simp
    show "secp_N dvd map ?new [0..<new_n] ! nat (i - 1) - peval ?cs i" if i: "i \<in> set ids" for i
    proof -
      have "map ?new [0..<new_n] ! nat (i - 1) = sum_list (map (\<lambda>k. l k * (peval (?g k) i mod secp_N)) S) mod secp_N"
        using b [OF i] by (simp add: poly_peval nat_less_iff)
      also have "\<dots> = sum_list (map (\<lambda>k. l k * peval (?g k) i) S) mod secp_N" by (rule sum_list_mod_mult)
      also have "sum_list (map (\<lambda>k. l k * peval (?g k) i) S) = peval ?cs i" by (simp only: psum_facts map_map comp_def peval_scale)
      finally show ?thesis by (simp only: mod_eq_dvd_iff [symmetric] mod_mod_trivial)
    qed
  qed
  with g sh lam newx old show ?thesis by blast
qed


text \<open>
  C39: threshold reconstruction.  When every dealer's polynomial has at most \<open>t\<close> coefficients, the dealt shares exist, and from the
  party shares of any \<open>t\<close> or more different parties the Lagrange combination gives exactly the group secret; the script itself
  tries two such sets.  The hypothesis on the order of the curve says that the differences of ids are units, which holds as the order is prime.
\<close>

theorem any_threshold_set_recovers_secret:
  assumes "length a = n" "length b = n" "\<And>ai. ai \<in> set a \<Longrightarrow> ai \<noteq> [] \<and> length ai \<le> t"
    and "distinct ids" "set ids \<subseteq> {1..int n}" "t \<le> length ids"
    and "\<And>d. 1 \<le> d \<Longrightarrow> d < int n \<Longrightarrow> coprime d secp_N"
  shows "\<exists>shares secret. rmap (dealer_shares n a b) [0..<n] = Inr shares \<and> group_secret n a = Inr secret
    \<and> recover (party_shares n shares) ids = Inr secret"
  using dealer_shares_rows [OF assms(1,2)] shares_recover [OF assms(1,3-7), of b] group_secret_const [OF assms(1)] assms(3) by auto

lemma coprime_small: "1 \<le> d \<Longrightarrow> d < 5 \<Longrightarrow> coprime d secp_N"
proof -
  assume "1 \<le> d" "d < 5"
  then consider "d = 1" | "d = 2" | "d = 3" | "d = 4" by linarith
  moreover have "egcd k secp_N = (1, s, t) \<Longrightarrow> 0 \<le> k \<Longrightarrow> coprime k secp_N" for k s t
    using egcd_correct [of k secp_N 1 s t] secp_N_gt1 by (simp add: coprime_iff_gcd_eq_1)
  moreover have "fst (egcd 2 secp_N) = 1 \<and> fst (egcd 3 secp_N) = 1 \<and> fst (egcd 4 secp_N) = 1" by code_simp
  ultimately show ?thesis by (cases; metis coprime_1_left prod.collapse zero_le_numeral)
qed

theorem any_threshold_set_recovers_secret_witness:
  "\<exists>shares secret. rmap (dealer_shares 3 [[5, 7], [11, 2], [1, 1]] [[0, 0], [0, 0], [0, 0]]) [0..<3] = Inr shares
    \<and> group_secret 3 [[5, 7], [11, 2], [1, 1]] = Inr secret \<and> recover (party_shares 3 shares) [3, 1] = Inr secret"
  by (rule any_threshold_set_recovers_secret [of _ _ _ 2]) (auto intro: coprime_small)

text \<open>
  C40: resharing keeps the secret.  For any dealers with different ids in range whose new polynomials have fewer than \<open>new_t\<close> further
  coefficients, the resharing computes new shares, and the Lagrange combination of the new shares of any \<open>new_t\<close> or more new parties
  equals the combination of the dealers' old shares.
\<close>

theorem resharing_keeps_secret:
  assumes "distinct S" "set S \<subseteq> {1..int (length old_x)}"
    and "\<And>i. i \<in> set S \<Longrightarrow> lookup c i = Inr (cs i) \<and> length (cs i) < new_t"
    and "distinct ids" "set ids \<subseteq> {1..int new_n}" "new_t \<le> length ids"
    and "\<And>d. 1 \<le> d \<Longrightarrow> d < int (max (length old_x) new_n) \<Longrightarrow> coprime d secp_N"
  shows "\<exists>g sh lam newx v. reshare_polys old_x S c = Inr g \<and> reshare_shares g S new_n = Inr sh \<and> dict_of (lagrange0 S) S = Inr lam
    \<and> rmap (new_share S lam sh) [0..<new_n] = Inr newx \<and> recover newx ids = Inr v \<and> recover old_x S = Inr v"
proof (rule reshare_recover)
  show "good_ids S" by (rule good_ids_range [OF assms(1,2)]) (simp add: assms(7))
  show "good_ids ids" by (rule good_ids_range [OF assms(4,5)]) (simp add: assms(7))
  show "1 \<le> i \<and> i \<le> int (length old_x)" if "i \<in> set S" for i using that assms(2) by auto
qed (use assms in auto)

theorem resharing_keeps_secret_witness:
  "\<exists>g sh lam newx v. reshare_polys [19, 29, 39] [1, 3] [(1, [4]), (3, [6])] = Inr g \<and> reshare_shares g [1, 3] 2 = Inr sh
    \<and> dict_of (lagrange0 [1, 3]) [1, 3] = Inr lam \<and> rmap (new_share [1, 3] lam sh) [0..<2] = Inr newx
    \<and> recover newx [1, 2] = Inr v \<and> recover [19, 29, 39] [1, 3] = Inr v"
  by (rule resharing_keeps_secret [of _ _ _ "\<lambda>i. if i = 1 then [4] else [6]" 2]) (auto simp: lookup_def intro: coprime_small)

end
