(* ===== verification/Dkg_Curve.thy ===== *)
theory Dkg_Curve
  imports Dkg_Props
begin

text \<open>
  The curve arithmetic of the key generation oracle stays on the curve: whatever addition and multiplication return is a point with
  reduced coordinates that satisfies the equation of secp256k1.  Neither the primality of the field nor the group law is used.
\<close>

definition on_curve :: "point \<Rightarrow> bool" where
  "on_curve p = (case p of None \<Rightarrow> True
     | Some (x, y) \<Rightarrow> 0 \<le> x \<and> x < secp_P \<and> 0 \<le> y \<and> y < secp_P \<and> (y * y - x * x * x - 7) mod secp_P = 0)"

section \<open>The chord and the tangent\<close>

text \<open>The line through two points meets the cubic where the sum of the roots says.\<close>

lemma chord_identity:
  fixes l x1 y1 x2 y2 :: int
  defines "x3 \<equiv> l * l - x1 - x2"
  shows "(x2 - x1) * ((l * (x1 - x3) - y1) * (l * (x1 - x3) - y1) - x3 * x3 * x3 - 7) =
    (y1 * y1 - x1 * x1 * x1 - 7) * (x2 - x3)
    + ((y2 * y2 - x2 * x2 * x2 - 7) + (l * (x2 - x1) - (y2 - y1)) * (l * (x2 - x1) + y1 + y2)) * (x3 - x1)"
  unfolding x3_def by algebra

lemma tangent_identity:
  fixes l x1 y1 :: int
  defines "x3 \<equiv> l * l - x1 - x1"
  shows "(l * (x1 - x3) - y1) * (l * (x1 - x3) - y1) - x3 * x3 * x3 - 7 =
    (y1 * y1 - x1 * x1 * x1 - 7) + (l * (2 * y1) - 3 * x1 * x1) * (x3 - x1)"
  unfolding x3_def by algebra

lemma inv_mod_dvd:
  assumes "inv_mod x m = Inr v" "1 < m"
  shows "m dvd v * x - 1"
proof -
  obtain g s t where e: "egcd (x mod m) m = (g, s, t)" by (cases "egcd (x mod m) m")
  then have "g = gcd (x mod m) m" using egcd_correct [of "x mod m" m g s t] assms(2) by simp
  moreover have "g = 1" using assms(1) e by (simp add: inv_mod_def split: if_splits)
  ultimately have "coprime x m" by (metis coprime_iff_gcd_eq_1 gcd.commute gcd_red_int)
  from inv_mod_unit [OF assms(2) this] assms(1) show ?thesis by (metis sum.inject(2))
qed

text \<open>Reducing the coordinates does not leave the curve.\<close>

lemma dvd_reduce:
  fixes m :: int
  assumes "m dvd (l * (x1 - x3) - y1) * (l * (x1 - x3) - y1) - x3 * x3 * x3 - 7"
  shows "m dvd ((l * (x1 - x3 mod m) - y1) mod m) * ((l * (x1 - x3 mod m) - y1) mod m) - (x3 mod m) * (x3 mod m) * (x3 mod m) - 7"
proof -
  let ?y = "l * (x1 - x3 mod m) - y1" and ?Y = "l * (x1 - x3) - y1"
  have x: "m dvd x3 mod m - x3" by (metis dvd_minus_mod minus_diff_eq dvd_minus_iff)
  have "?y - ?Y = - (l * (x3 mod m - x3))" by (simp add: algebra_simps)
  then have "m dvd ?y - ?Y" using x by simp
  moreover have "m dvd ?y mod m - ?y" by (metis dvd_minus_mod minus_diff_eq dvd_minus_iff)
  ultimately have y: "m dvd ?y mod m - ?Y" by (metis dvd_add diff_add_cancel add_diff_eq)
  have "a * a - b * b * b - 7 - (A * A - B * B * B - 7) = (a - A) * (a + A) - (b - B) * (b * b + b * B + B * B)" for a b A B :: int
    by (simp add: algebra_simps)
  then have "m dvd (?y mod m) * (?y mod m) - (x3 mod m) * (x3 mod m) * (x3 mod m) - 7 - (?Y * ?Y - x3 * x3 * x3 - 7)"
    using x y by (metis dvd_diff dvd_mult2)
  with assms show ?thesis by (metis dvd_add diff_add_cancel)
qed

lemma lam_dvd:
  fixes m :: int
  assumes "m dvd v * u - 1" "l = w * v mod m"
  shows "m dvd l * u - w"
proof -
  have "l * u - w = w * (v * u - 1) - (w * v - w * v mod m) * u" using assms(2) by (simp add: algebra_simps)
  then show ?thesis using assms(1) dvd_minus_mod [of m "w * v"] by (metis dvd_diff dvd_mult dvd_mult2)
qed


section \<open>Addition and multiplication\<close>

lemma secp_P_gt1: "1 < secp_P"
  by (simp add: secp_P_def)

lemma on_curve_Some: "on_curve (Some (x, y)) \<longleftrightarrow> 0 \<le> x \<and> x < secp_P \<and> 0 \<le> y \<and> y < secp_P \<and> secp_P dvd y * y - x * x * x - 7"
  by (simp add: on_curve_def dvd_eq_mod_eq_0)

lemma reduced_on_curve:
  assumes "secp_P dvd (l * (x1 - x3) - y1) * (l * (x1 - x3) - y1) - x3 * x3 * x3 - 7"
  shows "on_curve (Some (x3 mod secp_P, (l * (x1 - x3 mod secp_P) - y1) mod secp_P))"
  unfolding on_curve_Some using dvd_reduce [OF assms] secp_P_gt1 by simp

lemma pt_add_on_curve:
  assumes "on_curve p" "on_curve q" "pt_add p q = Inr r"
  shows "on_curve r"
proof (cases "p = None \<or> q = None \<or> r = None")
  case True
  with assms show ?thesis by (auto simp: pt_add_def on_curve_def [of None] split: option.splits)
next
  case False
  then obtain x1 y1 x2 y2 where p: "p = Some (x1, y1)" and q: "q = Some (x2, y2)" and r: "r \<noteq> None" by auto
  have e: "secp_P dvd y1 * y1 - x1 * x1 * x1 - 7" "secp_P dvd y2 * y2 - x2 * x2 * x2 - 7"
    using assms(1,2) p q by (simp_all add: on_curve_Some)
  show ?thesis
  proof (cases "x1 = x2")
    case True
    then obtain i where i: "inv_mod (2 * y1) secp_P = Inr i"
      and r': "r = (let l = 3 * x1 * x1 * i mod secp_P; x = (l * l - x1 - x1) mod secp_P in Some (x, (l * (x1 - x) - y1) mod secp_P))"
      using assms(3) r p q by (auto simp: pt_add_def rbind_eq_Inr_iff Let_def split: if_splits)
    let ?l = "3 * x1 * x1 * i mod secp_P"
    have "secp_P dvd ?l * (2 * y1) - 3 * x1 * x1" by (rule lam_dvd [OF inv_mod_dvd [OF i secp_P_gt1] refl])
    then have "secp_P dvd (y1 * y1 - x1 * x1 * x1 - 7) + (?l * (2 * y1) - 3 * x1 * x1) * (?l * ?l - x1 - x1 - x1)"
      using e(1) by (intro dvd_add dvd_mult2)
    then show ?thesis unfolding r' Let_def by (intro reduced_on_curve) (simp only: tangent_identity)
  next
    case False
    then obtain i where i: "inv_mod (x2 - x1) secp_P = Inr i"
      and r': "r = (let l = (y2 - y1) * i mod secp_P; x = (l * l - x1 - x2) mod secp_P in Some (x, (l * (x1 - x) - y1) mod secp_P))"
      using assms(3) p q by (auto simp: pt_add_def rbind_eq_Inr_iff Let_def split: if_splits)
    let ?l = "(y2 - y1) * i mod secp_P"
    let ?x3 = "?l * ?l - x1 - x2"
    let ?g = "(?l * (x1 - ?x3) - y1) * (?l * (x1 - ?x3) - y1) - ?x3 * ?x3 * ?x3 - 7"
    have u: "secp_P dvd i * (x2 - x1) - 1" by (rule inv_mod_dvd [OF i secp_P_gt1])
    have lam: "secp_P dvd ?l * (x2 - x1) - (y2 - y1)" by (rule lam_dvd [OF u refl])
    have d: "secp_P dvd (x2 - x1) * ?g"
      unfolding chord_identity [of x2 x1 ?l y1 y2] by (rule dvd_add [OF dvd_mult2 [OF e(1)] dvd_mult2 [OF dvd_add [OF e(2) dvd_mult2 [OF lam]]]])
    have "?g = i * ((x2 - x1) * ?g) - (i * (x2 - x1) - 1) * ?g" by (simp add: left_diff_distrib mult.assoc)
    then have "secp_P dvd ?g" using d u by (metis dvd_diff dvd_mult dvd_mult2)
    then show ?thesis unfolding r' Let_def by (intro reduced_on_curve)
  qed
qed

lemma pt_add_error: "pt_add a b = Inl e \<Longrightarrow> e = ValueError"
proof -
  have "inv_mod x m = Inl e \<Longrightarrow> e = ValueError" for x m by (auto simp: inv_mod_def split: prod.splits if_splits)
  then show "pt_add a b = Inl e \<Longrightarrow> e = ValueError"
    by (auto simp: pt_add_def rbind_def Let_def split: option.splits if_splits sum.splits)
qed

text \<open>One round of the loop: the two additions, then the rest of the bits.\<close>

lemma mul_loop_cases:
  assumes "0 < k"
  shows "mul_loop k acc pt = (case (if odd k then pt_add acc pt else Inr acc) of Inl e \<Rightarrow> Inl e
     | Inr acc' \<Rightarrow> (case pt_add pt pt of Inl e \<Rightarrow> Inl e | Inr pt' \<Rightarrow> mul_loop (k div 2) acc' pt'))"
  using assms by (subst mul_loop.simps) (simp add: rbind_def)

lemma mul_loop_on_curve:
  "on_curve acc \<Longrightarrow> on_curve pt \<Longrightarrow> (case mul_loop k acc pt of Inr r \<Rightarrow> on_curve r | Inl e \<Rightarrow> e = ValueError)"
proof (induction k acc pt rule: mul_loop.induct)
  case (1 k acc pt)
  show ?case
  proof (cases "k \<le> 0")
    case True
    then have "mul_loop k acc pt = Inr acc" by (subst mul_loop.simps) simp
    with "1.prems"(1) show ?thesis by simp
  next
    case False
    then have k: "0 < k" by simp
    define s where "s = (if odd k then pt_add acc pt else Inr acc)"
    have "s = Inr acc' \<Longrightarrow> on_curve acc'" for acc'
      unfolding s_def using "1.prems" pt_add_on_curve [of acc pt acc'] by (cases "odd k") simp_all
    moreover have "s = Inl e \<Longrightarrow> e = ValueError" for e
      unfolding s_def using pt_add_error [of acc pt e] by (cases "odd k") simp_all
    moreover note IH = "1.IH" [OF False]
    ultimately show ?thesis unfolding mul_loop_cases [OF k] s_def [symmetric]
      using pt_add_on_curve [OF "1.prems"(2) "1.prems"(2)] pt_add_error [of pt pt]
      by (cases s; cases "pt_add pt pt") simp_all
  qed
qed

text \<open>
  C8: every point of the oracle is on the curve.  Adding points of secp256k1 and multiplying one by any integer either raises the
  \<open>ValueError\<close> of a missing inverse or returns the point at infinity or a point with coordinates below the field prime that satisfies
  the curve equation; no other outcome exists, and the generator is such a point.
\<close>

theorem curve_arithmetic_stays_on_curve:
  assumes "on_curve p" "on_curve q"
  shows "(case pt_add p q of Inr r \<Rightarrow> on_curve r | Inl e \<Rightarrow> e = ValueError)
    \<and> (case pt_mul k p of Inr r \<Rightarrow> on_curve r | Inl e \<Rightarrow> e = ValueError)"
proof -
  have "on_curve None" by (simp add: on_curve_def)
  from mul_loop_on_curve [OF this assms(1), of "k mod secp_N"] show ?thesis
    using pt_add_error [of p q] pt_add_on_curve [OF assms] by (simp add: pt_mul_def split: sum.split)
qed

theorem curve_arithmetic_stays_on_curve_witness:
  "on_curve secp_G \<and> (case pt_add secp_G secp_G of Inr r \<Rightarrow> on_curve r | Inl e \<Rightarrow> e = ValueError)
    \<and> (case pt_mul 7 secp_G of Inr r \<Rightarrow> on_curve r | Inl e \<Rightarrow> e = ValueError)"
proof -
  have g: "on_curve secp_G" by code_simp
  from curve_arithmetic_stays_on_curve [OF g g, of 7] g show ?thesis by simp
qed

end
