(* ===== verification/ChangelogEntry.thy ===== *)
theory ChangelogEntry
  imports Regex "HOL-Library.List_Lexorder"
begin

text \<open>
  \<open>scripts/checks/check-changelog-entry.py\<close>: the gate that asks a module with a substantial change for a dated changelog bullet.
  What git prints, with its exit status, and the texts of the working tree are arguments; the parsed command line too.  The
  printed advice is not modelled.
\<close>

section \<open>Patterns\<close>

definition CODE_LINES :: nat where "CODE_LINES = 25"

definition PUB_RE :: re where "PUB_RE = rseq [RStart, rlit ''pub'', RWordB]"

definition ADDED_ENTRY_RE :: re where
  "ADDED_ENTRY_RE = rseq [RStart, rchr CHR ''+'', rstar rspace, rchr CHR ''-'', rplus rspace, rlit ''**'',
     RGroup 1 (rseq [rlit ''20'', rdigit, rdigit, rchr CHR ''-'', rdigit, rdigit, rchr CHR ''-'', rdigit, rdigit]), rlit ''**'']"

definition ESCAPE :: ustr where "ESCAPE = asc ''NO CONSUMER-VISIBLE CHANGE''"

definition HUNK_RE :: re where
  "HUNK_RE = rseq [RStart, rlit ''@@ -'', RGroup 1 (rplus rdigit), ropt (rseq [rchr CHR '','', RGroup 2 (rplus rdigit)]), rlit '' +'',
     RGroup 3 (rplus rdigit), ropt (rseq [rchr CHR '','', RGroup 4 (rplus rdigit)]), rlit '' @@'']"

definition TEST_RE :: re where
  "TEST_RE = rseq [RStart, rstar rspace, rlit ''test'', rplus rspace, RSet (\<lambda>x. x = 34 \<or> u_word x)]"

definition fits :: "re \<Rightarrow> ustr \<Rightarrow> bool" where
  "fits r s \<longleftrightarrow> re_match r s \<noteq> None"

section \<open>Test blocks\<close>

definition opens :: "ustr \<Rightarrow> int" where "opens l = int (count_list l 123)"
definition closes :: "ustr \<Rightarrow> int" where "closes l = int (count_list l 125)"

text \<open>The lines of a block from line number \<open>n\<close> on, the number after it and the lines left.\<close>

fun block_loop :: "int \<Rightarrow> bool \<Rightarrow> nat \<Rightarrow> ustr list \<Rightarrow> nat list \<times> nat \<times> ustr list" where
  "block_loop depth1 started n [] = ([], n, [])"
| "block_loop depth1 started n (l # ls) =
     (let d = depth1 + (opens l - closes l); st = started \<or> opens l \<noteq> 0 in
      if st \<and> d \<le> 0 then ([n], n + 1, ls)
      else (case block_loop d st (n + 1) ls of (ins, m, rest) \<Rightarrow> (n # ins, m, rest)))"

lemma block_loop_rest: "block_loop d st n ls = (ins, m, rest) \<Longrightarrow> length rest \<le> length ls - 1"
proof (induction d st n ls arbitrary: ins m rest rule: block_loop.induct)
  case (2 d st n l ls)
  then show ?case by (fastforce simp: Let_def split: if_splits prod.splits)
qed simp

function test_lines_from :: "nat \<Rightarrow> ustr list \<Rightarrow> nat list" where
  "test_lines_from n [] = []"
| "test_lines_from n (l # ls) =
     (if \<not> fits TEST_RE l then test_lines_from (n + 1) ls
      else (case block_loop 0 False n (l # ls) of (ins, m, rest) \<Rightarrow> ins @ test_lines_from m rest))"
  by pat_completeness auto
termination
proof (relation "measure (\<lambda>(n, ls). length ls)", goal_cases)
  case (3 n l ls ins y m rest)
  then have "block_loop 0 False n (l # ls) = (ins, m, rest)" by (simp del: block_loop.simps)
  from block_loop_rest [OF this] show ?case by simp
qed simp_all

declare test_lines_from.simps [simp del]

definition test_block_lines :: "ustr \<Rightarrow> nat list" where
  "test_block_lines text1 = test_lines_from 1 (usplit (CHR 0x0A) text1)"

section \<open>Git\<close>

text \<open>\<open>cl_git\<close>: exit status and decoded output of a git command; \<open>cl_read\<close>: the text of a file of the working tree.\<close>

record cl_env =
  cl_git :: "ustr list \<Rightarrow> int \<times> ustr"
  cl_read :: "ustr \<Rightarrow> ustr option"

definition run_git :: "cl_env \<Rightarrow> ustr list \<Rightarrow> ustr result" where
  "run_git e args = (case cl_git e args of (rc, out) \<Rightarrow> if rc \<noteq> 0 then Inl (RuntimeError ''git failed'') else Inr out)"

datatype tip = WorkTree | Index | Rev ustr

definition blob :: "cl_env \<Rightarrow> tip \<Rightarrow> ustr \<Rightarrow> ustr" where
  "blob e rv path = (case rv of
     WorkTree \<Rightarrow> (case cl_read e path of None \<Rightarrow> [] | Some t \<Rightarrow> t)
   | Index \<Rightarrow> (case cl_git e [asc ''show'', asc '':'' @ path] of (rc, out) \<Rightarrow> if rc = 0 then out else [])
   | Rev r \<Rightarrow> (case cl_git e [asc ''show'', r @ asc '':'' @ path] of (rc, out) \<Rightarrow> if rc = 0 then out else []))"

record range =
  rg_base :: ustr
  rg_tip :: tip

definition range_diff :: "cl_env \<Rightarrow> range \<Rightarrow> ustr list \<Rightarrow> ustr list \<Rightarrow> ustr result" where
  "range_diff e rng extra paths = run_git e ([asc ''diff'', asc ''--no-color'', asc ''-U0''] @ extra
     @ (case rg_tip rng of Index \<Rightarrow> [asc ''--cached'', rg_base rng] | WorkTree \<Rightarrow> [rg_base rng] | Rev r \<Rightarrow> [rg_base rng, r])
     @ (if paths \<noteq> [] then asc ''--'' # paths else []))"

definition untracked :: "cl_env \<Rightarrow> range \<Rightarrow> ustr \<Rightarrow> ustr list result" where
  "untracked e rng prefix1 = (if rg_tip rng \<noteq> WorkTree then Inr []
     else rbind (run_git e [asc ''ls-files'', asc ''--others'', asc ''--exclude-standard'', asc ''--'', prefix1]) (\<lambda>out.
       Inr (filter (\<lambda>f. f \<noteq> []) (usplit (CHR 0x0A) out))))"

section \<open>Churn\<close>

type_synonym pub_line = "ustr \<times> nat \<times> ustr"

record churn =
  ch_old_path :: "ustr option"
  ch_new_path :: "ustr option"
  ch_old_ln :: nat
  ch_new_ln :: nat
  ch_old_tests :: "nat list"
  ch_new_tests :: "nat list"
  ch_count :: nat
  ch_pubs :: "pub_line list"

definition code_text :: "ustr \<Rightarrow> bool" where
  "code_text s \<longleftrightarrow> s \<noteq> [] \<and> \<not> startswith s (asc ''//'')"

text \<open>\<open>new_path or old_path\<close>: the first that is set and not empty.\<close>

definition path_of :: "churn \<Rightarrow> ustr" where
  "path_of st = (case ch_new_path st of Some (x # xs) \<Rightarrow> x # xs | _ \<Rightarrow> (case ch_old_path st of Some p \<Rightarrow> p | None \<Rightarrow> []))"

definition consider_line :: "churn \<Rightarrow> nat \<Rightarrow> ustr \<Rightarrow> bool \<Rightarrow> churn" where
  "consider_line st ln body is_test =
     (let s = ustrip body in
      if \<not> code_text s \<or> is_test then st
      else st\<lparr>ch_count := ch_count st + 1, ch_pubs := ch_pubs st @ (if fits PUB_RE s then [(path_of st, ln, s)] else [])\<rparr>)"

definition removeprefix :: "ustr \<Rightarrow> ustr \<Rightarrow> ustr" where
  "removeprefix s p = (if startswith s p then drop (length p) s else s)"

definition tests_of :: "cl_env \<Rightarrow> tip \<Rightarrow> ustr \<Rightarrow> nat list" where
  "tests_of e rv path = (if path \<noteq> asc ''/dev/null'' then test_block_lines (blob e rv path) else [])"

definition nat_group :: "ustr \<Rightarrow> rmatch \<Rightarrow> nat \<Rightarrow> nat" where
  "nat_group s m k = (case parse_int (group0 s m k) of Inr n \<Rightarrow> nat n | Inl _ \<Rightarrow> 0)"

definition churn_step :: "cl_env \<Rightarrow> range \<Rightarrow> churn \<Rightarrow> ustr \<Rightarrow> churn" where
  "churn_step e rng st l =
     (if startswith l (asc ''--- '')
      then (let p = removeprefix (drop 4 l) (asc ''a/'') in st\<lparr>ch_old_path := Some p, ch_old_tests := tests_of e (Rev (rg_base rng)) p\<rparr>)
      else if startswith l (asc ''+++ '')
      then (let p = removeprefix (drop 4 l) (asc ''b/'') in st\<lparr>ch_new_path := Some p, ch_new_tests := tests_of e (rg_tip rng) p\<rparr>)
      else (case re_match HUNK_RE l of
          Some m \<Rightarrow> st\<lparr>ch_old_ln := nat_group l m 1, ch_new_ln := nat_group l m 3\<rparr>
        | None \<Rightarrow>
            if startswith l (asc ''+'')
            then (consider_line st (ch_new_ln st) (drop 1 l) (ch_new_ln st \<in> set (ch_new_tests st)))\<lparr>ch_new_ln := ch_new_ln st + 1\<rparr>
            else if startswith l (asc ''-'')
            then (consider_line st (ch_old_ln st) (drop 1 l) (ch_old_ln st \<in> set (ch_old_tests st)))\<lparr>ch_old_ln := ch_old_ln st + 1\<rparr>
            else st))"

definition churn_init :: churn where
  "churn_init = \<lparr> ch_old_path = None, ch_new_path = None, ch_old_ln = 0, ch_new_ln = 0, ch_old_tests = [], ch_new_tests = [], ch_count = 0, ch_pubs = [] \<rparr>"

definition diff_churn :: "cl_env \<Rightarrow> range \<Rightarrow> ustr \<Rightarrow> churn" where
  "diff_churn e rng text1 = foldl (churn_step e rng) churn_init (usplit (CHR 0x0A) text1)"

text \<open>A file git does not know: all of it is new.\<close>

definition new_file_churn :: "ustr \<Rightarrow> ustr \<Rightarrow> nat \<times> pub_line list" where
  "new_file_churn f body =
     (let tests = test_block_lines body;
          rows = filter (\<lambda>(n, t). code_text t \<and> n \<notin> set tests) (map (\<lambda>(n, s). (n, ustrip s)) (zip [1..<Suc (length (usplit (CHR 0x0A) body))] (usplit (CHR 0x0A) body)))
      in (length rows, map (\<lambda>(n, t). (f, n, t)) (filter (\<lambda>(n, t). fits PUB_RE t) rows)))"

text \<open>An unreadable file is an \<open>OSError\<close> that ends the script.\<close>

fun add_untracked :: "cl_env \<Rightarrow> nat \<times> pub_line list \<Rightarrow> ustr list \<Rightarrow> (nat \<times> pub_line list) result" where
  "add_untracked e acc [] = Inr acc"
| "add_untracked e acc (f # fs) =
     (if \<not> endswith f (asc ''.zig'') then add_untracked e acc fs
      else (case cl_read e f of None \<Rightarrow> Inl (RuntimeError ''OSError'')
        | Some body \<Rightarrow> (case new_file_churn f body of (c, ps) \<Rightarrow> add_untracked e (fst acc + c, snd acc @ ps) fs)))"

definition src_churn :: "cl_env \<Rightarrow> range \<Rightarrow> ustr \<Rightarrow> (nat \<times> pub_line list) result" where
  "src_churn e rng mo =
     (let prefix1 = asc ''modules/'' @ mo @ asc ''/src'' in
      rbind (range_diff e rng [asc ''-w''] [prefix1]) (\<lambda>text1.
      let st = diff_churn e rng text1 in
      rbind (untracked e rng (prefix1 @ asc ''/'')) (\<lambda>fs. add_untracked e (ch_count st, ch_pubs st) fs)))"

section \<open>Changelog entries\<close>

text \<open>The bullet that starts at a line: the line and the added lines up to the next bullet.\<close>

definition entry_body :: "ustr list \<Rightarrow> ustr list" where
  "entry_body ls = take 1 ls @ takeWhile (\<lambda>l. startswith l (asc ''+'') \<and> \<not> fits ADDED_ENTRY_RE l) (drop 1 ls)"

fun entry_scan :: "ustr list \<Rightarrow> (ustr \<times> bool) list" where
  "entry_scan [] = []"
| "entry_scan (l # ls) = (case re_match ADDED_ENTRY_RE l of None \<Rightarrow> entry_scan ls
     | Some m \<Rightarrow> (group0 l m 1, contains ESCAPE (join [32] (entry_body (l # ls)))) # entry_scan ls)"

definition entries_in :: "ustr \<Rightarrow> ustr list \<times> ustr list" where
  "entries_in text1 = (let es = entry_scan (usplit (CHR 0x0A) text1) in (map fst es, map fst (filter snd es)))"

definition entries_added :: "cl_env \<Rightarrow> range \<Rightarrow> ustr \<Rightarrow> (ustr list \<times> ustr list) result" where
  "entries_added e rng mo =
     (let path = asc ''modules/'' @ mo @ asc ''/CHANGELOG.md'' in
      rbind (range_diff e rng [] [path]) (\<lambda>text1.
      if ustrip text1 \<noteq> [] then Inr (entries_in text1)
      else rbind (untracked e rng (asc ''modules/'' @ mo @ asc ''/'')) (\<lambda>fs.
        if path \<notin> set fs then Inr (entries_in text1)
        else (case cl_read e path of None \<Rightarrow> Inl (RuntimeError ''OSError'')
          | Some t \<Rightarrow> Inr (entries_in (join [10] (map (\<lambda>l. 43 # l) (usplit (CHR 0x0A) t))))))))"

section \<open>The verdict\<close>

definition touched_modules :: "cl_env \<Rightarrow> range \<Rightarrow> ustr list result" where
  "touched_modules e rng =
     rbind (range_diff e rng [asc ''--name-only''] []) (\<lambda>text1. rbind (untracked e rng (asc ''modules/'')) (\<lambda>us.
     let files = filter (\<lambda>f. f \<noteq> []) (usplit (CHR 0x0A) text1) @ us;
         parts = map (usplit (CHR ''/'')) files in
     Inr (sort (remdups (map (\<lambda>ps. ps ! 1) (filter (\<lambda>ps. length ps > 2 \<and> ps ! 0 = asc ''modules'' \<and> ps ! 1 \<noteq> asc ''_template'') parts))))))"

definition resolve_rev :: "cl_env \<Rightarrow> ustr \<Rightarrow> ustr option" where
  "resolve_rev e rv = (let out = ustrip (snd (cl_git e [asc ''rev-parse'', asc ''--verify'', asc ''--quiet'', rv @ asc ''^{commit}''])) in
     if out = [] then None else Some out)"

datatype module_verdict = Untouched | Recorded ustr | Escaped ustr | Owed

definition judge :: "cl_env \<Rightarrow> range \<Rightarrow> ustr \<Rightarrow> module_verdict result" where
  "judge e rng mo =
     rbind (src_churn e rng mo) (\<lambda>(lines1, pubs).
     if pubs = [] \<and> lines1 \<le> CODE_LINES then Inr Untouched
     else rbind (entries_added e rng mo) (\<lambda>(dates, esc).
       Inr (if dates = [] then Owed else if esc \<noteq> [] then Escaped (hd dates) else Recorded (hd dates))))"

record cl_args =
  a_base :: "ustr option"
  a_staged :: bool
  a_commit :: ustr

definition empty_tree :: "cl_env \<Rightarrow> ustr result" where
  "empty_tree e = rbind (run_git e [asc ''hash-object'', asc ''-t'', asc ''tree'', asc ''/dev/null'']) (\<lambda>out. Inr (ustrip out))"

text \<open>The range a command line asks for; \<open>None\<close> is the exit with status 2.\<close>

definition commit_range :: "cl_env \<Rightarrow> ustr \<Rightarrow> range option result" where
  "commit_range e commit =
     (case find_from (asc ''..'') commit 0 of
        Some k \<Rightarrow> (let lo = take k commit; hi = drop (k + 2) commit in
          Inr (case (resolve_rev e lo, resolve_rev e (if hi = [] then asc ''HEAD'' else hi)) of
            (Some b, Some t) \<Rightarrow> Some \<lparr> rg_base = b, rg_tip = Rev t \<rparr> | _ \<Rightarrow> None))
      | None \<Rightarrow> (case resolve_rev e commit of None \<Rightarrow> Inr None
          | Some t \<Rightarrow> rbind (case resolve_rev e (commit @ asc ''^'') of Some b \<Rightarrow> Inr b | None \<Rightarrow> empty_tree e) (\<lambda>b.
              Inr (Some \<lparr> rg_base = b, rg_tip = Rev t \<rparr>))))"

definition base_range :: "cl_env \<Rightarrow> ustr option \<Rightarrow> bool \<Rightarrow> range option result" where
  "base_range e base staged =
     (let asked = (case base of Some (x # xs) \<Rightarrow> x # xs | _ \<Rightarrow> asc ''HEAD''); t = (if staged then Index else WorkTree) in
      case resolve_rev e asked of
        Some b \<Rightarrow> Inr (Some \<lparr> rg_base = b, rg_tip = t \<rparr>)
      | None \<Rightarrow> if base = None then rbind (empty_tree e) (\<lambda>b. Inr (Some \<lparr> rg_base = b, rg_tip = t \<rparr>)) else Inr None)"

definition cl_main :: "cl_env \<Rightarrow> cl_args \<Rightarrow> (int \<times> (ustr \<times> module_verdict) list) result" where
  "cl_main e a =
     rbind (if a_commit a \<noteq> [] then commit_range e (a_commit a) else base_range e (a_base a) (a_staged a)) (\<lambda>r. case r of
       None \<Rightarrow> Inr (2, [])
     | Some rng \<Rightarrow> rbind (touched_modules e rng) (\<lambda>ms.
         rbind (rmap (\<lambda>m. rbind (judge e rng m) (\<lambda>v. Inr (m, v))) ms) (\<lambda>vs.
         Inr (if list_ex (\<lambda>(m, v). v = Owed) vs then 1 else 0, filter (\<lambda>(m, v). v \<noteq> Untouched) vs))))"

end
