(* ===== verification/ChangelogEntry_Props.thy ===== *)
theory ChangelogEntry_Props
  imports ChangelogEntry
begin

text \<open>
  The churn of a diff: the line-by-line reading of \<open>git diff -U0\<close> output against a structured diff of files and hunks.
\<close>

section \<open>Structured diffs\<close>

record hunk =
  hk_head :: ustr
  hk_old :: nat
  hk_new :: nat
  hk_removed :: "ustr list"
  hk_added :: "ustr list"

record file_diff =
  fd_meta :: "ustr list"
  fd_old :: ustr
  fd_new :: ustr
  fd_hunks :: "hunk list"

definition hunk_lines :: "hunk \<Rightarrow> ustr list" where
  "hunk_lines h = hk_head h # map (\<lambda>l. 45 # l) (hk_removed h) @ map (\<lambda>l. 43 # l) (hk_added h)"

definition file_lines :: "file_diff \<Rightarrow> ustr list" where
  "file_lines f = fd_meta f @ [asc ''--- '' @ fd_old f, asc ''+++ '' @ fd_new f] @ concat (map hunk_lines (fd_hunks f))"

definition diff_text :: "file_diff list \<Rightarrow> ustr" where
  "diff_text fs = concat (map (\<lambda>l. l @ [10]) (concat (map file_lines fs)))"

definition neutral :: "ustr \<Rightarrow> bool" where
  "neutral l \<longleftrightarrow> take 1 l \<notin> {[43], [45], [64]}"

definition hunk_ok :: "hunk \<Rightarrow> bool" where
  "hunk_ok h \<longleftrightarrow> (case re_match HUNK_RE (hk_head h) of None \<Rightarrow> False
     | Some m \<Rightarrow> nat_group (hk_head h) m 1 = hk_old h \<and> nat_group (hk_head h) m 3 = hk_new h)
   \<and> list_all (\<lambda>l. \<not> startswith l (asc ''-- '')) (hk_removed h) \<and> list_all (\<lambda>l. \<not> startswith l (asc ''++ '')) (hk_added h)"

definition file_ok :: "file_diff \<Rightarrow> bool" where
  "file_ok f \<longleftrightarrow> list_all neutral (fd_meta f) \<and> removeprefix (fd_new f) (asc ''b/'') \<noteq> [] \<and> list_all hunk_ok (fd_hunks f)
     \<and> list_all (\<lambda>l. 10 \<notin> set l) (file_lines f)"

text \<open>The changed lines that count: numbered from the start of the hunk's side, not blank, no comment, outside every test block.\<close>

definition code_rows :: "nat list \<Rightarrow> nat \<Rightarrow> ustr list \<Rightarrow> (nat \<times> ustr) list" where
  "code_rows tests n ls = filter (\<lambda>(k, t). code_text t \<and> k \<notin> set tests) (zip [n..<n + length ls] (map ustrip ls))"

definition hunk_rows :: "nat list \<Rightarrow> nat list \<Rightarrow> hunk \<Rightarrow> (nat \<times> ustr) list" where
  "hunk_rows old_tests new_tests h = code_rows old_tests (hk_old h) (hk_removed h) @ code_rows new_tests (hk_new h) (hk_added h)"

definition changed_rows :: "cl_env \<Rightarrow> range \<Rightarrow> file_diff \<Rightarrow> (nat \<times> ustr) list" where
  "changed_rows e rng f = concat (map (hunk_rows (tests_of e (Rev (rg_base rng)) (removeprefix (fd_old f) (asc ''a/'')))
     (tests_of e (rg_tip rng) (removeprefix (fd_new f) (asc ''b/'')))) (fd_hunks f))"

definition shown_rows :: "cl_env \<Rightarrow> range \<Rightarrow> file_diff \<Rightarrow> pub_line list" where
  "shown_rows e rng f = map (\<lambda>(k, t). (removeprefix (fd_new f) (asc ''b/''), k, t)) (changed_rows e rng f)"

text \<open>A deleted file has no new side; the lines that count are its own.\<close>

definition deleted :: "file_diff \<Rightarrow> bool" where
  "deleted f \<longleftrightarrow> fd_new f = asc ''/dev/null''"




definition is_pub :: "pub_line \<Rightarrow> bool" where
  "is_pub r \<longleftrightarrow> fits PUB_RE (snd (snd r))"

section \<open>One line at a time\<close>

lemma hunk_re_at: "re_match HUNK_RE l \<noteq> None \<Longrightarrow> take 1 l = [64]"
  by (cases l) (auto simp: re_match_def match_at_def HUNK_RE_def rchr_def split: if_splits)

lemma hunk_re_other: "take 1 l \<noteq> [64] \<Longrightarrow> re_match HUNK_RE l = None"
  using hunk_re_at by blast

lemma startswith_Cons: "startswith (x # xs) (p # ps) \<longleftrightarrow> x = p \<and> startswith xs ps"
  by (auto simp: startswith_def)

lemma startswith_Nil [simp]: "startswith xs []" "startswith [] (p # ps) = False"
  by (simp_all add: startswith_def)

lemma churn_step_neutral: "neutral l \<Longrightarrow> churn_step e rng st l = st"
  using hunk_re_other [of l] by (cases l) (auto simp: churn_step_def neutral_def startswith_Cons)

text \<open>What the considered rows add to the state.\<close>

definition add_rows :: "(nat \<times> ustr) list \<Rightarrow> churn \<Rightarrow> churn" where
  "add_rows rows st = st\<lparr>ch_count := ch_count st + length rows,
     ch_pubs := ch_pubs st @ map (\<lambda>(k, t). (path_of st, k, t)) (filter (\<lambda>(k, t). fits PUB_RE t) rows)\<rparr>"

lemma path_of_cong:
  assumes "ch_new_path st = ch_new_path st'" "ch_old_path st = ch_old_path st'"
  shows "path_of st = path_of st'"
  unfolding path_of_def assms by (rule refl)

lemma add_rows_simps [simp]:
  "ch_old_tests (add_rows rows st) = ch_old_tests st"
  "ch_new_tests (add_rows rows st) = ch_new_tests st"
  "ch_old_ln (add_rows rows st) = ch_old_ln st"
  "ch_new_ln (add_rows rows st) = ch_new_ln st"
  "ch_old_path (add_rows rows st) = ch_old_path st"
  "ch_new_path (add_rows rows st) = ch_new_path st"
  by (simp_all add: add_rows_def)

lemma path_of_simps [simp]:
  "path_of (add_rows rows st) = path_of st"
  "path_of (st\<lparr>ch_old_ln := n\<rparr>) = path_of st"
  "path_of (st\<lparr>ch_new_ln := n\<rparr>) = path_of st"
  by (rule path_of_cong; simp)+

lemma add_rows_ln [simp]:
  "add_rows rows (st\<lparr>ch_old_ln := n\<rparr>) = (add_rows rows st)\<lparr>ch_old_ln := n\<rparr>"
  "add_rows rows (st\<lparr>ch_new_ln := n\<rparr>) = (add_rows rows st)\<lparr>ch_new_ln := n\<rparr>"
  by (simp_all add: add_rows_def)

lemma add_rows_append: "add_rows (xs @ ys) st = add_rows ys (add_rows xs st)"
proof -
  have "path_of (add_rows xs st) = path_of st" by simp
  then show ?thesis unfolding add_rows_def [of ys "add_rows xs st"] by (simp add: add_rows_def)
qed

lemma code_rows_Cons: "code_rows tests n (l # ls) = code_rows tests n [l] @ code_rows tests (Suc n) ls"
proof -
  have "[n..<n + length (l # ls)] = n # [Suc n..<Suc n + length ls]" using upt_conv_Cons [of n "n + length (l # ls)"] by (simp del: upt_Suc)
  then show ?thesis by (simp add: code_rows_def)
qed

lemma consider_add: "consider_line st n body (n \<in> set tests) = add_rows (code_rows tests n [body]) st"
  by (simp add: consider_line_def add_rows_def code_rows_def Let_def)

text \<open>The two sides of a hunk are read the same way: a sign, the guard of a header line, the test lines and the counter of the side.\<close>

locale diff_side =
  fixes step :: "churn \<Rightarrow> ustr \<Rightarrow> churn" and sign :: int and guard :: ustr
    and tests :: "churn \<Rightarrow> nat list" and ln :: "churn \<Rightarrow> nat" and set_ln :: "nat \<Rightarrow> churn \<Rightarrow> churn"
  assumes step_line: "\<not> startswith l guard \<Longrightarrow> step st (sign # l) = set_ln (ln st + 1) (add_rows (code_rows (tests st) (ln st) [l]) st)"
    and ln_set: "ln (set_ln n st) = n" "set_ln (ln st) st = st" "set_ln n (set_ln m st) = set_ln n st" "tests (set_ln n st) = tests st"
    and add_set: "add_rows rows (set_ln n st) = set_ln n (add_rows rows st)" "ln (add_rows rows st) = ln st" "tests (add_rows rows st) = tests st"
begin

lemma read_side:
  assumes "list_all (\<lambda>l. \<not> startswith l guard) ls"
  shows "foldl step st (map (\<lambda>l. sign # l) ls) = set_ln (ln st + length ls) (add_rows (code_rows (tests st) (ln st) ls) st)"
  using assms
proof (induction ls arbitrary: st)
  case Nil
  have "add_rows (code_rows (tests st) (ln st) []) st = st" by (simp add: code_rows_def add_rows_def)
  then show ?case by (simp add: ln_set)
next
  case (Cons l ls)
  then show ?case using Cons.IH [of "step st (sign # l)"]
    by (simp add: step_line ln_set add_set code_rows_Cons [of _ _ l ls] add_rows_append)
qed

end

interpretation removed: diff_side "churn_step e rng" 45 "asc ''-- ''" ch_old_tests ch_old_ln "\<lambda>n st. st\<lparr>ch_old_ln := n\<rparr>" for e rng
  using hunk_re_other [of "45 # _"] by unfold_locales (simp_all add: churn_step_def startswith_Cons consider_add)

interpretation added: diff_side "churn_step e rng" 43 "asc ''++ ''" ch_new_tests ch_new_ln "\<lambda>n st. st\<lparr>ch_new_ln := n\<rparr>" for e rng
  using hunk_re_other [of "43 # _"] by unfold_locales (simp_all add: churn_step_def startswith_Cons consider_add)

text \<open>The parts of the state a reader of the result sees.\<close>

definition seen_as :: "churn \<Rightarrow> churn \<Rightarrow> bool" where
  "seen_as st st' \<longleftrightarrow> ch_count st = ch_count st' \<and> ch_pubs st = ch_pubs st' \<and> ch_old_path st = ch_old_path st' \<and> ch_new_path st = ch_new_path st'
     \<and> ch_old_tests st = ch_old_tests st' \<and> ch_new_tests st = ch_new_tests st'"

lemma seen_as_path: "seen_as st st' \<Longrightarrow> path_of st = path_of st'"
  by (rule path_of_cong) (simp_all add: seen_as_def)

lemma churn_hunk:
  assumes "hunk_ok h"
  shows "seen_as (foldl (churn_step e rng) st (hunk_lines h)) (add_rows (hunk_rows (ch_old_tests st) (ch_new_tests st) h) st)"
proof -
  obtain m where m: "re_match HUNK_RE (hk_head h) = Some m" "nat_group (hk_head h) m 1 = hk_old h" "nat_group (hk_head h) m 3 = hk_new h"
    using assms by (auto simp: hunk_ok_def split: option.splits)
  then have t: "take 1 (hk_head h) = [64]" using hunk_re_at [of "hk_head h"] by blast
  then have "churn_step e rng st (hk_head h) = st\<lparr>ch_old_ln := hk_old h, ch_new_ln := hk_new h\<rparr>"
    using m by (cases "hk_head h") (simp_all add: churn_step_def startswith_Cons)
  then have "foldl (churn_step e rng) st (hunk_lines h)
      = (add_rows (hunk_rows (ch_old_tests st) (ch_new_tests st) h) st)\<lparr>ch_old_ln := hk_old h + length (hk_removed h), ch_new_ln := hk_new h + length (hk_added h)\<rparr>"
    using assms by (simp add: hunk_lines_def hunk_ok_def removed.read_side added.read_side hunk_rows_def add_rows_append)
  then show ?thesis by (simp add: seen_as_def)
qed


section \<open>Files\<close>

lemma seen_as_trans: "seen_as a b \<Longrightarrow> seen_as b c \<Longrightarrow> seen_as a c"
  by (simp add: seen_as_def)

lemma seen_as_add: "seen_as st st' \<Longrightarrow> seen_as (add_rows rows st) (add_rows rows st')"
  using seen_as_path [of st st'] by (simp add: seen_as_def add_rows_def)

lemma churn_hunks:
  assumes "list_all hunk_ok hs"
  shows "seen_as (foldl (churn_step e rng) st (concat (map hunk_lines hs))) (add_rows (concat (map (hunk_rows (ch_old_tests st) (ch_new_tests st)) hs)) st)"
  using assms
proof (induction hs arbitrary: st)
  case Nil
  show ?case by (simp add: seen_as_def add_rows_def)
next
  case (Cons h hs)
  let ?st = "foldl (churn_step e rng) st (hunk_lines h)"
  have h: "seen_as ?st (add_rows (hunk_rows (ch_old_tests st) (ch_new_tests st) h) st)" using Cons.prems by (intro churn_hunk) simp
  then have "ch_old_tests ?st = ch_old_tests st" "ch_new_tests ?st = ch_new_tests st" by (simp_all add: seen_as_def)
  with Cons.IH [of ?st] Cons.prems have "seen_as (foldl (churn_step e rng) ?st (concat (map hunk_lines hs)))
      (add_rows (concat (map (hunk_rows (ch_old_tests st) (ch_new_tests st)) hs)) ?st)" by simp
  from seen_as_trans [OF this seen_as_add [OF h]] show ?case by (simp add: add_rows_append)
qed

lemma churn_file:
  assumes "file_ok f"
  shows "ch_count (foldl (churn_step e rng) st (file_lines f)) = ch_count st + length (shown_rows e rng f)
    \<and> ch_pubs (foldl (churn_step e rng) st (file_lines f)) = ch_pubs st @ filter is_pub (shown_rows e rng f)"
proof -
  let ?o = "removeprefix (fd_old f) (asc ''a/'')" and ?n = "removeprefix (fd_new f) (asc ''b/'')"
  let ?ot = "tests_of e (Rev (rg_base rng)) ?o" and ?nt = "tests_of e (rg_tip rng) ?n"
  define st1 where "st1 = st\<lparr>ch_old_path := Some ?o, ch_old_tests := ?ot, ch_new_path := Some ?n, ch_new_tests := ?nt\<rparr>"
  have "foldl (churn_step e rng) st ls = st" if "list_all neutral ls" for ls
    using that by (induction ls) (simp_all add: churn_step_neutral)
  moreover have "churn_step e rng st (asc ''--- '' @ fd_old f) = st\<lparr>ch_old_path := Some ?o, ch_old_tests := ?ot\<rparr>"
    by (simp add: churn_step_def startswith_Cons Let_def)
  moreover have "churn_step e rng st' (asc ''+++ '' @ fd_new f) = st'\<lparr>ch_new_path := Some ?n, ch_new_tests := ?nt\<rparr>" for st'
    by (simp add: churn_step_def startswith_Cons Let_def)
  ultimately have fold: "foldl (churn_step e rng) st (file_lines f) = foldl (churn_step e rng) st1 (concat (map hunk_lines (fd_hunks f)))"
    using assms by (simp add: file_lines_def file_ok_def st1_def del: asc_simps)
  define rows where "rows = concat (map (hunk_rows ?ot ?nt) (fd_hunks f))"
  have "seen_as (foldl (churn_step e rng) st1 (concat (map hunk_lines (fd_hunks f)))) (add_rows rows st1)"
    using churn_hunks [of "fd_hunks f" e rng st1] assms by (simp add: file_ok_def st1_def rows_def del: asc_simps)
  then have "ch_count (foldl (churn_step e rng) st (file_lines f)) = ch_count (add_rows rows st1)"
    "ch_pubs (foldl (churn_step e rng) st (file_lines f)) = ch_pubs (add_rows rows st1)" unfolding fold by (simp_all add: seen_as_def)
  moreover have "path_of st1 = ?n" using assms by (cases ?n) (simp_all add: path_of_def st1_def file_ok_def)
  moreover have "shown_rows e rng f = map (\<lambda>(k, t). (?n, k, t)) rows" by (simp only: shown_rows_def changed_rows_def rows_def)
  moreover have "ch_count st1 = ch_count st" "ch_pubs st1 = ch_pubs st" by (simp_all add: st1_def)
  moreover have "(\<lambda>(k, y). fits PUB_RE y) = (\<lambda>x :: nat \<times> ustr. fits PUB_RE (snd x))" by auto
  ultimately show ?thesis by (simp add: add_rows_def filter_map comp_def is_pub_def del: asc_simps)
qed

lemma churn_diff:
  assumes "list_all file_ok fs"
  shows "ch_count (diff_churn e rng (diff_text fs)) = length (concat (map (shown_rows e rng) fs))
    \<and> ch_pubs (diff_churn e rng (diff_text fs)) = filter is_pub (concat (map (shown_rows e rng) fs))"
proof -
  have "10 \<notin> set l" if "l \<in> set (concat (map file_lines fs))" for l
    using that assms by (auto simp: file_ok_def list_all_iff)
  then have sp: "usplit (CHR 0x0A) (diff_text fs) = concat (map file_lines fs) @ [[]]"
    using split_on_lines [of "concat (map file_lines fs)" 10] by (simp add: usplit_def diff_text_def)
  have "churn_step e rng st [] = st" for st by (rule churn_step_neutral) (simp add: neutral_def)
  then have "diff_churn e rng (diff_text fs) = foldl (churn_step e rng) churn_init (concat (map file_lines fs))"
    by (simp add: diff_churn_def sp)
  moreover have "ch_count (foldl (churn_step e rng) st (concat (map file_lines fs))) = ch_count st + length (concat (map (shown_rows e rng) fs))
    \<and> ch_pubs (foldl (churn_step e rng) st (concat (map file_lines fs))) = ch_pubs st @ filter is_pub (concat (map (shown_rows e rng) fs))" for st
    using assms
  proof (induction fs arbitrary: st)
    case (Cons f fs)
    then show ?case using churn_file [of f e rng st] by simp
  qed simp
  ultimately show ?thesis by (simp add: churn_init_def)
qed

section \<open>Files git does not know\<close>








text \<open>A file whose name does not end in \<open>.zig\<close> counts all the same when git knows it.\<close>

theorem tracked_data_counted:
  assumes "file_ok f"
  shows "ch_count (diff_churn e rng (diff_text [f])) = length (changed_rows e rng f)"
  using churn_diff [of "[f]" e rng] assms by (simp add: shown_rows_def)

text \<open>The \<open>pub\<close> lines of a deleted file are listed under \<open>/dev/null\<close>: the path of the new side is never empty.\<close>

theorem deleted_file_path_lost:
  assumes "file_ok f" "deleted f"
  shows "\<forall>r \<in> set (ch_pubs (diff_churn e rng (diff_text [f]))). fst r = asc ''/dev/null''"
proof -
  have "removeprefix (asc ''/dev/null'') (asc ''b/'') = asc ''/dev/null''" by code_simp
  then show ?thesis using churn_diff [of "[f]" e rng] assms by (auto simp: shown_rows_def deleted_def simp del: asc_simps)
qed

end
