(* ===== verification/DfElect.thy ===== *)
theory DfElect
  imports UText
begin

text \<open>
  \<open>modules/df-elect/tools/rederive.py\<close>: the two functions that elect the designated forwarder of an Ethernet segment, with
  \<open>zlib.crc32\<close> written out, and the generated Zig file.
\<close>

section \<open>CRC-32\<close>

text \<open>The reflected IEEE 802.3 polynomial, one bit at a time.\<close>

definition crc_bit :: "int \<Rightarrow> int" where
  "crc_bit c = (if odd c then (c div 2) XOR 0xEDB88320 else c div 2)"

definition crc_byte :: "int \<Rightarrow> int \<Rightarrow> int" where
  "crc_byte c b = (crc_bit ^^ 8) (c XOR b)"

definition crc32 :: "bytes \<Rightarrow> int" where
  "crc32 bs = foldl crc_byte 0xFFFFFFFF bs XOR 0xFFFFFFFF"

lemma crc32_check: "crc32 [0x31, 0x32, 0x33, 0x34, 0x35, 0x36, 0x37, 0x38, 0x39] = 0xCBF43926"
  by code_simp

section \<open>The election\<close>

definition df_cases :: "(string \<times> bytes \<times> int list \<times> int list) list" where
  "df_cases =
    [(''three_pe'', [0x00, 0x11, 0x22, 0x33, 0x44, 0x55, 0x66, 0x77, 0x88, 0x01], [0x0A000003, 0x0A000004, 0x0A000005], [0, 1, 10, 11, 12, 13, 14, 15, 100, 4094]),
     (''two_pe'', [0x00, 0x11, 0x22, 0x33, 0x44, 0x55, 0x66, 0x77, 0x88, 0x02], [0x0A000006, 0x0A000007], [10, 11, 20, 4095]),
     (''five_pe_high_bit'', map int [0..<10], [0x0A000001, 0x7FFFFFFF, 0x80000001, 0xC0A80101, 0xFFFFFFFE], [0, 7, 31, 1000, 0xFFFFFFFF]),
     (''one_pe'', replicate 10 0, [0xC0000201], [5])]"

definition df_digest :: "int \<Rightarrow> bytes \<Rightarrow> int result" where
  "df_digest tag esi = rbind (to_bytes_be tag 4) (\<lambda>t. Inr (crc32 (t @ esi) AND 0x7FFFFFFF))"

definition mix :: "int \<Rightarrow> int \<Rightarrow> int" where
  "mix d addr = (1103515245 * ((1103515245 * addr + 12345) XOR d) + 12345) mod 2 ^ 31"

definition weight :: "int \<Rightarrow> bytes \<Rightarrow> int \<Rightarrow> int result" where
  "weight tag esi addr = rbind (df_digest tag esi) (\<lambda>d. Inr (mix d addr))"

definition better_df :: "int \<times> int \<Rightarrow> (int \<times> int) option \<Rightarrow> bool" where
  "better_df wa best = (case best of None \<Rightarrow> True | Some (w, a) \<Rightarrow> fst wa > w \<or> fst wa = w \<and> snd wa < a)"

fun hrw_loop :: "int \<Rightarrow> bytes \<Rightarrow> (int \<times> int) option \<Rightarrow> int list \<Rightarrow> (int \<times> int) option result" where
  "hrw_loop tag esi best [] = Inr best"
| "hrw_loop tag esi best (a # addrs) = rbind (weight tag esi a) (\<lambda>w. hrw_loop tag esi (if better_df (w, a) best then Some (w, a) else best) addrs)"

text \<open>\<open>best[1]\<close> of \<open>None\<close> is a \<open>TypeError\<close>.\<close>

definition hrw_df :: "int list \<Rightarrow> int \<Rightarrow> bytes \<Rightarrow> int result" where
  "hrw_df addrs tag esi = rbind (hrw_loop tag esi None addrs) (\<lambda>best. case best of None \<Rightarrow> Inl TypeError | Some (w, a) \<Rightarrow> Inr a)"

definition modulo_df :: "int list \<Rightarrow> int \<Rightarrow> int result" where
  "modulo_df addrs tag = (if addrs = [] then Inl ZeroDivisionError else Inr (sort addrs ! nat (tag mod int (length addrs))))"

section \<open>The generated file\<close>

definition hex_pad :: "nat \<Rightarrow> int \<Rightarrow> string" where
  "hex_pad w x = ''0x'' @ zfill w (show_hex (nat x))"

definition df_row :: "bytes \<Rightarrow> int list \<Rightarrow> int \<Rightarrow> string result" where
  "df_row esi addrs t = rbind (rmap (\<lambda>a. weight t esi a) addrs) (\<lambda>ws. rbind (modulo_df addrs t) (\<lambda>m. rbind (hrw_df addrs t esi) (\<lambda>h.
     Inr (''            .{ .tag = '' @ show_int t @ '', .modulo_df = '' @ hex_pad 8 m @ '', .hrw_df = '' @ hex_pad 8 h @ '', .weights = &.{ ''
       @ join '', '' (map show_int ws) @ '' } },''))))"

definition df_case :: "string \<times> bytes \<times> int list \<times> int list \<Rightarrow> string list result" where
  "df_case c = (case c of (name, esi, addrs, tags) \<Rightarrow> rbind (rmap (df_row esi addrs) tags) (\<lambda>rows.
     Inr ([''    .{ .name = '' @ [CHR 0x22] @ name @ [CHR 0x22] @ '', .esi = .{ '' @ join '', '' (map (hex_pad 2) esi) @ '' },'',
       ''        .addrs = &.{ '' @ join '', '' (map (hex_pad 8) addrs) @ '' },'', ''        .rows = &.{''] @ rows @ [''        },'', ''    },''])))"

definition df_head :: "string list" where
  "df_head =
    [''// SPDX-License-Identifier: MIT'', ''// GENERATED by modules/df-elect/tools/rederive.py -- do not edit.'',
     ''// Independent re-derivation of RFC 7432 section 8.5 (mod N) and RFC 8584 section 3.2 (HRW).'', ''// zig fmt: off'', [],
     ''pub const Row = struct { tag: u32, modulo_df: u32, hrw_df: u32, weights: []const u32 };'',
     ''pub const Case = struct { name: []const u8, esi: [10]u8, addrs: []const u32, rows: []const Row };'', [], ''pub const cases = [_]Case{'']"

definition df_main :: "string result" where
  "df_main = rbind (rmap df_case df_cases) (\<lambda>cs. Inr (join [CHR 0x0A] (df_head @ concat cs @ [''};'']) @ [CHR 0x0A]))"

section \<open>Highest weight\<close>

text \<open>The order of the election: higher weight first, then the lower address.\<close>

definition beats :: "int \<Rightarrow> int \<Rightarrow> int \<Rightarrow> bool" where
  "beats d a b \<longleftrightarrow> mix d b < mix d a \<or> mix d b = mix d a \<and> a \<le> b"

lemma beats_trans: "beats d a b \<Longrightarrow> beats d b c \<Longrightarrow> beats d a c"
  by (auto simp: beats_def)

lemma beats_antisym: "beats d a b \<Longrightarrow> beats d b a \<Longrightarrow> a = b"
  by (auto simp: beats_def)

lemma df_digest_Inr: "0 \<le> tag \<Longrightarrow> tag < 2 ^ 32 \<Longrightarrow> \<exists>d. df_digest tag esi = Inr d"
  by (simp add: df_digest_def to_bytes_be_def)

lemma hrw_loop_best:
  assumes "df_digest tag esi = Inr d"
  shows "\<exists>a. hrw_loop tag esi (Some (mix d b, b)) addrs = Inr (Some (mix d a, a)) \<and> a \<in> set (b # addrs) \<and> (\<forall>c\<in>set (b # addrs). beats d a c)"
proof (induction addrs arbitrary: b)
  case Nil
  show ?case by (simp add: beats_def)
next
  case (Cons x addrs)
  let ?n = "if better_df (mix d x, x) (Some (mix d b, b)) then x else b"
  have s: "hrw_loop tag esi (Some (mix d b, b)) (x # addrs) = hrw_loop tag esi (Some (mix d ?n, ?n)) addrs"
    using assms by (simp add: weight_def)
  have n: "beats d ?n x" "beats d ?n b" by (auto simp: beats_def better_df_def)
  obtain a where a: "hrw_loop tag esi (Some (mix d ?n, ?n)) addrs = Inr (Some (mix d a, a))" "a \<in> set (?n # addrs)" "\<forall>c\<in>set (?n # addrs). beats d a c"
    using Cons.IH [of ?n] by blast
  have "beats d a x" "beats d a b" using a(3) n beats_trans by auto
  then have "\<forall>c\<in>set (b # x # addrs). beats d a c" using a(3) by auto
  moreover have "a \<in> set (b # x # addrs)" using a(2) by (auto split: if_splits)
  ultimately show ?case using s a(1) by metis
qed

lemma hrw_df_winner:
  assumes "df_digest tag esi = Inr d" "addrs \<noteq> []"
  obtains a where "hrw_df addrs tag esi = Inr a" "a \<in> set addrs" "\<forall>c\<in>set addrs. beats d a c"
proof -
  obtain b bs where addrs: "addrs = b # bs" using assms(2) by (cases addrs) auto
  from hrw_loop_best [OF assms(1), of b bs] obtain a
    where "hrw_loop tag esi (Some (mix d b, b)) bs = Inr (Some (mix d a, a))" "a \<in> set addrs" "\<forall>c\<in>set addrs. beats d a c"
    unfolding addrs by blast
  then show thesis using that [of a] assms(1) by (simp add: hrw_df_def addrs weight_def better_df_def)
qed

lemma hrw_df_unique:
  assumes "df_digest tag esi = Inr d" "a \<in> set addrs" "\<forall>c\<in>set addrs. beats d a c"
  shows "hrw_df addrs tag esi = Inr a"
proof -
  have "addrs \<noteq> []" using assms(2) by auto
  from hrw_df_winner [OF assms(1) this] obtain b where b: "hrw_df addrs tag esi = Inr b" "b \<in> set addrs" "\<forall>c\<in>set addrs. beats d b c" by blast
  with assms have "a = b" using beats_antisym by blast
  with b(1) show ?thesis by simp
qed

text \<open>
  C25: stability of the highest random weight.  The forwarder elected for a tag is one of the addresses, its election depends only on
  the set of addresses and not on their order or repetitions, and removing any addresses other than the elected one changes nothing:
  only the tags of a failed router move.
\<close>

theorem hrw_minimal_disruption:
  assumes "0 \<le> tag" "tag < 2 ^ 32" "addrs \<noteq> []"
  shows "\<exists>a. hrw_df addrs tag esi = Inr a \<and> a \<in> set addrs \<and> (\<forall>rest. a \<in> set rest \<longrightarrow> set rest \<subseteq> set addrs \<longrightarrow> hrw_df rest tag esi = Inr a)"
proof -
  obtain d where d: "df_digest tag esi = Inr d" using df_digest_Inr [OF assms(1,2)] by blast
  from hrw_df_winner [OF d assms(3)] obtain a where a: "hrw_df addrs tag esi = Inr a" "a \<in> set addrs" "\<forall>c\<in>set addrs. beats d a c" by blast
  have "hrw_df rest tag esi = Inr a" if "a \<in> set rest" "set rest \<subseteq> set addrs" for rest
    using that a(3) by (intro hrw_df_unique [OF d]) auto
  with a show ?thesis by blast
qed

theorem hrw_minimal_disruption_witness:
  "\<exists>a. hrw_df [0x0A000003, 0x0A000004, 0x0A000005] 10 [0, 1] = Inr a \<and> a \<in> set [0x0A000003, 0x0A000004, 0x0A000005]
    \<and> (\<forall>rest. a \<in> set rest \<longrightarrow> set rest \<subseteq> set [0x0A000003, 0x0A000004, 0x0A000005] \<longrightarrow> hrw_df rest 10 [0, 1] = Inr a)"
  by (rule hrw_minimal_disruption) simp_all

section \<open>Machine arithmetic\<close>

lemma of_int_xor_word: "(of_int (a XOR b) :: 'a::len word) = of_int a XOR of_int b"
  by (rule bit_word_eqI) (simp add: bit_simps bit_word_of_int_iff)

text \<open>
  The weight in machine arithmetic.  The script computes with unbounded integers and reduces modulo \<open>2 ^ 31\<close> at the end; computing
  with wrapping 32-bit words and masking the top bit at the end gives the same weight for every address and digest.
\<close>

theorem weight_wraps:
  "mix d addr = uint ((1103515245 * ((1103515245 * of_int addr + 12345) XOR of_int d) + 12345 :: 32 word) AND 0x7FFFFFFF)"
proof -
  let ?x = "1103515245 * ((1103515245 * addr + 12345) XOR d) + 12345"
  have "(1103515245 * ((1103515245 * of_int addr + 12345) XOR of_int d) + 12345 :: 32 word) = of_int ?x"
    by (simp add: of_int_xor_word)
  moreover have "uint (of_int x AND 0x7FFFFFFF :: 32 word) = take_bit 31 x" for x
  proof -
    have "(0x7FFFFFFF :: 32 word) = mask 31" by (simp add: mask_eq_exp_minus_1)
    then have "of_int x AND 0x7FFFFFFF = (take_bit 31 (of_int x) :: 32 word)" by (simp only: take_bit_eq_mask)
    also have "uint (take_bit 31 (of_int x) :: 32 word) = take_bit 31 (take_bit 32 x)" by (simp add: unsigned_take_bit_eq uint_word_of_int_eq)
    finally show ?thesis by simp
  qed
  then have "uint (of_int ?x AND 0x7FFFFFFF :: 32 word) = take_bit 31 ?x" .
  ultimately show ?thesis by (simp only: mix_def take_bit_eq_mod)
qed

end
