(* ===== verification/FuzzReach.thy ===== *)
theory FuzzReach
  imports SecretScan Regex_Facts
begin

text \<open>
  \<open>scripts/checks/check-fuzz-reach.py\<close>, first half: the draw vocabulary, bracket matching and argument lists, the functions,
  structs and imports of a Zig file, the body a fuzz callback runs, and the walk that lists the draws of a target in source order.
  What the script reads of the file system is an argument.
\<close>

section \<open>The draw vocabulary\<close>

definition FAITHFUL_METHODS :: "ustr list" where
  "FAITHFUL_METHODS = map asc [''bytes'', ''bytesWeighted'', ''bytesWithHash'', ''bytesWeightedWithHash'', ''slice'', ''sliceWeighted'',
     ''sliceWeightedBytes'', ''sliceWithHash'', ''sliceWeightedWithHash'', ''sliceWeightedBytesWithHash'']"

definition WEAK_METHODS :: "ustr list" where
  "WEAK_METHODS = map asc [''eos'', ''eosWeighted'', ''eosWeightedSimple'', ''eosWithHash'', ''eosWeightedWithHash'', ''eosWeightedSimpleWithHash'']"

definition COLLAPSING_METHODS :: "ustr list" where
  "COLLAPSING_METHODS = map asc [''valueRangeAtMost'', ''valueRangeLessThan'', ''valueWeighted'', ''valueRangeAtMostWithHash'',
     ''valueRangeLessThanWithHash'', ''valueWeightedWithHash'', ''index'', ''indexWithHash'', ''boolWeighted'', ''boolWeightedWithHash'']"

definition VALUE_METHODS :: "ustr list" where
  "VALUE_METHODS = map asc [''value'', ''valueWithHash'']"

definition ALL_METHODS :: "ustr list" where
  "ALL_METHODS = FAITHFUL_METHODS @ WEAK_METHODS @ COLLAPSING_METHODS @ VALUE_METHODS"

text \<open>\<open>"|".join(sorted(ms, key=len, reverse=True))\<close>: longest first.\<close>

definition method_alt :: "ustr list \<Rightarrow> re" where
  "method_alt ms = ralt (map ru (rev (sort_key length ms)))"

definition DRAW_RE :: re where
  "DRAW_RE = rseq [RWordB, ident 1, rlit ''.'', RGroup 2 (method_alt ALL_METHODS), rs0, rlit ''('']"

definition REACH_CALL_RE :: re where
  "REACH_CALL_RE = rseq [RWordB, ident 1, rs0, rlit ''('']"

definition KEYWORDS :: "ustr list" where
  "KEYWORDS = map asc [''if'', ''while'', ''for'', ''switch'', ''return'', ''catch'', ''fn'', ''try'', ''orelse'', ''defer'', ''errdefer'',
     ''comptime'', ''inline'', ''and'', ''or'', ''test'', ''struct'', ''union'', ''enum'', ''align'', ''callconv'']"

definition FUZZ_RE :: re where
  "FUZZ_RE = rseq [RWordB, rlit ''testing.fuzz'', rs0, rlit ''('']"

definition FN_RE :: re where
  "FN_RE = rseq [RWordB, rlit ''fn'', rs1, ident 1, rs0, rlit ''('']"

definition SMITH_FIELD_RE :: re where
  "SMITH_FIELD_RE = rseq [RWordB, ident 1, rs0, rlit '':'', rs0, rlit ''*'', ropt (rlit ''std.''), rlit ''testing.Smith'']"

definition STRUCT_LIT_RE :: re where
  "STRUCT_LIT_RE = rseq [RWordB, ralt [rlit ''var'', rlit ''const''], rs1, ident 1, rs0, ropt (RSeq (rlit '':'') (rstar (RSet (\<lambda>x. x \<noteq> 61)))),
     rlit ''='', rs0, RGroup 2 (rstar (RSet (\<lambda>x. x = 46 \<or> u_word x))), rs0, rlit ''{'', rstar (RSet (\<lambda>x. x \<noteq> 125)), rlit ''.smith'', rs0, rlit ''='']"

definition MAX_DEPTH :: nat where "MAX_DEPTH = 6"

text \<open>\<open>re.fullmatch\<close>: the first way to match that ends at the end.\<close>

definition re_fullmatch :: "re \<Rightarrow> ustr \<Rightarrow> rmatch option" where
  "re_fullmatch r s = (case filter (\<lambda>(j, c). j = length s) (rmt r s 0 []) of [] \<Rightarrow> None | (j, c) # _ \<Rightarrow> Some (0, j, c))"

section \<open>Types\<close>

definition digits1 :: re where "digits1 = rplus rdigit"

definition array_of :: "re \<Rightarrow> re" where
  "array_of r = rseq [rlit ''['', rs0, digits1, rs0, rlit '']'', rs0, r]"

definition vector_u8 :: re where
  "vector_u8 = rseq [rlit ''@Vector'', rs0, rlit ''('', rs0, digits1, rs0, rlit '','', rs0, rlit ''u8'', rs0, rlit '')'']"

definition int_scalar :: "re \<Rightarrow> re" where "int_scalar d = RSeq (RSet (one_of ''ui'')) d"

definition width_of :: "ustr \<Rightarrow> int option" where
  "width_of type_arg = (let t0 = ustrip type_arg in
     if re_fullmatch (array_of (rlit ''u8'')) t0 \<noteq> None \<or> re_fullmatch vector_u8 t0 \<noteq> None then Some 64
     else (let t = (case re_fullmatch (array_of (RGroup 1 (RAlt (int_scalar digits1) (RSeq (rlit ''f'') digits1)))) t0 of
                      Some m \<Rightarrow> group0 t0 m 1 | None \<Rightarrow> t0) in
       if t = asc ''usize'' \<or> t = asc ''isize'' then Some 64
       else (case (case re_fullmatch (int_scalar (RGroup 1 digits1)) t of Some m \<Rightarrow> Some m
                     | None \<Rightarrow> re_fullmatch (RSeq (rlit ''f'') (RGroup 1 digits1)) t) of
           Some m \<Rightarrow> (case parse_int (group0 t m 1) of Inr n \<Rightarrow> Some n | Inl _ \<Rightarrow> None)
         | None \<Rightarrow> if t = asc ''bool'' then Some 1 else None)))"

section \<open>Brackets and arguments\<close>

text \<open>The position of the quote that ends a literal, or one past the end of the text.\<close>

function skip_quoted :: "int \<Rightarrow> ustr \<Rightarrow> nat \<Rightarrow> nat" where
  "skip_quoted q s i = (if length s \<le> i \<or> s ! i = q then i else skip_quoted q s (if s ! i = 0x5C then i + 2 else i + 1))"
  by pat_completeness auto
termination
  by (relation "measure (\<lambda>(q, s, i). length s - i)") auto

declare skip_quoted.simps [simp del]

lemma skip_quoted_ge: "i \<le> skip_quoted q s i"
proof (induction q s i rule: skip_quoted.induct)
  case (1 q s i)
  then show ?case by (subst skip_quoted.simps) auto
qed

function paren_loop :: "ustr \<Rightarrow> nat \<Rightarrow> int \<Rightarrow> nat" where
  "paren_loop s i depth =
     (if length s \<le> i then length s
      else (let c = s ! i in
        if c = 0x22 \<or> c = 0x27 then paren_loop s (skip_quoted c s (i + 1) + 1) depth
        else if c = 40 \<or> c = 91 \<or> c = 123 then paren_loop s (i + 1) (depth + 1)
        else if c = 41 \<or> c = 93 \<or> c = 125 then (if depth - 1 = 0 then i + 1 else paren_loop s (i + 1) (depth - 1))
        else paren_loop s (i + 1) depth))"
  by pat_completeness auto
termination
proof (relation "measure (\<lambda>(s, i, depth). length s - i)", goal_cases)
  case (2 s i depth c)
  then show ?case using skip_quoted_ge [of "i + 1" c s] by simp
qed auto

declare paren_loop.simps [simp del]

definition match_paren :: "ustr \<Rightarrow> nat \<Rightarrow> nat" where
  "match_paren src open_idx = paren_loop src open_idx 0"

text \<open>The parts between the commas at depth zero.  Inside a string nothing counts up to the next double quote.\<close>

function args_loop :: "ustr \<Rightarrow> int \<Rightarrow> ustr \<Rightarrow> ustr list" where
  "args_loop [] depth cur = [cur]"
| "args_loop (c # s) depth cur =
     (if c = 40 \<or> c = 91 \<or> c = 123 then args_loop s (depth + 1) (cur @ [c])
      else if c = 41 \<or> c = 93 \<or> c = 125 then args_loop s (depth - 1) (cur @ [c])
      else if c = 44 \<and> depth = 0 then cur # args_loop s depth []
      else if c = 0x22 then
        (let lit = takeWhile (\<lambda>x. x \<noteq> 0x22) s; rest = dropWhile (\<lambda>x. x \<noteq> 0x22) s in
         args_loop (drop 1 rest) depth (cur @ [c] @ lit @ take 1 rest))
      else args_loop s depth (cur @ [c]))"
  by pat_completeness auto
termination
proof (relation "measure (\<lambda>(s, depth, cur). length s)", goal_cases)
  case (5 c s depth cur lit rest)
  then show ?case using length_dropWhile_le [of "\<lambda>x. x \<noteq> 0x22" s] by simp
qed auto

declare args_loop.simps [simp del]

definition split_args :: "ustr \<Rightarrow> ustr list" where
  "split_args arglist = map ustrip (args_loop arglist 0 [])"

section \<open>Comments and bodies\<close>

definition literal_re :: "int \<Rightarrow> re" where
  "literal_re q = rseq [ru [q], rstar (RAlt (RSeq (ru [0x5C]) rdot) (RSet (\<lambda>x. x \<noteq> q \<and> x \<noteq> 0x5C \<and> x \<noteq> 10))), ru [q]]"

definition COMMENT_RE :: re where
  "COMMENT_RE = ralt [literal_re 0x22, literal_re 0x27, RSeq (rlit ''//'') (rstar rdot)]"

definition blank_line_comments :: "ustr \<Rightarrow> ustr" where
  "blank_line_comments src = re_sub COMMENT_RE (\<lambda>m. let t = matched src m in
     if startswith t (asc ''//'') then replicate (length t) 32 else t) src"

definition TYPE_OPENER_RE :: re where
  "TYPE_OPENER_RE = rseq [RWordB, ralt [rlit ''struct'', rlit ''union'', rlit ''enum'', rlit ''opaque'', rlit ''error''], rs0,
     ropt (rseq [rlit ''('', rstar (RSet (\<lambda>x. x \<noteq> 41)), rlit '')'', rs0]), REnd]"

text \<open>The brace that opens the body of a function, those of its return type stepped over.\<close>

function body_brace :: "ustr \<Rightarrow> nat \<Rightarrow> nat \<Rightarrow> nat option" where
  "body_brace src paren_end p =
     (case find_from [123] src p of None \<Rightarrow> None
      | Some brace \<Rightarrow>
          if \<not> found_in TYPE_OPENER_RE (slice paren_end brace src) then Some brace
          else (let p' = match_paren src brace in if p' \<le> brace then None else body_brace src paren_end p'))"
  by pat_completeness auto
termination
proof (relation "measure (\<lambda>(src, paren_end, p). length src - p)", goal_cases)
  case (2 src paren_end p brace p')
  then show ?case using find_from_SomeD [of "[123]" src p brace] by simp linarith
qed simp

declare body_brace.simps [simp del]

section \<open>Files\<close>

text \<open>The text of a regular file, the \<open>.zig\<close> files below a directory, whether a path is a directory, and the resolved path of an
  import in a file.\<close>

record reach_fs =
  fs_text :: "ustr \<Rightarrow> ustr option"
  fs_zig :: "ustr \<Rightarrow> ustr list"
  fs_dir :: "ustr \<Rightarrow> bool"
  fs_resolve :: "ustr \<Rightarrow> ustr \<Rightarrow> ustr"

record reach_file =
  g_path :: ustr
  g_src :: ustr
  g_defs :: "(ustr \<times> (nat \<times> nat \<times> ustr) list) list"
  g_imports :: "(ustr \<times> ustr) list"
  g_structs :: "(ustr \<times> nat \<times> nat) list"

definition add_def :: "ustr \<Rightarrow> (ustr \<times> (nat \<times> nat \<times> ustr) list) list \<Rightarrow> rmatch \<Rightarrow> (ustr \<times> (nat \<times> nat \<times> ustr) list) list" where
  "add_def src d m =
     (let paren_end = match_paren src (m_end m - 1); name = group0 src m 1 in
      case body_brace src paren_end paren_end of None \<Rightarrow> d
      | Some brace \<Rightarrow> dict_set d name ((case map_of d name of None \<Rightarrow> [] | Some ds \<Rightarrow> ds)
          @ [(brace + 1, match_paren src brace - 1, slice (m_end m) (paren_end - 1) src)]))"

definition FILE_IMPORT_RE :: re where
  "FILE_IMPORT_RE = rseq [RWordB, rlit ''const'', rs1, ident 1, rs0, rlit ''='', rs0, rlit ''@import('', ru [0x22],
     RGroup 2 (RSeq (rplus (RSet (\<lambda>x. u_word x \<or> one_of ''./-'' x))) (rlit ''.zig'')), ru [0x22], rlit '')'']"

definition STRUCT_RE :: re where
  "STRUCT_RE = rseq [RWordB, rlit ''const'', rs1, ident 1, rs0, rlit ''='', rs0, ropt (RAlt (RSeq (rlit ''packed'') rs1) (RSeq (rlit ''extern'') rs1)),
     rlit ''struct'', RWordB, rstar (RSet (\<lambda>x. x \<noteq> 123)), rlit ''{'']"

text \<open>The pattern of a struct ends with its brace, which is the last one before the end of the match.\<close>

definition mk_reach_file :: "reach_fs \<Rightarrow> ustr \<Rightarrow> ustr \<Rightarrow> reach_file" where
  "mk_reach_file fs path raw = (let src = blank_line_comments raw in
     \<lparr> g_path = path, g_src = src, g_defs = foldl (add_def src) [] (finditer FN_RE src),
       g_imports = foldl (\<lambda>d m. dict_set d (group0 src m 1) (fs_resolve fs path (group0 src m 2))) [] (finditer FILE_IMPORT_RE src),
       g_structs = foldl (\<lambda>d m. let brace = m_end m - 1 in dict_setdefault d (group0 src m 1) (brace, match_paren src brace)) []
         (finditer STRUCT_RE src) \<rparr>)"

text \<open>A file is parsed once per run; parsing depends on nothing that changes, so the cache of the script is not seen.\<close>

definition load_file :: "reach_fs \<Rightarrow> ustr \<Rightarrow> reach_file option" where
  "load_file fs path = map_option (mk_reach_file fs path) (fs_text fs path)"

definition reach_line :: "reach_file \<Rightarrow> nat \<Rightarrow> nat" where
  "reach_line f off = count_list (take off (g_src f)) 10 + 1"

definition resolve_fn :: "reach_file \<Rightarrow> ustr \<Rightarrow> ustr option \<Rightarrow> (nat \<times> nat \<times> ustr) option" where
  "resolve_fn f name owner =
     (case map_of (g_defs f) name of None \<Rightarrow> None | Some [] \<Rightarrow> None
      | Some (d # ds) \<Rightarrow>
          (case Option.bind owner (map_of (g_structs f)) of None \<Rightarrow> Some d
           | Some (lo, hi) \<Rightarrow> (case find (\<lambda>e. lo < fst e \<and> fst e < hi) (d # ds) of Some e \<Rightarrow> Some e | None \<Rightarrow> Some d)))"

definition fn_body :: "reach_file \<Rightarrow> ustr \<Rightarrow> ustr option \<Rightarrow> ustr option" where
  "fn_body f name owner = map_option (\<lambda>d. slice (fst d) (fst (snd d)) (g_src f)) (resolve_fn f name owner)"

section \<open>Carriers\<close>

type_synonym carriers = "(ustr \<times> ustr option) list"

definition ANYTYPE_RE :: re where "ANYTYPE_RE = rseq [ident 1, rs0, rlit '':'', rs0, rlit ''anytype'']"
definition GENERIC_RE :: re where "GENERIC_RE = rseq [rlit ''comptime'', rs1, ident 1, rs0, rlit '':'', rs0, rlit ''type'']"
definition POINTER_TO :: "ustr \<Rightarrow> re" where "POINTER_TO g = rseq [ident 1, rs0, rlit '':'', rs0, rlit ''*'', rs0, ru g, RWordB]"
definition PARAM_RE :: re where "PARAM_RE = rseq [ident 1, rs0, rlit '':'', rs0, ropt (rlit ''*''), ident 2]"

definition findall1 :: "re \<Rightarrow> ustr \<Rightarrow> ustr list" where
  "findall1 r s = map (\<lambda>m. group0 s m 1) (finditer r s)"

definition holds_smith :: "reach_file \<Rightarrow> ustr \<Rightarrow> bool" where
  "holds_smith f ty = (case map_of (g_structs f) ty of None \<Rightarrow> False | Some (lo, hi) \<Rightarrow> found_in SMITH_FIELD_RE (slice lo hi (g_src f)))"

definition carrier_params :: "reach_file \<Rightarrow> ustr \<Rightarrow> ustr option \<Rightarrow> carriers" where
  "carrier_params f name owner =
     (case resolve_fn f name owner of None \<Rightarrow> []
      | Some (lo, hi, params) \<Rightarrow>
          (let plain = findall1 SMITH_FIELD_RE params @ findall1 ANYTYPE_RE params
                 @ concat (map (\<lambda>g. findall1 (POINTER_TO g) params) (findall1 GENERIC_RE params));
               out = foldl (\<lambda>d n. dict_set d n None) [] plain
           in foldl (\<lambda>d m. if holds_smith f (group0 params m 2) then dict_set d (group0 params m 1) (Some (group0 params m 2)) else d)
                out (finditer PARAM_RE params)))"

definition strip_dots :: "ustr \<Rightarrow> ustr" where
  "strip_dots s = rstrip_of (\<lambda>x. x = 46) (dropWhile (\<lambda>x. x = 46) s)"

definition smith_names :: "ustr \<Rightarrow> carriers \<Rightarrow> carriers" where
  "smith_names body base =
     (let names = foldl (\<lambda>d n. dict_setdefault d n None) base (findall1 SMITH_FIELD_RE body)
      in foldl (\<lambda>d m. let ty = strip_dots (group0 body m 2) in dict_set d (group0 body m 1) (if ty = [] then None else Some ty))
           names (finditer STRUCT_LIT_RE body))"

section \<open>Draws\<close>

datatype draw_kind = Faithful | Weak | Collapsing

record draw =
  w_kind :: draw_kind
  w_method :: ustr
  w_detail :: ustr
  w_off :: nat
  w_via :: ustr

definition draw_str :: "draw \<Rightarrow> ustr" where
  "draw_str d = w_detail d @ (if w_via d = [] then [] else asc '' (in '' @ w_via d @ asc '')'')"

definition classify_draw :: "ustr \<Rightarrow> ustr \<Rightarrow> draw_kind \<times> ustr" where
  "classify_draw meth arglist =
     (if meth \<in> set FAITHFUL_METHODS then (Faithful, [])
      else if meth \<in> set WEAK_METHODS then (Weak, [])
      else if meth \<in> set COLLAPSING_METHODS then (Collapsing, [])
      else (let args = split_args arglist; t = (if args = [] then [] else hd args) in
        case width_of t of None \<Rightarrow> (Collapsing, asc ''unknown type `'' @ t @ asc ''`'')
        | Some w \<Rightarrow> if 64 \<le> w then (Faithful, [])
            else (Collapsing, asc ''`'' @ t @ asc ''` is '' @ ushow w @ asc '' bits, so only 1 in 2^'' @ ushow (64 - w) @ asc '' input words survives'')))"

section \<open>The body as the callback runs it\<close>

definition dotted :: re where "dotted = rstar (RSet (\<lambda>x. u_word x \<or> x = 46))"

definition RNG_NE_RE :: re where
  "RNG_NE_RE = rseq [RWordB, rlit ''if'', rs0, rlit ''('', rs0, rw1, rs0, rlit ''!='', rs0, dotted, RWordB, rlit ''Rng'', rs0, rlit '')'', rs0,
     rlit ''return'', rs1, RGroup 1 (rstar (RSet (\<lambda>x. x \<noteq> 59))), rlit '';'']"

definition RNG_EQ_RE :: re where
  "RNG_EQ_RE = rseq [RWordB, rlit ''if'', rs0, rlit ''('', rs0, rw1, rs0, rlit ''=='', rs0, dotted, RWordB, rlit ''Rng'', RWordB]"

definition g_start :: "rmatch \<Rightarrow> nat \<Rightarrow> nat" where
  "g_start m k = (case map_of (snd (snd m)) k of Some (a, b) \<Rightarrow> a | None \<Rightarrow> 0)"

text \<open>The first guarded return is where the function ends: what follows it is blank.\<close>

definition cut_at_return :: "ustr \<Rightarrow> ustr" where
  "cut_at_return body = (case re_search RNG_NE_RE body of None \<Rightarrow> body
     | Some m \<Rightarrow> take (m_start m) body @ replicate (g_start m 1 - m_start m) 32 @ group0 body m 1 @ [59] @ replicate (length body - m_end m) 32)"

definition dead_end :: "ustr \<Rightarrow> nat \<Rightarrow> nat" where
  "dead_end body en =
     (let rest = drop en body; lead = length rest - length (ulstrip rest) in
      if startswith (ulstrip rest) [123] then match_paren body (en + lead)
      else (case find_from [59] body en of None \<Rightarrow> length body | Some semi \<Rightarrow> semi + 1))"

definition blank_range :: "ustr \<Rightarrow> nat \<Rightarrow> nat \<Rightarrow> ustr" where
  "blank_range body a b = take a body @ map (\<lambda>c. if c = 10 then 10 else 32) (slice a b body) @ drop b body"


lemma paren_loop_bounds: "i < length s \<Longrightarrow> i < paren_loop s i depth \<and> paren_loop s i depth \<le> length s"
proof (induction s i depth rule: paren_loop.induct)
  case (1 s i depth)
  have next_: "i < paren_loop s k d \<and> paren_loop s k d \<le> length s"
    if "i < k" "k < length s \<Longrightarrow> k < paren_loop s k d \<and> paren_loop s k d \<le> length s" for k d
    using that "1.prems" paren_loop.simps [of s k d] by (cases "k < length s") auto
  have q: "i < skip_quoted (s ! i) s (i + 1) + 1" using skip_quoted_ge [of "i + 1" "s ! i" s] by simp
  consider "s ! i = 0x22 \<or> s ! i = 0x27" | "s ! i = 40 \<or> s ! i = 91 \<or> s ! i = 123" | "s ! i = 41 \<or> s ! i = 93 \<or> s ! i = 125"
    | "s ! i \<notin> {0x22, 0x27, 40, 91, 123, 41, 93, 125}" by auto
  then show ?case
  proof cases
    case 1
    with next_ [OF q] "1.IH"(1) "1.prems" show ?thesis by (subst (1 2) paren_loop.simps) auto
  next
    case 2
    with next_ [of "i + 1" "depth + 1"] "1.IH"(2) "1.prems" show ?thesis by (subst (1 2) paren_loop.simps) auto
  next
    case 3
    with next_ [of "i + 1" "depth - 1"] "1.IH"(3) "1.prems" show ?thesis by (subst (1 2) paren_loop.simps) auto
  next
    case 4
    with next_ [of "i + 1" depth] "1.IH"(4) "1.prems" show ?thesis by (subst (1 2) paren_loop.simps) auto
  qed
qed

lemma match_paren_bounds: "i < length s \<Longrightarrow> i < match_paren s i \<and> match_paren s i \<le> length s"
  unfolding match_paren_def by (rule paren_loop_bounds)

lemma find_from_exists: "i \<le> k \<Longrightarrow> k < length s \<Longrightarrow> s ! k = x \<Longrightarrow> \<exists>p. find_from [x] s i = Some p \<and> i \<le> p \<and> p \<le> k"
proof (induction "[x]" s i rule: find_from.induct)
  case (1 s i)
  show ?case
  proof (cases "s ! i = x")
    case True
    with 1 have "take 1 (drop i s) = [x]" by (simp add: take_Suc_conv_app_nth)
    with 1 show ?thesis by (subst find_from.simps) auto
  next
    case False
    with "1.prems" have "i \<noteq> k" by auto
    with "1.prems" have ik: "Suc i \<le> k" by simp
    have t: "take 1 (drop i s) \<noteq> [x]" using False 1 by (simp add: take_Suc_conv_app_nth)
    with "1.hyps" [OF _ _ ik "1.prems"(2,3)] "1.prems" show ?thesis by (subst find_from.simps) auto
  qed
qed

text \<open>A guard starts with the \<open>i\<close> of \<open>if\<close> and has a parenthesis.\<close>

lemma rng_eq_match:
  assumes "re_search RNG_EQ_RE s = Some (a, b, c)"
  obtains p where "a < length s" "s ! a = 105" "find_from [40] s a = Some p" "a < p" "p < length s"
proof -
  have ab: "(b, c) \<in> set (rmt RNG_EQ_RE s a [])" using search_mem assms unfolding re_search_def by blast
  then obtain k d k1 d1 where 1: "(k, d) \<in> set (rmt (rlit ''if'') s a [])" and 2: "(k1, d1) \<in> set (rmt rs0 s k d)"
    and 3: "\<exists>k2 d2. (k2, d2) \<in> set (rmt (rlit ''('') s k1 d1)"
    unfolding RNG_EQ_RE_def mem_rseq mem_boundary by blast
  have k: "k = a + 2" "k \<le> length s" and sl: "slice a (a + 2) s = asc ''if''" using 1 [unfolded mem_lit] by auto
  have "k \<le> k1" using m_bounds [OF k(2) 2] by simp
  from 3 [unfolded mem_lit] have k1: "k1 < length s" "slice k1 (k1 + 1) s = [40]" by auto
  have "s ! k1 = 40" using k1 by (simp add: slice_def take_Suc_conv_app_nth)
  from find_from_exists [OF _ k1(1) this, of a] \<open>k \<le> k1\<close> k(1) obtain p where p: "find_from [40] s a = Some p" "a \<le> p" "p \<le> k1" by auto
  have "slice a (a + 2) s ! 0 = s ! a" using k by (simp add: slice_def)
  with sl have "s ! a = 105" by simp
  moreover have "s ! p = 40" using find_from_SomeD [OF p(1)] by (auto simp: take_Suc_conv_app_nth hd_drop_conv_nth)
  ultimately have "a \<noteq> p" by auto
  with p k k1 \<open>s ! a = 105\<close> show thesis by (intro that [of p]) auto
qed

lemma dead_end_bounds: "en \<le> length s \<Longrightarrow> en \<le> dead_end s en \<and> dead_end s en \<le> length s"
proof -
  assume en: "en \<le> length s"
  let ?rest = "drop en s"
  let ?lead = "length ?rest - length (ulstrip ?rest)"
  show ?thesis
  proof (cases "startswith (ulstrip ?rest) [123]")
    case True
    then have "0 < length (ulstrip ?rest)" by (cases "ulstrip ?rest") (auto simp: startswith_def)
    moreover have "length (ulstrip ?rest) \<le> length ?rest" unfolding ulstrip_def by (rule length_dropWhile_le)
    moreover have "length ?rest = length s - en" by simp
    ultimately have "en + ?lead < length s" using en by linarith
    from match_paren_bounds [OF this] True show ?thesis by (simp add: dead_end_def Let_def)
  next
    case False
    with en show ?thesis by (auto simp: dead_end_def Let_def split: option.split dest!: find_from_SomeD)
  qed
qed

lemma count_blank_range:
  assumes "a < b" "b \<le> length s" "s ! a = x" "x \<noteq> 32" "x \<noteq> 10"
  shows "count_list (blank_range s a b) x < count_list s x"
proof -
  have "s = take a s @ slice a b s @ drop b s" using assms(1) drop_slice [of a b s] by simp
  then have "count_list s x = count_list (take a s) x + count_list (slice a b s) x + count_list (drop b s) x"
    by (metis add.assoc count_list_append)
  moreover have "count_list (map (\<lambda>c. if c = 10 then 10 else 32) t) x = 0" for t :: ustr
    using assms(4,5) by (induction t) auto
  moreover have "slice a b s = x # slice (Suc a) b s"
    using assms by (simp add: slice_def Suc_diff_Suc take_Cons' flip: Cons_nth_drop_Suc)
  ultimately show ?thesis using assms(4,5) by (simp add: blank_range_def)
qed

text \<open>The dead range starts at the guard, so a round has one guard less to find.\<close>

function rng_loop :: "ustr \<Rightarrow> ustr result" where
  "rng_loop body = (case re_search RNG_EQ_RE body of None \<Rightarrow> Inr body
     | Some m \<Rightarrow> (case find_from [40] body (m_start m) of None \<Rightarrow> Inl ValueError
         | Some open_paren \<Rightarrow> rng_loop (blank_range body (m_start m) (dead_end body (match_paren body open_paren)))))"
  by pat_completeness auto
termination
proof (relation "measure (\<lambda>body. count_list body 105)", goal_cases)
  case (2 body m open_paren)
  obtain a b c where m: "m = (a, b, c)" by (cases m)
  with 2(1) have s: "re_search RNG_EQ_RE body = Some (a, b, c)" by simp
  obtain p where p: "a < length body" "body ! a = 105" "find_from [40] body a = Some p" "a < p" "p < length body"
    by (rule rng_eq_match [OF s])
  have mp: "p < match_paren body p \<and> match_paren body p \<le> length body" by (rule match_paren_bounds [OF p(5)])
  have "open_paren = p" using 2(2) p(3) m by (simp add: m_start_def)
  moreover have "match_paren body p \<le> dead_end body (match_paren body p) \<and> dead_end body (match_paren body p) \<le> length body"
    by (rule dead_end_bounds) (use mp in simp)
  ultimately show ?case using count_blank_range [of a "dead_end body (match_paren body p)" body 105] mp p m by (simp add: m_start_def)
qed simp

declare rng_loop.simps [simp del]

definition as_smith :: "ustr \<Rightarrow> ustr result" where
  "as_smith body = rng_loop (cut_at_return body)"

section \<open>The walk\<close>

datatype event = EDraw rmatch | ECall ustr "ustr option"

definition draw_events :: "ustr \<Rightarrow> carriers \<Rightarrow> (nat \<times> event) list" where
  "draw_events body cs = map (\<lambda>m. (m_start m, EDraw m)) (filter (\<lambda>m. map_of cs (group0 body m 1) \<noteq> None) (finditer DRAW_RE body))"

definition RECEIVER_RE :: re where "RECEIVER_RE = rseq [ident 1, rlit ''.'', REnd]"

definition handed_re :: "ustr \<Rightarrow> re" where
  "handed_re c = rseq [RSet (\<lambda>x. one_of ''&(,'' x \<or> u_space x), rs0, ru c, RWordB]"

text \<open>The type of the first carrier among the arguments.\<close>

definition handed :: "carriers \<Rightarrow> ustr \<Rightarrow> ustr option option" where
  "handed cs args = map_option snd (find (\<lambda>(c, ty). found_in (handed_re c) (32 # args)) cs)"

definition receiver :: "ustr \<Rightarrow> nat \<Rightarrow> ustr option" where
  "receiver body st = (let pre = urstrip (take st body) in
     if endswith pre [46] then map_option (\<lambda>m. group0 pre m 1) (re_search RECEIVER_RE pre) else None)"

definition call_event :: "ustr \<Rightarrow> carriers \<Rightarrow> rmatch \<Rightarrow> (nat \<times> event) option" where
  "call_event body cs m =
     (let name = group0 body m 1; en = match_paren body (m_end m - 1); args = slice (m_end m) (en - 1) body;
          qualifier = receiver body (m_start m) in
      if name \<in> set KEYWORDS then None
      else (case Option.bind qualifier (map_of cs) of
          Some ty \<Rightarrow> if name \<in> set ALL_METHODS then None else Some (m_start m, ECall name ty)
        | None \<Rightarrow> (case handed cs args of None \<Rightarrow> None
            | Some ty \<Rightarrow> Some (m_start m, ECall name (if qualifier = None then ty else qualifier)))))"

definition events_of :: "ustr \<Rightarrow> carriers \<Rightarrow> (nat \<times> event) list" where
  "events_of body cs = sort_key fst (draw_events body cs @ List.map_filter (call_event body cs) (finditer REACH_CALL_RE body))"

definition mk_draw :: "ustr \<Rightarrow> ustr \<Rightarrow> nat \<Rightarrow> rmatch \<Rightarrow> draw" where
  "mk_draw via body off m =
     (let arglist = slice (m_end m) (match_paren body (m_end m - 1) - 1) body; meth = group0 body m 2;
          detail = group0 body m 1 @ [46] @ meth @ [40] @ take 48 (ustrip arglist) @ [41] in
      case classify_draw meth arglist of (cls, why) \<Rightarrow>
        \<lparr> w_kind = cls, w_method = meth, w_detail = detail @ (if why = [] then [] else [32, 0x2014, 32] @ why), w_off = off, w_via = via \<rparr>)"

text \<open>The carriers inside a callee: its own parameters, an untyped one with the type of what it was handed.\<close>

definition sub_carriers :: "carriers \<Rightarrow> ustr option \<Rightarrow> carriers \<Rightarrow> carriers" where
  "sub_carriers cs owner params = foldl (\<lambda>d (k, v). case map_of d k of Some (Some _) \<Rightarrow> d
     | _ \<Rightarrow> dict_set d k (if v = None then owner else v)) cs params"

type_synonym walker = "reach_file \<Rightarrow> ustr \<Rightarrow> carriers \<Rightarrow> ustr list \<Rightarrow> ustr \<Rightarrow> draw list result"

definition callee_file :: "reach_fs \<Rightarrow> reach_file \<Rightarrow> ustr option \<Rightarrow> (reach_file \<times> ustr option) option" where
  "callee_file fs f owner = (case Option.bind owner (map_of (g_imports f)) of None \<Rightarrow> Some (f, owner)
     | Some path \<Rightarrow> map_option (\<lambda>g. (g, None)) (load_file fs path))"

definition walk_event :: "walker \<Rightarrow> reach_fs \<Rightarrow> reach_file \<Rightarrow> ustr \<Rightarrow> carriers \<Rightarrow> ustr list \<Rightarrow> ustr \<Rightarrow> nat \<times> event \<Rightarrow> draw list result" where
  "walk_event deeper fs f body cs seen via oe = (case oe of (off, EDraw m) \<Rightarrow> Inr [mk_draw via body off m]
     | (off, ECall name owner) \<Rightarrow>
         if name \<in> set seen then Inr []
         else (case callee_file fs f owner of None \<Rightarrow> Inr []
           | Some (g, owner') \<Rightarrow> (case fn_body g name owner' of None \<Rightarrow> Inr []
               | Some sub \<Rightarrow> deeper g sub (sub_carriers cs owner' (carrier_params g name owner')) (name # seen) (if via = [] then name else via))))"

definition walk_body :: "walker \<Rightarrow> reach_fs \<Rightarrow> walker" where
  "walk_body deeper fs f body0 carriers seen via =
     rbind (as_smith body0) (\<lambda>body. let cs = smith_names body carriers in
       rbind (rmap (walk_event deeper fs f body cs seen via) (events_of body cs)) (\<lambda>dss. Inr (concat dss)))"

text \<open>\<open>walk\<close>; the number counts the levels left, \<open>MAX_DEPTH - depth\<close>.  At the last one calls are not followed.\<close>

primrec walk :: "nat \<Rightarrow> reach_fs \<Rightarrow> walker" where
  "walk 0 fs = walk_body (\<lambda>f body carriers seen via. Inr []) fs"
| "walk (Suc n) fs = walk_body (walk n fs) fs"

end
