(* ===== verification/FuzzReach_Gate.thy ===== *)
theory FuzzReach_Gate
  imports FuzzReach
begin

text \<open>
  \<open>scripts/checks/check-fuzz-reach.py\<close>, second half: the truncation rule, the exemptions a module states, the scan, the verdicts,
  the per-module ceilings and \<open>main\<close> with its exit code and the baseline it writes.  What \<open>main\<close> prints is not modelled.
\<close>

section \<open>Drawn bytes cut to a collapsing length\<close>

definition LEN_BINDING_RE :: re where
  "LEN_BINDING_RE = rseq [RWordB, RAlt (rlit ''const'') (rlit ''var''), rs1, ident 1, rs0,
     ropt (RSeq (rlit '':'') (rstar (RSet (\<lambda>x. x \<noteq> 61 \<and> x \<noteq> 59)))), rlit ''='', rs0, RGroup 2 (RSeq (rstar (RSet (\<lambda>x. x \<noteq> 59))) (rlit '';''))]"

definition COLLAPSING_ALT :: re where "COLLAPSING_ALT = method_alt COLLAPSING_METHODS"

definition COLLAPSING_CALL_RE :: re where
  "COLLAPSING_CALL_RE = rseq [rlit ''.'', RGroup 1 COLLAPSING_ALT, rs0, rlit ''('']"

definition NARROW_VALUE_RE :: re where
  "NARROW_VALUE_RE = rseq [rlit ''.value'', rs0, rlit ''('', rs0,
     ralt [rlit ''bool'', RSeq (RSet (one_of ''ui'')) (ralt [RSet (one_of ''123456789''), RSeq (RSet (one_of ''12345'')) rdigit, RSeq (rlit ''6'') (RSet (one_of ''0123''))]),
       RSeq (rlit ''f'') (RAlt (rlit ''16'') (rlit ''32''))], rs0, rlit '')'']"

definition fill_head :: re where
  "fill_head = rseq [rlit ''.'', RAlt (RSeq (rlit ''bytes'') rw) (RSeq (rlit ''slice'') rw), rs0, rlit ''('', rs0, ropt (rlit ''&''), ident 1]"

definition FILL_RE :: re where "FILL_RE = fill_head"

definition FILL_TRUNC_RE :: re where
  "FILL_TRUNC_RE = rseq [fill_head, rs0, rlit ''['', rs0, rlit ''0'', rs0, rlit ''..'', rs0, ident 2, rs0, rlit '']'']"

definition collapsing_names :: "ustr \<Rightarrow> ustr list" where
  "collapsing_names t = sort (remdups (List.map_filter (\<lambda>m. let v = group0 t m 2 in
     if found_in COLLAPSING_CALL_RE v \<or> found_in NARROW_VALUE_RE v then Some (group0 t m 1) else None) (finditer LEN_BINDING_RE t)))"

definition filled_names :: "ustr \<Rightarrow> ustr list" where
  "filled_names t = sort (remdups (findall1 FILL_RE t))"

definition tick :: "ustr \<Rightarrow> ustr" where "tick s = asc ''`'' @ s @ asc ''`''"

definition pairs :: "'a list \<Rightarrow> 'b list \<Rightarrow> ('a \<times> 'b) list" where
  "pairs xs ys = concat (map (\<lambda>x. map (\<lambda>y. (x, y)) ys) xs)"

definition zero_slice_re :: "ustr \<Rightarrow> re list" where
  "zero_slice_re buf = [RWordB, ru buf, rs0, rlit ''['', rs0, ropt (rlit ''0''), rs0, rlit ''..'', rs0]"

text \<open>\<open>buf[0..n]\<close>.\<close>

definition sliced_hits :: "ustr \<Rightarrow> ustr list \<Rightarrow> ustr list \<Rightarrow> ustr list" where
  "sliced_hits t filled collapsing = List.map_filter (\<lambda>(buf, n).
     if found_in (rseq (zero_slice_re buf @ [ru n, rs0, rlit '']''])) t
     then Some (tick buf @ asc '' is filled with real input bytes and then sliced by '' @ tick n
       @ asc '', which comes from a bounded draw and is therefore the range minimum'')
     else None) (pairs filled collapsing)"

text \<open>\<open>smith.bytes(buf[0..n])\<close>.\<close>

definition destination_hits :: "ustr \<Rightarrow> ustr list \<Rightarrow> ustr list" where
  "destination_hits t collapsing = List.map_filter (\<lambda>m. let buf = group0 t m 1; n = group0 t m 2 in
     if n \<in> set collapsing
     then Some (asc ''the draw into '' @ tick buf @ asc '' is bounded by '' @ tick n
       @ asc '', which comes from a bounded draw and is therefore the range minimum, so no bytes are drawn'')
     else None) (finditer FILL_TRUNC_RE t)"

text \<open>\<open>buf[0..smith.valueRangeAtMost(...)]\<close>.\<close>

definition inline_hits :: "ustr \<Rightarrow> ustr list \<Rightarrow> ustr list" where
  "inline_hits t filled = List.map_filter (\<lambda>buf.
     map_option (\<lambda>m. tick buf @ asc '' is filled with real input bytes and then sliced by an inline '' @ tick (group0 t m 1)
       @ asc '' draw, which is the range minimum'')
     (re_search (rseq (zero_slice_re buf @ [rw1, rlit ''.'', RGroup 1 COLLAPSING_ALT, rs0, rlit ''(''])) t)) filled"

text \<open>\<open>buf[off..n]\<close>.\<close>

definition offset_hits :: "ustr \<Rightarrow> ustr list \<Rightarrow> ustr list \<Rightarrow> ustr list" where
  "offset_hits t filled collapsing = List.map_filter (\<lambda>(buf, n).
     case re_search (rseq [RWordB, ru buf, rs0, rlit ''['', rs0, ident 1, rs0, rlit ''..'', rs0, ru n, rs0, rlit '']'']) t of None \<Rightarrow> None
     | Some m \<Rightarrow> if group0 t m 1 = asc ''0'' then None
         else Some (tick buf @ asc '' is filled with real input bytes and then sliced as ''
           @ tick (buf @ asc ''['' @ group0 t m 1 @ asc ''..'' @ n @ asc '']'') @ asc '', and '' @ tick n
           @ asc '' comes from a bounded draw and is therefore the range minimum '' @ [0x2014] @ asc '' an empty slice for every seed''))
     (pairs filled collapsing)"

text \<open>The bound of the loop that feeds the buffer.\<close>

definition loop_hits :: "ustr \<Rightarrow> ustr list \<Rightarrow> ustr list \<Rightarrow> ustr list" where
  "loop_hits t filled collapsing = List.map_filter (\<lambda>n.
     let fed = (\<lambda>m. filter (\<lambda>b. found_in (rseq [RWordB, ru b, rs0, rlit ''['']) (drop (m_end m) t)) filled);
         ms = finditer (rseq [RWordB, ralt [rlit ''while'', rlit ''for'', rlit ''if''], rs0, rlit ''('', rlazy (RSet (\<lambda>x. x \<noteq> 41)),
           rlit ''<'', ropt (rlit ''=''), rs0, ru n, RWordB]) t in
     map_option (\<lambda>m. tick n @ asc '' comes from a bounded draw and is therefore the range minimum, and it is the bound of the loop that feeds ''
       @ tick (hd (fed m)) @ [32, 0x2014] @ asc '' the body never executes, so no drawn byte ever reaches the code under test'')
     (find (\<lambda>m. fed m \<noteq> []) ms)) collapsing"

text \<open>The selector of a table or a switch.\<close>

definition selector_hit :: "ustr \<Rightarrow> ustr list \<Rightarrow> ustr \<Rightarrow> ustr option" where
  "selector_hit t filled n =
     (let head = tick n @ asc '' comes from a bounded draw and is therefore the range minimum, and it '';
          sw = found_in (rseq [RWordB, rlit ''switch'', rs0, rlit ''('', rs0, ru n, rs0, rlit '')'']) t;
          by_switch = (if sw then Some (head @ asc ''is a `switch` discriminant '' @ [0x2014] @ asc '' every seed takes the same branch'') else None) in
      case re_search (rseq [RWordB, ident 1, rs0, rlit ''['', rs0, ru n, rs0, rlit '']'']) t of None \<Rightarrow> by_switch
      | Some m \<Rightarrow> (let tab = group0 t m 1 in
          if tab \<notin> set filled \<and> \<not> found_in (rseq [RWordB, rlit ''for'', rs0, rlit ''('', rs0, ru tab, rs0, rlit '')'']) t
          then Some (head @ asc ''selects which alternative runs ('' @ tick (tab @ asc ''['' @ n @ asc '']'') @ asc '') '' @ [0x2014]
            @ asc '' every seed takes the same branch'')
          else by_switch))"

definition body_hits :: "ustr \<Rightarrow> ustr list" where
  "body_hits t = (let collapsing = collapsing_names t; filled = filled_names t in
     sliced_hits t filled collapsing @ destination_hits t collapsing @ inline_hits t filled @ offset_hits t filled collapsing
     @ loop_hits t filled collapsing @ (if filled = [] then [] else List.map_filter (selector_hit t filled) collapsing))"

definition truncation_hits :: "ustr list \<Rightarrow> ustr list" where
  "truncation_hits body_texts = sort (remdups (concat (map body_hits body_texts)))"

section \<open>Exemptions\<close>

definition NEEDLE :: ustr where "NEEDLE = asc ''**Fuzz-reach exemption:**''"

definition strip_ticks :: "ustr \<Rightarrow> ustr" where
  "strip_ticks s = rstrip_of (\<lambda>x. x = 96) (dropWhile (\<lambda>x. x = 96) s)"

text \<open>The text after the line; \<open>src[-1:]\<close> when the line is the last one and has no newline.\<close>

definition after_line :: "ustr \<Rightarrow> nat \<Rightarrow> ustr" where
  "after_line src p = (case find_from [10] src p of Some nl \<Rightarrow> drop nl src | None \<Rightarrow> drop (length src - 1) src)"

definition exemption_line :: "ustr \<Rightarrow> nat \<Rightarrow> ustr" where
  "exemption_line src p = ustrip (slice (p + length NEEDLE) (case find_from [10] src p of Some nl \<Rightarrow> nl | None \<Rightarrow> length src) src)"

definition argument_of :: "ustr \<Rightarrow> nat \<Rightarrow> ustr" where
  "argument_of src p = (let after = after_line src p in
     ustrip (case find_from (10 # asc ''## '') after 0 of Some stop \<Rightarrow> take stop after | None \<Rightarrow> after))"

text \<open>The exempt names and the error.\<close>

definition read_exemption :: "ustr \<Rightarrow> ustr \<Rightarrow> ustr list \<times> ustr option" where
  "read_exemption path src =
     (case find_from NEEDLE src 0 of None \<Rightarrow> ([], None)
      | Some p \<Rightarrow>
          if find_from NEEDLE src (p + length NEEDLE) \<noteq> None then ([], Some (path @ asc '': states a fuzz-reach exemption twice''))
          else (let line = exemption_line src p in
            case find_from (asc '' via '') line 0 of
              None \<Rightarrow> ([], Some (path @ asc '': `'' @ NEEDLE @ asc '' '' @ line @ asc ''` names no targets; the form is `'' @ NEEDLE
                @ asc '' STRUCTURED via fuzzA, fuzzB`''))
            | Some v \<Rightarrow>
                (let reason = ustrip (take v line); names = drop (v + 5) line in
                 if reason \<noteq> asc ''STRUCTURED'' then ([], Some (path @ asc '': '' @ tick reason @ asc '' is not a reason word; the only one is STRUCTURED''))
                 else if argument_of src p = [] then ([], Some (path @ asc '': the exemption states no argument for itself''))
                 else (remdups (map (\<lambda>n. strip_ticks (ustrip n)) (filter (\<lambda>n. ustrip n \<noteq> []) (usplit CHR '','' names))), None))))"

definition doc_path :: "ustr \<Rightarrow> string \<Rightarrow> ustr" where
  "doc_path module name = asc ''modules/'' @ module @ asc ''/'' @ asc name"

definition module_exemption :: "reach_fs \<Rightarrow> ustr \<Rightarrow> ustr list \<times> ustr option" where
  "module_exemption fs module =
     (case fs_text fs (doc_path module ''SPEC.md'') of Some src \<Rightarrow> read_exemption (doc_path module ''SPEC.md'') src
      | None \<Rightarrow> (case fs_text fs (doc_path module ''README.md'') of Some src \<Rightarrow> read_exemption (doc_path module ''README.md'') src
          | None \<Rightarrow> ([], None)))"

section \<open>The scan\<close>

record target =
  t_path :: ustr
  t_module :: ustr
  t_line :: nat
  t_name :: ustr
  t_draws :: "draw list"
  t_bodies :: "ustr list"

type_synonym unjudged = "ustr \<times> nat \<times> ustr"

definition TARGET_RE :: re where
  "TARGET_RE = RSeq (RSet (\<lambda>x. u_upper x \<or> u_lower x \<or> x = 95)) (rstar (RSet (\<lambda>x. u_word x \<or> x = 46)))"

definition add_body :: "reach_file \<Rightarrow> ustr list \<Rightarrow> draw \<Rightarrow> ustr list" where
  "add_body f bodies d = (if w_via d = [] then bodies
     else (case fn_body f (w_via d) None of None \<Rightarrow> bodies | Some b \<Rightarrow> if b \<in> set bodies then bodies else bodies @ [b]))"

definition target_carriers :: "reach_file \<Rightarrow> ustr \<Rightarrow> ustr \<Rightarrow> carriers" where
  "target_carriers f name body = foldl (\<lambda>d (k, v). dict_set d k v) (smith_names body [(asc ''smith'', None)]) (carrier_params f name None)"

text \<open>One call of \<open>testing.fuzz\<close>: nothing, a target that cannot be judged, or a judged one.\<close>

definition judge_call :: "reach_fs \<Rightarrow> reach_file \<Rightarrow> ustr \<Rightarrow> rmatch \<Rightarrow> (unjudged + target) option result" where
  "judge_call fs f module m =
     (let args = split_args (slice (m_end m) (match_paren (g_src f) (m_end m - 1) - 1) (g_src f)); line = reach_line f (m_start m) in
      if length args < 2 then Inr None
      else (let tgt = ustrip (args ! 1) in
        if re_fullmatch TARGET_RE tgt = None
        then Inr (Some (Inl (g_path f, line, asc ''inline `struct { fn '' @ [0x2026] @ asc '' }` target'')))
        else (let name = last (usplit CHR ''.'' tgt) in
          case fn_body f name None of
            None \<Rightarrow> Inr (Some (Inl (g_path f, line, tick name @ asc '' is defined in another file'')))
          | Some body \<Rightarrow> rbind (walk MAX_DEPTH fs f body (target_carriers f name body) [name] []) (\<lambda>draws.
              Inr (Some (Inr \<lparr> t_path = g_path f, t_module = module, t_line = line, t_name = name, t_draws = draws,
                t_bodies = foldl (add_body f) [body] draws \<rparr>))))))"

text \<open>\<open>p.parts[1]\<close>.\<close>

definition part1 :: "ustr \<Rightarrow> ustr result" where
  "part1 p = (case usplit CHR ''/'' p of _ # m # _ \<Rightarrow> Inr m | _ \<Rightarrow> Inl IndexError)"

definition scan_file :: "reach_fs \<Rightarrow> ustr \<Rightarrow> (unjudged + target) list result" where
  "scan_file fs p = (case fs_text fs p of None \<Rightarrow> Inl OSError
     | Some raw \<Rightarrow>
         if \<not> ucontains (asc ''testing.fuzz'') raw then Inr []
         else (let f = mk_reach_file fs p raw; ms = finditer FUZZ_RE (g_src f) in
           if ms = [] then Inr []
           else rbind (part1 p) (\<lambda>module. rbind (rmap (judge_call fs f module) ms) (\<lambda>xs. Inr (List.map_filter id xs)))))"

text \<open>Paths compare part by part.\<close>

definition scan_paths :: "reach_fs \<Rightarrow> ustr list option \<Rightarrow> ustr list" where
  "scan_paths fs only = (let roots = (case only of None \<Rightarrow> [asc ''modules''] | Some ms \<Rightarrow> map (\<lambda>m. asc ''modules/'' @ m) (sort (remdups ms))) in
     sort_key (usplit CHR ''/'') (concat (map (fs_zig fs) (filter (fs_dir fs) roots))))"

definition reach_scan :: "reach_fs \<Rightarrow> ustr list option \<Rightarrow> (target list \<times> unjudged list) result" where
  "reach_scan fs only = rbind (rmap (scan_file fs) (scan_paths fs only)) (\<lambda>xss. let xs = concat xss in
     Inr (List.map_filter (\<lambda>x. case x of Inr t \<Rightarrow> Some t | Inl _ \<Rightarrow> None) xs, List.map_filter (\<lambda>x. case x of Inl u \<Rightarrow> Some u | Inr _ \<Rightarrow> None) xs))"

section \<open>Verdicts\<close>

definition first_strong :: "target \<Rightarrow> draw option" where
  "first_strong t = find (\<lambda>d. w_kind d \<noteq> Weak) (t_draws t)"

definition r1_reasons :: "target \<Rightarrow> (ustr \<times> ustr) list" where
  "r1_reasons t = (if t_draws t = [] then [(asc ''R1'', asc ''the target makes no `Smith` draw at all, so the seed is never read'')]
     else (case first_strong t of None \<Rightarrow> []
       | Some d \<Rightarrow> if w_kind d = Collapsing
           then [(asc ''R1'', asc ''the first draw is '' @ draw_str d @ asc '', which returns the range minimum for all but 1 in 2^64 seeds'')] else []))"

definition reasons_of :: "target \<Rightarrow> (ustr \<times> ustr) list" where
  "reasons_of t = (let r1 = r1_reasons t in if r1 = [] then map (\<lambda>why. (asc ''R2'', why)) (truncation_hits (t_bodies t)) else r1)"

definition weak_only :: "target \<Rightarrow> bool" where
  "weak_only t \<longleftrightarrow> t_draws t \<noteq> [] \<and> list_all (\<lambda>d. w_kind d = Weak) (t_draws t)"

definition post_byte_knobs :: "target \<Rightarrow> draw list" where
  "post_byte_knobs t = filter (\<lambda>d. w_kind d = Collapsing) (dropWhile (\<lambda>d. w_kind d \<noteq> Faithful) (t_draws t))"

section \<open>The baseline\<close>

definition is_line_break :: "int \<Rightarrow> bool" where
  "is_line_break c \<longleftrightarrow> (10 \<le> c \<and> c \<le> 13) \<or> (28 \<le> c \<and> c \<le> 30) \<or> c = 0x85 \<or> c = 0x2028 \<or> c = 0x2029"

text \<open>\<open>s.splitlines()\<close>.\<close>

fun splitlines_acc :: "ustr \<Rightarrow> ustr \<Rightarrow> ustr list" where
  "splitlines_acc cur [] = (if cur = [] then [] else [cur])"
| "splitlines_acc cur (c # s) =
     (if \<not> is_line_break c then splitlines_acc (cur @ [c]) s
      else cur # splitlines_acc [] (if c = 13 \<and> take 1 s = [10] then tl s else s))"

definition usplitlines :: "ustr \<Rightarrow> ustr list" where "usplitlines s = splitlines_acc [] s"

text \<open>\<open>s.rsplit(None, 1)\<close>.\<close>

definition rsplit1 :: "ustr \<Rightarrow> ustr list" where
  "rsplit1 s = (let t = urstrip s; w = rev (takeWhile (\<lambda>c. \<not> u_space c) (rev t)); rest = urstrip (take (length t - length w) t) in
     (if rest = [] then [] else [rest]) @ (if w = [] then [] else [w]))"

type_synonym ceilings = "(ustr \<times> int) list"

definition ceiling :: "ceilings \<Rightarrow> ustr \<Rightarrow> int" where
  "ceiling d m = (case map_of d m of Some n \<Rightarrow> n | None \<Rightarrow> 0)"

definition ceiling_line :: "ustr \<Rightarrow> ustr" where
  "ceiling_line line = ustrip (takeWhile (\<lambda>c. c \<noteq> 35) line)"

fun read_ceilings :: "ceilings \<Rightarrow> ustr list \<Rightarrow> ceilings result" where
  "read_ceilings out [] = Inr out"
| "read_ceilings out (raw # ls) = (let line = ceiling_line raw in
     if line = [] then read_ceilings out ls
     else (case rsplit1 line of
         [name, n] \<Rightarrow> rbind (parse_int n) (\<lambda>k. read_ceilings (dict_set out name k) ls)
       | _ \<Rightarrow> Inl ValueError))"

definition read_reach_baseline :: "ustr option \<Rightarrow> ceilings option result" where
  "read_reach_baseline b = (case b of None \<Rightarrow> Inr None | Some t \<Rightarrow> rbind (read_ceilings [] (usplitlines t)) (\<lambda>d. Inr (Some d)))"

definition BASELINE_HEAD :: "ustr list" where
  "BASELINE_HEAD = map asc [
     ''# check-fuzz-reach: the per-module ceiling on collapsed fuzz targets.'',
     ''#'',
     ''# A module may not exceed its number here. Lowering a number is what the'',
     ''# burn-down does (`--update-baseline`); raising one is a decision that has'',
     ''# to be made by hand, in a commit that says why.'',
     ''#'',
     ''# Modules absent from this file must have ZERO collapsed targets.'',
     '''']"

definition ceiling_row :: "ceilings \<Rightarrow> ceilings \<Rightarrow> ustr \<Rightarrow> ustr" where
  "ceiling_row counts old name = name @ asc '' '' @ ushow (ceiling counts name)
     @ (case map_of old name of Some was \<Rightarrow> if was = ceiling counts name then [] else asc ''  # was '' @ ushow was | None \<Rightarrow> [])"

definition write_reach_baseline :: "ceilings \<Rightarrow> ceilings \<Rightarrow> ustr" where
  "write_reach_baseline counts old = join [10] (BASELINE_HEAD
     @ map (ceiling_row counts old) (filter (\<lambda>name. ceiling counts name \<noteq> 0) (sort (map fst counts)))) @ [10]"

section \<open>The gate\<close>

record reach_args =
  a_advisory :: bool
  a_module :: "ustr option"
  a_modules :: "ustr option"
  a_ratchet :: bool
  a_update :: bool

text \<open>An option with an empty text counts as not given.\<close>

definition given :: "ustr option \<Rightarrow> ustr option" where
  "given o1 = (if o1 = Some [] then None else o1)"

definition only_of :: "reach_args \<Rightarrow> ustr list option" where
  "only_of a = map_option (\<lambda>s. filter (\<lambda>m. m \<noteq> []) (usplit CHR '','' s)) (given (a_modules a))"

definition judged_of :: "reach_args \<Rightarrow> target list \<Rightarrow> target list" where
  "judged_of a ts = (case given (a_module a) of None \<Rightarrow> ts | Some m \<Rightarrow> filter (\<lambda>t. t_module t = m) ts)"

definition modules_of :: "target list \<Rightarrow> ustr list" where
  "modules_of judged = sort (remdups (map t_module judged))"

definition exempts :: "reach_fs \<Rightarrow> target \<Rightarrow> bool" where
  "exempts fs t \<longleftrightarrow> t_name t \<in> set (fst (module_exemption fs (t_module t)))"

definition flagged :: "reach_fs \<Rightarrow> target list \<Rightarrow> target list" where
  "flagged fs judged = filter (\<lambda>t. reasons_of t \<noteq> [] \<and> \<not> exempts fs t) judged"

text \<open>An exemption for what is no target, or for a target that is not flagged, is an error.\<close>

definition stale_errors :: "target list \<Rightarrow> ustr \<Rightarrow> ustr list \<Rightarrow> ustr list" where
  "stale_errors judged module names = List.map_filter (\<lambda>n. let ts = filter (\<lambda>t. t_module t = module \<and> t_name t = n) judged in
     if ts = [] then Some (asc ''modules/'' @ module @ asc '': the fuzz-reach exemption names '' @ tick n @ asc '', which is not a fuzz target in this module'')
     else if list_all (\<lambda>t. reasons_of t = []) ts
     then Some (asc ''modules/'' @ module @ asc '': the fuzz-reach exemption for '' @ tick n @ asc '' is stale '' @ [0x2014]
       @ asc '' that target reaches its input now; delete the line'')
     else None) (sort names)"

definition gate_errors :: "reach_fs \<Rightarrow> target list \<Rightarrow> ustr list" where
  "gate_errors fs judged =
     List.map_filter (\<lambda>m. snd (module_exemption fs m)) (modules_of judged)
     @ concat (map (\<lambda>m. stale_errors judged m (fst (module_exemption fs m))) (modules_of judged))"

definition counts_of :: "target list \<Rightarrow> ceilings" where
  "counts_of ts = foldl (\<lambda>d t. dict_set d (t_module t) (ceiling d (t_module t) + 1)) [] ts"

definition worse_than :: "ceilings \<Rightarrow> ceilings \<Rightarrow> ustr list" where
  "worse_than counts base = sort (map fst (filter (\<lambda>(m, n). ceiling base m < n) counts))"

text \<open>The exit code and the baseline written.\<close>

type_synonym reach_outcome = "int \<times> ustr option"

definition reach_update :: "ceilings \<Rightarrow> ustr option \<Rightarrow> reach_outcome result" where
  "reach_update counts baseline = rbind (read_reach_baseline baseline) (\<lambda>old.
     if old \<noteq> None \<and> worse_than counts (case old of None \<Rightarrow> [] | Some d \<Rightarrow> d) \<noteq> [] then Inr (1, None)
     else Inr (0, Some (write_reach_baseline counts (case old of None \<Rightarrow> [] | Some d \<Rightarrow> d))))"

definition reach_ratchet :: "ceilings \<Rightarrow> ustr list option \<Rightarrow> ustr option \<Rightarrow> reach_outcome result" where
  "reach_ratchet counts only baseline = rbind (read_reach_baseline baseline) (\<lambda>base. case base of None \<Rightarrow> Inr (1, None)
     | Some b \<Rightarrow> (let b' = (case only of None \<Rightarrow> b | Some ms \<Rightarrow> filter (\<lambda>(m, n). m \<in> set ms) b) in
         Inr (if worse_than counts b' = [] then 0 else 1, None)))"

definition reach_main :: "reach_fs \<Rightarrow> ustr option \<Rightarrow> reach_args \<Rightarrow> reach_outcome result" where
  "reach_main fs baseline a =
     (let only = only_of a in
      if \<not> fs_dir fs (asc ''modules'') then Inr (2, None)
      else if (case only of None \<Rightarrow> False | Some ms \<Rightarrow> list_ex (\<lambda>m. \<not> fs_dir fs (asc ''modules/'' @ m)) ms) then Inr (2, None)
      else if only \<noteq> None \<and> a_update a then Inr (2, None)
      else rbind (reach_scan fs only) (\<lambda>(ts, un).
        let judged = judged_of a ts; counts = counts_of (flagged fs judged); errors = gate_errors fs judged in
        if a_update a then reach_update counts baseline
        else if a_ratchet a then reach_ratchet counts only baseline
        else if flagged fs judged = [] \<and> errors = [] then Inr (0, None)
        else Inr (if a_advisory a \<and> errors = [] then 0 else 1, None)))"

end
