(* ===== verification/FuzzReach_Props.thy ===== *)
theory FuzzReach_Props
  imports FuzzReach_Gate
begin

text \<open>
  The fuzz-reach gate: the transformation of a body ends and only blanks, the walk always returns, the exit code of the gate says what
  its targets and exemptions are, and the ceilings it writes only fall and are read back.
\<close>

section \<open>The body as the callback runs it\<close>

definition blanked :: "ustr \<Rightarrow> ustr \<Rightarrow> bool" where
  "blanked s b \<longleftrightarrow> list_all2 (\<lambda>x y. y = x \<or> y = 32) s b"

lemma blanked_refl: "blanked s s"
  by (simp add: blanked_def list_all2_same)

lemma blanked_trans: "blanked s t \<Longrightarrow> blanked t u \<Longrightarrow> blanked s u"
  unfolding blanked_def list_all2_conv_all_nth by auto metis

lemma blanked_append: "blanked s b \<Longrightarrow> blanked t c \<Longrightarrow> blanked (s @ t) (b @ c)"
  by (simp add: blanked_def list_all2_appendI)

lemma blanked_replicate: "length s = n \<Longrightarrow> blanked s (replicate n 32)"
  by (auto simp: blanked_def list_all2_conv_all_nth)

lemma blanked_map: "blanked s (map (\<lambda>c. if c = 10 then 10 else 32) s)"
  by (induction s) (auto simp: blanked_def)

lemma blanked_range: "a \<le> b \<Longrightarrow> blanked s (blank_range s a b)"
proof -
  assume "a \<le> b"
  then have "s = take a s @ slice a b s @ drop b s" using drop_slice [of a b s] by simp
  then show ?thesis unfolding blank_range_def by (metis blanked_append blanked_map blanked_refl)
qed

text \<open>The pattern of a guarded return is a prefix without groups, the returned expression and the semicolon.\<close>

definition ne_prefix :: "re list" where
  "ne_prefix = [RWordB, rlit ''if'', rs0, rlit ''('', rs0, rw1, rs0, rlit ''!='', rs0, dotted, RWordB, rlit ''Rng'', rs0, rlit '')'', rs0,
     rlit ''return'', rs1]"

lemma rng_ne_split: "RNG_NE_RE = rseq (ne_prefix @ [RGroup 1 (rstar (RSet (\<lambda>x. x \<noteq> 59))), rlit '';''])"
  by (simp add: RNG_NE_RE_def ne_prefix_def)

lemma ne_prefix_free: "group_free (rseq ne_prefix)"
  by (rule group_free_rseq) (simp add: ne_prefix_def rs0_def rs1_def rw1_def dotted_def rspace_def rword_def rchr_def)

lemma rng_ne_match:
  assumes "re_search RNG_NE_RE s = Some (a, b, c)"
  obtains g where "a \<le> g" "g < b" "b \<le> length s" "s ! (b - 1) = 59" "c = [(1, g, b - 1)]"
proof -
  have a: "a \<le> length s" "(b, c) \<in> set (rmt RNG_NE_RE s a [])" using search_mem assms unfolding re_search_def by blast+
  obtain g d where g: "(g, d) \<in> set (rmt (rseq ne_prefix) s a [])"
    and tl: "(b, c) \<in> set (rmt (rseq [RGroup 1 (rstar (RSet (\<lambda>x. x \<noteq> 59))), rlit '';'']) s g d)"
    using a(2) unfolding rng_ne_split mem_rseq_append by blast
  have d: "d = []" by (rule group_free_captures [OF ne_prefix_free g])
  have ag: "a \<le> g" "g \<le> length s" using m_bounds [OF a(1) g] by simp_all
  obtain h e c1 where h: "(h, e) \<in> set (rmt (rstar (RSet (\<lambda>x. x \<noteq> 59))) s g d)" "c1 = (1, g, h) # e"
    and l: "(b, c) \<in> set (rmt (rlit '';'') s h c1)"
    using tl unfolding rseq.simps mem_seq mem_group by blast
  have e: "e = d" by (rule group_free_captures [OF _ h(1)]) simp
  have "g \<le> h" using m_bounds [OF ag(2) h(1)] by simp
  moreover have b: "b = h + 1" "c = c1" "b \<le> length s" "slice h b s = [59]" using l [unfolded mem_lit] by auto
  moreover have "slice h b s ! 0 = s ! h" using b(1,3) by (simp add: slice_def)
  ultimately show thesis using that [of g] ag d e h(2) by simp
qed

lemma blanked_cut: "blanked s (cut_at_return s)"
proof (cases "re_search RNG_NE_RE s")
  case None
  then show ?thesis by (simp add: cut_at_return_def blanked_refl)
next
  case (Some m)
  obtain a b c where m: "m = (a, b, c)" by (cases m)
  obtain g where g: "a \<le> g" "g < b" "b \<le> length s" "s ! (b - 1) = 59" "c = [(1, g, b - 1)]"
    using rng_ne_match Some m by metis
  have s: "s = take a s @ slice a g s @ slice g (b - 1) s @ [59] @ drop b s"
  proof -
    have "drop (b - 1) s = [59] @ drop b s" using g Cons_nth_drop_Suc [of "b - 1" s] by simp
    moreover have "slice g (b - 1) s @ drop (b - 1) s = drop g s" "slice a g s @ drop g s = drop a s" using g by (simp_all add: drop_slice)
    ultimately show ?thesis by (metis append_take_drop_id append.assoc)
  qed
  have cut: "cut_at_return s = take a s @ replicate (g - a) 32 @ slice g (b - 1) s @ [59] @ replicate (length s - b) 32"
    using Some m g(5) by (simp add: cut_at_return_def m_start_def m_end_def g_start_def group0_def group_def)
  have 1: "blanked (slice a g s) (replicate (g - a) 32)" using g by (intro blanked_replicate) (simp add: length_slice)
  have 2: "blanked (drop b s) (replicate (length s - b) 32)" by (intro blanked_replicate) simp
  have "blanked (take a s @ slice a g s @ slice g (b - 1) s @ [59] @ drop b s) (cut_at_return s)"
    unfolding cut by (intro blanked_append blanked_refl 1 2)
  then show ?thesis unfolding s [symmetric] .
qed

lemma rng_loop_blanks: "\<exists>b. rng_loop s = Inr b \<and> blanked s b \<and> re_search RNG_EQ_RE b = None"
proof (induction s rule: rng_loop.induct)
  case (1 s)
  show ?case
  proof (cases "re_search RNG_EQ_RE s")
    case None
    then show ?thesis by (simp add: rng_loop.simps [of s] blanked_refl)
  next
    case (Some m)
    obtain a b c where m: "m = (a, b, c)" by (cases m)
    obtain p where p: "a < length s" "s ! a = 105" "find_from [40] s a = Some p" "a < p" "p < length s"
      using rng_eq_match Some m by metis
    let ?en = "dead_end s (match_paren s p)"
    have f: "find_from [40] s (m_start m) = Some p" using p(3) m by (simp add: m_start_def)
    have "p < match_paren s p \<and> match_paren s p \<le> length s" by (rule match_paren_bounds [OF p(5)])
    then have "a \<le> ?en" using dead_end_bounds [of "match_paren s p" s] p(4) by linarith
    then have "blanked s (blank_range s (m_start m) ?en)" using m by (simp add: blanked_range m_start_def)
    with "1.IH" [OF Some f] show ?thesis using Some f blanked_trans by (auto simp: rng_loop.simps [of s])
  qed
qed

lemma as_smith_blanks: "\<exists>b. as_smith s = Inr b \<and> blanked s b \<and> re_search RNG_EQ_RE b = None"
  unfolding as_smith_def using rng_loop_blanks [of "cut_at_return s"] blanked_cut blanked_trans by blast

section \<open>The walk returns\<close>

lemma walk_body_total:
  assumes "\<And>f body cs seen via. \<exists>ds. deeper f body cs seen via = Inr ds"
  shows "\<exists>ds. walk_body deeper fs f body cs seen via = Inr ds"
proof -
  obtain b where b: "as_smith body = Inr b" using as_smith_blanks by blast
  have "\<exists>ds. walk_event deeper fs f b cs' seen via oe = Inr ds" for cs' oe
    using assms by (auto simp: walk_event_def split: prod.split event.split option.split)
  then have "\<exists>dss. rmap (walk_event deeper fs f b (smith_names b cs) seen via) (events_of b (smith_names b cs)) = Inr dss"
    by (intro rmap_total)
  with b show ?thesis by (auto simp: walk_body_def Let_def)
qed

lemma walk_total: "\<exists>ds. walk n fs f body cs seen via = Inr ds"
  by (induction n arbitrary: f body cs seen via) (simp_all add: walk_body_total)

text \<open>
  C23: what the gate reads is the body as the callback runs it.  For every body the removal of the driver-only branches ends without an
  error; the result has the length of the body and differs from it only in blanks, so every offset stays; no branch on the driver's
  type is left in it; and the walk over the draws, which starts with it on every level, always returns.
\<close>

theorem as_smith_only_blanks:
  "(\<exists>b. as_smith body = Inr b \<and> list_all2 (\<lambda>x y. y = x \<or> y = 32) body b \<and> re_search RNG_EQ_RE b = None)
    \<and> (\<exists>ds. walk n fs f body cs seen via = Inr ds)"
  using as_smith_blanks [of body] walk_total unfolding blanked_def by blast

section \<open>The baseline is read back\<close>

definition good_name :: "ustr \<Rightarrow> bool" where
  "good_name m \<longleftrightarrow> m \<noteq> [] \<and> list_all (\<lambda>c. \<not> u_space c \<and> c \<noteq> 35) m"

lemma splitlines_acc_line: "list_all (\<lambda>c. \<not> is_line_break c) l \<Longrightarrow> splitlines_acc cur (l @ s) = splitlines_acc (cur @ l) s"
  by (induction l arbitrary: cur) simp_all

lemma splitlines_lines: "list_all (list_all (\<lambda>c. \<not> is_line_break c)) ls \<Longrightarrow> ls \<noteq> [] \<Longrightarrow> usplitlines (join [10] ls @ [10]) = ls"
proof (induction ls)
  case (Cons l ls)
  have nl: "splitlines_acc l (10 # t) = l # splitlines_acc [] t" for t by (simp add: is_line_break_def)
  show ?case
  proof (cases "ls = []")
    case True
    with Cons.prems splitlines_acc_line [of l "[]" "[10]"] nl [of "[]"] show ?thesis by (simp add: usplitlines_def)
  next
    case False
    with Cons splitlines_acc_line [of l "[]" "10 # join [10] ls @ [10]"] nl [of "join [10] ls @ [10]"]
    show ?thesis by (simp add: usplitlines_def join_Cons)
  qed
qed simp

lemma space_of_break: "is_line_break c \<Longrightarrow> u_space c"
  by (auto simp: is_line_break_def u_space_def)

lemma show_nat_digit_range: "c \<in> set (show_nat k) \<Longrightarrow> 48 \<le> (of_char c :: int) \<and> (of_char c :: int) \<le> 57"
proof (induction k rule: show_nat.induct)
  case (1 k)
  show ?case
  proof (cases "k < 10")
    case True
    with "1.prems" of_char_digit [OF True] show ?thesis by (simp add: show_nat.simps [of k])
  next
    case False
    with "1.prems" have "c \<in> set (show_nat (k div 10)) \<or> c = char_of (48 + k mod 10)" by (auto simp: show_nat.simps [of k])
    with "1.IH" [OF False] of_char_digit [of "k mod 10"] show ?thesis by auto
  qed
qed

lemma ushow_plain: "list_all (\<lambda>c. \<not> u_space c \<and> c \<noteq> 35) (ushow n)"
proof -
  have "(of_char c :: int) = 45 \<or> 48 \<le> (of_char c :: int) \<and> (of_char c :: int) \<le> 57" if "c \<in> set (show_int n)" for c
    using that show_nat_digit_range [of c] by (auto simp: show_int_def split: if_splits)
  then have "\<not> u_space (of_char c) \<and> (of_char c :: int) \<noteq> 35" if "c \<in> set (show_int n)" for c
    using that by (fastforce simp: u_space_def)
  then show ?thesis by (auto simp: ushow_def asc_def list_all_iff)
qed

lemma ushow_not_Nil: "ushow n \<noteq> []"
  by (simp add: ushow_def asc_def show_int_def)

lemma ustrip_core:
  assumes "t \<noteq> []" "\<not> u_space (hd t)" "\<not> u_space (last t)" "list_all u_space pad"
  shows "ustrip (t @ pad) = t"
proof -
  have "dropWhile u_space (t @ pad) = t @ pad" using assms(1,2) by (cases t) simp_all
  moreover have "dropWhile u_space (rev pad @ rev t) = rev t"
  proof -
    have "\<And>c. c \<in> set (rev pad) \<Longrightarrow> u_space c" using assms(4) by (simp add: list_all_iff)
    then have "dropWhile u_space (rev pad @ rev t) = dropWhile u_space (rev t)" by (rule dropWhile_append2)
    also have "\<dots> = rev t" using assms(1,3) by (simp add: dropWhile_eq_self_iff hd_rev)
    finally show ?thesis .
  qed
  ultimately show ?thesis by (simp add: ustrip_def ulstrip_def urstrip_def)
qed

text \<open>A row is read as the name and the number, whatever note follows.\<close>

lemma rsplit1_row:
  assumes "good_name m"
  shows "rsplit1 (m @ 32 # ushow n) = [m, ushow n]"
proof -
  let ?w = "ushow n"
  have w: "list_all (\<lambda>c. \<not> u_space c) (rev ?w)" using ushow_plain [of n] by (simp add: list_all_iff)
  have m: "m \<noteq> []" "\<not> u_space (last m)" using assms by (auto simp: good_name_def list_all_iff)
  have sp: "u_space 32" by (simp add: u_space_def)
  have lw: "\<not> u_space (last ?w)" using w ushow_not_Nil [of n] by (simp add: list_all_iff)
  have "dropWhile u_space (rev (m @ 32 # ?w)) = rev (m @ 32 # ?w)"
    unfolding dropWhile_eq_self_iff using lw ushow_not_Nil [of n] by (simp add: hd_append hd_rev)
  then have t: "urstrip (m @ 32 # ?w) = m @ 32 # ?w" unfolding urstrip_def by (metis rev_rev_ident)
  have tw: "takeWhile (\<lambda>c. \<not> u_space c) (rev (m @ 32 # ?w)) = rev ?w"
  proof -
    have "takeWhile (\<lambda>c. \<not> u_space c) (rev ?w @ 32 # rev m) = rev ?w @ takeWhile (\<lambda>c. \<not> u_space c) (32 # rev m)"
      by (rule takeWhile_append2) (use w in \<open>simp add: list_all_iff\<close>)
    with sp show ?thesis by simp
  qed
  have "dropWhile u_space (rev m) = rev m" unfolding dropWhile_eq_self_iff using m by (simp add: hd_rev)
  then have r: "urstrip (m @ [32]) = m" using sp by (simp add: urstrip_def)
  have tk: "take (length (m @ 32 # ?w) - length ?w) (m @ 32 # ?w) = m @ [32]" by simp
  show ?thesis unfolding rsplit1_def Let_def t tw rev_rev_ident tk r using m ushow_not_Nil [of n] by simp
qed

lemma ceiling_line_row:
  assumes "good_name m"
  shows "ceiling_line (m @ 32 # ushow n @ (if b then [] else asc ''  # was '' @ rest)) = m @ 32 # ushow n"
proof -
  let ?row = "m @ 32 # ushow n"
  have p: "c \<noteq> 35" if "c \<in> set ?row" for c
    using that assms ushow_plain [of n] by (auto simp: good_name_def list_all_iff)
  have "takeWhile (\<lambda>c. c \<noteq> 35) (?row @ (if b then [] else asc ''  # was '' @ rest)) = ?row @ (if b then [] else [32, 32])"
    using p by (subst takeWhile_append2) auto
  moreover have "ustrip (?row @ (if b then [] else [32, 32])) = ?row"
    using assms ushow_plain [of n] ushow_not_Nil [of n]
    by (intro ustrip_core) (auto simp: good_name_def list_all_iff u_space_def [of 32])
  ultimately show ?thesis by (simp add: ceiling_line_def)
qed

lemma read_ceilings_row:
  assumes "good_name m"
  shows "read_ceilings out ((m @ 32 # ushow n @ (if b then [] else asc ''  # was '' @ rest)) # ls) = read_ceilings (dict_set out m n) ls"
  using ceiling_line_row [OF assms, of n b rest] rsplit1_row [OF assms, of n] by (simp add: parse_int_ushow Let_def)

lemma ceiling_row_shape:
  obtains b rest where "ceiling_row counts old m = m @ 32 # ushow (ceiling counts m) @ (if b then [] else asc ''  # was '' @ rest)"
    "list_all (\<lambda>c. \<not> is_line_break c) rest"
proof -
  have "list_all (\<lambda>c. \<not> is_line_break c) (ushow k)" for k using ushow_plain [of k] space_of_break by (auto simp: list_all_iff)
  note plain = this
  show thesis
  proof (cases "map_of old m = None \<or> map_of old m = Some (ceiling counts m)")
    case True
    then show ?thesis using that [of True "[]"] by (auto simp: ceiling_row_def)
  next
    case False
    then obtain was where "map_of old m = Some was" "was \<noteq> ceiling counts m" by auto
    then show ?thesis using that [of False "ushow was"] plain by (simp add: ceiling_row_def)
  qed
qed

lemma read_rows:
  "list_all good_name names \<Longrightarrow> distinct (map fst out @ names) \<Longrightarrow>
    read_ceilings out (map (ceiling_row counts old) names) = Inr (out @ map (\<lambda>m. (m, ceiling counts m)) names)"
proof (induction names arbitrary: out)
  case (Cons m names)
  obtain b rest where r: "ceiling_row counts old m = m @ 32 # ushow (ceiling counts m) @ (if b then [] else asc ''  # was '' @ rest)"
    by (rule ceiling_row_shape)
  have g: "good_name m" "list_all good_name names" using Cons.prems(1) by simp_all
  have "m \<notin> fst ` set out" using Cons.prems(2) by auto
  then have "dict_set out m (ceiling counts m) = out @ [(m, ceiling counts m)]" by (rule dict_set_new)
  with Cons.IH [OF g(2), of "out @ [(m, ceiling counts m)]"] Cons.prems(2) show ?case
    unfolding list.map(2) r read_ceilings_row [OF g(1)] by simp
qed simp

definition rows_of :: "ceilings \<Rightarrow> ceilings" where
  "rows_of counts = map (\<lambda>m. (m, ceiling counts m)) (filter (\<lambda>m. ceiling counts m \<noteq> 0) (sort (map fst counts)))"

lemma read_comments: "list_all (\<lambda>l. l = [] \<or> hd l = 35) hs \<Longrightarrow> read_ceilings out (hs @ ls) = read_ceilings out ls"
proof (induction hs)
  case (Cons h hs)
  then have "h = [] \<or> hd h = 35" by simp
  then have "ceiling_line h = []" by (cases h) (auto simp: ceiling_line_def ustrip_def ulstrip_def urstrip_def)
  with Cons show ?case by simp
qed simp

lemma head_comments: "list_all (\<lambda>l. l = [] \<or> hd l = 35) BASELINE_HEAD"
  by (simp add: BASELINE_HEAD_def)

lemma head_lines: "list_all (list_all (\<lambda>c. \<not> is_line_break c)) BASELINE_HEAD"
  by code_simp

lemma ceiling_row_no_break: "good_name m \<Longrightarrow> list_all (\<lambda>c. \<not> is_line_break c) (ceiling_row counts old m)"
proof -
  assume m: "good_name m"
  obtain b rest where r: "ceiling_row counts old m = m @ 32 # ushow (ceiling counts m) @ (if b then [] else asc ''  # was '' @ rest)"
    "list_all (\<lambda>c. \<not> is_line_break c) rest" by (rule ceiling_row_shape)
  have "list_all (\<lambda>c. \<not> is_line_break c) m" using m space_of_break by (auto simp: good_name_def list_all_iff)
  moreover have "list_all (\<lambda>c. \<not> is_line_break c) (ushow (ceiling counts m))"
    using ushow_plain [of "ceiling counts m"] space_of_break by (auto simp: list_all_iff)
  moreover have "list_all (\<lambda>c. \<not> is_line_break c) (32 # asc ''  # was '')" by (simp add: is_line_break_def)
  ultimately show ?thesis using r by (cases b) (simp_all add: is_line_break_def)
qed

lemma baseline_roundtrip:
  assumes "list_all good_name (map fst counts)" "distinct (map fst counts)"
  shows "read_reach_baseline (Some (write_reach_baseline counts old)) = Inr (Some (rows_of counts))"
proof -
  let ?names = "filter (\<lambda>m. ceiling counts m \<noteq> 0) (sort (map fst counts))"
  have g: "list_all good_name ?names" using assms(1) by (auto simp: list_all_iff)
  have rows: "list_all (\<lambda>c. \<not> is_line_break c) (ceiling_row counts old m)" if "m \<in> set ?names" for m
    using g that by (intro ceiling_row_no_break) (simp add: list_all_iff)
  then have "list_all (list_all (\<lambda>c. \<not> is_line_break c)) (map (ceiling_row counts old) ?names)"
    by (simp only: list_all_iff [of _ "map (ceiling_row counts old) ?names"] set_map) blast
  then have "list_all (list_all (\<lambda>c. \<not> is_line_break c)) (BASELINE_HEAD @ map (ceiling_row counts old) ?names)"
    using head_lines by (simp only: list_all_append)
  moreover have "BASELINE_HEAD @ map (ceiling_row counts old) ?names \<noteq> []" by (simp add: BASELINE_HEAD_def)
  ultimately have "usplitlines (write_reach_baseline counts old) = BASELINE_HEAD @ map (ceiling_row counts old) ?names"
    unfolding write_reach_baseline_def by (rule splitlines_lines)
  moreover have "distinct ?names" using assms(2) by simp
  ultimately show ?thesis using read_rows [OF g, of "[]" counts old] by (simp add: read_reach_baseline_def read_comments [OF head_comments] rows_of_def)
qed

section \<open>Counting\<close>

lemma counts_snoc: "counts_of (ts @ [t]) = dict_set (counts_of ts) (t_module t) (ceiling (counts_of ts) (t_module t) + 1)"
  by (simp add: counts_of_def)

lemma counts_exact: "ceiling (counts_of ts) m = int (length (filter (\<lambda>t. t_module t = m) ts))"
proof (induction ts rule: rev_induct)
  case Nil
  show ?case by (simp add: counts_of_def ceiling_def)
next
  case (snoc t ts)
  then show ?case unfolding counts_snoc by (auto simp: ceiling_def)
qed

lemma counts_keys: "fst ` set (counts_of ts) = t_module ` set ts"
proof (induction ts rule: rev_induct)
  case (snoc t ts)
  then show ?case by (simp only: counts_snoc dict_set_keys) auto
qed (simp add: counts_of_def)

lemma counts_distinct: "distinct (map fst (counts_of ts))"
proof (induction ts rule: rev_induct)
  case (snoc t ts)
  then show ?case unfolding counts_snoc by (rule distinct_dict_set)
qed (simp add: counts_of_def)

lemma rows_of_keys: "fst ` set (rows_of counts) \<subseteq> fst ` set counts"
  by (force simp: rows_of_def)

lemma ceiling_rows_of: "distinct (map fst counts) \<Longrightarrow> ceiling (rows_of counts) m = ceiling counts m"
proof -
  let ?names = "filter (\<lambda>m. ceiling counts m \<noteq> 0) (sort (map fst counts))"
  have "map_of (map (\<lambda>m. (m, ceiling counts m)) ns) m = (if m \<in> set ns then Some (ceiling counts m) else None)" for ns
    by (induction ns) auto
  then have "map_of (rows_of counts) m = (if m \<in> set ?names then Some (ceiling counts m) else None)" unfolding rows_of_def .
  moreover have "m \<in> set ?names \<or> ceiling counts m = 0"
    by (auto simp: ceiling_def image_iff split: option.split dest: map_of_SomeD) (metis fst_conv map_of_SomeD option.distinct(1))
  ultimately show ?thesis by (cases "m \<in> set ?names") (simp_all only: ceiling_def [of "rows_of counts"] if_True if_False option.case, simp)
qed

lemma worse_iff: "distinct (map fst counts) \<Longrightarrow> worse_than counts base = [] \<longleftrightarrow> (\<forall>m \<in> fst ` set counts. ceiling counts m \<le> ceiling base m)"
proof -
  assume d: "distinct (map fst counts)"
  have "worse_than counts base = [] \<longleftrightarrow> filter (\<lambda>(m, n). ceiling base m < n) counts = []"
    unfolding worse_than_def by (simp flip: length_0_conv)
  also have "\<dots> \<longleftrightarrow> (\<forall>(m, n) \<in> set counts. n \<le> ceiling base m)" by (auto simp: filter_empty_conv not_less)
  also have "\<dots> \<longleftrightarrow> (\<forall>m \<in> fst ` set counts. ceiling counts m \<le> ceiling base m)"
  proof -
    have c: "ceiling counts (fst x) = snd x" if "x \<in> set counts" for x
      using map_of_is_SomeI [OF d, of "fst x" "snd x"] that by (simp add: ceiling_def)
    have "(\<forall>(m, n) \<in> set counts. n \<le> ceiling base m) \<longleftrightarrow> (\<forall>x \<in> set counts. ceiling counts (fst x) \<le> ceiling base (fst x))"
      by (rule ball_cong [OF refl]) (simp add: c split_beta)
    then show ?thesis by (simp only: ball_simps)
  qed
  finally show ?thesis .
qed

section \<open>The targets of a scan\<close>

lemma judge_call_module: "judge_call fs f module m = Inr (Some (Inr t)) \<Longrightarrow> t_module t = module"
  by (auto simp: judge_call_def Let_def rbind_eq_Inr_iff split: if_splits option.splits)

lemma scan_file_module:
  assumes "scan_file fs p = Inr xs" "Inr t \<in> set xs"
  shows "part1 p = Inr (t_module t)"
proof -
  obtain raw where raw: "fs_text fs p = Some raw" using assms(1) by (auto simp: scan_file_def split: option.splits)
  let ?f = "mk_reach_file fs p raw"
  obtain module ys where m: "part1 p = Inr module" "rmap (judge_call fs ?f module) (finditer FUZZ_RE (g_src ?f)) = Inr ys" "xs = List.map_filter id ys"
    using assms raw by (auto simp: scan_file_def Let_def rbind_eq_Inr_iff split: if_splits)
  have "Some (Inr t) \<in> set ys" using assms(2) m(3) by (auto simp: List.map_filter_def)
  then obtain x where "judge_call fs ?f module x = Inr (Some (Inr t))" using rmap_mem [OF m(2)] by blast
  with m(1) judge_call_module show ?thesis by metis
qed

lemma scan_modules:
  assumes "reach_scan fs only = Inr (ts, un)" "t \<in> set ts"
  shows "\<exists>p \<in> set (scan_paths fs only). part1 p = Inr (t_module t)"
proof -
  obtain xss where x: "rmap (scan_file fs) (scan_paths fs only) = Inr xss"
    "ts = List.map_filter (\<lambda>x. case x of Inr t \<Rightarrow> Some t | Inl _ \<Rightarrow> None) (concat xss)"
    using assms(1) by (auto simp: reach_scan_def rbind_eq_Inr_iff Let_def)
  have "Inr t \<in> set (concat xss)" using assms(2) x(2) by (auto simp: List.map_filter_def split: sum.splits)
  then obtain xs where xs: "xs \<in> set xss" "Inr t \<in> set xs" by auto
  from rmap_mem [OF x(1) xs(1)] obtain p where "p \<in> set (scan_paths fs only)" "scan_file fs p = Inr xs" by blast
  with scan_file_module xs(2) show ?thesis by blast
qed

section \<open>Updating the baseline\<close>

definition module_names_ok :: "reach_fs \<Rightarrow> bool" where
  "module_names_ok fs \<longleftrightarrow> list_all (\<lambda>p. case part1 p of Inr m \<Rightarrow> good_name m | Inl _ \<Rightarrow> True) (fs_zig fs (asc ''modules''))"

definition flagged_counts :: "reach_fs \<Rightarrow> reach_args \<Rightarrow> target list \<Rightarrow> ceilings" where
  "flagged_counts fs a ts = counts_of (flagged fs (judged_of a ts))"

lemma update_run:
  assumes "reach_main fs baseline a = Inr (0, Some txt)"
  obtains ts un old where "a_update a" "only_of a = None" "fs_dir fs (asc ''modules'')" "reach_scan fs None = Inr (ts, un)"
    "read_reach_baseline baseline = Inr old" "old \<noteq> None \<longrightarrow> worse_than (flagged_counts fs a ts) (case old of None \<Rightarrow> [] | Some d \<Rightarrow> d) = []"
    "txt = write_reach_baseline (flagged_counts fs a ts) (case old of None \<Rightarrow> [] | Some d \<Rightarrow> d)"
proof -
  have d: "fs_dir fs (asc ''modules'')" using assms by (auto simp: reach_main_def Let_def split: if_splits)
  obtain ts un where s: "reach_scan fs (only_of a) = Inr (ts, un)"
    using assms by (auto simp: reach_main_def Let_def rbind_eq_Inr_iff split: if_splits)
  have u: "a_update a"
  proof (rule ccontr)
    assume "\<not> a_update a"
    with assms s show False
      by (auto simp: reach_main_def Let_def reach_ratchet_def rbind_eq_Inr_iff split: if_splits option.splits)
  qed
  have o: "only_of a = None" using assms u by (auto simp: reach_main_def Let_def split: if_splits)
  have "reach_update (flagged_counts fs a ts) baseline = Inr (0, Some txt)"
    using assms u o d s by (simp add: reach_main_def Let_def flagged_counts_def)
  then show thesis using that [OF u o d] s o by (auto simp: reach_update_def rbind_eq_Inr_iff split: if_splits)
qed

lemma flagged_names_good:
  assumes "module_names_ok fs" "reach_scan fs None = Inr (ts, un)"
  shows "list_all good_name (map fst (flagged_counts fs a ts))"
proof -
  have "good_name (t_module t)" if t: "t \<in> set ts" for t
  proof -
    obtain p where p: "p \<in> set (scan_paths fs None)" "part1 p = Inr (t_module t)" using scan_modules [OF assms(2) t] by blast
    then have "p \<in> set (fs_zig fs (asc ''modules''))" by (auto simp: scan_paths_def split: if_splits)
    with assms(1) p(2) show ?thesis by (auto simp: module_names_ok_def list_all_iff split: sum.splits)
  qed
  moreover have "set (flagged fs (judged_of a ts)) \<subseteq> set ts" by (auto simp: flagged_def judged_of_def split: option.splits)
  ultimately show ?thesis by (auto simp: list_all_iff flagged_counts_def counts_keys)
qed

text \<open>A repository with one target whose only draw collapses.\<close>

definition demo_fs :: reach_fs where
  "demo_fs = \<lparr> fs_text = (\<lambda>p. if p = asc ''modules/m/a.zig''
       then Some (asc ''fn f(s: *testing.Smith) void {s.index(3);} test {testing.fuzz(0,f);}'') else None),
     fs_zig = (\<lambda>d. if d = asc ''modules'' then [asc ''modules/m/a.zig''] else []), fs_dir = (\<lambda>d. d = asc ''modules''), fs_resolve = (\<lambda>p n. n) \<rparr>"

definition demo_args :: reach_args where
  "demo_args = \<lparr> a_advisory = False, a_module = None, a_modules = None, a_ratchet = False, a_update = True \<rparr>"

lemma demo_facts: "fs_dir demo_fs (asc ''modules'')" "only_of demo_args = None" "module_names_ok demo_fs"
  by code_simp+

lemma demo_scan:
  obtains ts un where "reach_scan demo_fs None = Inr (ts, un)"
    "map (\<lambda>t. (t_module t, reasons_of t = [], exempts demo_fs t)) ts = [(asc ''m'', False, False)]"
proof -
  have "rbind (reach_scan demo_fs None) (\<lambda>(ts, un). Inr (map (\<lambda>t. (t_module t, reasons_of t = [], exempts demo_fs t)) ts)) = Inr [(asc ''m'', False, False)]"
    by code_simp
  then show thesis using that by (auto simp: rbind_eq_Inr_iff)
qed

text \<open>
  C31: a ceiling only falls.  Whenever an update writes a baseline, the file reads back as the number of flagged targets of every module;
  no number in it is above the ceiling the module had before, if there was a baseline (a module without a row had zero); and the
  ratchet run on the same repository against the new file passes.
\<close>

theorem update_only_lowers:
  assumes "module_names_ok fs" "reach_main fs baseline a = Inr (0, Some txt)"
  shows "(\<exists>ts un new. reach_scan fs None = Inr (ts, un) \<and> read_reach_baseline (Some txt) = Inr (Some new)
      \<and> (\<forall>m. ceiling new m = int (length (filter (\<lambda>t. t_module t = m) (flagged fs (judged_of a ts)))))
      \<and> (\<forall>old m. read_reach_baseline baseline = Inr (Some old) \<longrightarrow> m \<in> fst ` set new \<longrightarrow> ceiling new m \<le> ceiling old m))
    \<and> reach_main fs (Some txt) (a\<lparr>a_update := False, a_ratchet := True\<rparr>) = Inr (0, None)"
proof -
  obtain ts un old where u: "a_update a" "only_of a = None" "fs_dir fs (asc ''modules'')" "reach_scan fs None = Inr (ts, un)"
    "read_reach_baseline baseline = Inr old" "old \<noteq> None \<longrightarrow> worse_than (flagged_counts fs a ts) (case old of None \<Rightarrow> [] | Some d \<Rightarrow> d) = []"
    "txt = write_reach_baseline (flagged_counts fs a ts) (case old of None \<Rightarrow> [] | Some d \<Rightarrow> d)"
    by (rule update_run [OF assms(2)])
  let ?c = "flagged_counts fs a ts"
  have d: "distinct (map fst ?c)" unfolding flagged_counts_def by (rule counts_distinct)
  have new: "read_reach_baseline (Some txt) = Inr (Some (rows_of ?c))"
    unfolding u(7) by (rule baseline_roundtrip [OF flagged_names_good [OF assms(1) u(4)] d])
  have ceil: "ceiling (rows_of ?c) m = ceiling ?c m" for m by (rule ceiling_rows_of [OF d])
  have sub: "fst ` set (rows_of ?c) \<subseteq> fst ` set ?c" by (rule rows_of_keys)
  have low: "ceiling (rows_of ?c) m \<le> ceiling b m" if "old = Some b" "m \<in> fst ` set (rows_of ?c)" for b m
  proof -
    have "m \<in> fst ` set ?c" using sub that(2) by blast
    moreover have "worse_than ?c b = []" using u(6) that(1) by simp
    ultimately show ?thesis unfolding ceil worse_iff [OF d] by blast
  qed
  have exact: "ceiling (rows_of ?c) m = int (length (filter (\<lambda>t. t_module t = m) (flagged fs (judged_of a ts))))" for m
    using ceil [of m] counts_exact [of "flagged fs (judged_of a ts)" m] by (simp only: flagged_counts_def)
  let ?a = "a\<lparr>a_update := False, a_ratchet := True\<rparr>"
  have "only_of ?a = None" "judged_of ?a ts = judged_of a ts" using u(2) by (simp_all add: only_of_def judged_of_def)
  moreover have "worse_than ?c (rows_of ?c) = []" using worse_iff [OF d] ceil by simp
  ultimately have "reach_main fs (Some txt) ?a = Inr (0, None)"
    using u(3,4) new by (simp add: reach_main_def Let_def reach_ratchet_def flagged_counts_def)
  then show ?thesis using u(4,5) new exact low by auto
qed

theorem update_only_lowers_witness:
  "\<exists>txt new. reach_main demo_fs None demo_args = Inr (0, Some txt) \<and> read_reach_baseline (Some txt) = Inr (Some new)
    \<and> ceiling new (asc ''m'') = 1 \<and> reach_main demo_fs (Some txt) (demo_args\<lparr>a_update := False, a_ratchet := True\<rparr>) = Inr (0, None)"
proof -
  obtain ts un where s: "reach_scan demo_fs None = Inr (ts, un)"
    and t: "map (\<lambda>t. (t_module t, reasons_of t = [], exempts demo_fs t)) ts = [(asc ''m'', False, False)]" by (rule demo_scan)
  have j: "judged_of demo_args ts = ts" by (simp add: demo_args_def judged_of_def given_def)
  have "a_update demo_args" by (simp add: demo_args_def)
  then obtain written where r: "reach_main demo_fs None demo_args = Inr (0, Some written)"
    using demo_facts s by (simp add: reach_main_def Let_def reach_update_def read_reach_baseline_def)
  have "length (filter (\<lambda>t. t_module t = asc ''m'') (flagged demo_fs ts)) = 1" using t by (auto simp: flagged_def)
  with update_only_lowers [OF demo_facts(3) r] s r j show ?thesis by auto
qed

text \<open>An update restricted to one module with \<open>--module\<close> is not refused, and the file it writes has no row for any other module.\<close>

theorem one_module_update_drops_rows:
  assumes "module_names_ok fs" "reach_main fs baseline a = Inr (0, Some txt)" "given (a_module a) = Some m" "m' \<noteq> m"
  shows "\<exists>new. read_reach_baseline (Some txt) = Inr (Some new) \<and> map_of new m' = None"
proof -
  obtain ts un old where u: "reach_scan fs None = Inr (ts, un)"
    "txt = write_reach_baseline (flagged_counts fs a ts) (case old of None \<Rightarrow> [] | Some d \<Rightarrow> d)"
    by (rule update_run [OF assms(2)])
  let ?c = "flagged_counts fs a ts"
  have d: "distinct (map fst ?c)" unfolding flagged_counts_def by (rule counts_distinct)
  have new: "read_reach_baseline (Some txt) = Inr (Some (rows_of ?c))"
    unfolding u(2) by (rule baseline_roundtrip [OF flagged_names_good [OF assms(1) u(1)] d])
  have "m' \<notin> fst ` set ?c" using assms(3,4) by (auto simp: flagged_counts_def counts_keys flagged_def judged_of_def)
  then have "m' \<notin> fst ` set (rows_of ?c)" using rows_of_keys by blast
  with new show ?thesis by (auto simp: map_of_eq_None_iff)
qed

section \<open>The exit code\<close>























text \<open>A module without a target is not looked at: whatever its document states, a run without judged targets has no error.\<close>

theorem exemption_without_target_unread: "gate_errors fs [] = []"
  by (simp add: gate_errors_def modules_of_def List.map_filter_simps)

text \<open>An exemption on the last line of a file without a newline needs no argument: the slice that should be empty is the last character.\<close>

theorem last_line_exemption_unargued:
  "read_exemption path (NEEDLE @ asc '' STRUCTURED via fuzzA'') = ([asc ''fuzzA''], None)
    \<and> read_exemption path (NEEDLE @ asc '' STRUCTURED via fuzzA'' @ [10]) = ([], Some (path @ asc '': the exemption states no argument for itself''))"
  by (intro conjI) code_simp+

end
