(* ===== verification/FingerprintExempt.thy ===== *)
theory FingerprintExempt
  imports Regex "HOL-Library.List_Lexorder"
begin

text \<open>
  \<open>scripts/checks/fingerprint-exempt.py\<close>: which declarations of \<open>build.zig\<close> stay out of the machinery hash.  The script builds the
  reference graph of the top-level declarations and takes what the checks reach and the module wiring does not.  The texts of
  \<open>build.zig\<close> and of the gate sources are arguments.
\<close>

section \<open>The text\<close>

definition ident_head :: "int \<Rightarrow> bool" where "ident_head x \<longleftrightarrow> u_upper x \<or> u_lower x \<or> x = 95"
definition ident_char :: "int \<Rightarrow> bool" where "ident_char x \<longleftrightarrow> ident_head x \<or> u_digit x"
definition ident_re :: re where "ident_re = RSeq (RSet ident_head) (rstar (RSet ident_char))"

definition DECL :: re where
  "DECL = rseq [RBol, ropt (rlit ''pub ''), ropt (rlit ''inline ''), ralt [rlit ''fn'', rlit ''const'', rlit ''var''], rlit '' '', RGroup 1 ident_re]"

definition IDENT :: re where
  "IDENT = rseq [ropt (rlit ''@''), RWordB, ident_re, RWordB]"

definition string_re :: re where
  "string_re = rseq [ru [0x22], rstar (RAlt (RSeq (ru [0x5C]) rdot) (RSet (\<lambda>x. x \<noteq> 0x22 \<and> x \<noteq> 0x5C \<and> x \<noteq> 10))), ru [0x22]]"

definition strip_comments_and_strings :: "ustr \<Rightarrow> ustr" where
  "strip_comments_and_strings src =
     (let s1 = re_sub string_re (\<lambda>_. [0x22, 0x22]) src;
          s2 = re_sub (RSeq (ru [0x5C, 0x5C]) (rstar rdot)) (\<lambda>_. []) s1
      in re_sub (RSeq (rlit ''//'') (rstar rdot)) (\<lambda>_. []) s2)"

section \<open>The reference graph\<close>

text \<open>A declaration runs to the start of the next one.\<close>

fun decl_slices :: "ustr \<Rightarrow> (nat \<times> ustr) list \<Rightarrow> (ustr \<times> ustr) list" where
  "decl_slices src [] = []"
| "decl_slices src [(st, name)] = [(name, drop st src)]"
| "decl_slices src ((st, name) # (st', name') # ms) = (name, slice st st' src) # decl_slices src ((st', name') # ms)"

definition decls :: "ustr \<Rightarrow> (ustr \<times> ustr) list" where
  "decls src = foldl (\<lambda>d (name, body). dict_set d name body) []
     (decl_slices src (map (\<lambda>m. (m_start m, group0 src m 1)) (finditer DECL src)))"

definition refs :: "ustr \<Rightarrow> ustr list \<Rightarrow> ustr list" where
  "refs body names = remdups (filter (\<lambda>t. t \<in> set names) (map (matched body) (finditer IDENT body)))"

type_synonym graph = "(ustr \<times> ustr list) list"

definition ref_graph :: "(ustr \<times> ustr) list \<Rightarrow> graph" where
  "ref_graph d = map (\<lambda>(n, body). (n, filter (\<lambda>t. t \<noteq> n) (refs body (map fst d)))) d"

definition succs :: "graph \<Rightarrow> ustr \<Rightarrow> ustr list" where
  "succs g n = (case map_of g n of None \<Rightarrow> [] | Some ts \<Rightarrow> ts)"

text \<open>The loop of \<open>closure\<close>; the head of the list is the top of the stack.\<close>

function closure_loop :: "graph \<Rightarrow> ustr list \<Rightarrow> ustr list \<Rightarrow> ustr list" where
  "closure_loop g seen [] = seen"
| "closure_loop g seen (n # stack) =
     (if n \<in> set seen then closure_loop g seen stack else closure_loop g (n # seen) (rev (succs g n) @ stack))"
  by pat_completeness auto
termination
proof (relation "measures [\<lambda>(g, seen, stack). card (fst ` set g - set seen), \<lambda>(g, seen, stack). length stack]", goal_cases)
  case (3 g seen n stack)
  show ?case
  proof (cases "n \<in> fst ` set g")
    case True
    then have "fst ` set g - set (n # seen) \<subset> fst ` set g - set seen" using 3 by auto
    then have "card (fst ` set g - set (n # seen)) < card (fst ` set g - set seen)" by (intro psubset_card_mono) auto
    then show ?thesis by simp
  next
    case False
    then have "fst ` set g - set (n # seen) = fst ` set g - set seen" by auto
    moreover have "succs g n = []" using False by (simp add: succs_def map_of_eq_None_iff [THEN iffD2])
    ultimately show ?thesis by simp
  qed
qed simp_all

definition closure :: "graph \<Rightarrow> ustr list \<Rightarrow> ustr list" where
  "closure g roots = closure_loop g [] (rev roots)"

section \<open>The exempt names\<close>

definition findall_group1 :: "re \<Rightarrow> ustr \<Rightarrow> ustr list" where
  "findall_group1 r s = map (\<lambda>m. group0 s m 1) (finditer r s)"

definition MAKE_FN :: re where
  "MAKE_FN = rseq [rlit ''.makeFn'', rstar rspace, rlit ''='', rstar rspace, RGroup 1 ident_re]"

definition GATE_DEF :: re where
  "GATE_DEF = rseq [RWordB, rlit ''defs.'', RGroup 1 ident_re]"

text \<open>A struct with a \<open>make\<close> method.\<close>

definition step_struct :: "ustr \<Rightarrow> bool" where
  "step_struct body \<longleftrightarrow> re_search (RSeq RWordB (rlit ''fn make('')) body \<noteq> None
     \<and> (startswith (ulstrip body) (asc ''const'') \<or> startswith (ulstrip body) (asc ''pub const''))"

definition build_checks :: "ustr \<Rightarrow> (ustr \<times> ustr) list \<Rightarrow> ustr list" where
  "build_checks clean d = filter (\<lambda>n. n \<in> set (map fst d))
     (findall_group1 MAKE_FN clean @ map fst (filter (\<lambda>(n, body). step_struct body) d))"

definition gate_checks :: "ustr list \<Rightarrow> (ustr \<times> ustr) list \<Rightarrow> ustr list" where
  "gate_checks gates d = filter (\<lambda>n. n \<in> set (map fst d))
     (concat (map (\<lambda>g. findall_group1 GATE_DEF (strip_comments_and_strings g)) gates))"

definition machinery_roots :: "ustr \<Rightarrow> ustr \<Rightarrow> (ustr \<times> ustr) list \<Rightarrow> ustr list" where
  "machinery_roots build_body clean d =
     filter (\<lambda>n. n \<notin> set (build_checks clean d) \<and> n \<noteq> asc ''build'') (refs build_body (map fst d)) @ [asc ''Module'', asc ''module_list'']"

definition check_roots :: "ustr \<Rightarrow> ustr list \<Rightarrow> (ustr \<times> ustr) list \<Rightarrow> ustr list" where
  "check_roots clean gates d = build_checks clean d @ gate_checks gates d"

definition compute_exempt :: "ustr \<Rightarrow> ustr list \<Rightarrow> ustr list result" where
  "compute_exempt src gates =
     (let clean = strip_comments_and_strings src; d = decls clean; g = ref_graph d in
      case map_of d (asc ''build'') of None \<Rightarrow> Inl KeyError
      | Some build_body \<Rightarrow>
          (let machinery = closure g (machinery_roots build_body clean d); checks = closure g (check_roots clean gates d) in
           Inr (sort (remdups (filter (\<lambda>n. n \<notin> set machinery) checks @ [asc ''fingerprint_exempt''])))))"

section \<open>The check\<close>

definition LIST_RE :: re where
  "LIST_RE = rseq [RGroup 1 (RSeq (rlit ''const fingerprint_exempt = [_][]const u8{'') (ru [10])),
     RGroup 2 (rstar (rseq [RSeq (rlit ''    '') (ru [0x22]), rstar (RSet (\<lambda>x. x \<noteq> 0x22 \<and> x \<noteq> 10)), ru [0x22, 44, 10]])), RGroup 3 (rlit ''};'')]"

definition NAME_IN_QUOTES :: re where
  "NAME_IN_QUOTES = rseq [ru [0x22], RGroup 1 (rplus (RSet (\<lambda>x. x \<noteq> 0x22))), ru [0x22]]"

definition group_span :: "rmatch \<Rightarrow> nat \<Rightarrow> nat \<times> nat" where
  "group_span m k = (case map_of (snd (snd m)) k of Some ab \<Rightarrow> ab | None \<Rightarrow> (0, 0))"

definition list_rows :: "ustr list \<Rightarrow> ustr" where
  "list_rows names = concat (map (\<lambda>n. asc ''    '' @ [0x22] @ n @ [0x22, 44, 10]) names)"

text \<open>The exit code and the text written to \<open>build.zig\<close>.\<close>

definition fingerprint_main :: "ustr \<Rightarrow> ustr list \<Rightarrow> bool \<Rightarrow> (int \<times> ustr option) result" where
  "fingerprint_main src gates write_it = rbind (compute_exempt src gates) (\<lambda>want.
     case re_search LIST_RE src of None \<Rightarrow> Inl (SystemExit ''fingerprint-exempt: no `const fingerprint_exempt = [_][]const u8{` list in build.zig'')
     | Some m \<Rightarrow> (let (a, b) = group_span m 2; listed = findall_group1 NAME_IN_QUOTES (slice a b src) in
         if write_it then Inr (0, Some (take a src @ list_rows want @ drop b src))
         else Inr (if listed \<noteq> want then 1 else 0, None)))"

section \<open>The exempt names are exactly what only the checks reach\<close>

definition ref_rel :: "graph \<Rightarrow> (ustr \<times> ustr) set" where
  "ref_rel g = {(a, b). b \<in> set (succs g a)}"

lemma closure_loop_sound: "x \<in> set (closure_loop g seen stack) \<Longrightarrow> x \<in> set seen \<or> (\<exists>r \<in> set stack. (r, x) \<in> (ref_rel g)\<^sup>*)"
proof (induction g seen stack rule: closure_loop.induct)
  case (2 g seen n stack)
  show ?case
  proof (cases "n \<in> set seen")
    case True
    with 2 show ?thesis by auto
  next
    case False
    with "2.prems" have "x \<in> set (closure_loop g (n # seen) (rev (succs g n) @ stack))" by simp
    from "2.IH"(2) [OF False this] consider "x \<in> set seen" | "x = n" | r where "r \<in> set (succs g n)" "(r, x) \<in> (ref_rel g)\<^sup>*"
      | r where "r \<in> set stack" "(r, x) \<in> (ref_rel g)\<^sup>*" by auto
    then show ?thesis
    proof cases
      case 3
      then have "(n, x) \<in> (ref_rel g)\<^sup>*" by (auto simp: ref_rel_def intro: converse_rtrancl_into_rtrancl)
      then show ?thesis by auto
    qed auto
  qed
qed simp

text \<open>The invariant of the loop: a seen name has its references seen or on the stack.\<close>

lemma closure_loop_complete:
  "\<forall>a \<in> set seen. set (succs g a) \<subseteq> set seen \<union> set stack \<Longrightarrow>
    set seen \<union> set stack \<subseteq> set (closure_loop g seen stack)
    \<and> (\<forall>a \<in> set (closure_loop g seen stack). set (succs g a) \<subseteq> set (closure_loop g seen stack))"
proof (induction g seen stack rule: closure_loop.induct)
  case (2 g seen n stack)
  show ?case
  proof (cases "n \<in> set seen")
    case True
    with "2.prems" have "\<forall>a \<in> set seen. set (succs g a) \<subseteq> set seen \<union> set stack" by auto
    from "2.IH"(1) [OF True this] True show ?thesis by auto
  next
    case False
    have "\<forall>a \<in> set (n # seen). set (succs g a) \<subseteq> set (n # seen) \<union> set (rev (succs g n) @ stack)" using "2.prems" by auto
    from "2.IH"(2) [OF False this] False show ?thesis by auto
  qed
qed simp

lemma closure_reaches: "set (closure g roots) = {x. \<exists>r \<in> set roots. (r, x) \<in> (ref_rel g)\<^sup>*}"
proof (intro equalityI subsetI)
  fix x assume "x \<in> set (closure g roots)"
  then show "x \<in> {x. \<exists>r \<in> set roots. (r, x) \<in> (ref_rel g)\<^sup>*}" using closure_loop_sound [of x g "[]" "rev roots"] by (simp add: closure_def)
next
  fix x assume "x \<in> {x. \<exists>r \<in> set roots. (r, x) \<in> (ref_rel g)\<^sup>*}"
  then obtain r where r: "r \<in> set roots" "(r, x) \<in> (ref_rel g)\<^sup>*" by blast
  have c: "set roots \<subseteq> set (closure g roots)" "\<forall>a \<in> set (closure g roots). set (succs g a) \<subseteq> set (closure g roots)"
    using closure_loop_complete [of "[]" g "rev roots"] by (simp_all add: closure_def)
  from r(2) show "x \<in> set (closure g roots)"
  proof (induction rule: rtrancl_induct)
    case base
    with c(1) r(1) show ?case by blast
  next
    case (step y z)
    with c(2) show ?case by (auto simp: ref_rel_def)
  qed
qed

text \<open>
  C33: the exempt list is fail-closed.  When \<open>build.zig\<close> has a \<open>build\<close> function the script computes a list; a name other than the list itself
  is in it exactly when a chain of references leads to it from a check and none from the module wiring, so a declaration both
  reach, or neither, stays in the hash; and the check passes exactly when the list written in the file is this one.
\<close>

theorem exempt_is_check_only:
  assumes "map_of (decls (strip_comments_and_strings src)) (asc ''build'') = Some build_body"
  shows "\<exists>want. compute_exempt src gates = Inr want \<and> sorted want \<and> distinct want
    \<and> (\<forall>n. n \<in> set want \<longleftrightarrow> n = asc ''fingerprint_exempt''
        \<or> (let clean = strip_comments_and_strings src; d = decls clean; reach = (ref_rel (ref_graph d))\<^sup>* in
            (\<exists>r \<in> set (check_roots clean gates d). (r, n) \<in> reach) \<and> (\<forall>r \<in> set (machinery_roots build_body clean d). (r, n) \<notin> reach)))
    \<and> (\<forall>m. re_search LIST_RE src = Some m \<longrightarrow> fingerprint_main src gates False
         = Inr (if findall_group1 NAME_IN_QUOTES (group0 src m 2) = want then 0 else 1, None))"
proof -
  let ?clean = "strip_comments_and_strings src"
  let ?d = "decls ?clean"
  let ?g = "ref_graph ?d"
  let ?want = "sort (remdups (filter (\<lambda>n. n \<notin> set (closure ?g (machinery_roots build_body ?clean ?d)))
    (closure ?g (check_roots ?clean gates ?d)) @ [asc ''fingerprint_exempt'']))"
  have c: "compute_exempt src gates = Inr ?want" using assms by (simp only: compute_exempt_def Let_def option.case)
  have "group0 src m 2 = slice (fst (group_span m 2)) (snd (group_span m 2)) src" for m
    by (simp add: group0_def group_def group_span_def slice_def split: option.split)
  then have "fingerprint_main src gates False = Inr (if findall_group1 NAME_IN_QUOTES (group0 src m 2) = ?want then 0 else 1, None)"
    if "re_search LIST_RE src = Some m" for m
    using that by (simp add: fingerprint_main_def c split_beta)
  moreover have "n \<in> set ?want \<longleftrightarrow> n = asc ''fingerprint_exempt'' \<or> ((\<exists>r \<in> set (check_roots ?clean gates ?d). (r, n) \<in> (ref_rel ?g)\<^sup>*)
      \<and> (\<forall>r \<in> set (machinery_roots build_body ?clean ?d). (r, n) \<notin> (ref_rel ?g)\<^sup>*))" for n
    by (simp only: set_sort set_remdups set_append set_filter closure_reaches) auto
  moreover have "sorted ?want" "distinct ?want" by simp_all
  ultimately show ?thesis using c unfolding Let_def by blast
qed

text \<open>A build file in which the check \<open>c\<close> alone reaches \<open>b\<close>, and \<open>build\<close> reaches \<open>a\<close>.\<close>

definition demo_build :: ustr where
  "demo_build = asc ''pub fn build() {a();}'' @ [10] @ asc ''fn a() {}'' @ [10] @ asc ''fn b() {a();}'' @ [10] @ asc ''const c = b;''"

theorem exempt_is_check_only_witness:
  "map_of (decls (strip_comments_and_strings demo_build)) (asc ''build'') \<noteq> None
    \<and> (\<exists>want. compute_exempt demo_build [asc ''defs.c''] = Inr want \<and> sorted want
        \<and> want = [asc ''b'', asc ''c'', asc ''fingerprint_exempt''])"
proof -
  have v: "compute_exempt demo_build [asc ''defs.c''] = Inr [asc ''b'', asc ''c'', asc ''fingerprint_exempt'']" by code_simp
  have b: "map_of (decls (strip_comments_and_strings demo_build)) (asc ''build'') \<noteq> None" by code_simp
  then obtain body where "map_of (decls (strip_comments_and_strings demo_build)) (asc ''build'') = Some body" by blast
  from exempt_is_check_only [OF this, of "[asc ''defs.c'']"] v b show ?thesis by auto
qed

end
