(* ===== verification/Der.thy ===== *)
theory Der
  imports UText
begin

text \<open>
  DER elements as the certificate tools write and read them: the encoder of \<open>modules/x509/tools/gen_names_fixtures.py\<close> (and the same
  functions in \<open>gen_crl_fixtures.py\<close>), the strict reader \<open>der_tlv\<close> of the curve vector generators \<open>modules/p256/tools/gen_vectors.py\<close>,
  \<open>p384\<close> and \<open>p521\<close>, and the lenient one of the CRL fixtures.  The strict reader accepts exactly what the encoder writes.
\<close>

section \<open>The encoder\<close>

definition der_L :: "nat \<Rightarrow> bytes result" where
  "der_L n = (if n < 0x80 then mk_bytes [int n]
     else rbind (to_bytes_be (int n) ((bit_length n + 7) div 8)) (\<lambda>b.
       rbind (mk_bytes [0x80 OR int (length b)]) (\<lambda>h. Inr (h @ b))))"

definition tlv :: "int \<Rightarrow> bytes \<Rightarrow> bytes result" where
  "tlv tag c = rbind (mk_bytes [tag]) (\<lambda>t. rbind (der_L (length c)) (\<lambda>l. Inr (t @ l @ c)))"

definition der_seq :: "bytes list \<Rightarrow> bytes result" where
  "der_seq p = tlv 0x30 (concat p)"

definition sset :: "bytes list \<Rightarrow> bytes result" where
  "sset p = tlv 0x31 (concat p)"

text \<open>The base-128 digits of an arc: \<open>while v\<close> collects the higher ones, each with its top bit set, in reverse.\<close>

fun arc_digits :: "nat \<Rightarrow> int list" where
  "arc_digits v = (if v = 0 then [] else (0x80 OR (int v AND 0x7F)) # arc_digits (v div 128))"

declare arc_digits.simps [simp del]

definition arc_octets :: "nat \<Rightarrow> bytes" where
  "arc_octets v = rev ((int v AND 0x7F) # arc_digits (v div 128))"

text \<open>A negative arc never leaves the loop of the script, whose literals have none: an arc is a natural number here.\<close>

definition parse_arc :: "ustr \<Rightarrow> nat result" where
  "parse_arc s = rbind (parse_int s) (\<lambda>v. if v < 0 then Inl ValueError else Inr (nat v))"

definition oid :: "ustr \<Rightarrow> bytes result" where
  "oid s = rbind (rmap parse_arc (usplit CHR ''.'' s)) (\<lambda>a.
     if length a < 2 then Inl IndexError
     else rbind (mk_bytes [int (a ! 0 * 40 + a ! 1)]) (\<lambda>out. tlv 0x06 (out @ concat (map arc_octets (drop 2 a)))))"

text \<open>\<open>n.to_bytes(ln, "big", signed=True)\<close> with the shortest length that holds the sign.\<close>

definition to_bytes_be_signed :: "int \<Rightarrow> nat \<Rightarrow> bytes result" where
  "to_bytes_be_signed x n = rbind (to_bytes_le_signed x n) (\<lambda>b. Inr (rev b))"

definition int_len :: "int \<Rightarrow> nat" where
  "int_len n = (if n > 0 then (bit_length (nat n) + 8) div 8 else (bit_length (nat (- n - 1)) + 8) div 8)"

definition der_integer :: "int \<Rightarrow> bytes result" where
  "der_integer n = (if n = 0 then tlv 0x02 [0] else rbind (to_bytes_be_signed n (int_len n)) (\<lambda>b. tlv 0x02 b))"

definition boolean :: "bool \<Rightarrow> bytes result" where
  "boolean v = tlv 0x01 (if v then [0xFF] else [0])"

definition der_null :: "bytes result" where
  "der_null = tlv 0x05 []"

definition octets :: "bytes \<Rightarrow> bytes result" where
  "octets b = tlv 0x04 b"

definition bitstr :: "bytes \<Rightarrow> int \<Rightarrow> bytes result" where
  "bitstr b unused = rbind (mk_bytes [unused]) (\<lambda>u. tlv 0x03 (u @ b))"

definition utf8str :: "ustr \<Rightarrow> bytes result" where
  "utf8str s = rbind (py_encode s) (\<lambda>b. tlv 0x0C b)"

definition ia5 :: "ustr \<Rightarrow> bytes result" where
  "ia5 s = rbind (py_encode s) (\<lambda>b. tlv 0x16 b)"

definition prtstr :: "ustr \<Rightarrow> bytes result" where
  "prtstr s = rbind (py_encode s) (\<lambda>b. tlv 0x13 b)"

text \<open>A \<open>datetime\<close> in UTC; \<open>strftime\<close> writes two digits of each field.\<close>

record datetime =
  dt_year :: nat
  dt_month :: nat
  dt_day :: nat
  dt_hour :: nat
  dt_minute :: nat
  dt_second :: nat

definition two_digits :: "nat \<Rightarrow> ustr" where
  "two_digits n = [48 + int (n div 10 mod 10), 48 + int (n mod 10)]"

definition utctime :: "datetime \<Rightarrow> bytes result" where
  "utctime d = rbind (py_encode (concat (map two_digits [dt_year d mod 100, dt_month d, dt_day d, dt_hour d, dt_minute d, dt_second d]) @ asc ''Z''))
     (\<lambda>b. tlv 0x17 b)"

definition ctx :: "int \<Rightarrow> bytes \<Rightarrow> bytes result" where
  "ctx n c = tlv (0xA0 OR n) c"

definition ctxp :: "int \<Rightarrow> bytes \<Rightarrow> bytes result" where
  "ctxp n b = tlv (0x80 OR n) b"

section \<open>The strict reader\<close>

definition der_tlv :: "bytes \<Rightarrow> nat \<Rightarrow> (int \<times> bytes \<times> nat) result" where
  "der_tlv b i =
     (if i + 2 > length b then Inl ValueError
      else (let tag = b ! i; ln = b ! (i + 1); i = i + 2 in
        rbind (if ln AND 0x80 \<noteq> 0
               then (let n = nat (ln AND 0x7F) in
                 if n = 0 \<or> n > 2 \<or> i + n > length b then Inl ValueError
                 else (let ln = from_be (slice i (i + n) b) in
                   if ln < 0x80 \<or> b ! i = 0 then Inl ValueError else Inr (ln, i + n)))
               else Inr (ln, i)) (\<lambda>(ln, i).
          if i + nat ln > length b then Inl ValueError else Inr (tag, slice i (i + nat ln) b, i + nat ln))))"

section \<open>The reader of the CRL fixtures\<close>

definition der_read :: "bytes \<Rightarrow> nat \<Rightarrow> (int \<times> nat \<times> nat) result" where
  "der_read buf i =
     (if length buf \<le> i then Inl IndexError
      else if length buf \<le> i + 1 then Inl IndexError
      else (let tag = buf ! i; l = buf ! (i + 1) in
        if l < 0x80 then Inr (tag, 2, nat l)
        else (let k = nat (l AND 0x7F) in Inr (tag, 2 + k, nat (from_be (slice (i + 2) (i + 2 + k) buf))))))"

section \<open>Lengths\<close>

text \<open>The length octets below 65536, which is as far as the strict reader goes.\<close>

definition len_octets :: "nat \<Rightarrow> bytes" where
  "len_octets n = (if n < 0x80 then [int n] else if n < 0x100 then [0x81, int n] else [0x82, int n div 256, int n mod 256])"

lemma der_L_len_octets:
  assumes "n < 65536"
  shows "der_L n = Inr (len_octets n)"
proof (cases "n < 0x80")
  case True
  then show ?thesis by (simp add: der_L_def len_octets_def is_byte_def)
next
  case False
  then have l: "7 < bit_length n" using bit_length_le_iff [of n 7] by simp
  show ?thesis
  proof (cases "n < 0x100")
    case True
    then have "bit_length n = 8" using bit_length_le_iff [of n 8] l by simp
    with True False show ?thesis by (simp add: der_L_def len_octets_def to_bytes_be_def is_byte_def)
  next
    case f: False
    then have "8 < bit_length n" using bit_length_le_iff [of n 8] by simp
    moreover have "bit_length n \<le> 16" using bit_length_le_iff [of n 16] assms by simp
    ultimately have "(bit_length n + 7) div 8 = 2" by simp
    with f assms show ?thesis
      by (simp add: der_L_def len_octets_def to_bytes_be_def is_byte_def numeral_2_eq_2)
  qed
qed

lemma is_bytes_len_octets: "n < 65536 \<Longrightarrow> is_bytes (len_octets n)"
  by (auto simp: len_octets_def is_byte_def)

lemma tlv_Inr: "is_byte tag \<Longrightarrow> length c < 65536 \<Longrightarrow> tlv tag c = Inr (tag # len_octets (length c) @ c)"
  by (simp add: tlv_def der_L_len_octets)

lemma tlv_tag: "tlv tag c = Inr w \<Longrightarrow> is_byte tag"
  by (auto simp: tlv_def mk_bytes_def rbind_eq_Inr_iff split: if_splits)

lemma tlv_eq_Inr_iff: "length c < 65536 \<Longrightarrow> tlv tag c = Inr w \<longleftrightarrow> is_byte tag \<and> w = tag # len_octets (length c) @ c"
  using tlv_Inr tlv_tag by (metis sum.inject(2))

section \<open>The strict reader accepts exactly the encoder's output\<close>

lemma and_7F: "(x :: int) AND 0x7F = x mod 128"
proof -
  have "(0x7F :: int) = mask 7" by (simp add: mask_eq_exp_minus_1)
  then have "x AND 0x7F = take_bit 7 x" by (simp only: take_bit_eq_mask)
  then show ?thesis by (simp add: take_bit_eq_mod)
qed

lemma and_80: "is_byte x \<Longrightarrow> x AND 0x80 = 0 \<longleftrightarrow> x < 128"
proof -
  assume "is_byte x"
  then have b: "0 \<le> x" "x < 256" by (simp_all add: is_byte_def)
  have "x AND 0x80 = 0 \<longleftrightarrow> \<not> bit x 7" using and_exp_eq_0_iff_not_bit [of x 7] by simp
  also have "\<dots> \<longleftrightarrow> even (x div 128)" by (simp add: bit_iff_odd)
  also have "\<dots> \<longleftrightarrow> x < 128"
  proof (cases "x < 128")
    case True
    with b show ?thesis by simp
  next
    case False
    with b have "x div 128 = 1" by simp
    with False show ?thesis by simp
  qed
  finally show ?thesis .
qed

text \<open>What the reader does behind the length octet, on the octets that follow it.\<close>

definition read_body :: "int \<Rightarrow> nat \<Rightarrow> int \<Rightarrow> bytes \<Rightarrow> (int \<times> bytes \<times> nat) result" where
  "read_body tag pos ln r = (if nat ln > length r then Inl ValueError else Inr (tag, take (nat ln) r, pos + nat ln))"

lemma der_tlv_shape:
  assumes "is_byte ln"
  shows "der_tlv (pre @ tag # ln # r) (length pre) =
    (if ln < 128 then read_body tag (length pre + 2) ln r
     else if ln = 129 \<and> r \<noteq> [] \<and> 128 \<le> hd r then read_body tag (length pre + 3) (hd r) (tl r)
     else if ln = 130 \<and> 2 \<le> length r \<and> 128 \<le> r ! 1 + 256 * hd r \<and> hd r \<noteq> 0
       then read_body tag (length pre + 4) (r ! 1 + 256 * hd r) (drop 2 r)
     else Inl ValueError)"
proof (cases "ln < 128")
  case True
  then show ?thesis using and_80 [OF assms] by (simp add: der_tlv_def read_body_def nth_append slice_def)
next
  case False
  with assms have b: "128 \<le> ln" "ln < 256" by (simp_all add: is_byte_def)
  have a: "ln AND 0x80 \<noteq> 0" using and_80 [OF assms] False by simp
  have n: "ln AND 0x7F = ln - 128" using b and_7F [of ln] by (simp add: mod_pos_pos_trivial minus_mod_self2 [of ln 128, symmetric] del: minus_mod_self2)
  consider "ln = 128" | "ln = 129" | "ln = 130" | "130 < ln" using b by linarith
  then show ?thesis
  proof cases
    case 2
    then show ?thesis using a n
      by (cases r) (auto simp: der_tlv_def read_body_def nth_append slice_def Let_def from_be_def)
  next
    case 3
    then show ?thesis using a n
      by (cases r; cases "tl r") (auto simp: der_tlv_def read_body_def nth_append slice_def Let_def from_be_def)
  qed (use a n in \<open>auto simp: der_tlv_def Let_def nth_append\<close>)
qed

lemma length_len_octets: "length (len_octets n) = (if n < 0x80 then 1 else if n < 0x100 then 2 else 3)"
  by (simp add: len_octets_def)

lemma der_tlv_written:
  assumes "length v < 65536"
  shows "der_tlv (pre @ (tag # len_octets (length v) @ v) @ post) (length pre) =
    Inr (tag, v, length pre + length (tag # len_octets (length v) @ v))"
proof -
  consider "length v < 128" | "128 \<le> length v" "length v < 256" | "256 \<le> length v" by linarith
  then show ?thesis
  proof cases
    case 1
    then show ?thesis using der_tlv_shape [of "int (length v)" pre tag "v @ post"]
      by (simp add: len_octets_def is_byte_def read_body_def)
  next
    case 2
    then show ?thesis using der_tlv_shape [of 129 pre tag "int (length v) # v @ post"]
      by (simp add: len_octets_def is_byte_def read_body_def)
  next
    case 3
    have "int (length v) mod 256 + 256 * (int (length v) div 256) = int (length v)" by simp
    moreover have "0 < int (length v) div 256" using 3 by simp
    ultimately show ?thesis using 3 der_tlv_shape [of 130 pre tag "int (length v) div 256 # int (length v) mod 256 # v @ post"]
      by (simp add: len_octets_def is_byte_def read_body_def)
  qed
qed

lemma der_tlv_canonical:
  assumes "is_bytes b" "der_tlv b i = Inr (tag, v, j)"
  shows "i \<le> j \<and> j \<le> length b \<and> length v < 65536 \<and> is_byte tag \<and> slice i j b = tag # len_octets (length v) @ v"
proof -
  from assms(2) have "i + 2 \<le> length b" by (auto simp: der_tlv_def split: if_splits)
  define pre r where "pre = take i b" and "r = drop (i + 2) b"
  have b: "b = pre @ b ! i # b ! (i + 1) # r" and i: "i = length pre"
    using \<open>i + 2 \<le> length b\<close> by (simp_all add: pre_def r_def Cons_nth_drop_Suc id_take_nth_drop)
  then obtain t ln where sh: "b = pre @ t # ln # r" by blast
  have bt: "is_byte t" "is_byte ln" "is_bytes r" using assms(1) sh by simp_all
  note d = assms(2) [unfolded sh i der_tlv_shape [OF bt(2)]]
  have sl: "slice i (i + n) b = take n (t # ln # r)" for n using i sh by (simp add: slice_def)
  consider (short) "ln < 128" "read_body t (length pre + 2) ln r = Inr (tag, v, j)"
    | (one) x r' where "ln = 129" "r = x # r'" "128 \<le> x" "read_body t (length pre + 3) x r' = Inr (tag, v, j)"
    | (two) x y r' where "ln = 130" "r = x # y # r'" "x \<noteq> 0" "read_body t (length pre + 4) (y + 256 * x) r' = Inr (tag, v, j)"
    using d by (cases r; cases "tl r") (auto split: if_splits)
  then show ?thesis
  proof cases
    case short
    then have "nat ln \<le> length r" "v = take (nat ln) r" "tag = t" "j = i + (2 + nat ln)"
      using i by (auto simp: read_body_def split: if_splits)
    then show ?thesis using short(1) bt sl [of "2 + nat ln"] sh i by (simp add: len_octets_def is_byte_def)
  next
    case one
    define n where "n = nat x"
    have n: "128 \<le> n" "n < 256" "int n = x" using bt(3) one(2,3) by (auto simp: is_byte_def n_def)
    from one(4) have "n \<le> length r'" "v = take n r'" "tag = t" "j = i + Suc (Suc (Suc n))"
      using i by (auto simp: read_body_def n_def split: if_splits)
    then show ?thesis using one(1,2) bt(1) sl [of "Suc (Suc (Suc n))"] sh i n by (simp add: len_octets_def)
  next
    case two
    define n where "n = nat (y + 256 * x)"
    have xy: "0 \<le> y" "y < 256" "0 < x" "x < 256" using bt(3) two(2,3) by (simp_all add: is_byte_def)
    have n: "256 \<le> n" "n < 65536" "int n div 256 = x" "int n mod 256 = y" using xy by (simp_all add: n_def)
    from two(4) have "n \<le> length r'" "v = take n r'" "tag = t" "j = i + Suc (Suc (Suc (Suc n)))"
      using i by (auto simp: read_body_def n_def split: if_splits)
    then show ?thesis using two(1,2) bt(1) sl [of "Suc (Suc (Suc (Suc n)))"] sh i n by (simp add: len_octets_def)
  qed
qed

lemma der_tlv_error: "der_tlv b i = Inl e \<Longrightarrow> e = ValueError"
  by (auto simp: der_tlv_def Let_def split: if_splits)

lemma der_tlv_iff:
  assumes "is_bytes b"
  shows "der_tlv b i = Inr (tag, v, j) \<longleftrightarrow> length v < 65536 \<and> i \<le> j \<and> j \<le> length b \<and> tlv tag v = Inr (slice i j b)"
proof
  assume "der_tlv b i = Inr (tag, v, j)"
  from der_tlv_canonical [OF assms this]
  show "length v < 65536 \<and> i \<le> j \<and> j \<le> length b \<and> tlv tag v = Inr (slice i j b)" by (simp add: tlv_Inr)
next
  assume r: "length v < 65536 \<and> i \<le> j \<and> j \<le> length b \<and> tlv tag v = Inr (slice i j b)"
  then have w: "slice i j b = tag # len_octets (length v) @ v" using tlv_eq_Inr_iff [of v tag "slice i j b"] by blast
  have b: "b = take i b @ slice i j b @ drop j b"
    using r by (metis append_take_drop_id drop_drop le_add_diff_inverse2 slice_def)
  have i: "i = length (take i b)" and j: "j = i + length (slice i j b)" using r by (auto simp: slice_def)
  have "der_tlv (take i b @ (tag # len_octets (length v) @ v) @ drop j b) (length (take i b)) =
      Inr (tag, v, length (take i b) + length (tag # len_octets (length v) @ v))" by (rule der_tlv_written) (use r in simp)
  then show "der_tlv b i = Inr (tag, v, j)"
    unfolding w [symmetric] b [symmetric] i [symmetric] j [symmetric] .
qed

text \<open>An element that is the whole input, and two elements one behind the other.\<close>

lemma der_tlv_whole: "is_bytes b \<Longrightarrow> der_tlv b 0 = Inr (tag, v, length b) \<longleftrightarrow> length v < 65536 \<and> tlv tag v = Inr b"
  by (simp add: der_tlv_iff slice_def)

lemma tlv_shorter: "tlv tag v = Inr w \<Longrightarrow> length v < length w"
  by (auto simp: tlv_def mk_bytes_def rbind_eq_Inr_iff split: if_splits)

lemma tlv_is_bytes: "tlv tag v = Inr w \<Longrightarrow> is_bytes w \<Longrightarrow> is_bytes v"
  by (auto simp: tlv_def rbind_eq_Inr_iff)

lemma length_der_L: "der_L n = Inr l \<Longrightarrow> length l = (if n < 0x80 then 1 else 1 + (bit_length n + 7) div 8)"
  by (auto simp: der_L_def mk_bytes_def to_bytes_be_def rbind_eq_Inr_iff split: if_splits)

lemma tlv_bound:
  assumes "tlv tag v = Inr w"
  shows "length v < 65536 \<longleftrightarrow> length w < 65540"
proof -
  from assms obtain l where l: "der_L (length v) = Inr l" "length w = 1 + length l + length v"
    by (auto simp: tlv_def mk_bytes_def rbind_eq_Inr_iff split: if_splits)
  show ?thesis
  proof (cases "length v < 65536")
    case True
    with l show ?thesis by (auto simp: der_L_len_octets length_len_octets)
  next
    case False
    then have "16 < bit_length (length v)" using bit_length_le_iff [of "length v" 16] by simp
    then have "3 \<le> (bit_length (length v) + 7) div 8" by simp
    with l length_der_L [OF l(1)] False show ?thesis by simp
  qed
qed

lemma der_tlv_pair:
  assumes "is_bytes b"
  shows "der_tlv b 0 = Inr (t1, v1, k) \<and> der_tlv b k = Inr (t2, v2, length b) \<longleftrightarrow>
    length v1 < 65536 \<and> length v2 < 65536 \<and> (\<exists>w1 w2. tlv t1 v1 = Inr w1 \<and> tlv t2 v2 = Inr w2 \<and> b = w1 @ w2 \<and> k = length w1)"
    (is "?l \<longleftrightarrow> ?r")
proof
  assume l: ?l
  then have "k \<le> length b" "tlv t1 v1 = Inr (take k b)" "tlv t2 v2 = Inr (drop k b)"
    by (auto simp: der_tlv_iff [OF assms] slice_def)
  moreover have "b = take k b @ drop k b" "k = length (take k b)" using \<open>k \<le> length b\<close> by simp_all
  ultimately show ?r using l der_tlv_iff [OF assms] by blast
next
  assume ?r
  then show ?l by (auto simp: der_tlv_iff [OF assms] slice_def)
qed

text \<open>
  C20. The strict reader of the curve vector generators accepts an element exactly when the octets at that place are the encoding the
  certificate tool would write for it, with a content below 65536 octets; anything else raises \<open>ValueError\<close> and nothing but \<open>ValueError\<close>,
  which is the only exception its caller catches.
\<close>

theorem der_tlv_exact:
  assumes "is_bytes b"
  shows "(\<forall>tag v j. der_tlv b i = Inr (tag, v, j) \<longleftrightarrow>
            length v < 65536 \<and> i \<le> j \<and> j \<le> length b \<and> tlv tag v = Inr (slice i j b)) \<and>
         ((\<nexists>tag v j. length v < 65536 \<and> i \<le> j \<and> j \<le> length b \<and> tlv tag v = Inr (slice i j b)) \<longrightarrow>
            der_tlv b i = Inl ValueError)"
proof -
  have "der_tlv b i = Inl ValueError" if "\<nexists>tag v j. der_tlv b i = Inr (tag, v, j)"
    using that der_tlv_error by (cases "der_tlv b i") auto
  with der_tlv_iff [OF assms, of i] show ?thesis by blast
qed

theorem der_tlv_exact_witness:
  "der_tlv [0x04, 0x02, 7, 9, 0] 0 = Inr (4, [7, 9], 4) \<and> der_tlv [0x04, 0x81, 0x02, 7, 9] 0 = Inl ValueError \<and>
     length [7, 9 :: int] < 65536 \<and> tlv 4 [7, 9] = Inr (slice 0 4 [0x04, 0x02, 7, 9, 0])"
proof -
  have t: "tlv 4 [7, 9] = Inr (slice 0 4 [0x04, 0x02, 7, 9, 0])" by code_simp
  have "is_bytes [0x04, 0x02, 7, 9, 0]" by (simp add: is_byte_def)
  from der_tlv_exact [OF this, of 0] t have "der_tlv [0x04, 0x02, 7, 9, 0] 0 = Inr (4, [7, 9], 4)" by simp
  moreover have "der_tlv [0x04, 0x81, 0x02, 7, 9] 0 = Inl ValueError" by code_simp
  ultimately show ?thesis using t by simp
qed

section \<open>Integers\<close>

text \<open>The value of the content octets, in two's complement.\<close>

definition from_be_signed :: "bytes \<Rightarrow> int" where
  "from_be_signed b = from_le_signed (rev b)"

lemma pow_256: "(256 :: int) ^ k = 2 ^ (8 * k)"
  by (simp add: power_mult)

lemma nat_pow: "0 \<le> x \<Longrightarrow> nat x < 2 ^ k \<longleftrightarrow> x < 2 ^ k"
  by (simp add: nat_less_iff)

lemma int_len_iff:
  assumes "n \<noteq> 0"
  shows "int_len n \<le> k \<longleftrightarrow> 0 < k \<and> - (256 ^ k) \<le> 2 * n \<and> 2 * n < 256 ^ k"
proof (cases k)
  case 0
  have "0 < (m + 8) div 8" for m :: nat by (simp add: div_greater_zero_iff)
  with 0 show ?thesis by (simp add: int_len_def)
next
  case (Suc m)
  define y where "y = (if n > 0 then n else - n - 1)"
  have y: "0 \<le> y" and l: "int_len n = (bit_length (nat y) + 8) div 8" using assms by (auto simp: y_def int_len_def)
  have p: "(256 :: int) ^ k = 2 * 2 ^ (8 * k - 1)" using Suc by (simp add: pow_256 power_add)
  have "int_len n \<le> k \<longleftrightarrow> bit_length (nat y) \<le> 8 * k - 1" unfolding l Suc by auto
  also have "\<dots> \<longleftrightarrow> y < 2 ^ (8 * k - 1)" using bit_length_le_iff [of "nat y"] nat_pow [OF y] by simp
  also have "\<dots> \<longleftrightarrow> - (256 ^ k) \<le> 2 * n \<and> 2 * n < 256 ^ k"
  proof -
    define q :: int where "q = 2 ^ (8 * k - 1)"
    have q: "0 < q" by (simp add: q_def)
    show ?thesis unfolding p q_def [symmetric] using q by (auto simp: y_def)
  qed
  finally show ?thesis using Suc by simp
qed

text \<open>The content of \<open>integer(n)\<close> is the two's complement of \<open>n\<close>, and no shorter
  content holds \<open>n\<close>: the \<open>INTEGER\<close> is minimal, as its comment says.\<close>

theorem der_integer_minimal:
  "\<exists>c. der_integer n = tlv 2 c \<and> from_be_signed c = n \<and> c \<noteq> [] \<and>
    (\<forall>c'. is_bytes c' \<longrightarrow> c' \<noteq> [] \<longrightarrow> from_be_signed c' = n \<longrightarrow> length c \<le> length c')"
proof (cases "n = 0")
  case True
  then show ?thesis by (intro exI [of _ "[0]"]) (auto simp: der_integer_def from_be_signed_def from_le_signed_def Suc_le_eq)
next
  case False
  let ?k = "int_len n"
  have r: "0 < ?k" "- (256 ^ ?k) \<le> 2 * n" "2 * n < 256 ^ ?k" using int_len_iff [OF False, of ?k] by simp_all
  then obtain b where b: "to_bytes_le_signed n ?k = Inr b" by (simp add: to_bytes_le_signed_def)
  note rt = from_le_signed_roundtrip [OF b]
  have "length (rev b) \<le> length c'" if "is_bytes c'" "c' \<noteq> []" "from_be_signed c' = n" for c'
  proof -
    have "- (256 ^ length c') \<le> 2 * n \<and> 2 * n < 256 ^ length c'"
      using from_le_bounds [of "rev c'"] that by (auto simp: from_be_signed_def from_le_signed_def Let_def split: if_splits)
    then show ?thesis using int_len_iff [OF False, of "length c'"] that(2) rt by simp
  qed
  moreover have "der_integer n = tlv 2 (rev b)" using False b by (simp add: der_integer_def to_bytes_be_signed_def)
  ultimately show ?thesis using rt r by (intro exI [of _ "rev b"]) (auto simp: from_be_signed_def)
qed

end
