(* ===== verification/CurveVectors.thy ===== *)
theory CurveVectors
  imports Der BitcoinTx_Props
begin

text \<open>
  \<open>modules/p256/tools/gen_vectors.py\<close> and its copies for \<open>p384\<close> and \<open>p521\<close>: which rows of the published files become test vectors.  The three
  scripts differ in the curve, in how a private key longer than the curve is met and in whether a group without rows is kept; these
  are the fields of a record.  The JSON files and the lines of the CAVP files are arguments.
\<close>

section \<open>The curves\<close>

record curve =
  cu_name :: ustr
  cu_secp :: ustr
  cu_oid :: bytes
  cu_digits :: nat
  cu_strip :: bool
  cu_skip_empty :: bool

definition EC_PUBKEY_OID :: bytes where
  "EC_PUBKEY_OID = [0x2A, 0x86, 0x48, 0xCE, 0x3D, 0x02, 0x01]"

definition P256 :: curve where
  "P256 = \<lparr> cu_name = asc ''P-256'', cu_secp = asc ''secp256r1'', cu_oid = [0x2A, 0x86, 0x48, 0xCE, 0x3D, 0x03, 0x01, 0x07],
     cu_digits = 64, cu_strip = True, cu_skip_empty = True \<rparr>"

definition P384 :: curve where
  "P384 = \<lparr> cu_name = asc ''P-384'', cu_secp = asc ''secp384r1'', cu_oid = [0x2B, 0x81, 0x04, 0x00, 0x22],
     cu_digits = 96, cu_strip = True, cu_skip_empty = True \<rparr>"

definition P521 :: curve where
  "P521 = \<lparr> cu_name = asc ''P-521'', cu_secp = asc ''secp521r1'', cu_oid = [0x2B, 0x81, 0x04, 0x00, 0x23],
     cu_digits = 132, cu_strip = False, cu_skip_empty = False \<rparr>"

section \<open>The point of a public key\<close>

definition spki_read :: "curve \<Rightarrow> ustr \<Rightarrow> ustr option result" where
  "spki_read cu hexstr =
     rbind (fromhex hexstr) (\<lambda>b.
     rbind (der_tlv b 0) (\<lambda>(tag, body, e).
     if tag \<noteq> 0x30 \<or> e \<noteq> length b then Inr None
     else rbind (der_tlv body 0) (\<lambda>(tag, alg, j).
     if tag \<noteq> 0x30 then Inr None
     else rbind (der_tlv alg 0) (\<lambda>(t1, oid1, k).
     rbind (der_tlv alg k) (\<lambda>(t2, oid2, k).
     if t1 \<noteq> 6 \<or> oid1 \<noteq> EC_PUBKEY_OID \<or> t2 \<noteq> 6 \<or> oid2 \<noteq> cu_oid cu \<or> k \<noteq> length alg then Inr None
     else rbind (der_tlv body j) (\<lambda>(tag, bits, j).
     if tag \<noteq> 3 \<or> j \<noteq> length body \<or> length bits < 1 \<or> bits ! 0 \<noteq> 0 then Inr None
     else Inr (Some (uhex (drop 1 bits)))))))))"

text \<open>\<open>except ValueError: return None\<close>; any other exception would go through.\<close>

definition spki_point :: "curve \<Rightarrow> ustr \<Rightarrow> ustr option result" where
  "spki_point cu hexstr = (case spki_read cu hexstr of Inl ValueError \<Rightarrow> Inr None | r \<Rightarrow> r)"

section \<open>Wycheproof\<close>

record ecdsa_test =
  et_id :: int
  et_msg :: ustr
  et_sig :: ustr
  et_result :: ustr

record ecdsa_group =
  eg_sha :: ustr
  eg_key :: ustr
  eg_tests :: "ecdsa_test list"

text \<open>One group: the rows kept and how many were dropped.\<close>

fun ecdsa_rows :: "curve \<Rightarrow> bool \<Rightarrow> ecdsa_test list \<Rightarrow> (int \<times> ustr \<times> ustr \<times> ustr) list \<times> nat" where
  "ecdsa_rows cu p1363 [] = ([], 0)"
| "ecdsa_rows cu p1363 (t # ts) = (case ecdsa_rows cu p1363 ts of (rows, dropped) \<Rightarrow>
     if p1363 \<and> length (et_sig t) \<noteq> 2 * cu_digits cu then (rows, dropped + 1)
     else ((et_id t, et_msg t, et_sig t, et_result t) # rows, dropped))"

fun ecdsa_groups :: "curve \<Rightarrow> bool \<Rightarrow> ustr \<Rightarrow> ecdsa_group list
    \<Rightarrow> ((ustr \<times> (int \<times> ustr \<times> ustr \<times> ustr) list) list \<times> nat \<times> nat) result" where
  "ecdsa_groups cu p1363 sha [] = Inr ([], 0, 0)"
| "ecdsa_groups cu p1363 sha (g # gs) =
     rbind (py_assert (eg_sha g = sha)) (\<lambda>_.
       (case ecdsa_rows cu p1363 (eg_tests g) of (rows, d) \<Rightarrow>
         rbind (ecdsa_groups cu p1363 sha gs) (\<lambda>(groups, kept, dropped).
           Inr ((if rows \<noteq> [] \<or> \<not> cu_skip_empty cu then (eg_key g, rows) # groups else groups), length rows + kept, d + dropped))))"

record ecdh_test =
  ht_id :: int
  ht_public :: ustr
  ht_private :: ustr
  ht_shared :: ustr
  ht_result :: ustr

record ecdh_group =
  hg_curve :: ustr
  hg_encoding :: ustr
  hg_tests :: "ecdh_test list"

definition rjust0 :: "nat \<Rightarrow> ustr \<Rightarrow> ustr" where
  "rjust0 n s = replicate (n - length s) 48 @ s"

text \<open>A private key longer than the curve: its leading digits have to be zeros, or, for P-521, there is none.\<close>

definition ecdh_private :: "curve \<Rightarrow> ustr \<Rightarrow> ustr result" where
  "ecdh_private cu priv = (let n = cu_digits cu in
     if cu_strip cu
     then (if length priv > n
           then rbind (py_assert (set (take (length priv - n) priv) = {48})) (\<lambda>_. Inr (rjust0 n (drop (length priv - n) priv)))
           else Inr (rjust0 n priv))
     else rbind (py_assert (length priv \<le> n)) (\<lambda>_. Inr (rjust0 n priv)))"

type_synonym ecdh_row = "int \<times> ustr \<times> ustr \<times> ustr \<times> ustr"

fun ecdh_tests :: "curve \<Rightarrow> ecdh_test list \<Rightarrow> (ecdh_row list \<times> nat) result" where
  "ecdh_tests cu [] = Inr ([], 0)"
| "ecdh_tests cu (t # ts) =
     rbind (spki_point cu (ht_public t)) (\<lambda>pt. case pt of
       None \<Rightarrow> rbind (ecdh_tests cu ts) (\<lambda>(rows, dropped). Inr (rows, dropped + 1))
     | Some p \<Rightarrow> rbind (ecdh_private cu (ht_private t)) (\<lambda>priv.
         rbind (ecdh_tests cu ts) (\<lambda>(rows, dropped). Inr ((ht_id t, p, priv, ht_shared t, ht_result t) # rows, dropped))))"

fun ecdh_rows :: "curve \<Rightarrow> ecdh_group list \<Rightarrow> (ecdh_row list \<times> nat) result" where
  "ecdh_rows cu [] = Inr ([], 0)"
| "ecdh_rows cu (g # gs) =
     rbind (py_assert (hg_curve g = cu_secp cu \<and> hg_encoding g = asc ''asn'')) (\<lambda>_.
     rbind (ecdh_tests cu (hg_tests g)) (\<lambda>(rows, d).
     rbind (ecdh_rows cu gs) (\<lambda>(rows', d'). Inr (rows @ rows', d + d'))))"

section \<open>NIST CAVP\<close>

type_synonym rsp_record = "(ustr \<times> ustr) list"

record sec_state =
  ss_out :: "(ustr \<times> rsp_record list) list"
  ss_sec :: "ustr option"
  ss_recs :: "rsp_record list"
  ss_cur :: rsp_record

text \<open>\<open>if cur: recs.append(cur); cur = {}\<close>\<close>

definition flush_record :: "sec_state \<Rightarrow> sec_state" where
  "flush_record s = (if ss_cur s \<noteq> [] then s \<lparr> ss_recs := ss_recs s @ [ss_cur s], ss_cur := [] \<rparr> else s)"

definition yield_section :: "sec_state \<Rightarrow> sec_state" where
  "yield_section s = (case ss_sec s of None \<Rightarrow> s | Some n \<Rightarrow> s \<lparr> ss_out := ss_out s @ [(n, ss_recs s)] \<rparr>)"

definition section_line :: "sec_state \<Rightarrow> ustr \<Rightarrow> sec_state" where
  "section_line s raw = (let ln = ustrip raw in
     if startswith ln [91] \<and> endswith ln [93]
     then (yield_section (flush_record s)) \<lparr> ss_sec := Some (slice 1 (length ln - 1) ln), ss_recs := [] \<rparr>
     else if ln = [] \<or> startswith ln [35] then flush_record s
     else (case find_from (asc '' = '') ln 0 of
         None \<Rightarrow> s
       | Some i \<Rightarrow> (let k = take i ln; v = drop (i + 3) ln; s' = (if k \<in> fst ` set (ss_cur s) then flush_record s else s) in
           s' \<lparr> ss_cur := dict_set (ss_cur s') k v \<rparr>)))"

definition sections :: "ustr list \<Rightarrow> (ustr \<times> rsp_record list) list" where
  "sections lns = ss_out (yield_section (flush_record
     (foldl section_line \<lparr> ss_out = [], ss_sec = None, ss_recs = [], ss_cur = [] \<rparr> lns)))"

text \<open>\<open>h32\<close>, \<open>h48\<close> and \<open>h66\<close>.\<close>

definition h_pad :: "curve \<Rightarrow> ustr \<Rightarrow> ustr result" where
  "h_pad cu v = (let v = ustrip v in rbind (py_assert (length v \<le> cu_digits cu)) (\<lambda>_. Inr (rjust0 (cu_digits cu) v)))"

definition HASHES :: "(ustr \<times> ustr) list" where
  "HASHES = [(asc ''SHA-1'', asc ''sha1''), (asc ''SHA-224'', asc ''sha224''), (asc ''SHA-256'', asc ''sha256''),
     (asc ''SHA-384'', asc ''sha384''), (asc ''SHA-512'', asc ''sha512'')]"

definition dict_get :: "('k \<times> 'v) list \<Rightarrow> 'k \<Rightarrow> 'v result" where
  "dict_get d k = (case map_of d k of None \<Rightarrow> Inl KeyError | Some v \<Rightarrow> Inr v)"

definition has_key :: "('k \<times> 'v) list \<Rightarrow> 'k \<Rightarrow> bool" where
  "has_key d k \<longleftrightarrow> map_of d k \<noteq> None"

definition h_field :: "curve \<Rightarrow> rsp_record \<Rightarrow> string \<Rightarrow> ustr result" where
  "h_field cu r k = rbind (dict_get r (asc k)) (h_pad cu)"

text \<open>\<open>HASHES[sec.split(",")[1]]\<close>; the guard \<open>startswith("P-256,")\<close> has seen a comma.\<close>

definition section_hash :: "ustr \<Rightarrow> ustr result" where
  "section_hash sec = (case usplit CHR '','' sec of _ # h # _ \<Rightarrow> dict_get HASHES h | _ \<Rightarrow> Inl IndexError)"

definition hash_sections :: "curve \<Rightarrow> (ustr \<times> rsp_record \<Rightarrow> 'a result) \<Rightarrow> (ustr \<times> rsp_record list) list \<Rightarrow> 'a list result" where
  "hash_sections cu row secs = rbind (rmap (\<lambda>(sec, recs).
       if \<not> startswith sec (cu_name cu @ [44]) then Inr []
       else rbind (section_hash sec) (\<lambda>h. rmap (\<lambda>r. row (h, r)) (filter (\<lambda>r. has_key r (asc ''Msg'')) recs))) secs)
     (\<lambda>xss. Inr (concat xss))"

definition passes :: "rsp_record \<Rightarrow> bool result" where
  "passes r = rbind (dict_get r (asc ''Result'')) (\<lambda>v. Inr (startswith v [80]))"

definition sigver_row :: "curve \<Rightarrow> ustr \<times> rsp_record \<Rightarrow> (ustr \<times> ustr list \<times> bool) result" where
  "sigver_row cu = (\<lambda>(h, r). rbind (dict_get r (asc ''Msg'')) (\<lambda>m.
     rbind (rmap (h_field cu r) [''Qx'', ''Qy'', ''R'', ''S'']) (\<lambda>vs. rbind (passes r) (\<lambda>ok. Inr (h, m # vs, ok)))))"

definition sigver :: "curve \<Rightarrow> ustr list \<Rightarrow> (ustr \<times> ustr list \<times> bool) list result" where
  "sigver cu lns = hash_sections cu (sigver_row cu) (sections lns)"

definition siggen_row :: "curve \<Rightarrow> ustr \<times> rsp_record \<Rightarrow> (ustr \<times> ustr list) result" where
  "siggen_row cu = (\<lambda>(h, r). rbind (dict_get r (asc ''Msg'')) (\<lambda>m.
     rbind (rmap (h_field cu r) [''d'', ''Qx'', ''Qy'', ''k'', ''R'', ''S'']) (\<lambda>vs. Inr (h, m # vs))))"

definition siggen :: "curve \<Rightarrow> ustr list \<Rightarrow> (ustr \<times> ustr list) list result" where
  "siggen cu lns = hash_sections cu (siggen_row cu) (sections lns)"

text \<open>The key pairs: a section named by the curve opens, any other than a \<open>B.4.2\<close> one closes.\<close>

fun keypair_sections :: "curve \<Rightarrow> bool \<Rightarrow> (ustr \<times> rsp_record list) list \<Rightarrow> rsp_record list" where
  "keypair_sections cu inside [] = []"
| "keypair_sections cu inside ((sec, recs) # secs) =
     (let inside = (if sec = cu_name cu then True else if \<not> startswith sec (asc ''B.4.2'') then False else inside) in
      (if inside then filter (\<lambda>r. has_key r (asc ''d'')) recs else []) @ keypair_sections cu inside secs)"

definition keypair :: "curve \<Rightarrow> ustr list \<Rightarrow> ustr list list result" where
  "keypair cu lns = rmap (\<lambda>r. rmap (h_field cu r) [''d'', ''Qx'', ''Qy'']) (keypair_sections cu False (sections lns))"

definition curve_records :: "curve \<Rightarrow> string \<Rightarrow> (ustr \<times> rsp_record list) list \<Rightarrow> rsp_record list" where
  "curve_records cu k secs = concat (map (\<lambda>(sec, recs). if sec \<noteq> cu_name cu then [] else filter (\<lambda>r. has_key r (asc k)) recs) secs)"

definition pkv :: "curve \<Rightarrow> ustr list \<Rightarrow> (ustr \<times> ustr \<times> bool) list result" where
  "pkv cu lns = rmap (\<lambda>r. rbind (dict_get r (asc ''Qx'')) (\<lambda>x. rbind (dict_get r (asc ''Qy'')) (\<lambda>y.
     rbind (passes r) (\<lambda>ok. Inr (rjust0 (cu_digits cu) x, rjust0 (cu_digits cu) y, ok))))) (curve_records cu ''Qx'' (sections lns))"

text \<open>\<open>v[-n:]\<close> for a positive \<open>n\<close>.\<close>

definition last_digits :: "nat \<Rightarrow> ustr \<Rightarrow> ustr" where
  "last_digits n v = drop (length v - n) v"

definition cdh_row :: "curve \<Rightarrow> rsp_record \<Rightarrow> ustr list result" where
  "cdh_row cu r =
     rbind (rmap (\<lambda>k. rbind (dict_get r (asc k)) (\<lambda>v. h_pad cu (last_digits (cu_digits cu) v))) [''QCAVSx'', ''QCAVSy'', ''dIUT'', ''QIUTx'', ''QIUTy''])
       (\<lambda>vs. rbind (h_field cu r ''ZIUT'') (\<lambda>z. Inr (vs @ [z])))"

definition cdh :: "curve \<Rightarrow> ustr list \<Rightarrow> ustr list list result" where
  "cdh cu lns = rmap (cdh_row cu) (curve_records cu ''QCAVSx'' (sections lns))"

section \<open>The runs\<close>

text \<open>What a script collects before it writes: the two Wycheproof parts and the five CAVP tables.\<close>

record sources =
  so_ecdsa :: "(bool \<times> ustr \<times> ecdsa_group list) list"
  so_ecdh :: "ecdh_group list"
  so_sigver :: "ustr list"
  so_siggen :: "ustr list"
  so_keypair :: "ustr list"
  so_pkv :: "ustr list"
  so_cdh :: "ustr list"

record cavp_tables =
  ca_sigver :: "(ustr \<times> ustr list \<times> bool) list"
  ca_siggen :: "(ustr \<times> ustr list) list"
  ca_keypair :: "ustr list list"
  ca_pkv :: "(ustr \<times> ustr \<times> bool) list"
  ca_cdh :: "ustr list list"

definition cavp :: "curve \<Rightarrow> sources \<Rightarrow> cavp_tables result" where
  "cavp cu so =
     rbind (sigver cu (so_sigver so)) (\<lambda>sv. rbind (siggen cu (so_siggen so)) (\<lambda>sg.
     rbind (keypair cu (so_keypair so)) (\<lambda>kp. rbind (pkv cu (so_pkv so)) (\<lambda>pk. rbind (cdh cu (so_cdh so)) (\<lambda>cd.
       Inr \<lparr> ca_sigver = sv, ca_siggen = sg, ca_keypair = kp, ca_pkv = pk, ca_cdh = cd \<rparr>)))))"

record vectors =
  ve_ecdsa :: "((ustr \<times> (int \<times> ustr \<times> ustr \<times> ustr) list) list \<times> nat \<times> nat) list"
  ve_ecdh :: "ecdh_row list \<times> nat"
  ve_cavp :: cavp_tables

definition gen_vectors :: "curve \<Rightarrow> sources \<Rightarrow> vectors result" where
  "gen_vectors cu so =
     rbind (rmap (\<lambda>(p1363, sha, gs). ecdsa_groups cu p1363 sha gs) (so_ecdsa so)) (\<lambda>ecdsa.
     rbind (ecdh_rows cu (so_ecdh so)) (\<lambda>ecdh. rbind (cavp cu so) (\<lambda>ca.
       Inr \<lparr> ve_ecdsa = ecdsa, ve_ecdh = ecdh, ve_cavp = ca \<rparr>)))"

text \<open>The functions of the other two scripts are those of the first with their curve.\<close>

definition p384_spki_point :: "ustr \<Rightarrow> ustr option result" where
  "p384_spki_point = spki_point P384"

definition p384_ecdsa_groups :: "bool \<Rightarrow> ustr \<Rightarrow> ecdsa_group list \<Rightarrow> ((ustr \<times> (int \<times> ustr \<times> ustr \<times> ustr) list) list \<times> nat \<times> nat) result" where
  "p384_ecdsa_groups = ecdsa_groups P384"

definition p384_ecdh_rows :: "ecdh_group list \<Rightarrow> (ecdh_row list \<times> nat) result" where
  "p384_ecdh_rows = ecdh_rows P384"

definition p384_cavp :: "sources \<Rightarrow> cavp_tables result" where
  "p384_cavp = cavp P384"

definition p521_spki_point :: "ustr \<Rightarrow> ustr option result" where
  "p521_spki_point = spki_point P521"

definition p521_ecdsa_groups :: "bool \<Rightarrow> ecdsa_group list \<Rightarrow> ((ustr \<times> (int \<times> ustr \<times> ustr \<times> ustr) list) list \<times> nat \<times> nat) result" where
  "p521_ecdsa_groups p1363 = ecdsa_groups P521 p1363 (asc ''SHA-512'')"

definition p521_ecdh_rows :: "ecdh_group list \<Rightarrow> (ecdh_row list \<times> nat) result" where
  "p521_ecdh_rows = ecdh_rows P521"

definition p521_cavp :: "sources \<Rightarrow> cavp_tables result" where
  "p521_cavp = cavp P521"

definition gen_p256 :: "ecdsa_group list \<times> ecdsa_group list \<times> ecdsa_group list \<Rightarrow> sources \<Rightarrow> vectors result" where
  "gen_p256 = (\<lambda>(sha512, sha512_p1363, sha3_256) so. gen_vectors P256 (so \<lparr> so_ecdsa :=
     [(False, asc ''SHA-512'', sha512), (True, asc ''SHA-512'', sha512_p1363), (False, asc ''SHA3-256'', sha3_256)] \<rparr>))"

definition gen_p384 :: "ecdsa_group list \<times> ecdsa_group list \<times> ecdsa_group list \<times> ecdsa_group list \<Rightarrow> sources \<Rightarrow> vectors result" where
  "gen_p384 = (\<lambda>(sha384, sha384_p1363, sha512, sha512_p1363) so. gen_vectors P384 (so \<lparr> so_ecdsa :=
     [(False, asc ''SHA-384'', sha384), (True, asc ''SHA-384'', sha384_p1363), (False, asc ''SHA-512'', sha512), (True, asc ''SHA-512'', sha512_p1363)] \<rparr>))"

definition gen_p521 :: "ecdsa_group list \<times> ecdsa_group list \<Rightarrow> sources \<Rightarrow> vectors result" where
  "gen_p521 = (\<lambda>(sha512, sha512_p1363) so. gen_vectors P521 (so \<lparr> so_ecdsa :=
     [(False, asc ''SHA-512'', sha512), (True, asc ''SHA-512'', sha512_p1363)] \<rparr>))"

section \<open>Which public keys are kept\<close>

lemma is_bytes_fromhex: "fromhex s = Inr b \<Longrightarrow> is_bytes b"
proof (induction s arbitrary: b rule: fromhex.induct)
  case (2 a s)
  then show ?case
    by (auto simp: hexval_def is_byte_def rbind_eq_Inr_iff split: if_splits list.splits option.splits)
qed simp

lemma fromhex_error: "fromhex s = Inl e \<Longrightarrow> e = ValueError"
proof (induction s arbitrary: e rule: fromhex.induct)
  case (2 a s)
  then show ?case by (auto simp: rbind_def split: if_splits list.splits option.splits sum.splits)
qed simp

text \<open>A \<open>SubjectPublicKeyInfo\<close> as the certificate tool would encode it.\<close>

definition spki_der :: "curve \<Rightarrow> bytes \<Rightarrow> bytes result" where
  "spki_der cu pt =
     rbind (tlv 6 EC_PUBKEY_OID) (\<lambda>o1. rbind (tlv 6 (cu_oid cu)) (\<lambda>o2. rbind (der_seq [o1, o2]) (\<lambda>alg.
     rbind (bitstr pt 0) (\<lambda>bits. der_seq [alg, bits]))))"

lemma spki_read_Some:
  "spki_read cu h = Inr (Some p) \<longleftrightarrow> (\<exists>b body alg j k pt. fromhex h = Inr b \<and> der_tlv b 0 = Inr (0x30, body, length b) \<and>
     der_tlv body 0 = Inr (0x30, alg, j) \<and> der_tlv alg 0 = Inr (6, EC_PUBKEY_OID, k) \<and> der_tlv alg k = Inr (6, cu_oid cu, length alg) \<and>
     der_tlv body j = Inr (3, 0 # pt, length body) \<and> p = uhex pt)" (is "?l \<longleftrightarrow> ?r")
proof
  assume ?l
  then obtain b body alg j k bits where "fromhex h = Inr b" "der_tlv b 0 = Inr (0x30, body, length b)"
    "der_tlv body 0 = Inr (0x30, alg, j)" "der_tlv alg 0 = Inr (6, EC_PUBKEY_OID, k)" "der_tlv alg k = Inr (6, cu_oid cu, length alg)"
    "der_tlv body j = Inr (3, bits, length body)" "\<not> length bits < 1" "bits ! 0 = 0" "p = uhex (drop 1 bits)"
    unfolding spki_read_def by (fastforce simp: rbind_eq_Inr_iff split: prod.splits if_splits)
  moreover from this(7,8) obtain pt where "bits = 0 # pt" by (cases bits) auto
  ultimately show ?r by auto
next
  assume ?r
  then show ?l by (auto simp: spki_read_def)
qed

lemma spki_read_error: "spki_read cu h = Inl e \<Longrightarrow> e = ValueError"
  unfolding spki_read_def rbind_def
  by (auto split: sum.splits prod.splits if_splits dest: fromhex_error der_tlv_error)

lemma spki_der_Inr_iff: "spki_der cu pt = Inr b \<longleftrightarrow> (\<exists>o1 o2 alg bits. tlv 6 EC_PUBKEY_OID = Inr o1 \<and> tlv 6 (cu_oid cu) = Inr o2 \<and>
    tlv 0x30 (o1 @ o2) = Inr alg \<and> tlv 3 (0 # pt) = Inr bits \<and> tlv 0x30 (alg @ bits) = Inr b)"
  by (auto simp: spki_der_def der_seq_def bitstr_def rbind_eq_Inr_iff)

lemma spki_read_iff:
  "spki_read cu h = Inr (Some p) \<longleftrightarrow> (\<exists>b pt. fromhex h = Inr b \<and> spki_der cu pt = Inr b \<and> length b < 65540 \<and> p = uhex pt)"
    (is "?l \<longleftrightarrow> ?r")
proof
  assume ?l
  then obtain b body alg j k pt where h: "fromhex h = Inr b" "der_tlv b 0 = Inr (0x30, body, length b)"
      "der_tlv body 0 = Inr (0x30, alg, j)" "der_tlv body j = Inr (3, 0 # pt, length body)"
      "der_tlv alg 0 = Inr (6, EC_PUBKEY_OID, k)" "der_tlv alg k = Inr (6, cu_oid cu, length alg)" "p = uhex pt"
    unfolding spki_read_Some by blast
  note ib = is_bytes_fromhex [OF h(1)]
  from h(2) der_tlv_whole [OF ib] have b: "tlv 0x30 body = Inr b" "length body < 65536" by auto
  note ibody = tlv_is_bytes [OF b(1) ib]
  from h(3,4) der_tlv_pair [OF ibody] obtain w1 w2 where w: "tlv 0x30 alg = Inr w1" "tlv 3 (0 # pt) = Inr w2" "body = w1 @ w2" by blast
  have ialg: "is_bytes alg" using tlv_is_bytes [OF w(1)] ibody w(3) by simp
  from h(5,6) der_tlv_pair [OF ialg] obtain o1 o2 where o: "tlv 6 EC_PUBKEY_OID = Inr o1" "tlv 6 (cu_oid cu) = Inr o2" "alg = o1 @ o2" by blast
  have "spki_der cu pt = Inr b" unfolding spki_der_Inr_iff using b w o by blast
  with h(1,7) b(2) tlv_bound [OF b(1)] show ?r by blast
next
  assume ?r
  then obtain b pt o1 o2 alg bits where h: "fromhex h = Inr b" "length b < 65540" "p = uhex pt"
      and o: "tlv 6 EC_PUBKEY_OID = Inr o1" "tlv 6 (cu_oid cu) = Inr o2" "tlv 0x30 (o1 @ o2) = Inr alg"
      and w: "tlv 3 (0 # pt) = Inr bits" "tlv 0x30 (alg @ bits) = Inr b"
    unfolding spki_der_Inr_iff by blast
  note ib = is_bytes_fromhex [OF h(1)]
  have body: "length (alg @ bits) < 65536" "is_bytes (alg @ bits)" using tlv_bound [OF w(2)] h(2) tlv_is_bytes [OF w(2) ib] by blast+
  then have io: "is_bytes (o1 @ o2)" using tlv_is_bytes [OF o(3)] by simp
  have len: "length (o1 @ o2) < 65536" "length (0 # pt) < 65536" "length EC_PUBKEY_OID < 65536" "length (cu_oid cu) < 65536"
    using body(1) tlv_shorter [OF o(3)] tlv_shorter [OF w(1)] tlv_shorter [OF o(1)] tlv_shorter [OF o(2)] by auto
  have "der_tlv b 0 = Inr (0x30, alg @ bits, length b)" using der_tlv_whole [OF ib] body w(2) by blast
  moreover have "der_tlv (alg @ bits) 0 = Inr (0x30, o1 @ o2, length alg) \<and> der_tlv (alg @ bits) (length alg) = Inr (3, 0 # pt, length (alg @ bits))"
    unfolding der_tlv_pair [OF body(2)] using len o(3) w(1) by blast
  moreover have "der_tlv (o1 @ o2) 0 = Inr (6, EC_PUBKEY_OID, length o1) \<and> der_tlv (o1 @ o2) (length o1) = Inr (6, cu_oid cu, length (o1 @ o2))"
    unfolding der_tlv_pair [OF io] using len o(1,2) by blast
  ultimately show ?l unfolding spki_read_Some using h(1,3) by blast
qed

text \<open>
  C32. The generators take a point out of a public key exactly when the key's octets are the strict DER of a
  \<open>SubjectPublicKeyInfo\<close> with \<open>id-ecPublicKey\<close>, the named curve and a whole number of octets, and the point is the one inside; every other
  text, hexadecimal or not, gives \<open>None\<close>.  No exception leaves the function.
\<close>

theorem spki_point_exact:
  "(spki_point cu h = Inr (Some p) \<longleftrightarrow> (\<exists>b pt. fromhex h = Inr b \<and> spki_der cu pt = Inr b \<and> length b < 65540 \<and> p = uhex pt)) \<and>
   (spki_point cu h = Inr None \<longleftrightarrow> \<not> (\<exists>b pt. fromhex h = Inr b \<and> spki_der cu pt = Inr b \<and> length b < 65540))"
proof -
  have some: "spki_point cu h = Inr (Some q) \<longleftrightarrow> spki_read cu h = Inr (Some q)" for q
    using spki_read_error [of cu h] by (cases "spki_read cu h") (auto simp: spki_point_def)
  have "\<exists>r. spki_point cu h = Inr r"
    using spki_read_error [of cu h] by (cases "spki_read cu h") (auto simp: spki_point_def)
  then have "spki_point cu h = Inr None \<longleftrightarrow> \<not> (\<exists>q. spki_point cu h = Inr (Some q))" by auto
  then show ?thesis unfolding some spki_read_iff by blast
qed

section \<open>Every row is kept or counted\<close>

lemma ecdsa_rows_count: "ecdsa_rows cu p ts = (rows, d) \<Longrightarrow> length rows + d = length ts \<and> (\<not> p \<longrightarrow> d = 0)"
  by (induction ts arbitrary: rows d) (auto split: prod.splits if_splits)

text \<open>The numbers in the header of the ECDSA file: rows kept and dropped are all the rows, and a DER file drops none.\<close>

theorem ecdsa_rows_accounted: "ecdsa_groups cu p sha gs = Inr (groups, kept, dropped) \<Longrightarrow>
    kept + dropped = sum_list (map (length \<circ> eg_tests) gs) \<and> (\<not> p \<longrightarrow> dropped = 0) \<and> kept = sum_list (map (length \<circ> snd) groups)"
proof (induction gs arbitrary: groups kept dropped)
  case (Cons g gs)
  obtain rows d where r: "ecdsa_rows cu p (eg_tests g) = (rows, d)" by (cases "ecdsa_rows cu p (eg_tests g)")
  with Cons.prems obtain groups' kept' dropped' where i: "ecdsa_groups cu p sha gs = Inr (groups', kept', dropped')"
    "groups = (if rows \<noteq> [] \<or> \<not> cu_skip_empty cu then (eg_key g, rows) # groups' else groups')" "kept = length rows + kept'" "dropped = d + dropped'"
    by (auto simp: rbind_eq_Inr_iff)
  from Cons.IH [OF i(1)] ecdsa_rows_count [OF r] i(2-4) show ?case by auto
qed simp

lemma length_ecdh_private: "ecdh_private cu v = Inr p \<Longrightarrow> length p = cu_digits cu"
  by (auto simp: ecdh_private_def rjust0_def py_assert_def rbind_eq_Inr_iff Let_def split: if_splits)

lemma ecdh_tests_count: "ecdh_tests cu ts = Inr (rows, d) \<Longrightarrow> length rows + d = length ts \<and>
    (\<forall>(i, p, priv, sh, res) \<in> set rows. length priv = cu_digits cu \<and> (\<exists>t \<in> set ts. spki_point cu (ht_public t) = Inr (Some p)))"
proof (induction ts arbitrary: rows d)
  case (Cons t ts)
  then obtain opt where o: "spki_point cu (ht_public t) = Inr opt" by (auto simp: rbind_eq_Inr_iff)
  show ?case
  proof (cases opt)
    case None
    with Cons.prems o obtain d' where "ecdh_tests cu ts = Inr (rows, d')" "d = d' + 1" by (auto simp: rbind_eq_Inr_iff)
    with Cons.IH [of rows d'] show ?thesis by fastforce
  next
    case (Some p)
    with Cons.prems o obtain priv rows' where i: "ecdh_private cu (ht_private t) = Inr priv" "ecdh_tests cu ts = Inr (rows', d)"
      "rows = (ht_id t, p, priv, ht_shared t, ht_result t) # rows'" by (auto simp: rbind_eq_Inr_iff)
    with Cons.IH [of rows' d] length_ecdh_private [OF i(1)] o Some show ?thesis by fastforce
  qed
qed simp

text \<open>The same for the ECDH file, whose private keys all come out at the width of the curve.\<close>

theorem ecdh_rows_accounted: "ecdh_rows cu gs = Inr (rows, d) \<Longrightarrow> length rows + d = sum_list (map (length \<circ> hg_tests) gs) \<and>
    (\<forall>(i, p, priv, sh, res) \<in> set rows. length priv = cu_digits cu)"
proof (induction gs arbitrary: rows d)
  case (Cons g gs)
  then obtain r1 d1 r2 d2 where i: "ecdh_tests cu (hg_tests g) = Inr (r1, d1)" "ecdh_rows cu gs = Inr (r2, d2)" "rows = r1 @ r2" "d = d1 + d2"
    by (auto simp: rbind_eq_Inr_iff)
  from Cons.IH [OF i(2)] ecdh_tests_count [OF i(1)] i(3,4) show ?case by fastforce
qed simp

section \<open>Reading a printed CAVP file\<close>

definition rsp_lines :: "rsp_record \<Rightarrow> ustr list" where
  "rsp_lines r = map (\<lambda>(k, v). k @ asc '' = '' @ v) r @ [[]]"

definition section_text :: "ustr \<times> rsp_record list \<Rightarrow> ustr list" where
  "section_text = (\<lambda>(n, recs). ([91] @ n @ [93]) # concat (map rsp_lines recs))"

definition good_field :: "ustr \<times> ustr \<Rightarrow> bool" where
  "good_field = (\<lambda>(k, v). k \<noteq> [] \<and> list_all (\<lambda>c. \<not> u_space c) k \<and> hd k \<noteq> 91 \<and> hd k \<noteq> 35 \<and> v \<noteq> [] \<and> \<not> u_space (last v))"

definition good_record :: "rsp_record \<Rightarrow> bool" where
  "good_record r \<longleftrightarrow> r \<noteq> [] \<and> distinct (map fst r) \<and> list_all good_field r"

lemma ustrip_inner: "s \<noteq> [] \<Longrightarrow> \<not> u_space (hd s) \<Longrightarrow> \<not> u_space (last s) \<Longrightarrow> ustrip s = s"
proof -
  assume s: "s \<noteq> []" "\<not> u_space (hd s)" "\<not> u_space (last s)"
  have "dropWhile u_space s = s" using s(1,2) by (cases s) auto
  moreover have "dropWhile u_space (rev s) = rev s" using s(1,3) by (cases s rule: rev_cases) auto
  ultimately show ?thesis by (simp add: ustrip_def ulstrip_def urstrip_def)
qed

lemma find_from_first:
  assumes "\<And>j. i \<le> j \<Longrightarrow> j < n \<Longrightarrow> take (length p) (drop j s) \<noteq> p" "take (length p) (drop n s) = p" "i \<le> n" "n + length p \<le> length s"
  shows "find_from p s i = Some n"
  using assms
proof (induction p s i rule: find_from.induct)
  case (1 p s i)
  show ?case
  proof (cases "i = n")
    case True
    with 1(3,5) show ?thesis by (simp add: find_from.simps)
  next
    case False
    with 1(4) have i: "i < n" by simp
    have l: "\<not> i + length p > length s" using i 1(5) by simp
    have ne: "take (length p) (drop i s) \<noteq> p" using 1(2) i by blast
    have "find_from p s (Suc i) = Some n" by (rule 1(1) [OF l ne]) (use 1 i in auto)
    with l ne show ?thesis by (simp add: find_from.simps [of p s i])
  qed
qed

lemma find_equals:
  assumes "list_all (\<lambda>c. \<not> u_space c) k"
  shows "find_from (asc '' = '') (k @ asc '' = '' @ v) 0 = Some (length k)"
proof (rule find_from_first)
  fix j
  assume j: "j < length k"
  then have "\<not> u_space (k ! j)" using assms by (simp add: list_all_length)
  then have "k ! j \<noteq> 32" by (auto simp: u_space_def)
  moreover have "drop j (k @ asc '' = '' @ v) = k ! j # drop (Suc j) k @ asc '' = '' @ v" using j by (simp add: Cons_nth_drop_Suc)
  ultimately show "take (length (asc '' = '')) (drop j (k @ asc '' = '' @ v)) \<noteq> asc '' = ''" by simp
qed simp_all

lemma section_line_field:
  assumes "good_field (k, v)" "k \<notin> fst ` set (ss_cur s)"
  shows "section_line s (k @ asc '' = '' @ v) = s \<lparr> ss_cur := ss_cur s @ [(k, v)] \<rparr>"
proof -
  let ?l = "k @ asc '' = '' @ v"
  from assms(1) obtain c k' where k: "k = c # k'" "c \<noteq> 91" "c \<noteq> 35" "\<not> u_space c" by (cases k) (auto simp: good_field_def)
  have "ustrip ?l = ?l" by (rule ustrip_inner) (use assms(1) k in \<open>auto simp: good_field_def\<close>)
  moreover have "find_from (asc '' = '') ?l 0 = Some (length k)" by (rule find_equals) (use assms(1) in \<open>simp add: good_field_def\<close>)
  moreover have "\<not> startswith ?l [91]" "\<not> startswith ?l [35]" using k by (simp_all add: startswith_def)
  moreover have "take (length k) ?l = k" "drop (length k + 3) ?l = v" by simp_all
  moreover have "?l \<noteq> []" by simp
  ultimately show ?thesis using assms(2) unfolding section_line_def Let_def by (simp only: option.case if_False simp_thms) (simp add: dict_set_new)
qed

lemma section_lines_record:
  "list_all good_field r \<Longrightarrow> distinct (map fst (ss_cur s @ r)) \<Longrightarrow>
    foldl section_line s (map (\<lambda>(k, v). k @ asc '' = '' @ v) r) = s \<lparr> ss_cur := ss_cur s @ r \<rparr>"
proof (induction r arbitrary: s)
  case (Cons f r)
  obtain k v where f: "f = (k, v)" by (cases f)
  have "section_line s (k @ asc '' = '' @ v) = s \<lparr> ss_cur := ss_cur s @ [(k, v)] \<rparr>"
    by (rule section_line_field) (use Cons.prems f in auto)
  with Cons.IH [of "s \<lparr> ss_cur := ss_cur s @ [(k, v)] \<rparr>"] Cons.prems f show ?case by simp
qed simp

lemma section_lines_records:
  "list_all good_record rs \<Longrightarrow> ss_cur s = [] \<Longrightarrow>
    foldl section_line s (concat (map rsp_lines rs)) = s \<lparr> ss_recs := ss_recs s @ rs \<rparr>"
proof (induction rs arbitrary: s)
  case (Cons r rs)
  have r: "foldl section_line s (map (\<lambda>(k, v). k @ asc '' = '' @ v) r) = s \<lparr> ss_cur := r \<rparr>"
    using section_lines_record [of r s] Cons.prems by (simp add: good_record_def)
  have e: "section_line t [] = flush_record t" for t
    by (simp add: section_line_def startswith_def ustrip_def ulstrip_def urstrip_def)
  have "foldl section_line s (rsp_lines r) = s \<lparr> ss_recs := ss_recs s @ [r] \<rparr>"
    using Cons.prems r by (simp add: rsp_lines_def e flush_record_def good_record_def)
  with Cons.IH [of "s \<lparr> ss_recs := ss_recs s @ [r] \<rparr>"] Cons.prems show ?case by simp
qed simp

lemma section_line_head:
  "ss_cur s = [] \<Longrightarrow> section_line s ([91] @ n @ [93]) = (yield_section s) \<lparr> ss_sec := Some n, ss_recs := [] \<rparr>"
proof -
  assume "ss_cur s = []"
  moreover have "ustrip ([91] @ n @ [93]) = [91] @ n @ [93]" by (rule ustrip_inner) (simp_all add: u_space_def)
  moreover have "endswith ([91] @ n @ [93]) [93]" by (simp add: endswith_def)
  ultimately show ?thesis by (simp add: section_line_def startswith_def flush_record_def slice_def)
qed

lemma section_lines_sections:
  "list_all (\<lambda>(n, rs). list_all good_record rs) secs \<Longrightarrow> ss_cur s = [] \<Longrightarrow>
    ss_out (yield_section (flush_record (foldl section_line s (concat (map section_text secs))))) = ss_out (yield_section s) @ secs"
proof (induction secs arbitrary: s)
  case Nil
  then show ?case by (simp add: flush_record_def)
next
  case (Cons sec secs)
  obtain n rs where sec: "sec = (n, rs)" by (cases sec)
  define t where "t = (yield_section s) \<lparr> ss_sec := Some n, ss_recs := rs \<rparr>"
  have c: "ss_cur (yield_section s) = []" using Cons.prems(2) by (simp add: yield_section_def split: option.splits)
  have "foldl section_line s (section_text sec) = t"
    using section_lines_records [of rs "(yield_section s) \<lparr> ss_sec := Some n, ss_recs := [] \<rparr>"] section_line_head [OF Cons.prems(2), of n] Cons.prems sec c
    by (simp add: section_text_def t_def)
  moreover have "ss_out (yield_section t) = ss_out (yield_section s) @ [(n, rs)]" by (simp add: t_def yield_section_def)
  moreover have "ss_cur t = []" using c by (simp add: t_def)
  ultimately show ?case using Cons.IH [of t] Cons.prems(1) sec by simp
qed

text \<open>A CAVP file of sections of records with distinct keys, each followed by a blank line, is read back.\<close>

theorem sections_roundtrip:
  "list_all (\<lambda>(n, rs). list_all good_record rs) secs \<Longrightarrow> sections (concat (map section_text secs)) = secs"
  using section_lines_sections [of secs "\<lparr> ss_out = [], ss_sec = None, ss_recs = [], ss_cur = [] \<rparr>"]
  by (simp add: sections_def yield_section_def)

text \<open>A field with an empty value is not read: the stripped line has no separator left.\<close>

theorem empty_value_lost: "sections [asc ''[P-256,SHA-1]'', asc ''Msg = '', asc ''R = 1''] = [(asc ''P-256,SHA-1'', [[(asc ''R'', asc ''1'')]])]"
  by code_simp

end
