(* ===== verification/CertFixtures.thy ===== *)
theory CertFixtures
  imports CurveVectors
begin

text \<open>
  The certificates of \<open>modules/x509/tools/gen_names_fixtures.py\<close> (general names, extensions, names, signing, chains with their running serial
  number) and the re-signed revocation lists of \<open>gen_crl_fixtures.py\<close>.  Keys and signatures come from the \<open>cryptography\<close> package: the DER of a
  public key, SHA-1 of it and the signature of an octet string are arguments.
\<close>

section \<open>Addresses\<close>

text \<open>\<open>ipaddress.ip_address(v).packed\<close>: four decimal octets without leading zeros, or eight hexadecimal groups with at most one \<open>::\<close> and an
  optional dotted tail and scope.\<close>

definition ipv4_octet :: "ustr \<Rightarrow> int result" where
  "ipv4_octet s = (if s = [] \<or> \<not> list_all u_digit s \<or> length s > 3 \<or> (length s > 1 \<and> hd s = 48) then Inl ValueError
     else rbind (parse_int s) (\<lambda>v. if v > 255 then Inl ValueError else Inr v))"

definition ipv4_packed :: "ustr \<Rightarrow> bytes result" where
  "ipv4_packed s = (let parts = usplit CHR ''.'' s in if length parts \<noteq> 4 then Inl ValueError else rmap ipv4_octet parts)"

definition hextet :: "ustr \<Rightarrow> bytes result" where
  "hextet s = (if s = [] \<or> length s > 4 \<or> list_ex (\<lambda>c. hexval c = None) s then Inl ValueError
     else (let v = foldl (\<lambda>a c. 16 * a + the (hexval c)) 0 s in Inr [v div 256, v mod 256]))"

text \<open>The groups of a text with the dotted tail replaced: each entry is its text or, for the tail, two octets.\<close>

definition v6_parts :: "ustr \<Rightarrow> (ustr + bytes) list result" where
  "v6_parts s = (let parts = usplit CHR '':'' s in
     if length parts < 3 then Inl ValueError
     else if 46 \<in> set (last parts)
     then rbind (ipv4_packed (last parts)) (\<lambda>q. Inr (map Inl (butlast parts) @ [Inr (take 2 q), Inr (drop 2 q)]))
     else Inr (map Inl parts))"

definition v6_group :: "ustr + bytes \<Rightarrow> bytes result" where
  "v6_group p = (case p of Inl s \<Rightarrow> hextet s | Inr q \<Rightarrow> Inr q)"

definition v6_strip_scope :: "ustr \<Rightarrow> ustr result" where
  "v6_strip_scope s = (case usplit CHR ''%'' s of [a] \<Rightarrow> Inr a | [a, sc] \<Rightarrow> if sc = [] then Inl ValueError else Inr a | _ \<Rightarrow> Inl ValueError)"

definition ipv6_packed :: "ustr \<Rightarrow> bytes result" where
  "ipv6_packed s =
     (if 47 \<in> set s then Inl ValueError else rbind (v6_strip_scope s) (\<lambda>a. rbind (v6_parts a) (\<lambda>parts.
      if length parts > 9 then Inl ValueError
      else (let n = length parts; gaps = filter (\<lambda>i. parts ! i = Inl []) [1..<n - 1] in
        case gaps of
          [] \<Rightarrow> if n \<noteq> 8 \<or> parts ! 0 = Inl [] \<or> last parts = Inl [] then Inl ValueError
               else rbind (rmap v6_group parts) (\<lambda>gs. Inr (concat gs))
        | [k] \<Rightarrow> (let hi = k; lo = n - k - 1; hi' = (if parts ! 0 = Inl [] then hi - 1 else hi); lo' = (if last parts = Inl [] then lo - 1 else lo) in
             if (parts ! 0 = Inl [] \<and> hi' \<noteq> 0) \<or> (last parts = Inl [] \<and> lo' \<noteq> 0) then Inl ValueError
             else if 8 < hi' + lo' + 1 then Inl ValueError
             else rbind (rmap v6_group (take hi' parts)) (\<lambda>h. rbind (rmap v6_group (drop (n - lo') parts)) (\<lambda>l.
               Inr (concat h @ replicate (2 * (8 - (hi' + lo'))) 0 @ concat l))))
        | _ \<Rightarrow> Inl ValueError))))"

text \<open>A general name's value is a text, or the octets of a directory name.\<close>

datatype gn_value = GnText ustr | GnDer bytes

definition ip_packed :: "gn_value \<Rightarrow> bytes result" where
  "ip_packed v = (case v of
     GnText s \<Rightarrow> (case ipv4_packed s of Inr b \<Rightarrow> Inr b | Inl _ \<Rightarrow> (case ipv6_packed s of Inr b \<Rightarrow> Inr b | Inl _ \<Rightarrow> Inl ValueError))
   | GnDer b \<Rightarrow> if length b = 4 \<or> length b = 16 then Inr b else Inl ValueError)"

section \<open>General names and extensions\<close>

definition gn :: "int \<times> gn_value \<Rightarrow> bytes result" where
  "gn = (\<lambda>(kind, v).
     if kind = 7 then rbind (ip_packed v) (\<lambda>b. ctxp 7 b)
     else if kind = 4 then (case v of GnDer d \<Rightarrow> ctx 4 d | GnText _ \<Rightarrow> Inl TypeError)
     else (case v of GnText s \<Rightarrow> rbind (py_encode s) (\<lambda>b. ctxp kind b) | GnDer _ \<Rightarrow> Inl AttributeError))"

type_synonym extension = "ustr \<times> bool \<times> bytes"

definition O_BC :: ustr where "O_BC = asc ''2.5.29.19''"
definition O_KU :: ustr where "O_KU = asc ''2.5.29.15''"
definition O_EKU :: ustr where "O_EKU = asc ''2.5.29.37''"
definition O_SAN :: ustr where "O_SAN = asc ''2.5.29.17''"
definition O_NC :: ustr where "O_NC = asc ''2.5.29.30''"
definition O_CP :: ustr where "O_CP = asc ''2.5.29.32''"
definition O_PM :: ustr where "O_PM = asc ''2.5.29.33''"
definition O_PC :: ustr where "O_PC = asc ''2.5.29.36''"
definition O_IAP :: ustr where "O_IAP = asc ''2.5.29.54''"
definition O_SKI :: ustr where "O_SKI = asc ''2.5.29.14''"
definition O_AKI :: ustr where "O_AKI = asc ''2.5.29.35''"
definition O_AIA :: ustr where "O_AIA = asc ''1.3.6.1.5.5.7.1.1''"
definition O_SDA :: ustr where "O_SDA = asc ''2.5.29.9''"
definition O_POISON :: ustr where "O_POISON = asc ''1.3.6.1.4.1.11129.2.4.3''"
definition O_UNK :: ustr where "O_UNK = asc ''1.3.6.1.4.1.99999.1''"

definition EKU_OID :: "(string \<times> ustr) list" where
  "EKU_OID = [(''server'', asc ''1.3.6.1.5.5.7.3.1''), (''client'', asc ''1.3.6.1.5.5.7.3.2''), (''any'', asc ''2.5.29.37.0'')]"

text \<open>\<open>ext(o, crit, val)\<close> with a value that was computed before.\<close>

definition ext_of :: "ustr \<Rightarrow> bool \<Rightarrow> bytes result \<Rightarrow> extension result" where
  "ext_of o1 crit val = rbind val (\<lambda>v. Inr (o1, crit, v))"

text \<open>\<open>seq(*[f(x) for x in xs])\<close>\<close>

definition seq_of :: "('a \<Rightarrow> bytes result) \<Rightarrow> 'a list \<Rightarrow> bytes result" where
  "seq_of f xs = rbind (rmap f xs) der_seq"

definition x_bc :: "bool \<Rightarrow> int option \<Rightarrow> bool \<Rightarrow> extension result" where
  "x_bc ca pathlen crit = ext_of O_BC crit
     (rbind (if ca then boolean True else Inr []) (\<lambda>a. rbind (case pathlen of None \<Rightarrow> Inr [] | Some n \<Rightarrow> der_integer n) (\<lambda>b. der_seq [a @ b])))"

definition KU_NAMES :: "string list" where
  "KU_NAMES = [''digitalSignature'', ''contentCommitment'', ''keyEncipherment'', ''dataEncipherment'', ''keyAgreement'',
     ''keyCertSign'', ''cRLSign'', ''encipherOnly'', ''decipherOnly'']"

definition index_of :: "'a list \<Rightarrow> 'a \<Rightarrow> nat result" where
  "index_of xs x = (if x \<in> set xs then Inr (length (takeWhile (\<lambda>y. y \<noteq> x) xs)) else Inl ValueError)"

definition ku_set :: "bytes \<Rightarrow> nat \<Rightarrow> bytes" where
  "ku_set raw i = raw[i div 8 := raw ! (i div 8) OR drop_bit (i mod 8) 0x80]"

definition x_ku :: "string list \<Rightarrow> bool \<Rightarrow> extension result" where
  "x_ku bits crit = rbind (rmap (index_of KU_NAMES) bits) (\<lambda>is.
     (let top = foldl max 0 is; raw = foldl ku_set (replicate (if top \<ge> 8 then 2 else 1) 0) is in
      ext_of O_KU crit (bitstr raw (7 - int (top mod 8)))))"

definition x_eku :: "string list \<Rightarrow> bool \<Rightarrow> extension result" where
  "x_eku kinds crit = ext_of O_EKU crit (seq_of (\<lambda>k. rbind (dict_get EKU_OID k) oid) kinds)"

definition x_san :: "(int \<times> gn_value) list \<Rightarrow> bool \<Rightarrow> ustr \<Rightarrow> extension result" where
  "x_san names crit o1 = ext_of o1 crit (seq_of gn names)"

definition subtrees :: "int \<Rightarrow> (int \<times> gn_value) list \<Rightarrow> bytes result" where
  "subtrees n names = (if names = [] then Inr []
     else rbind (rmap (\<lambda>x. rbind (gn x) (\<lambda>g. der_seq [g])) names) (\<lambda>gs. ctx n (concat gs)))"

definition x_nc :: "(int \<times> gn_value) list \<Rightarrow> (int \<times> gn_value) list \<Rightarrow> bool \<Rightarrow> extension result" where
  "x_nc permitted excluded crit = ext_of O_NC crit
     (rbind (subtrees 0 permitted) (\<lambda>p. rbind (subtrees 1 excluded) (\<lambda>e. der_seq [p @ e])))"

definition x_certpol :: "ustr list \<Rightarrow> bool \<Rightarrow> extension result" where
  "x_certpol oids crit = ext_of O_CP crit (seq_of (\<lambda>x. rbind (oid x) (\<lambda>d. der_seq [d])) oids)"

definition x_polmap :: "ustr \<Rightarrow> ustr \<Rightarrow> bool \<Rightarrow> extension result" where
  "x_polmap a b crit = ext_of O_PM crit (rbind (oid a) (\<lambda>x. rbind (oid b) (\<lambda>y. rbind (der_seq [x, y]) (\<lambda>z. der_seq [z]))))"

definition small_ctxp :: "int \<Rightarrow> int option \<Rightarrow> bytes result" where
  "small_ctxp n v = (case v of None \<Rightarrow> Inr [] | Some x \<Rightarrow> rbind (mk_bytes [x]) (\<lambda>b. ctxp n b))"

definition x_polcons :: "int option \<Rightarrow> int option \<Rightarrow> bool \<Rightarrow> extension result" where
  "x_polcons require inhibit crit = ext_of O_PC crit
     (rbind (small_ctxp 0 require) (\<lambda>a. rbind (small_ctxp 1 inhibit) (\<lambda>b. der_seq [a @ b])))"

definition x_inhibit_any :: "int \<Rightarrow> bool \<Rightarrow> extension result" where
  "x_inhibit_any n crit = ext_of O_IAP crit (der_integer n)"

definition x_crldp :: "ustr \<Rightarrow> bool \<Rightarrow> extension result" where
  "x_crldp o1 crit = ext_of o1 crit
     (rbind (gn (6, GnText (asc ''http://crl.example.test/x.crl''))) (\<lambda>g. rbind (ctx 0 g) (\<lambda>a. rbind (ctx 0 a) (\<lambda>b.
       rbind (der_seq [b]) (\<lambda>c. der_seq [c])))))"

definition x_aia :: "bool \<Rightarrow> extension result" where
  "x_aia crit = ext_of O_AIA crit
     (rbind (oid (asc ''1.3.6.1.5.5.7.48.2'')) (\<lambda>a. rbind (gn (6, GnText (asc ''http://ca.example.test/ca.cer''))) (\<lambda>b.
       rbind (der_seq [a, b]) (\<lambda>c. der_seq [c]))))"

definition x_sda :: "bool \<Rightarrow> extension result" where
  "x_sda crit = ext_of O_SDA crit
     (rbind (oid (asc ''1.3.6.1.5.5.7.9.4'')) (\<lambda>a. rbind (prtstr (asc ''CZ'')) (\<lambda>p. rbind (sset [p]) (\<lambda>b.
       rbind (der_seq [a, b]) (\<lambda>c. der_seq [c])))))"

definition x_poison :: "bool \<Rightarrow> extension result" where
  "x_poison crit = ext_of O_POISON crit der_null"

definition x_unknown :: "bool \<Rightarrow> extension result" where
  "x_unknown crit = ext_of O_UNK crit der_null"

text \<open>\<open>keyid\<close>: SHA-1, an argument, of the public key's DER.\<close>

definition keyid :: "(bytes \<Rightarrow> bytes) \<Rightarrow> ('key \<Rightarrow> bytes) \<Rightarrow> 'key \<Rightarrow> bytes" where
  "keyid sha1 spki key = sha1 (spki key)"

definition x_ski :: "(bytes \<Rightarrow> bytes) \<Rightarrow> ('key \<Rightarrow> bytes) \<Rightarrow> 'key \<Rightarrow> bool \<Rightarrow> extension result" where
  "x_ski sha1 spki key crit = ext_of O_SKI crit (octets (keyid sha1 spki key))"

definition x_aki :: "(bytes \<Rightarrow> bytes) \<Rightarrow> ('key \<Rightarrow> bytes) \<Rightarrow> 'key \<Rightarrow> bool \<Rightarrow> extension result" where
  "x_aki sha1 spki key crit = ext_of O_AKI crit (rbind (ctxp 0 (keyid sha1 spki key)) (\<lambda>a. der_seq [a]))"

definition ext_der :: "extension \<Rightarrow> bytes result" where
  "ext_der = (\<lambda>(o1, crit, val).
     rbind (oid o1) (\<lambda>a. rbind (if crit then boolean True else Inr []) (\<lambda>b. rbind (octets val) (\<lambda>c. der_seq [a, b, c]))))"

text \<open>\<open>put\<close>: \<open>out.insert(i, e)\<close> on the list without the replaced extension.\<close>

definition put :: "extension list \<Rightarrow> extension \<Rightarrow> extension list" where
  "put exts e = (let out = filter (\<lambda>x. fst x \<noteq> fst e) exts;
       i = (if fst e \<in> set (map fst exts) then length (takeWhile (\<lambda>y. y \<noteq> fst e) (map fst exts)) else length out) in
     take i out @ [e] @ drop i out)"

section \<open>Names, signing, certificates\<close>

definition rdn :: "string \<Rightarrow> bytes result \<Rightarrow> bytes result" where
  "rdn o1 v = rbind (oid (asc o1)) (\<lambda>a. rbind v (\<lambda>b. rbind (der_seq [a, b]) (\<lambda>c. sset [c])))"

text \<open>\<open>if cn\<close>: neither \<open>None\<close> nor the empty text gives a component.\<close>

definition dn :: "ustr option \<Rightarrow> ustr option \<Rightarrow> bytes result" where
  "dn cn email =
     rbind (case cn of None \<Rightarrow> Inr [] | Some s \<Rightarrow> if s = [] then Inr [] else rbind (rdn ''2.5.4.3'' (utf8str s)) (\<lambda>r. Inr [r])) (\<lambda>a.
     rbind (case email of None \<Rightarrow> Inr [] | Some s \<Rightarrow> if s = [] then Inr [] else rbind (rdn ''1.2.840.113549.1.9.1'' (ia5 s)) (\<lambda>r. Inr [r])) (\<lambda>b.
     der_seq (a @ b)))"

text \<open>The dictionary evaluates all four entries before it looks one up.\<close>

definition sigalg :: "string \<Rightarrow> bytes result" where
  "sigalg scheme =
     rbind (rbind (oid (asc ''1.2.840.10045.4.3.2'')) (\<lambda>a. der_seq [a])) (\<lambda>ec256.
     rbind (rbind (oid (asc ''1.2.840.10045.4.1'')) (\<lambda>a. der_seq [a])) (\<lambda>ecsha1.
     rbind (rbind (oid (asc ''1.2.840.113549.1.1.11'')) (\<lambda>a. rbind der_null (\<lambda>n. der_seq [a, n]))) (\<lambda>rsa256.
     rbind (rbind (oid (asc ''1.2.840.113549.1.1.5'')) (\<lambda>a. rbind der_null (\<lambda>n. der_seq [a, n]))) (\<lambda>rsa1.
       dict_get [(''ec256'', ec256), (''ecsha1'', ecsha1), (''rsa256'', rsa256), (''rsa1'', rsa1)] scheme))))"

datatype sig_kind = EcdsaSha256 | EcdsaSha1 | RsaSha256 | RsaSha1

text \<open>\<open>sign\<close>: the primitive it calls, with the last one for every other scheme.\<close>

definition sign_kind :: "string \<Rightarrow> sig_kind" where
  "sign_kind scheme = (if scheme = ''ec256'' then EcdsaSha256 else if scheme = ''ecsha1'' then EcdsaSha1
     else if scheme = ''rsa256'' then RsaSha256 else RsaSha1)"

text \<open>What the \<open>cryptography\<close> package does with a key.\<close>

record 'key crypto =
  cr_spki :: "'key \<Rightarrow> bytes"
  cr_sign :: "'key \<Rightarrow> sig_kind \<Rightarrow> bytes \<Rightarrow> bytes"

record cert_kw =
  kw_serial :: "int option"
  kw_serial_der :: "bytes option"
  kw_nb :: datetime
  kw_na :: datetime
  kw_version :: int
  kw_sigalg_der :: "bytes option"

definition default_kw :: cert_kw where
  "default_kw = \<lparr> kw_serial = None, kw_serial_der = None,
     kw_nb = \<lparr> dt_year = 2025, dt_month = 1, dt_day = 1, dt_hour = 0, dt_minute = 0, dt_second = 0 \<rparr>,
     kw_na = \<lparr> dt_year = 2035, dt_month = 1, dt_day = 1, dt_hour = 0, dt_minute = 0, dt_second = 0 \<rparr>,
     kw_version = 3, kw_sigalg_der = None \<rparr>"

record 'key cert_req =
  rq_subject :: bytes
  rq_key :: 'key
  rq_issuer :: bytes
  rq_signer :: 'key
  rq_scheme :: string
  rq_exts :: "extension list option"
  rq_kw :: cert_kw

text \<open>The serial number, and the counter \<open>_serial[0]\<close> after the call.\<close>

definition next_serial :: "cert_kw \<Rightarrow> int \<Rightarrow> bytes result \<times> int" where
  "next_serial kw st = (case kw_serial_der kw of Some d \<Rightarrow> (Inr d, st)
     | None \<Rightarrow> (case kw_serial kw of Some n \<Rightarrow> (der_integer n, st) | None \<Rightarrow> (der_integer (st + 1), st + 1)))"

definition version_part :: "cert_kw \<Rightarrow> bytes list result" where
  "version_part kw = (if kw_version kw = 3 then rbind (der_integer 2) (\<lambda>i. rbind (ctx 0 i) (\<lambda>v. Inr [v])) else Inr [])"

definition validity :: "cert_kw \<Rightarrow> bytes result" where
  "validity kw = rbind (utctime (kw_nb kw)) (\<lambda>a. rbind (utctime (kw_na kw)) (\<lambda>b. der_seq [a, b]))"

definition exts_part :: "extension list option \<Rightarrow> bytes list result" where
  "exts_part exts = (case exts of None \<Rightarrow> Inr []
     | Some es \<Rightarrow> if es = [] then Inr [] else rbind (seq_of ext_der es) (\<lambda>s. rbind (ctx 3 s) (\<lambda>x. Inr [x])))"

definition tbs_der :: "'key crypto \<Rightarrow> 'key cert_req \<Rightarrow> bytes \<Rightarrow> bytes \<Rightarrow> bytes result" where
  "tbs_der cr rq serial_der sa =
     rbind (version_part (rq_kw rq)) (\<lambda>v. rbind (validity (rq_kw rq)) (\<lambda>w. rbind (exts_part (rq_exts rq)) (\<lambda>x.
       der_seq (v @ [serial_der, sa, rq_issuer rq, w, rq_subject rq, cr_spki cr (rq_key rq)] @ x))))"

definition make_cert :: "'key crypto \<Rightarrow> 'key cert_req \<Rightarrow> int \<Rightarrow> bytes result \<times> int" where
  "make_cert cr rq st = (case next_serial (rq_kw rq) st of (sd, st') \<Rightarrow>
     (rbind sd (\<lambda>serial_der.
      rbind (case kw_sigalg_der (rq_kw rq) of Some d \<Rightarrow> Inr d | None \<Rightarrow> sigalg (rq_scheme rq)) (\<lambda>sa.
      rbind (tbs_der cr rq serial_der sa) (\<lambda>tbs.
      rbind (bitstr (cr_sign cr (rq_signer rq) (sign_kind (rq_scheme rq)) tbs) 0) (\<lambda>sig. der_seq [tbs, sa, sig])))), st'))"

section \<open>Chains\<close>

definition ca_exts :: "int option \<Rightarrow> extension list result" where
  "ca_exts pathlen = rbind (x_bc True pathlen True) (\<lambda>a. rbind (x_ku [''keyCertSign'', ''cRLSign''] True) (\<lambda>b. Inr [a, b]))"

definition leaf_exts :: "(int \<times> gn_value) list \<Rightarrow> extension list result" where
  "leaf_exts names = (if names = [] then rbind (x_ku [''digitalSignature''] True) (\<lambda>b. Inr [b])
     else rbind (x_san names False O_SAN) (\<lambda>a. rbind (x_ku [''digitalSignature''] True) (\<lambda>b. Inr [a, b])))"

record 'key chain_req =
  ch_root_exts :: "extension list option"
  ch_inter_exts :: "extension list option"
  ch_leaf_exts :: "extension list option"
  ch_keys :: "'key \<times> 'key \<times> 'key"
  ch_schemes :: "string \<times> string \<times> string"
  ch_kws :: "cert_kw \<times> cert_kw \<times> cert_kw"
  ch_no_inter :: bool
  ch_leaf_dn :: bytes

record cert_chain =
  cc_roots :: "bytes list"
  cc_inters :: "bytes list"
  cc_leaf :: bytes

text \<open>Calls that take the counter one after the other; the first exception ends them.\<close>

fun make_certs :: "'key crypto \<Rightarrow> 'key cert_req list \<Rightarrow> int \<Rightarrow> bytes list result \<times> int" where
  "make_certs cr [] st = (Inr [], st)"
| "make_certs cr (rq # rqs) st = (case make_cert cr rq st of
     (Inl e, st') \<Rightarrow> (Inl e, st')
   | (Inr c, st') \<Rightarrow> (case make_certs cr rqs st' of (Inl e, st'') \<Rightarrow> (Inl e, st'') | (Inr cs, st'') \<Rightarrow> (Inr (c # cs), st'')))"

text \<open>The names are computed when the script is loaded.\<close>

definition chain_certs :: "bytes \<Rightarrow> bytes \<Rightarrow> 'key chain_req \<Rightarrow> extension list \<Rightarrow> extension list \<Rightarrow> extension list \<Rightarrow> 'key cert_req list" where
  "chain_certs ROOT_DN INTER_DN ch rx ix lx =
     (case (ch_keys ch, ch_schemes ch, ch_kws ch) of ((kr, ki, kl), (sr, si, sl), (wr, wi, wl)) \<Rightarrow>
       (let root = \<lparr> rq_subject = ROOT_DN, rq_key = kr, rq_issuer = ROOT_DN, rq_signer = kr, rq_scheme = sr, rq_exts = Some rx, rq_kw = wr \<rparr>;
            inter = \<lparr> rq_subject = INTER_DN, rq_key = ki, rq_issuer = ROOT_DN, rq_signer = kr, rq_scheme = si, rq_exts = Some ix, rq_kw = wi \<rparr>;
            leaf = (\<lambda>i k. \<lparr> rq_subject = ch_leaf_dn ch, rq_key = kl, rq_issuer = i, rq_signer = k, rq_scheme = sl, rq_exts = Some lx, rq_kw = wl \<rparr>) in
        if ch_no_inter ch then [root, leaf ROOT_DN kr] else [root, inter, leaf INTER_DN ki]))"

definition chain :: "'key crypto \<Rightarrow> bytes \<Rightarrow> bytes \<Rightarrow> 'key chain_req \<Rightarrow> int \<Rightarrow> cert_chain result \<times> int" where
  "chain cr ROOT_DN INTER_DN ch st =
     (case rbind (case ch_root_exts ch of Some x \<Rightarrow> Inr x | None \<Rightarrow> ca_exts None) (\<lambda>rx.
           rbind (case ch_inter_exts ch of Some x \<Rightarrow> Inr x | None \<Rightarrow> ca_exts None) (\<lambda>ix.
           rbind (case ch_leaf_exts ch of Some x \<Rightarrow> Inr x | None \<Rightarrow> leaf_exts [(2, GnText (asc ''example.com''))]) (\<lambda>lx. Inr (rx, ix, lx)))) of
        Inl e \<Rightarrow> (Inl e, st)
      | Inr (rx, ix, lx) \<Rightarrow> (case make_certs cr (chain_certs ROOT_DN INTER_DN ch rx ix lx) st of
          (r, st') \<Rightarrow> (rbind r (\<lambda>cs. Inr \<lparr> cc_roots = [cs ! 0], cc_inters = (if ch_no_inter ch then [] else [cs ! 1]), cc_leaf = last cs \<rparr>), st')))"

section \<open>Re-signed revocation lists\<close>

text \<open>The field elements of \<open>tbsCertList\<close>, by the lenient reader; a slice past the end is clipped.\<close>

lemma der_read_advances: "der_read b i = Inr (t, fh, fl) \<Longrightarrow> 0 < fh + fl"
  by (auto simp: der_read_def Let_def split: if_splits)

function crl_fields :: "bytes \<Rightarrow> nat \<Rightarrow> bytes list result" where
  "crl_fields body i = (if i < length body
     then (case der_read body i of Inl e \<Rightarrow> Inl e
       | Inr (t, fh, fl) \<Rightarrow> rbind (crl_fields body (i + fh + fl)) (\<lambda>fs. Inr (slice i (i + fh + fl) body # fs)))
     else Inr [])"
  by pat_completeness auto
termination
proof (relation "measure (\<lambda>(b, i). length b - i)", goal_cases)
  case (2 b i x t y fh fl)
  then have "der_read b i = Inr (t, fh, fl)" by simp
  from der_read_advances [OF this] have "i < i + fh + fl" by simp
  with 2(1) show ?case by (simp add: diff_less_mono2)
qed simp

declare crl_fields.simps [simp del]

definition resign :: "(bytes \<Rightarrow> bytes) \<Rightarrow> bytes \<Rightarrow> (bytes list \<Rightarrow> bytes list result) \<Rightarrow> bytes result" where
  "resign sign crl_der edit =
     rbind (der_read crl_der 0) (\<lambda>(_, h, _).
     rbind (der_read crl_der h) (\<lambda>(_, th, tl).
     rbind (crl_fields (slice (h + th) (h + th + tl) crl_der) 0) (\<lambda>flds.
     rbind (edit flds) (\<lambda>flds'.
     rbind (tlv 0x30 (concat flds')) (\<lambda>new_tbs.
     (let rest = drop (h + th + tl) crl_der in
      rbind (der_read rest 0) (\<lambda>(_, ah, al).
      rbind (tlv 0x03 ([0] @ sign new_tbs)) (\<lambda>sig. tlv 0x30 (new_tbs @ take (ah + al) rest @ sig)))))))))"

text \<open>\<open>drop_next_update\<close> has the same steps with this edit.\<close>

definition without_next_update :: "bytes list \<Rightarrow> bytes list result" where
  "without_next_update flds = (if length flds \<le> 4 then Inl IndexError
     else if flds ! 4 = [] then Inl IndexError
     else rbind (py_assert (hd (flds ! 4) = 0x17 \<or> hd (flds ! 4) = 0x18)) (\<lambda>_. Inr (take 4 flds @ drop 5 flds)))"

definition drop_next_update :: "(bytes \<Rightarrow> bytes) \<Rightarrow> bytes \<Rightarrow> bytes result" where
  "drop_next_update sign crl_der = resign sign crl_der without_next_update"

text \<open>The two edits of the fixtures: a version that does not exist, and an algorithm without its parameters.\<close>

definition bad_version :: "bytes list \<Rightarrow> bytes list result" where
  "bad_version f = rbind (tlv 0x02 [2]) (\<lambda>v. Inr (v # drop 1 f))"

definition alg_mismatch :: "bytes list \<Rightarrow> bytes list result" where
  "alg_mismatch f = (if f = [] then Inl IndexError
     else rbind (tlv 0x06 [0x2A, 0x86, 0x48, 0x86, 0xF7, 0x0D, 0x01, 0x01, 0x0B]) (\<lambda>o1. rbind (tlv 0x30 o1) (\<lambda>alg. Inr (hd f # alg # drop 2 f))))"

section \<open>Reading and re-signing\<close>

lemma nth_behind: "(pre @ x # xs) ! length pre = x"
  by simp

lemma der_read_written:
  assumes "length v < 65536"
  shows "der_read (pre @ (tag # len_octets (length v) @ v) @ post) (length pre) = Inr (tag, 1 + length (len_octets (length v)), length v)"
proof -
  consider "length v < 128" | "128 \<le> length v" "length v < 256" | "256 \<le> length v" by linarith
  then show ?thesis
  proof cases
    case 1
    then show ?thesis by (simp add: der_read_def len_octets_def nth_append)
  next
    case 2
    then show ?thesis by (simp add: der_read_def len_octets_def nth_append slice_def from_be_def Let_def numeral_2_eq_2)
  next
    case 3
    have "nat (int (length v) mod 256 + 256 * (int (length v) div 256)) = length v" by simp
    with 3 show ?thesis by (simp add: der_read_def len_octets_def nth_append slice_def from_be_def Let_def numeral_2_eq_2)
  qed
qed

text \<open>An element with a content below 65536 octets.\<close>

definition element :: "bytes \<Rightarrow> bool" where
  "element w \<longleftrightarrow> (\<exists>tag v. length v < 65536 \<and> tlv tag v = Inr w)"

lemma elementE:
  assumes "element w"
  obtains tag v where "length v < 65536" "tlv tag v = Inr w" "w = tag # len_octets (length v) @ v"
  using assms unfolding element_def by (metis tlv_eq_Inr_iff)

lemma der_read_element:
  assumes "element w"
  obtains t h l where "der_read (pre @ w @ post) (length pre) = Inr (t, h, l)" "h + l = length w" "0 < length w"
proof -
  from assms obtain tag v where v: "length v < 65536" "w = tag # len_octets (length v) @ v" by (rule elementE)
  show ?thesis by (rule that [of tag "1 + length (len_octets (length v))" "length v"]) (use v der_read_written [OF v(1), of pre tag post] in simp_all)
qed

lemma crl_fields_elements:
  "list_all element ws \<Longrightarrow> crl_fields (pre @ concat ws) (length pre) = Inr ws"
proof (induction ws arbitrary: pre)
  case Nil
  then show ?case by (simp add: crl_fields.simps)
next
  case (Cons w ws)
  then have "element w" by simp
  then obtain t h l where r: "der_read (pre @ w @ concat ws) (length pre) = Inr (t, h, l)" "h + l = length w" "0 < length w"
    by (rule der_read_element)
  have n: "length pre + h + l = length (pre @ w)" using r(2) by simp
  have "crl_fields (pre @ w @ concat ws) (length pre + h + l) = Inr ws"
    using Cons.IH [of "pre @ w"] Cons.prems unfolding n by simp
  moreover have "slice (length pre) (length pre + h + l) (pre @ w @ concat ws) = w" unfolding n by (simp add: slice_def)
  ultimately show ?case using r(1,3) by (subst crl_fields.simps) simp
qed

text \<open>
  C9. Re-signing a revocation list: from a list made of the fields, the algorithm and a signature, the function makes the list of the
  edited fields, with the algorithm untouched and the signature over exactly the octets of the new \<open>tbsCertList\<close>; an exception of the edit goes
  through.
\<close>

theorem resign_edits_fields:
  assumes "list_all element flds" "der_seq flds = Inr tbs" "element tbs" "element alg"
    and "der_seq [tbs, alg, sig] = Inr crl" "element crl"
  shows "resign sign crl edit = rbind (edit flds) (\<lambda>flds'. rbind (der_seq flds') (\<lambda>tbs'.
    rbind (bitstr (sign tbs') 0) (\<lambda>sig'. der_seq [tbs', alg, sig'])))"
proof -
  let ?body = "tbs @ alg @ sig"
  from assms(5) have crl: "tlv 0x30 ?body = Inr crl" by (simp add: der_seq_def)
  with assms(6) tlv_bound [OF crl] have lb: "length ?body < 65536"
    unfolding element_def using tlv_bound by blast
  define H where "H = 0x30 # len_octets (length ?body)"
  have c: "crl = H @ ?body" using crl lb tlv_eq_Inr_iff [where c = ?body and tag = "0x30" and w = crl] by (simp add: H_def)
  from assms(2) have tbs: "tlv 0x30 (concat flds) = Inr tbs" by (simp add: der_seq_def)
  have lf: "length (concat flds) < 65536" using assms(3) tlv_bound [OF tbs] tlv_bound unfolding element_def by blast
  define T where "T = 0x30 # len_octets (length (concat flds))"
  have t: "tbs = T @ concat flds" using tbs lf tlv_eq_Inr_iff [where c = "concat flds" and tag = "0x30" and w = tbs] by (simp add: T_def)
  have r1: "\<exists>t l. der_read crl 0 = Inr (t, length H, l)" using der_read_written [OF lb, where pre = "[]" and tag = "0x30" and post = "[]"] c by (simp add: H_def)
  have r2: "\<exists>t. der_read crl (length H) = Inr (t, length T, length (concat flds))"
    using der_read_written [OF lf, where pre = H and tag = "0x30" and post = "alg @ sig"] c t by (simp add: T_def)
  have s: "slice (length H + length T) (length H + length T + length (concat flds)) crl = concat flds"
    using c t by (simp add: slice_def)
  have d: "drop (length H + length T + length (concat flds)) crl = alg @ sig" using c t by simp
  obtain ta ah al where a: "der_read (alg @ sig) 0 = Inr (ta, ah, al)" "ah + al = length alg"
    by (rule der_read_element [OF assms(4), where pre = "[]" and post = sig]) simp
  have "crl_fields (concat flds) 0 = Inr flds" using crl_fields_elements [OF assms(1), where pre = "[]"] by simp
  with r1 r2 s d a show ?thesis
    by (auto simp: resign_def der_seq_def bitstr_def Let_def is_byte_def)
qed

theorem resign_edits_fields_witness:
  "resign (\<lambda>tbs. [int (length tbs)]) [0x30, 11, 0x30, 3, 2, 1, 1, 0x30, 0, 3, 2, 0, 9] bad_version =
     Inr [0x30, 11, 0x30, 3, 2, 1, 2, 0x30, 0, 3, 2, 0, 5]"
proof -
  have e: "element w" if "tlv t v = Inr w" "length v < 65536" for t v w using that by (auto simp: element_def)
  have f: "list_all element [[2, 1, 1]]" using e [of 2 "[1]" "[2, 1, 1]"] by (simp add: tlv_Inr is_byte_def len_octets_def)
  have t: "der_seq [[2, 1, 1]] = Inr [0x30, 3, 2, 1, 1]" "der_seq [[0x30, 3, 2, 1, 1], [0x30, 0], [3, 2, 0, 9]] = Inr [0x30, 11, 0x30, 3, 2, 1, 1, 0x30, 0, 3, 2, 0, 9]"
    by code_simp+
  have te: "element [0x30, 3, 2, 1, 1]" "element [0x30, 0]" "element [0x30, 11, 0x30, 3, 2, 1, 1, 0x30, 0, 3, 2, 0, 9]"
    using e [of "0x30" "[2, 1, 1]"] e [of "0x30" "[]"] e [of "0x30" "[0x30, 3, 2, 1, 1, 0x30, 0, 3, 2, 0, 9]"]
    by (simp_all add: tlv_Inr is_byte_def len_octets_def)
  show ?thesis unfolding resign_edits_fields [OF f t(1) te(1,2) t(2) te(3)] by code_simp
qed

section \<open>What a certificate's signature covers\<close>

lemma der_tlv_element:
  assumes "tlv tag v = Inr w" "length v < 65536"
  shows "der_tlv (pre @ w @ post) (length pre) = Inr (tag, v, length pre + length w)"
  using der_tlv_written [OF assms(2), of pre tag post] tlv_eq_Inr_iff [OF assms(2), of tag w] assms(1) by simp

lemma oid_tlv: "oid s = Inr w \<Longrightarrow> \<exists>v. tlv 6 v = Inr w"
  by (auto simp: oid_def rbind_eq_Inr_iff split: if_splits)

lemma sigalg_tlv:
  assumes "sigalg scheme = Inr sa"
  shows "\<exists>v. tlv 0x30 v = Inr sa"
  using assms unfolding sigalg_def
  by (auto simp: rbind_eq_Inr_iff der_seq_def dict_get_def split: option.splits if_splits)

text \<open>
  In a certificate the tool makes without an algorithm of the caller's own, the strict reader finds one sequence with three elements, and
  the bit string at the end is the signer's signature over exactly the octets of the first.
\<close>

theorem cert_signature_covers_tbs:
  assumes "make_cert cr rq st = (Inr der, st')" "kw_sigalg_der (rq_kw rq) = None" "is_bytes der" "length der < 65540"
  shows "\<exists>body tbs alg j k. der_tlv der 0 = Inr (0x30, body, length der) \<and> der_tlv body 0 = Inr (0x30, tbs, j) \<and>
    der_tlv body j = Inr (0x30, alg, k) \<and>
    der_tlv body k = Inr (3, 0 # cr_sign cr (rq_signer rq) (sign_kind (rq_scheme rq)) (slice 0 j body), length body)"
proof -
  from assms(1,2) obtain sd sa w1 w3 where w: "sigalg (rq_scheme rq) = Inr sa" "tbs_der cr rq sd sa = Inr w1"
      "bitstr (cr_sign cr (rq_signer rq) (sign_kind (rq_scheme rq)) w1) 0 = Inr w3" "der_seq [w1, sa, w3] = Inr der"
    by (auto simp: make_cert_def rbind_eq_Inr_iff split: prod.splits)
  let ?sig = "0 # cr_sign cr (rq_signer rq) (sign_kind (rq_scheme rq)) w1" and ?body = "w1 @ sa @ w3"
  from w(2) obtain tbs where tbs: "tlv 0x30 tbs = Inr w1" by (auto simp: tbs_der_def der_seq_def rbind_eq_Inr_iff)
  from sigalg_tlv [OF w(1)] obtain alg where alg: "tlv 0x30 alg = Inr sa" ..
  from w(3) have sig: "tlv 3 ?sig = Inr w3" by (simp add: bitstr_def)
  from w(4) have der: "tlv 0x30 ?body = Inr der" by (simp add: der_seq_def)
  have lb: "length ?body < 65536" using tlv_bound [OF der] assms(4) by simp
  have l: "length tbs < 65536" "length alg < 65536" "length ?sig < 65536"
    using lb tlv_shorter [OF tbs] tlv_shorter [OF alg] tlv_shorter [OF sig] by simp_all
  have "der_tlv der 0 = Inr (0x30, ?body, length der)" using der_tlv_whole [OF assms(3)] der lb by blast
  moreover have "der_tlv ?body 0 = Inr (0x30, tbs, length w1)" using der_tlv_element [OF tbs l(1), of "[]" "sa @ w3"] by simp
  moreover have "der_tlv ?body (length w1) = Inr (0x30, alg, length w1 + length sa)" using der_tlv_element [OF alg l(2), of w1 w3] by simp
  moreover have "der_tlv ?body (length w1 + length sa) = Inr (3, ?sig, length ?body)"
    using der_tlv_element [OF sig l(3), of "w1 @ sa" "[]"] by (simp add: add.assoc)
  moreover have "slice 0 (length w1) ?body = w1" by (simp add: slice_def)
  ultimately show ?thesis by metis
qed

section \<open>Replacing an extension\<close>

text \<open>\<open>put\<close> replaces in place: with one extension per OID the others keep their order, and there is still one per OID.\<close>

lemma filter_other: "x \<notin> fst ` set xs \<Longrightarrow> filter (\<lambda>y. fst y \<noteq> x) xs = xs"
  by (induction xs) auto

theorem put_replaces:
  assumes "distinct (map fst exts)"
  shows "put exts e = (if fst e \<in> fst ` set exts then map (\<lambda>x. if fst x = fst e then e else x) exts else exts @ [e])"
proof (cases "fst e \<in> fst ` set exts")
  case False
  then show ?thesis by (simp add: put_def Let_def filter_other)
next
  case True
  then obtain f where f: "f \<in> set exts" "fst f = fst e" by auto
  then obtain xs ys where s: "exts = xs @ f # ys" by (meson split_list)
  then have d: "fst e \<notin> fst ` set xs" "fst e \<notin> fst ` set ys" using assms f(2) by auto
  have m: "map (\<lambda>x. if fst x = fst e then e else x) zs = zs" if "fst e \<notin> fst ` set zs" for zs :: "extension list"
    using that by (induction zs) auto
  have "takeWhile (\<lambda>y. y \<noteq> fst e) (map fst exts) = map fst xs"
    unfolding s map_append by (subst takeWhile_append2) (use d(1) f(2) in \<open>auto simp: image_iff\<close>)
  with True show ?thesis using s f(2) d by (simp add: put_def Let_def filter_other m)
qed

end
