(* ===== verification/Framing.thy ===== *)
theory Framing
  imports Prelude
begin

text \<open>
  Cutting a byte stream into frames, as the field-device masters under \<open>scripts/vm/guests\<close> and the capture tool
  \<open>modules/blobmsg/tools/ubus_capture.py\<close> do it, and the relays that record both directions of a connection.  A splitter is its header:
  how long the frame at the front is, once it is whole.  The locale \<open>framing\<close> states what a header has to promise for the recorded
  frames not to depend on how the stream was segmented; every header of the scripts is an interpretation.
\<close>

section \<open>The loop\<close>

text \<open>\<open>while\<close> there is a whole frame: append it and go on behind it; the rest is kept.\<close>

function split_stream :: "(bytes \<Rightarrow> nat option) \<Rightarrow> bytes \<Rightarrow> bytes list \<times> bytes" where
  "split_stream whole b = (case whole b of None \<Rightarrow> ([], b)
     | Some k \<Rightarrow> if 0 < k \<and> k \<le> length b
         then (take k b # fst (split_stream whole (drop k b)), snd (split_stream whole (drop k b)))
         else ([], b))"
  by pat_completeness auto
termination
  by (relation "measure (\<lambda>(whole, b). length b)") auto

declare split_stream.simps [simp del]

text \<open>One round of a pump, or \<open>Framer.feed\<close>: the new octets go behind the kept ones.\<close>

definition feed :: "(bytes \<Rightarrow> nat option) \<Rightarrow> bytes list \<times> bytes \<Rightarrow> bytes \<Rightarrow> bytes list \<times> bytes" where
  "feed whole st data = (case split_stream whole (snd st @ data) of (frames, rest) \<Rightarrow> (fst st @ frames, rest))"

locale framing =
  fixes whole :: "bytes \<Rightarrow> nat option"
  assumes fits: "whole b = Some k \<Longrightarrow> 0 < k \<and> k \<le> length b"
    and stable: "whole b = Some k \<Longrightarrow> whole (b @ c) = Some k"
begin

lemma drop_shorter: "whole b = Some k \<Longrightarrow> length (drop k b) < length b"
  using fits [of b k] by auto

lemma split_None: "whole b = None \<Longrightarrow> split_stream whole b = ([], b)"
  by (simp add: split_stream.simps)

lemma split_Some: "whole b = Some k \<Longrightarrow>
    split_stream whole b = (take k b # fst (split_stream whole (drop k b)), snd (split_stream whole (drop k b)))"
  using fits [of b k] by (subst split_stream.simps) simp

text \<open>More octets behind never change a frame that is already whole.\<close>

lemma split_append:
  "split_stream whole (b @ c) = (fst (split_stream whole b) @ fst (split_stream whole (snd (split_stream whole b) @ c)),
     snd (split_stream whole (snd (split_stream whole b) @ c)))"
proof (induction "length b" arbitrary: b rule: less_induct)
  case less
  show ?case
  proof (cases "whole b")
    case None
    then show ?thesis by (simp add: split_None)
  next
    case (Some k)
    note k = fits [OF Some]
    from less.hyps [OF drop_shorter [OF Some]] show ?thesis
      using k split_Some [OF Some] split_Some [OF stable [OF Some, of c]] by simp
  qed
qed

lemma split_octets: "concat (fst (split_stream whole b)) @ snd (split_stream whole b) = b"
proof (induction "length b" arbitrary: b rule: less_induct)
  case less
  show ?case
  proof (cases "whole b")
    case (Some k)
    from less.hyps [OF drop_shorter [OF Some]] show ?thesis by (simp add: split_Some [OF Some])
  qed (simp add: split_None)
qed

lemma split_rest_open: "whole (snd (split_stream whole b)) = None"
proof (induction "length b" arbitrary: b rule: less_induct)
  case less
  show ?case
  proof (cases "whole b")
    case (Some k)
    from less.hyps [OF drop_shorter [OF Some]] show ?thesis by (simp add: split_Some [OF Some])
  qed (simp add: split_None)
qed

lemma feed_split: "feed whole (split_stream whole b) data = split_stream whole (b @ data)"
  by (simp add: feed_def split_append [of b data] split_beta)

text \<open>Whatever the segments, the frames are those of the whole stream.\<close>

lemma feed_segments: "foldl (feed whole) (split_stream whole b) segs = split_stream whole (b @ concat segs)"
  by (induction segs arbitrary: b) (simp_all add: feed_split)

lemma split_empty: "split_stream whole [] = ([], [])"
  using fits [of "[]"] by (cases "whole []") (auto simp: split_None)

lemma segmentation: "foldl (feed whole) ([], []) segs = split_stream whole (concat segs)"
  using feed_segments [of "[]" segs] by (simp add: split_empty)

text \<open>Frames that were written one behind the other are read back.\<close>

lemma split_written: "list_all (\<lambda>f. whole f = Some (length f)) fs \<Longrightarrow>
    split_stream whole (concat fs @ r) = (fs @ fst (split_stream whole r), snd (split_stream whole r))"
proof (induction fs)
  case (Cons f fs)
  then have f: "whole f = Some (length f)" by simp
  have "whole (f @ concat fs @ r) = Some (length f)" by (rule stable [OF f])
  from split_Some [OF this] Cons show ?case by simp
qed simp

end

text \<open>A header whose frame on its own is still a frame.\<close>

locale exact_framing = framing +
  assumes alone: "whole b = Some k \<Longrightarrow> whole (take k b) = Some k"
begin

lemma split_frames_whole: "f \<in> set (fst (split_stream whole b)) \<Longrightarrow> whole f = Some (length f)"
proof (induction "length b" arbitrary: b rule: less_induct)
  case less
  show ?case
  proof (cases "whole b")
    case None
    with less.prems show ?thesis by (simp add: split_None)
  next
    case (Some k)
    note k = fits [OF Some]
    note IH = less.hyps [OF drop_shorter [OF Some]]
    have "length (take k b) = k" using k by simp
    with less.prems split_Some [OF Some] IH alone [OF Some] show ?thesis by auto
  qed
qed

end

section \<open>The headers\<close>

text \<open>Modbus/TCP: the length at offset 4 counts the unit octet and the PDU.\<close>

definition adu_whole :: "bytes \<Rightarrow> nat option" where
  "adu_whole b = (if length b < 6 then None
     else (let ln = nat (from_be (slice 4 6 b)) in if ln < 1 \<or> 6 + ln > length b then None else Some (6 + ln)))"

definition split_adus :: "bytes \<Rightarrow> bytes list \<times> bytes" where
  "split_adus buf = split_stream adu_whole buf"

text \<open>EtherNet/IP: the little-endian length at offset 2 counts what follows the header of 24 octets.\<close>

definition enip_whole :: "bytes \<Rightarrow> nat option" where
  "enip_whole b = (if length b < 24 then None
     else (let ln = nat (from_le (slice 2 4 b)) in if 24 + ln > length b then None else Some (24 + ln)))"

definition split_enip :: "bytes \<Rightarrow> bytes list \<times> bytes" where
  "split_enip buf = split_stream enip_whole buf"

text \<open>TPKT: version 3, and a length that includes the header.\<close>

definition tpkt_whole :: "bytes \<Rightarrow> nat option" where
  "tpkt_whole b = (if length b < 4 then None
     else if b ! 0 \<noteq> 3 then None
     else (let ln = nat (from_be (slice 2 4 b)) in if ln < 4 \<or> ln > length b then None else Some ln))"

definition split_tpkt :: "bytes \<Rightarrow> bytes list \<times> bytes" where
  "split_tpkt buf = split_stream tpkt_whole buf"

text \<open>UA-TCP: the little-endian size at offset 4 includes the header of eight octets.\<close>

definition uatcp_whole :: "bytes \<Rightarrow> nat option" where
  "uatcp_whole b = (if length b < 8 then None
     else (let sz = nat (from_le (slice 4 8 b)) in if sz < 8 \<or> sz > length b then None else Some sz))"

definition split_uatcp :: "bytes \<Rightarrow> bytes list \<times> bytes" where
  "split_uatcp buf = split_stream uatcp_whole buf"

text \<open>ubus: a header of eight octets and a blob whose length, in the low 24 bits of its first word, includes that word.\<close>

definition blob_len :: "bytes \<Rightarrow> nat" where
  "blob_len b = nat (from_be (slice 8 12 b) AND 0xFFFFFF)"

definition ubus_whole :: "bytes \<Rightarrow> nat option" where
  "ubus_whole b = (if length b < 12 then None else if length b < 8 + blob_len b then None else Some (8 + blob_len b))"

section \<open>Interpretations\<close>

lemma slice_front: "j \<le> length b \<Longrightarrow> slice i j (b @ c) = slice i j b"
  by (simp add: slice_def)

lemma slice_take: "j \<le> k \<Longrightarrow> slice i j (take k b) = slice i j b"
  by (simp add: slice_def drop_take)

interpretation adu: exact_framing adu_whole
  by unfold_locales (auto simp: adu_whole_def Let_def slice_front slice_take nth_append split: if_splits)

interpretation enip: exact_framing enip_whole
  by unfold_locales (auto simp: enip_whole_def Let_def slice_front slice_take nth_append split: if_splits)

interpretation tpkt: exact_framing tpkt_whole
  by unfold_locales (auto simp: tpkt_whole_def Let_def slice_front slice_take nth_append split: if_splits)

interpretation uatcp: exact_framing uatcp_whole
  by unfold_locales (auto simp: uatcp_whole_def Let_def slice_front slice_take nth_append split: if_splits)

interpretation ubus: framing ubus_whole
  by unfold_locales (auto simp: ubus_whole_def blob_len_def slice_front split: if_splits)

end
