(* ===== verification/Taps.thy ===== *)
theory Taps
  imports Framing
begin

text \<open>
  The relays that record a session: \<open>Tap\<close> of the TCP masters under \<open>scripts/vm/guests\<close>, \<open>UdpTap\<close> of the BACnet one, and \<open>Relay.frames\<close> and
  \<open>recv_frame\<close> of \<open>modules/blobmsg/tools/ubus_capture.py\<close>.  The two pump threads and \<open>drain\<close> take turns under one lock, so a run is a
  sequence of atomic steps in any order; sockets, threads and sleeping are not modelled.
\<close>

section \<open>The TCP tap\<close>

record tap =
  tx_raw :: bytes
  rx_raw :: bytes
  tap_tx :: "bytes list"
  tap_rx :: "bytes list"
  tx_taken :: nat
  rx_taken :: nat

definition tap_init :: tap where
  "tap_init = \<lparr> tx_raw = [], rx_raw = [], tap_tx = [], tap_rx = [], tx_taken = 0, rx_taken = 0 \<rparr>"

text \<open>The locked part of \<open>_pump\<close>, one definition per direction.\<close>

definition pump_tx :: "(bytes \<Rightarrow> nat option) \<Rightarrow> bytes \<Rightarrow> tap \<Rightarrow> tap" where
  "pump_tx whole data s = (case feed whole (tap_tx s, tx_raw s) data of (msgs, raw) \<Rightarrow> s\<lparr>tap_tx := msgs, tx_raw := raw\<rparr>)"

definition pump_rx :: "(bytes \<Rightarrow> nat option) \<Rightarrow> bytes \<Rightarrow> tap \<Rightarrow> tap" where
  "pump_rx whole data s = (case feed whole (tap_rx s, rx_raw s) data of (msgs, raw) \<Rightarrow> s\<lparr>tap_rx := msgs, rx_raw := raw\<rparr>)"

definition drain :: "tap \<Rightarrow> (bytes list \<times> bytes list) \<times> tap" where
  "drain s = ((drop (tx_taken s) (tap_tx s), drop (rx_taken s) (tap_rx s)),
     s\<lparr>tx_taken := length (tap_tx s), rx_taken := length (tap_rx s)\<rparr>)"

section \<open>The UDP tap\<close>

type_synonym addr = "string \<times> int"

record udp_tap =
  client_addr :: "addr option"
  udp_tx :: "bytes list"
  udp_rx :: "bytes list"
  udp_tx_taken :: nat
  udp_rx_taken :: nat

definition udp_init :: udp_tap where
  "udp_init = \<lparr> client_addr = None, udp_tx = [], udp_rx = [], udp_tx_taken = 0, udp_rx_taken = 0 \<rparr>"

text \<open>A datagram from the client is recorded and the sender remembered; one from the device goes to the last sender, if there is one.\<close>

definition pump_down :: "bytes \<Rightarrow> addr \<Rightarrow> udp_tap \<Rightarrow> udp_tap" where
  "pump_down data a s = s\<lparr>client_addr := Some a, udp_tx := udp_tx s @ [data]\<rparr>"

definition pump_up :: "bytes \<Rightarrow> udp_tap \<Rightarrow> udp_tap \<times> (addr \<times> bytes) option" where
  "pump_up data s = (s\<lparr>udp_rx := udp_rx s @ [data]\<rparr>, map_option (\<lambda>a. (a, data)) (client_addr s))"

definition udp_drain :: "udp_tap \<Rightarrow> (bytes list \<times> bytes list) \<times> udp_tap" where
  "udp_drain s = ((drop (udp_tx_taken s) (udp_tx s), drop (udp_rx_taken s) (udp_rx s)),
     s\<lparr>udp_tx_taken := length (udp_tx s), udp_rx_taken := length (udp_rx s)\<rparr>)"

section \<open>The ubus relay\<close>

text \<open>One framer per connection and direction; the frames come out in the order of arrival.\<close>

datatype dir = C2D | D2C

type_synonym conn = "int \<times> dir"

definition relay_step :: "(conn \<times> bytes) list \<times> (conn \<times> bytes) list \<Rightarrow> conn \<times> bytes \<Rightarrow> (conn \<times> bytes) list \<times> (conn \<times> bytes) list" where
  "relay_step st ev = (case st of (bufs, out) \<Rightarrow> case ev of (k, data) \<Rightarrow>
     (let buf = (case map_of bufs k of None \<Rightarrow> [] | Some b \<Rightarrow> b); r = split_stream ubus_whole (buf @ data) in
      (dict_set bufs k (snd r), out @ map (\<lambda>x. (k, x)) (fst r))))"

definition relay_frames :: "(conn \<times> bytes) list \<Rightarrow> (conn \<times> bytes) list" where
  "relay_frames log = snd (foldl relay_step ([], []) log)"

text \<open>\<open>recv_frame\<close> on the segments a socket delivers: a call returns at most what is asked for, and an empty answer is the end.\<close>

function recv_loop :: "nat \<Rightarrow> bytes \<Rightarrow> bytes list \<Rightarrow> (bytes \<times> bytes list) option" where
  "recv_loop n got segs = (if n \<le> length got then Some (got, segs)
     else (case segs of [] \<Rightarrow> None
       | c # cs \<Rightarrow> if c = [] then None
           else (let m = n - length got in recv_loop n (got @ take m c) (if drop m c = [] then cs else drop m c # cs))))"
  by pat_completeness auto
termination
proof (relation "measure (\<lambda>(n, got, segs). n - length got)", goal_cases)
  case (2 n got segs c cs m)
  then show ?case by (cases c) auto
qed simp

declare recv_loop.simps [simp del]

definition recv_frame :: "bytes list \<Rightarrow> (bytes \<times> bytes list) option" where
  "recv_frame segs = (case recv_loop 12 [] segs of None \<Rightarrow> None
     | Some (hdr, segs1) \<Rightarrow> (case recv_loop (blob_len hdr - 4) [] segs1 of None \<Rightarrow> None
         | Some (body, segs2) \<Rightarrow> Some (hdr @ body, segs2)))"

section \<open>Segmentation\<close>

text \<open>
  The recorded frames do not depend on how TCP cut the stream.  For each of the five formats, feeding any sequence of segments leaves
  the frames and the rest that cutting the whole stream at once gives; frames and rest together are the octets received; and
  for the four field protocols a sequence of frames is read back exactly.
\<close>

theorem frames_not_packets:
  "foldl (feed adu_whole) ([], []) segs = split_adus (concat segs)
    \<and> foldl (feed enip_whole) ([], []) segs = split_enip (concat segs)
    \<and> foldl (feed tpkt_whole) ([], []) segs = split_tpkt (concat segs)
    \<and> foldl (feed uatcp_whole) ([], []) segs = split_uatcp (concat segs)
    \<and> foldl (feed ubus_whole) ([], []) segs = split_stream ubus_whole (concat segs)
    \<and> list_all (\<lambda>split. concat (fst (split b)) @ snd (split b) = b \<and> split (concat (fst (split b))) = (fst (split b), []))
        [split_adus, split_enip, split_tpkt, split_uatcp]"
proof -
  have r: "split_stream w (concat (fst (split_stream w b))) = (fst (split_stream w b), [])" if w: "exact_framing w" for w
    using framing.split_written [OF exact_framing.axioms(1) [OF w], of "fst (split_stream w b)" "[]"] exact_framing.split_frames_whole [OF w]
      framing.split_empty [OF exact_framing.axioms(1) [OF w]] by (simp add: list_all_iff)
  show ?thesis
    using r adu.exact_framing_axioms enip.exact_framing_axioms tpkt.exact_framing_axioms uatcp.exact_framing_axioms
    by (simp add: split_adus_def split_enip_def split_tpkt_def split_uatcp_def adu.segmentation enip.segmentation tpkt.segmentation
        uatcp.segmentation ubus.segmentation adu.split_octets enip.split_octets tpkt.split_octets uatcp.split_octets)
qed

section \<open>The tap records every frame once\<close>

text \<open>The runs of a tap, with what passed in each direction and what \<open>drain\<close> has returned so far.\<close>

inductive tap_run :: "(bytes \<Rightarrow> nat option) \<Rightarrow> bytes \<Rightarrow> bytes \<Rightarrow> bytes list \<Rightarrow> bytes list \<Rightarrow> tap \<Rightarrow> bool" for whole where
  run_start: "tap_run whole [] [] [] [] tap_init"
| run_tx: "tap_run whole st sr dt dr s \<Longrightarrow> tap_run whole (st @ data) sr dt dr (pump_tx whole data s)"
| run_rx: "tap_run whole st sr dt dr s \<Longrightarrow> tap_run whole st (sr @ data) dt dr (pump_rx whole data s)"
| run_drain: "tap_run whole st sr dt dr s \<Longrightarrow> drain s = ((tx, rx), s') \<Longrightarrow> tap_run whole st sr (dt @ tx) (dr @ rx) s'"

definition tap_inv :: "(bytes \<Rightarrow> nat option) \<Rightarrow> bytes \<Rightarrow> bytes \<Rightarrow> bytes list \<Rightarrow> bytes list \<Rightarrow> tap \<Rightarrow> bool" where
  "tap_inv whole st sr dt dr s \<longleftrightarrow> (tap_tx s, tx_raw s) = split_stream whole st \<and> (tap_rx s, rx_raw s) = split_stream whole sr
     \<and> dt = take (tx_taken s) (tap_tx s) \<and> tx_taken s \<le> length (tap_tx s) \<and> dr = take (rx_taken s) (tap_rx s) \<and> rx_taken s \<le> length (tap_rx s)"

context framing
begin

lemma feed_keeps: "feed whole (split_stream whole b) data = (ms, raw) \<Longrightarrow> (ms, raw) = split_stream whole (b @ data) \<and> (\<exists>new. ms = fst (split_stream whole b) @ new)"
  using feed_split [of b data] split_append [of b data] by auto

lemma tap_run_inv: "tap_run whole st sr dt dr s \<Longrightarrow> tap_inv whole st sr dt dr s"
proof (induction rule: tap_run.induct)
  case run_start
  show ?case by (simp add: tap_inv_def tap_init_def split_empty)
next
  case (run_tx st sr dt dr s data)
  obtain ms raw where f: "feed whole (tap_tx s, tx_raw s) data = (ms, raw)" by (cases "feed whole (tap_tx s, tx_raw s) data")
  have e: "split_stream whole st = (tap_tx s, tx_raw s)" using run_tx.IH by (simp add: tap_inv_def)
  obtain new where "(ms, raw) = split_stream whole (st @ data)" "ms = tap_tx s @ new"
    using feed_keeps [of st data ms raw] f by (auto simp only: e fst_conv)
  moreover have "pump_tx whole data s = s\<lparr>tap_tx := ms, tx_raw := raw\<rparr>" using f by (simp add: pump_tx_def)
  ultimately show ?case using run_tx.IH by (simp add: tap_inv_def)
next
  case (run_rx st sr dt dr s data)
  obtain ms raw where f: "feed whole (tap_rx s, rx_raw s) data = (ms, raw)" by (cases "feed whole (tap_rx s, rx_raw s) data")
  have e: "split_stream whole sr = (tap_rx s, rx_raw s)" using run_rx.IH by (simp add: tap_inv_def)
  obtain new where "(ms, raw) = split_stream whole (sr @ data)" "ms = tap_rx s @ new"
    using feed_keeps [of sr data ms raw] f by (auto simp only: e fst_conv)
  moreover have "pump_rx whole data s = s\<lparr>tap_rx := ms, rx_raw := raw\<rparr>" using f by (simp add: pump_rx_def)
  ultimately show ?case using run_rx.IH by (simp add: tap_inv_def)
next
  case (run_drain st sr dt dr s tx rx s')
  then show ?case by (auto simp: tap_inv_def drain_def)
qed

lemma tap_run_exact:
  assumes "tap_run whole st sr dt dr s"
  shows "dt @ fst (fst (drain s)) = fst (split_stream whole st) \<and> dr @ snd (fst (drain s)) = fst (split_stream whole sr)
    \<and> tx_raw s = snd (split_stream whole st) \<and> rx_raw s = snd (split_stream whole sr)"
  using tap_run_inv [OF assms] by (auto simp: tap_inv_def drain_def) (metis fst_conv snd_conv append_take_drop_id)+

end

text \<open>
  C19: however the two pump threads and \<open>drain\<close> interleave, nothing is lost, repeated or reordered.  At every point of every run of the four
  taps, what \<open>drain\<close> returned before and would return now are together exactly the frames of the octets that passed in that
  direction, in order, and the octets kept are the unfinished rest.
\<close>

theorem tap_records_every_frame:
  assumes "tap_run whole st sr dt dr s" "whole = adu_whole \<or> whole = enip_whole \<or> whole = tpkt_whole \<or> whole = uatcp_whole"
  shows "dt @ fst (fst (drain s)) = fst (split_stream whole st) \<and> dr @ snd (fst (drain s)) = fst (split_stream whole sr)
    \<and> tx_raw s = snd (split_stream whole st) \<and> rx_raw s = snd (split_stream whole sr)"
proof -
  have "framing whole" using assms(2) adu.framing_axioms enip.framing_axioms tpkt.framing_axioms uatcp.framing_axioms by blast
  from framing.tap_run_exact [OF this assms(1)] show ?thesis .
qed

text \<open>The witness run: half a TPKT, a drain, the other half.\<close>

theorem tap_records_every_frame_witness:
  "\<exists>s. tap_run tpkt_whole [3, 0, 0, 5, 9] [] [] [] s \<and> [] @ fst (fst (drain s)) = [[3, 0, 0, 5, 9]]"
proof -
  let ?s1 = "pump_tx tpkt_whole [3, 0, 0] tap_init"
  have d: "drain ?s1 = (([], []), ?s1\<lparr>tx_taken := 0, rx_taken := 0\<rparr>)" by code_simp
  have "tap_run tpkt_whole ([] @ [3, 0, 0]) [] [] [] ?s1" by (rule run_tx) (rule run_start)
  from run_drain [OF this d] have "tap_run tpkt_whole ([] @ [3, 0, 0]) [] ([] @ []) ([] @ []) (?s1\<lparr>tx_taken := 0, rx_taken := 0\<rparr>)" .
  from run_tx [OF this, of "[5, 9]"] have r: "tap_run tpkt_whole [3, 0, 0, 5, 9] [] [] [] (pump_tx tpkt_whole [5, 9] (?s1\<lparr>tx_taken := 0, rx_taken := 0\<rparr>))"
    by simp
  have "fst (split_stream tpkt_whole [3, 0, 0, 5, 9]) = [[3, 0, 0, 5, 9]]" by code_simp
  with tap_records_every_frame [OF r] r show ?thesis by auto
qed

section \<open>The relay keeps the connections apart\<close>

definition octets_of :: "conn \<Rightarrow> (conn \<times> bytes) list \<Rightarrow> bytes" where
  "octets_of k log = concat (map snd (filter (\<lambda>e. fst e = k) log))"

lemma relay_inv:
  assumes "foldl relay_step ([], []) log = (bufs, out)"
  shows "split_stream ubus_whole (octets_of k log) = (map snd (filter (\<lambda>e. fst e = k) out), case map_of bufs k of None \<Rightarrow> [] | Some b \<Rightarrow> b)"
  using assms
proof (induction log arbitrary: bufs out rule: rev_induct)
  case Nil
  then show ?case by (simp add: octets_of_def ubus.split_empty)
next
  case (snoc e log)
  obtain bufs0 out0 where o: "foldl relay_step ([], []) log = (bufs0, out0)" by (cases "foldl relay_step ([], []) log")
  obtain k' data where e: "e = (k', data)" by (cases e)
  note IH = snoc.IH [OF o]
  have st: "(bufs, out) = relay_step (bufs0, out0) (k', data)" using snoc.prems o e by simp
  let ?r = "split_stream ubus_whole ((case map_of bufs0 k' of None \<Rightarrow> [] | Some b \<Rightarrow> b) @ data)"
  have bo: "bufs = dict_set bufs0 k' (snd ?r)" "out = out0 @ map (\<lambda>x. (k', x)) (fst ?r)" using st by (simp_all add: relay_step_def Let_def)
  show ?case
  proof (cases "k' = k")
    case True
    have "octets_of k (log @ [e]) = octets_of k log @ data" using True e by (simp add: octets_of_def)
    then show ?thesis using ubus.split_append [of "octets_of k log" data] IH True
      by (simp add: bo comp_def)
  next
    case False
    have "octets_of k (log @ [e]) = octets_of k log" using False e by (simp add: octets_of_def)
    then show ?thesis using IH False by (simp add: bo comp_def)
  qed
qed

text \<open>
  The capture keeps connections and directions apart.  For every log of a relay, in whatever order the segments of several
  connections arrived, the frames listed for one connection and direction are exactly the frames of the octets logged for it.
\<close>

theorem relay_frames_per_connection:
  "map snd (filter (\<lambda>e. fst e = k) (relay_frames log)) = fst (split_stream ubus_whole (concat (map snd (filter (\<lambda>e. fst e = k) log))))"
  using relay_inv [of log "fst (foldl relay_step ([], []) log)" "relay_frames log" k] by (simp add: relay_frames_def octets_of_def)

section \<open>Reading one frame\<close>

lemma recv_loop_take:
  "list_all (\<lambda>c. c \<noteq> []) segs \<Longrightarrow> n \<le> length got + length (concat segs) \<Longrightarrow> length got \<le> n \<Longrightarrow>
    \<exists>segs'. recv_loop n got segs = Some (got @ take (n - length got) (concat segs), segs')
      \<and> concat segs' = drop (n - length got) (concat segs) \<and> list_all (\<lambda>c. c \<noteq> []) segs'"
proof (induction n got segs rule: recv_loop.induct)
  case (1 n got segs)
  show ?case
  proof (cases "n \<le> length got")
    case True
    with 1 show ?thesis by (subst recv_loop.simps) simp
  next
    case False
    with "1.prems" obtain c cs where c: "segs = c # cs" "c \<noteq> []" by (cases segs) auto
    let ?m = "n - length got"
    let ?segs = "if drop ?m c = [] then cs else drop ?m c # cs"
    have u: "recv_loop n got segs = recv_loop n (got @ take ?m c) ?segs" using False c by (subst recv_loop.simps) (simp add: Let_def)
    show ?thesis
    proof (cases "length c \<le> ?m")
      case True
      have "list_all (\<lambda>c. c \<noteq> []) ?segs" "n \<le> length (got @ take ?m c) + length (concat ?segs)" "length (got @ take ?m c) \<le> n"
        using "1.prems" c True False by auto
      from "1.IH" [OF False c refl this] show ?thesis using True u c(1) by (auto simp: diff_diff_left)
    next
      case long: False
      then have "recv_loop n (got @ take ?m c) ?segs = Some (got @ take ?m c, ?segs)" by (subst recv_loop.simps) auto
      then show ?thesis using long u c "1.prems"(1) by auto
    qed
  qed
qed

theorem recv_frame_first:
  assumes "list_all (\<lambda>c. c \<noteq> []) segs" "ubus_whole (concat segs) = Some k" "4 \<le> blob_len (concat segs)"
  shows "\<exists>segs'. recv_frame segs = Some (take k (concat segs), segs') \<and> concat segs' = drop k (concat segs)"
proof -
  let ?b = "concat segs"
  have k: "k = 8 + blob_len ?b" "12 \<le> length ?b" "k \<le> length ?b" using assms(2) by (auto simp: ubus_whole_def split: if_splits)
  obtain segs1 where 1: "recv_loop 12 [] segs = Some (take 12 ?b, segs1)" "concat segs1 = drop 12 ?b" "list_all (\<lambda>c. c \<noteq> []) segs1"
    using recv_loop_take [OF assms(1), of 12 "[]"] k by auto
  have h: "blob_len (take 12 ?b) = blob_len ?b" by (simp add: blob_len_def slice_take)
  have "blob_len ?b - 4 \<le> length (concat segs1)" using 1(2) k(1,3) by simp
  then obtain segs2 where 2: "recv_loop (blob_len ?b - 4) [] segs1 = Some (take (blob_len ?b - 4) (drop 12 ?b), segs2)"
    "concat segs2 = drop (blob_len ?b - 4) (drop 12 ?b)"
    using recv_loop_take [OF 1(3), of "blob_len ?b - 4" "[]"] 1(2) by auto
  have "take 12 ?b @ take (blob_len ?b - 4) (drop 12 ?b) = take k ?b"
    using take_add [of 12 "blob_len ?b - 4" ?b] k(1) assms(3) by simp
  moreover have "drop (blob_len ?b - 4) (drop 12 ?b) = drop k ?b" using k(1) assms(3) by (simp add: add.commute)
  ultimately show ?thesis using 1(1) 2 by (simp add: recv_frame_def h)
qed

text \<open>The tap itself has one buffer per direction.  The EtherNet/IP, S7 and OPC UA masters accept several connections and pump all of them into
  it: a message of a second connection between two segments of the first is lost, and here nothing is recorded any more.\<close>

theorem second_connection_mixed_in:
  "tap_tx (foldl (\<lambda>s data. pump_tx tpkt_whole data s) tap_init [[3, 0, 0], [3, 0, 0, 6, 1, 2], [5, 9]]) = []"
  "fst (split_stream tpkt_whole ([3, 0, 0] @ [5, 9])) = [[3, 0, 0, 5, 9]]" "fst (split_stream tpkt_whole [3, 0, 0, 6, 1, 2]) = [[3, 0, 0, 6, 1, 2]]"
  by code_simp+

end
