(* ===== verification/Blob.thy ===== *)
theory Blob
  imports Taps BitcoinTx Cjk_Oracle
begin

text \<open>
  The blob format of \<open>modules/blobmsg/tools/ubus_capture.py\<close>: attributes and messages as the tool builds them, the walk over the attributes of
  a frame, and the scripted object provider that answers calls over the bus.
\<close>

section \<open>Attributes and messages\<close>

definition pad4 :: "nat \<Rightarrow> nat" where
  "pad4 n = nat ((int n + 3) AND NOT 3)"

text \<open>\<open>struct.pack\<close> of big-endian fields: a value out of range raises \<open>struct.error\<close>.\<close>

definition pack_be :: "nat \<Rightarrow> int \<Rightarrow> bytes result" where
  "pack_be n v = (if 0 \<le> v \<and> v < 256 ^ n then Inr (rev (le_bytes n v)) else Inl StructError)"

definition pack_i32 :: "int \<Rightarrow> bytes result" where
  "pack_i32 v = (if - (2 ^ 31) \<le> v \<and> v < 2 ^ 31 then Inr (rev (le_bytes 4 (v mod 2 ^ 32))) else Inl StructError)"

definition attr_word :: "int \<Rightarrow> bool \<Rightarrow> nat \<Rightarrow> int" where
  "attr_word aid ext n = ((if ext then 0x80000000 else 0) OR push_bit 24 aid) OR int n"

definition attr :: "int \<Rightarrow> bytes \<Rightarrow> bool \<Rightarrow> bytes result" where
  "attr aid data ext = (let n = 4 + length data in
     rbind (pack_be 4 (attr_word aid ext n)) (\<lambda>head. Inr (head @ data @ replicate (pad4 n - n) 0)))"

definition attr_u32 :: "int \<Rightarrow> int \<Rightarrow> bytes result" where
  "attr_u32 aid v = rbind (pack_be 4 (v AND 0xFFFFFFFF)) (\<lambda>b. attr aid b False)"

definition attr_i32 :: "int \<Rightarrow> int \<Rightarrow> bytes result" where
  "attr_i32 aid v = rbind (pack_i32 v) (\<lambda>b. attr aid b False)"

definition attr_str :: "int \<Rightarrow> ustr \<Rightarrow> bytes result" where
  "attr_str aid s = rbind (py_encode s) (\<lambda>b. attr aid (b @ [0]) False)"

text \<open>\<open>bm\<close>: the name stands before the value, which starts at a multiple of four.\<close>

definition bm :: "int \<Rightarrow> ustr \<Rightarrow> bytes \<Rightarrow> bytes result" where
  "bm btype name data = rbind (py_encode name) (\<lambda>nb. rbind (pack_be 2 (int (length nb))) (\<lambda>l.
     (let hdr = l @ nb @ [0] in attr btype ((hdr @ replicate (pad4 (length hdr) - length hdr) 0) @ data) True)))"

definition bm_str :: "ustr \<Rightarrow> ustr \<Rightarrow> bytes result" where
  "bm_str name s = rbind (py_encode s) (\<lambda>b. bm 3 name (b @ [0]))"

definition bm_i32 :: "ustr \<Rightarrow> int \<Rightarrow> bytes result" where
  "bm_i32 name v = rbind (pack_be 4 (v AND 0xFFFFFFFF)) (\<lambda>b. bm 5 name b)"

definition bm_table :: "ustr \<Rightarrow> bytes list \<Rightarrow> bytes result" where
  "bm_table name cs = bm 2 name (concat cs)"

definition msg :: "int \<Rightarrow> int \<Rightarrow> int \<Rightarrow> bytes \<Rightarrow> bytes result" where
  "msg mtype sq peer cs = rbind (attr 0 cs False) (\<lambda>top.
     rbind (pack_be 1 mtype) (\<lambda>t. rbind (pack_be 2 sq) (\<lambda>s. rbind (pack_be 4 peer) (\<lambda>p. Inr ([0] @ t @ s @ p @ top)))))"

section \<open>Reading the attributes of a frame\<close>

datatype item = Bad ustr | Attr int bool bytes

definition u32_at :: "bytes \<Rightarrow> nat \<Rightarrow> int" where
  "u32_at b i = from_be (slice i (i + 4) b)"

lemma pad4_eq: "pad4 n = (n + 3) div 4 * 4"
proof -
  let ?x = "int n + 3"
  have "?x AND NOT 3 = ?x AND NOT (?x AND 3)" by (auto simp: bit_eq_iff bit_simps)
  also have "\<dots> = ?x - (?x AND 3)"
    by (rule disjunctive_diff_eq_and_not [symmetric]) (auto simp: bit_eq_iff bit_simps)
  also have "?x AND 3 = ?x mod 4"
  proof -
    have "(3 :: int) = mask 2" by (simp add: mask_eq_exp_minus_1)
    then have "?x AND 3 = take_bit 2 ?x" by (simp only: take_bit_eq_mask)
    then show ?thesis by (simp add: take_bit_eq_mod)
  qed
  also have "?x - ?x mod 4 = ?x div 4 * 4" by (simp add: minus_mod_eq_div_mult)
  finally have "?x AND NOT 3 = int ((n + 3) div 4 * 4)" by (simp add: zdiv_int add.commute)
  then show ?thesis by (simp only: pad4_def nat_int)
qed

lemma pad4_le: "n \<le> pad4 n" "4 dvd pad4 n" "pad4 n < n + 4"
  unfolding pad4_eq by auto

function walk_from :: "bytes \<Rightarrow> nat \<Rightarrow> item list" where
  "walk_from buf i = (if i + 4 \<le> length buf
     then (let v = u32_at buf i; n = nat (v AND 0xFFFFFF) in
       if n < 4 \<or> i + n > length buf then [Bad (uhex (drop i buf))]
       else Attr (drop_bit 24 v AND 0x7F) (drop_bit 31 v \<noteq> 0) (slice (i + 4) (i + n) buf) # walk_from buf (i + pad4 n))
     else [])"
  by pat_completeness auto
termination
proof (relation "measure (\<lambda>(b, i). length b - i)", goal_cases)
  case (2 b i v n)
  then have "i < i + pad4 n" using pad4_le(1) [of n] by simp
  with 2 show ?case by (simp add: diff_less_mono2)
qed simp

declare walk_from.simps [simp del]

definition walk_blob :: "bytes \<Rightarrow> item list" where
  "walk_blob buf = walk_from buf 0"

definition children :: "bytes \<Rightarrow> item list" where
  "children frame = walk_blob (drop 12 frame)"

text \<open>\<open>get\<close>: the last attribute with the number.\<close>

definition get_attr :: "bytes \<Rightarrow> int \<Rightarrow> bytes option" where
  "get_attr frame aid = foldl (\<lambda>r c. case c of Attr a _ d \<Rightarrow> if a = aid then Some d else r | Bad _ \<Rightarrow> r) None (children frame)"

section \<open>The provider\<close>

definition M_STATUS :: int where "M_STATUS = 1"
definition M_DATA :: int where "M_DATA = 2"
definition M_INVOKE :: int where "M_INVOKE = 5"
definition M_ADD_OBJECT :: int where "M_ADD_OBJECT = 6"
definition M_NOTIFY :: int where "M_NOTIFY = 10"
definition A_STATUS :: int where "A_STATUS = 1"
definition A_OBJPATH :: int where "A_OBJPATH = 2"
definition A_OBJID :: int where "A_OBJID = 3"
definition A_METHOD :: int where "A_METHOD = 4"
definition A_SIGNATURE :: int where "A_SIGNATURE = 6"
definition A_DATA :: int where "A_DATA = 7"

lemmas ubus_numbers = M_STATUS_def M_DATA_def M_INVOKE_def M_ADD_OBJECT_def M_NOTIFY_def A_STATUS_def A_OBJPATH_def A_OBJID_def
  A_METHOD_def A_SIGNATURE_def A_DATA_def

text \<open>The message \<open>__init__\<close> sends.\<close>

definition provider_hello :: "ustr \<Rightarrow> bytes result" where
  "provider_hello name =
     rbind (bm_i32 (asc ''msg'') 3) (\<lambda>m. rbind (bm_table (asc ''echo'') [m]) (\<lambda>s1. rbind (bm_table (asc ''fail'') []) (\<lambda>s2.
     rbind (bm_table (asc ''slow'') []) (\<lambda>s3. rbind (bm_table (asc ''slowlong'') []) (\<lambda>s4. rbind (bm_table (asc ''notify'') []) (\<lambda>s5.
     rbind (attr_str A_OBJPATH name) (\<lambda>a. rbind (attr A_SIGNATURE (s1 @ s2 @ s3 @ s4 @ s5) False) (\<lambda>b.
       msg M_ADD_OBJECT 1 0 (a @ b)))))))))"

text \<open>The replies until a \<open>STATUS\<close>, and the object number among them; the end of the stream is a \<open>None\<close>, which \<open>get\<close> cannot slice.\<close>

fun provider_wait :: "int option \<Rightarrow> bytes list \<Rightarrow> (bytes list \<times> int option) result" where
  "provider_wait oid [] = Inl TypeError"
| "provider_wait oid (f # fs) =
     rbind (case get_attr f A_OBJID of None \<Rightarrow> Inr oid
              | Some b \<Rightarrow> if b = [] then Inr oid else if length b \<noteq> 4 then Inl StructError else Inr (Some (from_be b))) (\<lambda>oid'.
       if f ! 1 = M_STATUS then Inr ([f], oid')
       else rbind (provider_wait oid' fs) (\<lambda>(rs, o2). Inr (f # rs, o2)))"

text \<open>\<open>self.oid\<close> is \<open>None\<close> until a reply had one; \<open>None & 0xFFFFFFFF\<close> raises.\<close>

definition attr_oid :: "int option \<Rightarrow> bytes result" where
  "attr_oid oid = (case oid of None \<Rightarrow> Inl TypeError | Some v \<Rightarrow> attr_u32 A_OBJID v)"

definition data_reply :: "int option \<Rightarrow> int \<Rightarrow> int \<Rightarrow> bytes \<Rightarrow> bytes result" where
  "data_reply oid sq peer data = rbind (attr_oid oid) (\<lambda>a. rbind (attr A_DATA data False) (\<lambda>b. msg M_DATA sq peer (a @ b)))"

definition status_reply :: "int option \<Rightarrow> int \<Rightarrow> int \<Rightarrow> int \<Rightarrow> bytes result" where
  "status_reply oid sq peer st = rbind (attr_i32 A_STATUS st) (\<lambda>a. rbind (attr_oid oid) (\<lambda>b. msg M_STATUS sq peer (a @ b)))"

definition notify :: "int option \<Rightarrow> ustr \<Rightarrow> bytes \<Rightarrow> int \<Rightarrow> bytes result" where
  "notify oid typ cs sq = rbind (attr_oid oid) (\<lambda>a. rbind (attr_str A_METHOD typ) (\<lambda>b. rbind (attr A_DATA cs False) (\<lambda>c.
     msg M_NOTIFY sq 0 (a @ b @ c))))"

definition rstrip_nul :: "bytes \<Rightarrow> bytes" where
  "rstrip_nul b = rev (dropWhile (\<lambda>x. x = 0) (rev b))"

text \<open>\<open>get(f, aid) or b""\<close>\<close>

definition get_or_empty :: "bytes \<Rightarrow> int \<Rightarrow> bytes" where
  "get_or_empty f aid = (case get_attr f aid of None \<Rightarrow> [] | Some b \<Rightarrow> b)"

text \<open>One round of \<open>loop\<close>: the messages sent for a frame, in order.  The pauses of \<open>slow\<close> and \<open>slowlong\<close> do not change what is sent.\<close>

definition provider_answers :: "int option \<Rightarrow> bytes \<Rightarrow> bytes list result" where
  "provider_answers oid f =
     (let t = f ! 1; sq = from_be (slice 2 4 f); peer = from_be (slice 4 8 f) in
      if t \<noteq> M_INVOKE then Inr []
      else rbind (utf8_decode (rstrip_nul (get_or_empty f A_METHOD))) (\<lambda>meth. (let data = get_or_empty f A_DATA in
        if meth = asc ''echo'' \<or> meth = asc ''slow'' \<or> meth = asc ''slowlong''
        then rbind (data_reply oid sq peer data) (\<lambda>d. rbind (status_reply oid sq peer 0) (\<lambda>s. Inr [d, s]))
        else if meth = asc ''notify''
        then rbind (status_reply oid sq peer 0) (\<lambda>s. rbind (bm_i32 (asc ''n'') 5) (\<lambda>n. rbind (bm_str (asc ''s'') (asc ''v'')) (\<lambda>v.
          rbind (notify oid (asc ''tick'') (n @ v) 40) (\<lambda>x. Inr [s, x]))))
        else rbind (status_reply oid sq peer 9) (\<lambda>s. Inr [s]))))"

section \<open>Reading back what was written\<close>

lemma attr_word_bits:
  assumes "0 \<le> aid" "aid < 128" "n < 2 ^ 24"
  shows "attr_word aid ext n AND 0xFFFFFF = int n" "drop_bit 24 (attr_word aid ext n) AND 0x7F = aid"
    "drop_bit 31 (attr_word aid ext n) \<noteq> 0 \<longleftrightarrow> ext" "0 \<le> attr_word aid ext n" "attr_word aid ext n < 256 ^ 4"
proof -
  define E :: int where "E = (if ext then push_bit 31 1 else 0)"
  have w: "attr_word aid ext n = (E OR push_bit 24 aid) OR int n" by (simp add: attr_word_def E_def push_bit_eq_mult)
  have tn: "take_bit 24 (int n) = int n" "drop_bit 24 (int n) = 0" "drop_bit 31 (int n) = 0"
    using assms(3) by (simp_all add: take_bit_int_eq_self drop_bit_eq_div)
  have ta: "take_bit 7 aid = aid" "drop_bit 7 aid = 0" using assms(1,2) by (simp_all add: take_bit_int_eq_self drop_bit_eq_div)
  have m: "(0xFFFFFF :: int) = mask 24" "(0x7F :: int) = mask 7" by (simp_all add: mask_eq_exp_minus_1)
  have "attr_word aid ext n AND 0xFFFFFF = take_bit 24 (attr_word aid ext n)" by (simp only: m take_bit_eq_mask)
  also have "\<dots> = int n" unfolding w using tn by (simp add: E_def take_bit_push_bit)
  finally show "attr_word aid ext n AND 0xFFFFFF = int n" .
  have d24: "drop_bit 24 (attr_word aid ext n) = drop_bit 24 E OR aid" unfolding w using tn by (simp add: drop_bit_push_bit)
  have "drop_bit 24 (attr_word aid ext n) AND 0x7F = take_bit 7 (drop_bit 24 E OR aid)" by (simp only: d24 m take_bit_eq_mask)
  also have "\<dots> = aid" using ta by (simp add: E_def take_bit_push_bit drop_bit_push_bit)
  finally show "drop_bit 24 (attr_word aid ext n) AND 0x7F = aid" .
  have "drop_bit 31 (push_bit 24 aid) = drop_bit 7 aid" by (simp add: drop_bit_push_bit)
  then show "drop_bit 31 (attr_word aid ext n) \<noteq> 0 \<longleftrightarrow> ext" unfolding w using tn ta by (simp add: E_def)
  show "0 \<le> attr_word aid ext n" unfolding w using assms(1) by (simp add: E_def)
  have "E < 2 ^ 32" "push_bit 24 aid < 2 ^ 32" "int n < 2 ^ 32" using assms(2,3) by (simp_all add: E_def push_bit_eq_mult)
  then have "(E OR push_bit 24 aid) OR int n < 2 ^ 32" using assms(1) by (intro OR_upper) (simp_all add: E_def)
  then show "attr_word aid ext n < 256 ^ 4" unfolding w by simp
qed

lemma from_be_pack: "pack_be n v = Inr b \<Longrightarrow> from_be b = v \<and> length b = n \<and> is_bytes b"
  by (auto simp: pack_be_def from_be_def from_le_le_bytes split: if_splits)

text \<open>An attribute of the format's range: a number below 128, and a length that fits the 24 bits.\<close>

definition attr_ok :: "int \<times> bool \<times> bytes \<Rightarrow> bool" where
  "attr_ok = (\<lambda>(aid, ext, data). 0 \<le> aid \<and> aid < 128 \<and> 4 + length data < 2 ^ 24)"

definition attr_bytes :: "int \<times> bool \<times> bytes \<Rightarrow> bytes" where
  "attr_bytes = (\<lambda>(aid, ext, data). rev (le_bytes 4 (attr_word aid ext (4 + length data))) @ data
     @ replicate (pad4 (4 + length data) - (4 + length data)) 0)"

lemma attr_Inr: "attr_ok (aid, ext, data) \<Longrightarrow> attr aid data ext = Inr (attr_bytes (aid, ext, data))"
  using attr_word_bits(4,5) [of aid "4 + length data" ext] by (simp add: attr_def attr_bytes_def attr_ok_def pack_be_def Let_def)

lemma length_attr_bytes: "length (attr_bytes (aid, ext, data)) = pad4 (4 + length data)"
  using pad4_le(1) [of "4 + length data"] by (simp add: attr_bytes_def)

lemma u32_attr_bytes:
  assumes "attr_ok (aid, ext, data)"
  shows "u32_at (pre @ attr_bytes (aid, ext, data) @ post) (length pre) = attr_word aid ext (4 + length data)"
proof -
  have "0 \<le> attr_word aid ext (4 + length data)" "attr_word aid ext (4 + length data) < 256 ^ 4"
    using attr_word_bits(4,5) [of aid "4 + length data" ext] assms by (simp_all add: attr_ok_def)
  then show ?thesis by (simp add: u32_at_def attr_bytes_def slice_def from_be_def from_le_le_bytes)
qed

lemma walk_from_attr:
  assumes "attr_ok (aid, ext, data)"
  shows "walk_from (pre @ attr_bytes (aid, ext, data) @ post) (length pre) =
    Attr aid ext data # walk_from (pre @ attr_bytes (aid, ext, data) @ post) (length (pre @ attr_bytes (aid, ext, data)))"
proof -
  let ?n = "4 + length data" and ?b = "pre @ attr_bytes (aid, ext, data) @ post"
  note u = u32_attr_bytes [OF assms, of pre post]
  note w = attr_word_bits(1-3) [of aid ?n ext]
  have r: "0 \<le> aid" "aid < 128" "?n < 2 ^ 24" using assms by (simp_all add: attr_ok_def)
  have n: "nat (attr_word aid ext ?n AND 0xFFFFFF) = ?n" using w(1) [OF r] by simp
  have l: "length ?b = length pre + pad4 ?n + length post" by (simp add: length_attr_bytes)
  have le: "length pre + 4 \<le> length ?b" "\<not> (?n < 4 \<or> length pre + ?n > length ?b)" using l pad4_le(1) [of ?n] by auto
  have s: "slice (length pre + 4) (length pre + ?n) ?b = data" by (simp add: slice_def attr_bytes_def)
  show ?thesis
    by (subst walk_from.simps) (simp only: le if_True if_False Let_def u n s w(2) [OF r] w(3) [OF r], simp add: length_attr_bytes)
qed

lemma walk_from_attrs:
  "list_all attr_ok as \<Longrightarrow> walk_from (pre @ concat (map attr_bytes as)) (length pre) = map (\<lambda>(aid, ext, data). Attr aid ext data) as"
proof (induction as arbitrary: pre)
  case Nil
  then show ?case by (subst walk_from.simps) simp
next
  case (Cons a as)
  obtain aid ext data where a: "a = (aid, ext, data)" by (cases a)
  show ?case using walk_from_attr [of aid ext data pre "concat (map attr_bytes as)"] Cons.IH [of "pre @ attr_bytes a"] Cons.prems a by simp
qed

section \<open>Messages are frames\<close>

text \<open>A message: its type, sequence number, peer and attributes, with every field in range.\<close>

type_synonym message = "int \<times> int \<times> int \<times> (int \<times> bool \<times> bytes) list"

definition msg_ok :: "message \<Rightarrow> bool" where
  "msg_ok = (\<lambda>(t, sq, peer, as). 0 \<le> t \<and> t < 256 \<and> 0 \<le> sq \<and> sq < 65536 \<and> 0 \<le> peer \<and> peer < 2 ^ 32 \<and> list_all attr_ok as \<and>
     4 + length (concat (map attr_bytes as)) < 2 ^ 24)"

definition send_message :: "message \<Rightarrow> bytes result" where
  "send_message = (\<lambda>(t, sq, peer, as). rbind (rmap (\<lambda>(aid, ext, data). attr aid data ext) as) (\<lambda>cs. msg t sq peer (concat cs)))"

definition be :: "nat \<Rightarrow> int \<Rightarrow> bytes" where
  "be n v = rev (le_bytes n v)"

definition msg_bytes :: "message \<Rightarrow> bytes" where
  "msg_bytes = (\<lambda>(t, sq, peer, as). [0, t] @ be 2 sq @ be 4 peer @ attr_bytes (0, False, concat (map attr_bytes as)))"

lemma length_be [simp]: "length (be n v) = n"
  by (simp add: be_def)

lemma from_be_be: "0 \<le> v \<Longrightarrow> v < 256 ^ n \<Longrightarrow> from_be (be n v) = v"
  by (simp add: be_def from_be_def from_le_le_bytes)

lemma dvd_attr_bytes: "4 dvd length (concat (map attr_bytes as))"
proof (induction as)
  case (Cons a as)
  obtain aid ext data where "a = (aid, ext, data)" by (cases a)
  with Cons pad4_le(2) show ?case by (simp add: length_attr_bytes)
qed simp

lemma pad4_dvd: "4 dvd n \<Longrightarrow> pad4 n = n"
  by (auto simp: pad4_eq)

lemma attr_bytes_top:
  "4 dvd length cs \<Longrightarrow> attr_bytes (0, False, cs) = be 4 (attr_word 0 False (4 + length cs)) @ cs"
  using pad4_dvd [of "4 + length cs"] by (simp add: attr_bytes_def be_def)

lemma msg_Inr:
  assumes "0 \<le> t" "t < 256" "0 \<le> sq" "sq < 65536" "0 \<le> peer" "peer < 2 ^ 32" "4 + length cs < 2 ^ 24"
  shows "msg t sq peer cs = Inr ([0, t] @ be 2 sq @ be 4 peer @ attr_bytes (0, False, cs))"
proof -
  have "attr 0 cs False = Inr (attr_bytes (0, False, cs))" by (rule attr_Inr) (use assms(7) in \<open>simp add: attr_ok_def\<close>)
  then show ?thesis using assms by (simp add: msg_def pack_be_def be_def)
qed

lemma send_message_Inr:
  assumes "msg_ok m"
  shows "send_message m = Inr (msg_bytes m)"
proof -
  obtain t sq peer as where m: "m = (t, sq, peer, as)" by (cases m)
  have "rmap (\<lambda>(aid, ext, data). attr aid data ext) as = Inr (map attr_bytes as)"
    by (rule rmap_Inr) (use assms m in \<open>auto simp: msg_ok_def list_all_iff attr_Inr\<close>)
  then show ?thesis using assms m msg_Inr [of t sq peer "concat (map attr_bytes as)"]
    by (simp add: send_message_def msg_bytes_def msg_ok_def)
qed

lemma msg_bytes_frame:
  assumes "msg_ok (t, sq, peer, as)"
  defines "f \<equiv> msg_bytes (t, sq, peer, as)"
  shows "ubus_whole f = Some (length f)" "children f = map (\<lambda>(aid, ext, data). Attr aid ext data) as"
    "f ! 1 = t" "from_be (slice 2 4 f) = sq" "from_be (slice 4 8 f) = peer"
proof -
  let ?cs = "concat (map attr_bytes as)" and ?w = "attr_word 0 False (4 + length (concat (map attr_bytes as)))"
  have r: "4 + length ?cs < 2 ^ 24" using assms(1) by (simp add: msg_ok_def)
  have f: "f = [0, t] @ be 2 sq @ be 4 peer @ be 4 ?w @ ?cs" by (simp add: f_def msg_bytes_def attr_bytes_top [OF dvd_attr_bytes])
  have w: "?w AND 0xFFFFFF = int (4 + length ?cs)" "0 \<le> ?w" "?w < 256 ^ 4"
    using attr_word_bits(1,4,5) [of 0 "4 + length ?cs" False] r by simp_all
  have l: "length f = 12 + length ?cs" by (simp add: f)
  have s: "slice 8 12 f = be 4 ?w" "slice 2 4 f = be 2 sq" "slice 4 8 f = be 4 peer" "drop 12 f = ?cs" "f ! 1 = t"
    by (simp_all add: f slice_def numeral_eq_Suc)
  have "blob_len f = 4 + length ?cs" using w s(1) from_be_be [OF w(2,3)] by (simp add: blob_len_def)
  then show "ubus_whole f = Some (length f)" using l by (simp add: ubus_whole_def)
  show "children f = map (\<lambda>(aid, ext, data). Attr aid ext data) as"
    using walk_from_attrs [of as "[]"] assms(1) s(4) by (simp add: children_def walk_blob_def msg_ok_def)
  show "f ! 1 = t" by (rule s(5))
  show "from_be (slice 2 4 f) = sq" "from_be (slice 4 8 f) = peer"
    using assms(1) from_be_be [of sq 2] from_be_be [of peer 4] s(2,3) by (simp_all add: msg_ok_def)
qed

text \<open>
  C34. The capture's writer, framer and reader agree.  Messages whose fields are in range are written without an error, and however the
  stream of them is cut into segments, the framer gives exactly the messages back with nothing left over; the type, the sequence
  number and the peer of each frame are those of its message, and the walk over its attributes finds those that were
  written, in order, with their numbers, flags and contents.
\<close>

theorem messages_survive_the_wire:
  assumes "list_all msg_ok ms"
  shows "\<exists>fs. rmap send_message ms = Inr fs \<and>
    (\<forall>segs. concat segs = concat fs \<longrightarrow> foldl (feed ubus_whole) ([], []) segs = (fs, [])) \<and>
    map (\<lambda>f. (f ! 1, from_be (slice 2 4 f), from_be (slice 4 8 f), children f)) fs =
    map (\<lambda>(t, sq, peer, as). (t, sq, peer, map (\<lambda>(aid, ext, data). Attr aid ext data) as)) ms"
proof (intro exI conjI allI impI)
  show "rmap send_message ms = Inr (map msg_bytes ms)"
    by (rule rmap_Inr) (use assms in \<open>auto simp: list_all_iff send_message_Inr\<close>)
  show "foldl (feed ubus_whole) ([], []) segs = (map msg_bytes ms, [])" if "concat segs = concat (map msg_bytes ms)" for segs
  proof -
    have "list_all (\<lambda>f. ubus_whole f = Some (length f)) (map msg_bytes ms)"
      using assms msg_bytes_frame(1) by (auto simp: list_all_iff)
    from ubus.split_written [OF this, of "[]"] show ?thesis
      using ubus.segmentation [of segs] that ubus.split_empty by simp
  qed
  show "map (\<lambda>f. (f ! 1, from_be (slice 2 4 f), from_be (slice 4 8 f), children f)) (map msg_bytes ms) =
      map (\<lambda>(t, sq, peer, as). (t, sq, peer, map (\<lambda>(aid, ext, data). Attr aid ext data) as)) ms"
    using assms msg_bytes_frame(2-5) by (auto simp: list_all_iff)
qed

theorem messages_survive_the_wire_witness:
  "list_all msg_ok [(5, 7, 9, [(4, False, [101, 0]), (7, False, [])])] \<and>
   (\<exists>fs. rmap send_message [(5, 7, 9, [(4, False, [101, 0]), (7, False, [])])] = Inr fs \<and>
     foldl (feed ubus_whole) ([], []) [concat fs] = (fs, []) \<and> map children fs = [[Attr 4 False [101, 0], Attr 7 False []]])"
proof -
  let ?ms = "[(5, 7, 9, [(4, False, [101, 0]), (7, False, [])])] :: message list"
  have ok: "list_all msg_ok ?ms" by (simp add: msg_ok_def attr_ok_def length_attr_bytes pad4_eq)
  obtain fs where fs: "rmap send_message ?ms = Inr fs" "\<forall>segs. concat segs = concat fs \<longrightarrow> foldl (feed ubus_whole) ([], []) segs = (fs, [])"
    "map (\<lambda>f. (f ! 1, from_be (slice 2 4 f), from_be (slice 4 8 f), children f)) fs =
      map (\<lambda>(t, sq, peer, as). (t, sq, peer, map (\<lambda>(aid, ext, data). Attr aid ext data) as)) ?ms"
    using messages_survive_the_wire [OF ok] by (elim exE conjE)
  have "map children fs = map (snd \<circ> snd \<circ> snd) (map (\<lambda>f. (f ! 1, from_be (slice 2 4 f), from_be (slice 4 8 f), children f)) fs)"
    unfolding map_map by (simp add: comp_def)
  then have c: "map children fs = [[Attr 4 False [101, 0], Attr 7 False []]]" unfolding fs(3) by simp
  have "concat [concat fs] = concat fs" by simp
  note f = fs(2) [THEN spec, THEN mp, OF this]
  show ?thesis by (intro conjI exI [of _ fs] ok fs(1) f c)
qed

section \<open>What the provider answers\<close>

lemma walk_from_bound: "Attr a e d \<in> set (walk_from buf i) \<Longrightarrow> length d + 4 \<le> length buf"
proof (induction buf i rule: walk_from.induct)
  case (1 buf i)
  define n where "n = nat (u32_at buf i AND 0xFFFFFF)"
  show ?case
  proof (cases "i + 4 \<le> length buf \<and> \<not> (n < 4 \<or> i + n > length buf)")
    case True
    then have u: "walk_from buf i = Attr (drop_bit 24 (u32_at buf i) AND 0x7F) (drop_bit 31 (u32_at buf i) \<noteq> 0) (slice (i + 4) (i + n) buf)
        # walk_from buf (i + pad4 n)"
      by (subst walk_from.simps) (simp add: Let_def n_def)
    show ?thesis
    proof (cases "Attr a e d \<in> set (walk_from buf (i + pad4 n))")
      case True
      with \<open>i + 4 \<le> length buf \<and> \<not> (n < 4 \<or> i + n > length buf)\<close> show ?thesis by (intro "1.IH") (auto simp: n_def)
    next
      case False
      with u "1.prems" have "d = slice (i + 4) (i + n) buf" by auto
      then have "length d \<le> n - 4" by (simp add: length_slice)
      with True show ?thesis by auto
    qed
  next
    case False
    then have "set (walk_from buf i) \<subseteq> {Bad (uhex (drop i buf))}" by (subst walk_from.simps) (auto simp: Let_def n_def)
    with "1.prems" show ?thesis by auto
  qed
qed

lemma get_attr_mem:
  assumes "get_attr f aid = Some d"
  shows "\<exists>e. Attr aid e d \<in> set (children f)"
proof -
  let ?step = "\<lambda>r c. case c of Attr a _ d \<Rightarrow> if a = aid then Some d else r | Bad _ \<Rightarrow> r"
  have "foldl ?step r cs = Some d \<Longrightarrow> r = Some d \<or> (\<exists>e. Attr aid e d \<in> set cs)" for r cs
  proof (induction cs arbitrary: r)
    case (Cons c cs)
    from Cons.IH [of "?step r c"] Cons.prems show ?case by (cases c) (auto split: if_splits)
  qed simp
  from this [of None "children f"] assms show ?thesis by (simp add: get_attr_def)
qed

lemma get_or_empty_bound: "length (get_or_empty f aid) + 16 \<le> length f \<or> get_or_empty f aid = []"
proof (cases "get_attr f aid")
  case (Some d)
  from get_attr_mem [OF this] obtain e where "Attr aid e d \<in> set (walk_from (drop 12 f) 0)" by (auto simp: children_def walk_blob_def)
  from walk_from_bound [OF this] have "length d + 16 \<le> length f" by (simp add: le_diff_conv)
  with Some show ?thesis by (simp add: get_or_empty_def)
qed (simp add: get_or_empty_def)

text \<open>The two replies, for fields in range.\<close>

lemma attr_oid_Inr: "attr_oid (Some v) = Inr (attr_bytes (3, False, be 4 (v AND 0xFFFFFFFF)))"
proof -
  have "v AND 0xFFFFFFFF = take_bit 32 v"
    using take_bit_eq_mask [of 32 v] by (simp add: mask_eq_exp_minus_1)
  then have "0 \<le> v AND 0xFFFFFFFF" "v AND 0xFFFFFFFF < 2 ^ 32"
    using take_bit_int_less_exp [of 32 v] by simp_all
  then show ?thesis by (simp add: attr_oid_def attr_u32_def ubus_numbers pack_be_def attr_Inr attr_ok_def be_def)
qed

lemma status_reply_Inr:
  assumes "0 \<le> sq" "sq < 65536" "0 \<le> peer" "peer < 2 ^ 32" "0 \<le> st" "st < 2 ^ 31"
  shows "status_reply (Some v) sq peer st = Inr (msg_bytes (1, sq, peer, [(1, False, be 4 st), (3, False, be 4 (v AND 0xFFFFFFFF))]))"
proof -
  have "attr_i32 1 st = Inr (attr_bytes (1, False, be 4 st))"
    using assms(5,6) by (simp add: attr_i32_def pack_i32_def attr_Inr attr_ok_def be_def)
  moreover have "length (attr_bytes (1, False, be 4 st) @ attr_bytes (3, False, be 4 (v AND 0xFFFFFFFF))) = 16"
    by (simp add: length_attr_bytes pad4_eq)
  ultimately show ?thesis using assms msg_Inr [of 1 sq peer "attr_bytes (1, False, be 4 st) @ attr_bytes (3, False, be 4 (v AND 0xFFFFFFFF))"]
    by (simp add: status_reply_def attr_oid_Inr ubus_numbers msg_bytes_def)
qed

lemma data_reply_Inr:
  assumes "0 \<le> sq" "sq < 65536" "0 \<le> peer" "peer < 2 ^ 32" "length data + 19 < 2 ^ 24"
  shows "data_reply (Some v) sq peer data = Inr (msg_bytes (2, sq, peer, [(3, False, be 4 (v AND 0xFFFFFFFF)), (7, False, data)])) \<and>
    msg_ok (2, sq, peer, [(3, False, be 4 (v AND 0xFFFFFFFF)), (7, False, data)])"
proof -
  have l: "4 + length (attr_bytes (3, False, be 4 (v AND 0xFFFFFFFF)) @ attr_bytes (7, False, data)) < 2 ^ 24"
    using pad4_le(3) [of "4 + length data"] assms(5) by (simp add: length_attr_bytes pad4_eq [of 8])
  have "attr 7 data False = Inr (attr_bytes (7, False, data))" using assms(5) by (simp add: attr_Inr attr_ok_def)
  then show ?thesis using assms l msg_Inr [OF _ _ assms(1-4) l, of 2]
    by (simp add: data_reply_def attr_oid_Inr ubus_numbers msg_bytes_def msg_ok_def attr_ok_def)
qed

lemma be_from_be: "is_bytes x \<Longrightarrow> length x = n \<Longrightarrow> be n (from_be x) = x"
  using le_bytes_from_le [of "rev x" n] by (simp add: be_def from_be_def)

lemma slice_glue: "i \<le> j \<Longrightarrow> j \<le> k \<Longrightarrow> slice i j x @ slice j k x = slice i k x"
proof -
  assume "i \<le> j" "j \<le> k"
  then have "take (j - i) (drop i x) @ take (k - j) (drop (j - i) (drop i x)) = take (k - i) (drop i x)"
    using take_add [of "j - i" "k - j" "drop i x"] by simp
  with \<open>i \<le> j\<close> show ?thesis by (simp add: slice_def)
qed

lemma msg_bytes_header: "msg_bytes (t, sq, peer, as) ! 1 = t \<and> slice 2 8 (msg_bytes (t, sq, peer, as)) = be 2 sq @ be 4 peer"
  by (simp add: msg_bytes_def slice_def numeral_eq_Suc)

lemma tick_data: "\<exists>n w. bm_i32 (asc ''n'') 5 = Inr n \<and> bm_str (asc ''s'') (asc ''v'') = Inr w \<and> length n = 12 \<and> length w = 12"
proof -
  have "case bm_i32 (asc ''n'') 5 of Inr n \<Rightarrow> length n = 12 | Inl _ \<Rightarrow> False"
    "case bm_str (asc ''s'') (asc ''v'') of Inr w \<Rightarrow> length w = 12 | Inl _ \<Rightarrow> False" by code_simp+
  then show ?thesis by (auto split: sum.splits)
qed

lemma notify_tick:
  "\<exists>n w x. bm_i32 (asc ''n'') 5 = Inr n \<and> bm_str (asc ''s'') (asc ''v'') = Inr w \<and> notify (Some v) (asc ''tick'') (n @ w) 40 = Inr x \<and> x ! 1 = M_NOTIFY"
proof -
  from tick_data obtain n w where nw: "bm_i32 (asc ''n'') 5 = Inr n" "bm_str (asc ''s'') (asc ''v'') = Inr w" "length n = 12" "length w = 12" by blast
  let ?a = "attr_bytes (3, False, be 4 (v AND 0xFFFFFFFF))" and ?b = "attr_bytes (4, False, asc ''tick'' @ [0])" and ?c = "attr_bytes (7, False, n @ w)"
  have b: "attr_str 4 (asc ''tick'') = Inr ?b" by (simp add: attr_str_def py_encode_def encode_char_def attr_Inr attr_ok_def)
  have c: "attr 7 (n @ w) False = Inr ?c" by (rule attr_Inr) (simp add: attr_ok_def nw)
  have l: "4 + length (?a @ ?b @ ?c) < 2 ^ 24" by (simp add: length_attr_bytes pad4_eq nw)
  have "notify (Some v) (asc ''tick'') (n @ w) 40 = Inr ([0, 10] @ be 2 40 @ be 4 0 @ attr_bytes (0, False, ?a @ ?b @ ?c))"
    using msg_Inr [OF _ _ _ _ _ _ l, of 10 40 0] b c by (simp add: notify_def attr_oid_Inr ubus_numbers)
  then show ?thesis using nw by (auto simp: ubus_numbers)
qed

text \<open>
  C21. The provider answers every call.  For a call frame of the bus whose method name is text, it sends exactly one \<open>STATUS\<close>, every \<open>STATUS\<close> and
  \<open>DATA\<close> message repeats the sequence number and the peer of the call, and the echoing methods send the call's data back unchanged before
  the status.
\<close>

theorem provider_answers_call:
  assumes "is_bytes f" "12 \<le> length f" "length f + 3 < 2 ^ 24" "f ! 1 = M_INVOKE"
    and "utf8_decode (rstrip_nul (get_or_empty f A_METHOD)) = Inr meth"
  shows "\<exists>ms. provider_answers (Some v) f = Inr ms \<and> length (filter (\<lambda>m. m ! 1 = M_STATUS) ms) = 1 \<and>
    list_all (\<lambda>m. m ! 1 = M_NOTIFY \<or> slice 2 8 m = slice 2 8 f) ms \<and>
    (meth \<in> {asc ''echo'', asc ''slow'', asc ''slowlong''} \<longrightarrow> (\<exists>d s. ms = [d, s] \<and> d ! 1 = M_DATA \<and> get_attr d A_DATA = Some (get_or_empty f A_DATA)))"
proof -
  let ?sq = "from_be (slice 2 4 f)" and ?peer = "from_be (slice 4 8 f)" and ?data = "get_or_empty f A_DATA" and ?o = "(3, False, be 4 (v AND 0xFFFFFFFF))"
  have ib: "is_bytes (slice 2 4 f)" "is_bytes (slice 4 8 f)" using assms(1) by auto
  have l: "length (slice 2 4 f) = 2" "length (slice 4 8 f) = 4" using assms(2) by (simp_all add: length_slice)
  have r: "0 \<le> ?sq" "?sq < 65536" "0 \<le> ?peer" "?peer < 2 ^ 32" using from_be_bounds [OF ib(1)] from_be_bounds [OF ib(2)] l by simp_all
  have h: "be 2 ?sq @ be 4 ?peer = slice 2 8 f" using be_from_be [OF ib(1) l(1)] be_from_be [OF ib(2) l(2)] slice_glue [of 2 4 8 f] by simp
  define S where "S st = msg_bytes (1, ?sq, ?peer, [(1, False, be 4 st), ?o])" for st
  define D where "D = msg_bytes (2, ?sq, ?peer, [?o, (7, False, ?data)])"
  have st: "status_reply (Some v) ?sq ?peer st = Inr (S st)" if "0 \<le> st" "st < 2 ^ 31" for st
    unfolding S_def using status_reply_Inr [OF r that] .
  have dl: "length ?data + 19 < 2 ^ 24" using get_or_empty_bound [of f A_DATA] assms(3) by auto
  note dr = data_reply_Inr [OF r dl, of v, folded D_def]
  have hd: "S st ! 1 = M_STATUS" "slice 2 8 (S st) = slice 2 8 f" "D ! 1 = M_DATA" "slice 2 8 D = slice 2 8 f" for st
    unfolding S_def D_def using h by (simp_all add: msg_bytes_header ubus_numbers del: One_nat_def)
  have ne: "M_DATA \<noteq> M_STATUS" "M_NOTIFY \<noteq> M_STATUS" by (simp_all add: ubus_numbers)
  have ga: "get_attr D A_DATA = Some ?data" unfolding get_attr_def D_def using msg_bytes_frame(2) [OF dr [THEN conjunct2]] by (simp add: ubus_numbers)
  note p = provider_answers_def [of "Some v" f, unfolded Let_def assms(4) assms(5), simplified]
  consider (echo) "meth \<in> {asc ''echo'', asc ''slow'', asc ''slowlong''}" | (notify) "meth = asc ''notify''"
    | (other) "meth \<notin> {asc ''echo'', asc ''slow'', asc ''slowlong'', asc ''notify''}" by blast
  then show ?thesis
  proof cases
    case echo
    then have "provider_answers (Some v) f = Inr [D, S 0]" unfolding p using dr st [of 0] by auto
    then show ?thesis using hd ga ne by auto
  next
    case notify
    obtain n w x where x: "bm_i32 (asc ''n'') 5 = Inr n" "bm_str (asc ''s'') (asc ''v'') = Inr w" "notify (Some v) (asc ''tick'') (n @ w) 40 = Inr x" "x ! 1 = M_NOTIFY"
      using notify_tick by blast
    have "provider_answers (Some v) f = Inr [S 0, x]" unfolding p notify using x st [of 0] by simp
    then show ?thesis using notify hd ne x(4) by auto
  next
    case other
    then have "provider_answers (Some v) f = Inr [S 9]" unfolding p using st [of 9] by auto
    then show ?thesis using other hd by auto
  qed
qed

theorem provider_answers_call_witness:
  "\<exists>d s. provider_answers (Some 3) [0, 5, 0, 7, 0, 0, 0, 9, 0, 0, 0, 24, 4, 0, 0, 9, 101, 99, 104, 111, 0, 0, 0, 0, 7, 0, 0, 6, 1, 2, 0, 0] = Inr [d, s] \<and>
    get_attr d A_DATA = Some [1, 2]"
proof -
  let ?f = "[0, 5, 0, 7, 0, 0, 0, 9, 0, 0, 0, 24, 4, 0, 0, 9, 101, 99, 104, 111, 0, 0, 0, 0, 7, 0, 0, 6, 1, 2, 0, 0] :: bytes"
  have 1: "is_bytes ?f" "12 \<le> length ?f" "length ?f + 3 < 2 ^ 24" by (simp_all add: is_byte_def)
  have 2: "?f ! 1 = M_INVOKE" "utf8_decode (rstrip_nul (get_or_empty ?f A_METHOD)) = Inr (asc ''echo'')" "get_or_empty ?f A_DATA = [1, 2]" by code_simp+
  from provider_answers_call [OF 1 2(1,2), of 3] 2(3) show ?thesis by auto
qed

end
