(* ===== verification/SeedCandidates.thy ===== *)
theory SeedCandidates
  imports FuzzReach
begin

text \<open>
  \<open>scripts/gen/fuzz-seed-candidates.py\<close>: the byte literals of a Zig file as candidate seeds.  \<open>main\<close> is modelled up to the lines it prints.
  Two facts stand beside the model: escaped bytes are read back, and comment stripping stops at the first double quote of the file.
\<close>

section \<open>Comments\<close>

text \<open>The body of a string up to its closing quote, which is not consumed, and the rest.\<close>

fun string_span :: "ustr \<Rightarrow> ustr \<times> ustr" where
  "string_span [] = ([], [])"
| "string_span [c] = (if c = 0x22 then ([], [c]) else ([c], []))"
| "string_span (c # d # s) =
     (if c = 0x22 then ([], c # d # s)
      else if c = 0x5C then (case string_span s of (l, r) \<Rightarrow> (c # d # l, r))
      else (case string_span (d # s) of (l, r) \<Rightarrow> (c # l, r)))"

lemma string_span_append: "string_span s = (l, r) \<Longrightarrow> l @ r = s"
  by (induction s arbitrary: l r rule: string_span.induct) (auto split: if_splits prod.splits)

lemma string_span_rest: "string_span s = (l, r) \<Longrightarrow> r = [] \<or> hd r = 0x22"
  by (induction s arbitrary: l r rule: string_span.induct) (auto split: if_splits prod.splits)

lemma string_span_length: "length (snd (string_span s)) \<le> length s"
  by (cases "string_span s") (auto dest!: string_span_append)

function strip_seed_comments :: "ustr \<Rightarrow> ustr" where
  "strip_seed_comments [] = []"
| "strip_seed_comments (c # s) =
     (if c = 0x22 then c # fst (string_span s) @ strip_seed_comments (snd (string_span s))
      else if c = 47 \<and> take 1 s = [47] then strip_seed_comments (dropWhile (\<lambda>x. x \<noteq> 10) s)
      else c # strip_seed_comments s)"
  by pat_completeness auto
termination
proof (relation "measure length", goal_cases)
  case (2 c s)
  then show ?case using string_span_length [of s] by simp
next
  case (3 c s)
  then show ?case using length_dropWhile_le [of "\<lambda>x. x \<noteq> 10" s] by simp
qed simp_all

declare strip_seed_comments.simps [simp del]

section \<open>Literals\<close>

definition ESCAPES :: "(int \<times> int) list" where
  "ESCAPES = [(110, 10), (114, 13), (116, 9), (92, 92), (34, 34), (39, 39), (48, 0)]"

text \<open>\<open>int(s, 16)\<close> of two characters, as a byte; a negative value is refused by \<open>append\<close>.\<close>

definition hex_byte :: "ustr \<Rightarrow> int option" where
  "hex_byte s = (if \<not> list_all (\<lambda>c. 0 \<le> c \<and> c < 256) s then None
     else (case py_int16 (map char_of s) of Inr v \<Rightarrow> if 0 \<le> v \<and> v < 256 then Some v else None | Inl _ \<Rightarrow> None))"

function unescape :: "ustr \<Rightarrow> bytes option" where
  "unescape [] = Some []"
| "unescape (c # s) =
     (if c \<noteq> 0x5C then map_option (\<lambda>bs. encode_char c @ bs) (unescape s)
      else if take 1 s = [120] \<and> 3 \<le> length s then
        (case hex_byte (take 2 (drop 1 s)) of None \<Rightarrow> None | Some b \<Rightarrow> map_option (\<lambda>bs. b # bs) (unescape (drop 3 s)))
      else if s = [] then None
      else (case map_of ESCAPES (hd s) of None \<Rightarrow> None | Some b \<Rightarrow> map_option (\<lambda>bs. b # bs) (unescape (tl s))))"
  by pat_completeness auto
termination
  by (relation "measure length") auto

declare unescape.simps [simp del]

definition no_brace :: re where "no_brace = rstar (RSet (\<lambda>x. x \<noteq> 123 \<and> x \<noteq> 125))"

definition BYTE_ARRAY :: re where
  "BYTE_ARRAY = RAlt
     (rseq [RAlt (rlit ''&'') (RSeq (rlit ''='') rs0), rlit ''[_]u8{'', RGroup 1 no_brace, rlit ''}''])
     (rseq [rlit '':'', rs0, rlit ''['', digits1, rlit '']u8'', rs0, rlit ''='', rs0, ropt (rlit ''.''), rlit ''{'', RGroup 2 no_brace, rlit ''}''])"

definition ZIG_STRING :: re where
  "ZIG_STRING = rseq [ru [0x22], RGroup 1 (rstar (RAlt (RSet (\<lambda>x. x \<noteq> 0x22 \<and> x \<noteq> 0x5C \<and> x \<noteq> 10)) (RSeq (ru [0x5C]) rdot))), ru [0x22]]"

definition hex_digit_re :: re where
  "hex_digit_re = RSet (\<lambda>x. u_digit x \<or> (97 \<le> x \<and> x \<le> 102) \<or> (65 \<le> x \<and> x \<le> 70))"

definition HEX_CALL :: re where
  "HEX_CALL = rseq [rlit ''hex.bytes('', rs0, digits1, rs0, rlit '','', rs0, ru [0x22], RGroup 1 (rplus hex_digit_re), ru [0x22]]"

definition NUM :: re where
  "NUM = RAlt (rseq [rlit ''0'', RSet (one_of ''xX''), RGroup 1 (RRep True 1 (Some 2) hex_digit_re), RWordB])
     (rseq [RWordB, RGroup 2 (RRep True 1 (Some 3) rdigit), RWordB])"

definition token_value :: "ustr \<Rightarrow> int option" where
  "token_value tok = (case re_fullmatch NUM tok of None \<Rightarrow> None
     | Some m \<Rightarrow> (case group tok m 1 of
         Some h \<Rightarrow> hex_byte h
       | None \<Rightarrow> (case parse_int (group0 tok m 2) of Inr v \<Rightarrow> if v > 255 then None else Some v | Inl _ \<Rightarrow> None)))"

fun all_some :: "'a option list \<Rightarrow> 'a list option" where
  "all_some [] = Some []"
| "all_some (x # xs) = (case x of None \<Rightarrow> None | Some v \<Rightarrow> map_option (\<lambda>vs. v # vs) (all_some xs))"

definition array_values :: "ustr \<Rightarrow> int list option" where
  "array_values body = (if ucontains (asc ''...'') body \<or> ucontains (asc ''**'') body then None
     else all_some (map token_value (filter (\<lambda>t. t \<noteq> []) (map ustrip (usplit CHR '','' body)))))"

definition hex_digit_of :: "int \<Rightarrow> int" where
  "hex_digit_of d = (if d < 10 then 48 + d else 55 + d)"

definition hex2 :: "int \<Rightarrow> ustr" where
  "hex2 v = [hex_digit_of (v div 16), hex_digit_of (v mod 16)]"

definition to_upper :: "int \<Rightarrow> int" where
  "to_upper c = (if u_lower c then c - 32 else c)"

definition src_line :: "ustr \<Rightarrow> nat \<Rightarrow> nat" where
  "src_line src off = count_list (take off src) 10 + 1"

type_synonym seed = "nat \<times> ustr \<times> ustr"

definition array_seeds :: "ustr \<Rightarrow> seed list" where
  "array_seeds src = List.map_filter (\<lambda>m. case array_values (case group src m 1 of Some b \<Rightarrow> b | None \<Rightarrow> group0 src m 2) of
       Some (v # vs) \<Rightarrow> Some (src_line src (m_start m), concat (map hex2 (v # vs)), asc ''byte array'')
     | _ \<Rightarrow> None) (finditer BYTE_ARRAY src)"

definition hex_seeds :: "ustr \<Rightarrow> seed list" where
  "hex_seeds src = map (\<lambda>m. (src_line src (m_start m), map to_upper (group0 src m 1), asc ''hex.bytes'')) (finditer HEX_CALL src)"

definition string_seeds :: "ustr \<Rightarrow> seed list" where
  "string_seeds src = List.map_filter (\<lambda>m.
     let before = slice (m_start m - 12) (m_start m) src; lit = group0 src m 1 in
     if ucontains (asc ''@import('') before \<or> ucontains (asc ''@embedFile('') before then None
     else (case unescape lit of None \<Rightarrow> None
       | Some raw \<Rightarrow> if length raw < 3 then None
           else Some (src_line src (m_start m), concat (map hex2 raw), asc ''string '' @ [0x22] @ take 28 lit @ [0x22]))) (finditer ZIG_STRING src)"

definition literals :: "ustr \<Rightarrow> seed list" where
  "literals src = array_seeds src @ hex_seeds src @ string_seeds src"

definition FUZZ_FN_RE :: re where "FUZZ_FN_RE = rseq [rlit ''fn '', RGroup 1 (RSeq (rlit ''fuzz'') rw), rlit ''('']"
definition BUFFER_RE :: re where "BUFFER_RE = rseq [rlit ''var '', rw1, rlit '': ['', RGroup 1 digits1, rlit '']u8'']"

definition buffer_sizes :: "ustr \<Rightarrow> (ustr \<times> int) list" where
  "buffer_sizes src = foldl (\<lambda>d m. let tail = slice (m_end m) (m_end m + 1200) src in
     case re_search BUFFER_RE tail of None \<Rightarrow> d
     | Some b \<Rightarrow> (case parse_int (group0 tail b 1) of Inr n \<Rightarrow> dict_set d (group0 src m 1) n | Inl _ \<Rightarrow> d)) [] (finditer FUZZ_FN_RE src)"

section \<open>The list\<close>

definition distinct_seeds :: "seed list \<Rightarrow> (ustr \<times> nat \<times> ustr) list" where
  "distinct_seeds xs = foldl (\<lambda>d (line, hx, prov). dict_setdefault d hx (line, prov)) [] xs"

definition seed_rank :: "ustr \<times> nat \<times> ustr \<Rightarrow> nat \<times> nat" where
  "seed_rank kv = (case kv of (hx, line, prov) \<Rightarrow> (if startswith prov (asc ''string'') then 1 else 0, line))"

definition seed_row :: "int option \<Rightarrow> ustr \<times> nat \<times> ustr \<Rightarrow> ustr" where
  "seed_row smallest kv = (case kv of (hx, line, prov) \<Rightarrow> let n = int (length hx div 2) in
     asc ''    seed('' @ [0x22] @ hx @ [0x22] @ asc ''), // :'' @ ushow (int line) @ [32] @ prov @ asc '', '' @ ushow n @ asc '' octets''
     @ (case smallest of None \<Rightarrow> []
        | Some k \<Rightarrow> if n > k then asc ''  '' @ [0x26A0, 32] @ ushow n @ asc '' octets > the ['' @ ushow k @ asc '']u8 buffer: this seed reads back EMPTY'' else []))"

text \<open>The exit code and the rows printed for a file.\<close>

definition seed_main :: "ustr \<Rightarrow> int \<times> ustr list" where
  "seed_main raw_src =
     (let src = strip_seed_comments raw_src; sizes = map snd (buffer_sizes src);
          smallest = (case sizes of [] \<Rightarrow> None | n # ns \<Rightarrow> Some (foldl min n ns)); found = distinct_seeds (literals src) in
      if found = [] then (1, []) else (0, map (seed_row smallest) (sort_key seed_rank found)))"

section \<open>Facts\<close>

lemma hex_byte_hex2:
  assumes "0 \<le> b" "b < 256"
  shows "hex_byte (hex2 b) = Some b"
proof -
  have "\<forall>k \<in> set (upt 0 256). hex_byte (hex2 (int k)) = Some (int k)" by code_simp
  moreover have "nat b \<in> set (upt 0 256)" using assms by simp
  ultimately have "hex_byte (hex2 (int (nat b))) = Some (int (nat b))" by (rule bspec)
  with assms show ?thesis by simp
qed

text \<open>Bytes written as \<open>\xHH\<close> are read back.\<close>

theorem unescape_hex: "list_all (\<lambda>b. 0 \<le> b \<and> b < 256) bs \<Longrightarrow> unescape (concat (map (\<lambda>b. [0x5C, 120] @ hex2 b) bs)) = Some bs"
proof (induction bs)
  case (Cons b bs)
  then have b: "hex_byte (hex2 b) = Some b" by (simp add: hex_byte_hex2)
  have t: "take 2 (hex2 b @ s) = hex2 b" "drop 2 (hex2 b @ s) = s" for s by (simp_all add: hex2_def)
  show ?case using Cons b by (simp add: unescape.simps t) (simp add: hex2_def numeral_3_eq_3)
qed (simp add: unescape.simps)

text \<open>Nothing after the first double quote is stripped: the closing quote of a string is taken for the opening one of the next.\<close>

theorem comments_kept_after_quote: "strip_seed_comments (0x22 # s) = 0x22 # s"
proof (induction "length s" arbitrary: s rule: less_induct)
  case less
  obtain l r where lr: "string_span s = (l, r)" by (cases "string_span s")
  have s: "l @ r = s" by (rule string_span_append [OF lr])
  have "strip_seed_comments r = r"
  proof (cases r)
    case Nil
    then show ?thesis by (simp add: strip_seed_comments.simps)
  next
    case (Cons q t)
    then have "q = 0x22" using string_span_rest [OF lr] by simp
    moreover have "length t < length s" using s Cons by auto
    ultimately show ?thesis using less Cons by simp
  qed
  then show ?case by (simp add: strip_seed_comments.simps lr s)
qed

end
