(* ===== verification/CaptureFile.thy ===== *)
theory CaptureFile
  imports Blob SeedCandidates
begin

text \<open>
  The Zig file \<open>modules/blobmsg/tools/ubus_capture.py\<close> writes from its captures.  The string literals in it are read back by the reader of
  \<open>scripts/gen/fuzz-seed-candidates.py\<close>, the other script of the repository that knows Zig string literals.
\<close>

section \<open>String literals\<close>

definition zchar :: "int \<Rightarrow> ustr" where
  "zchar b = (if b = 0x22 then [92, 34] else if b = 0x5C then [92, 92] else if b = 0x0A then [92, 110] else if b = 0x09 then [92, 116]
     else if 0x20 \<le> b \<and> b < 0x7F then [b] else [92, 120] @ uhex [b])"

definition zstr_lit :: "ustr \<Rightarrow> ustr result" where
  "zstr_lit s = rbind (py_encode s) (\<lambda>bs. Inr ([34] @ concat (map zchar bs) @ [34]))"

section \<open>The file\<close>

record capture =
  cp_cli :: "(ustr \<times> ustr) option"
  cp_listen :: "ustr option"
  cp_frames :: "(int \<times> dir \<times> bytes) list"

definition dir_tag :: "dir \<Rightarrow> ustr" where
  "dir_tag d = (case d of C2D \<Rightarrow> asc ''c2d'' | D2C \<Rightarrow> asc ''d2c'')"

definition frame_line :: "int \<times> dir \<times> bytes \<Rightarrow> ustr" where
  "frame_line = (\<lambda>(n, d, f). asc ''            .{ .conn = '' @ ushow n @ asc '', .dir = .'' @ dir_tag d @ asc '', .hex = '' @ [34] @ uhex f @ [34] @ asc '' },'')"

text \<open>Standard output is that of a listener when there was one.\<close>

definition capture_lines :: "ustr \<times> capture \<Rightarrow> ustr list result" where
  "capture_lines = (\<lambda>(name, v).
     (let cli = (case cp_cli v of None \<Rightarrow> ([], []) | Some c \<Rightarrow> c); so = (case cp_listen v of None \<Rightarrow> fst cli | Some s \<Rightarrow> s) in
      rbind (zstr_lit name) (\<lambda>n. rbind (zstr_lit so) (\<lambda>o1. rbind (zstr_lit (snd cli)) (\<lambda>e.
        Inr ([asc ''    .{'', asc ''        .name = '' @ n @ asc '','', asc ''        .cli_stdout = '' @ o1 @ asc '','',
              asc ''        .cli_stderr = '' @ e @ asc '','', asc ''        .frames = &.{'']
             @ map frame_line (cp_frames v) @ [asc ''        },'', asc ''    },'']))))))"

definition ZIG_HEADER :: "ustr list" where
  "ZIG_HEADER = map asc [
     ''// SPDX-License-Identifier: MIT'',
     ''// Generated by modules/blobmsg/tools/ubus_capture.py from a REAL ubusd and the real `ubus` CLI'',
     ''// (black boxes, run never read), through a recording byte relay. Do not edit by hand.'',
     ''// Ids the daemon chose (client ids, object ids, type ids) differ per run: tests never assert them.'',
     '''',
     ''pub const Dir = enum { c2d, d2c };'',
     ''pub const Frame = struct { conn: u8, dir: Dir, hex: []const u8 };'',
     ''pub const Capture = struct {'',
     ''    name: []const u8,'',
     ''    /// Exit code, stdout and stderr of the real `ubus` CLI run of this step (rc 0 and empty for none).'',
     ''    cli_stdout: []const u8,'',
     ''    cli_stderr: []const u8,'',
     ''    frames: []const Frame,'',
     ''};'',
     '''',
     ''pub const captures = [_]Capture{'']"

text \<open>The captures in the order of their names; \<open>allres\<close> has one entry per name.\<close>

definition capture_file :: "(ustr \<times> capture) list \<Rightarrow> ustr result" where
  "capture_file allres = rbind (rmap (\<lambda>name. case map_of allres name of None \<Rightarrow> Inl KeyError | Some v \<Rightarrow> capture_lines (name, v)) (sort (map fst allres)))
     (\<lambda>xss. Inr (join [10] (ZIG_HEADER @ concat xss @ [asc ''};'', []])))"

section \<open>A literal is read back\<close>

lemma hex_byte_digits:
  assumes "is_byte b"
  shows "hex_byte [if b div 16 < 10 then 48 + b div 16 else 87 + b div 16, if b mod 16 < 10 then 48 + b mod 16 else 87 + b mod 16] = Some b"
proof -
  let ?P = "\<lambda>b. hex_byte [if b div 16 < 10 then 48 + b div 16 else 87 + b div 16, if b mod 16 < 10 then 48 + b mod 16 else 87 + b mod 16] = Some b"
  have "\<forall>k \<in> set (upt 0 256). ?P (int k)" by code_simp
  moreover have "nat b \<in> set (upt 0 256)" using assms by (auto simp: is_byte_def)
  ultimately have "?P (int (nat b))" by (rule bspec)
  moreover have "int (nat b) = b" using assms by (simp add: is_byte_def)
  ultimately show ?thesis by (simp only:)
qed

lemma hex_byte_uhex:
  assumes "is_byte b"
  shows "hex_byte (uhex [b]) = Some b"
proof -
  have all: "\<forall>k \<in> set (upt 0 16). of_char (hex_digit (int k)) = (if int k < 10 then 48 + int k else 87 + int k :: int)" by code_simp
  have d: "of_char (hex_digit x) = (if x < 10 then 48 + x else 87 + x :: int)" if "0 \<le> x" "x < 16" for x
  proof -
    have "nat x \<in> set (upt 0 16)" using that by auto
    from bspec [OF all this] that show ?thesis by simp
  qed
  have r: "0 \<le> b div 16" "b div 16 < 16" "0 \<le> b mod 16" "b mod 16 < 16" using assms by (auto simp: is_byte_def)
  have "uhex [b] = [of_char (hex_digit (b div 16)), of_char (hex_digit (b mod 16))]" by (simp add: uhex_def hex_def)
  then have "uhex [b] = [if b div 16 < 10 then 48 + b div 16 else 87 + b div 16, if b mod 16 < 10 then 48 + b mod 16 else 87 + b mod 16]"
    unfolding d [OF r(1,2)] d [OF r(3,4)] .
  with hex_byte_digits [OF assms] show ?thesis by (simp only:)
qed

lemma unescape_zchar:
  assumes "is_byte b"
  shows "unescape (zchar b @ s) = map_option (\<lambda>bs. b # bs) (unescape s)"
proof -
  have r: "0 \<le> b" "b < 256" using assms by (simp_all add: is_byte_def)
  have u: "\<exists>x y. uhex [b] = [x, y]" by (simp add: uhex_def hex_def)
  then obtain x y where xy: "uhex [b] = [x, y]" by blast
  have h: "hex_byte [x, y] = Some b" using hex_byte_uhex [OF assms] xy by simp
  consider "b = 0x22" | "b = 0x5C" | "b = 0x0A" | "b = 0x09" | "b \<noteq> 0x22" "b \<noteq> 0x5C" "0x20 \<le> b" "b < 0x7F"
    | "b \<noteq> 0x22" "b \<noteq> 0x5C" "b \<noteq> 0x0A" "b \<noteq> 0x09" "\<not> (0x20 \<le> b \<and> b < 0x7F)" by blast
  then show ?thesis
  proof cases
    case 5
    moreover have "(@) [b] = (#) b" by (rule ext) simp
    ultimately show ?thesis by (simp add: zchar_def unescape.simps(2) encode_char_def)
  next
    case 6
    then have z: "zchar b = 92 # 120 # x # [y]" using xy by (auto simp: zchar_def)
    show ?thesis unfolding z using h by (simp add: unescape.simps(2) numeral_3_eq_3)
  qed (simp_all add: zchar_def unescape.simps(2) ESCAPES_def)
qed

text \<open>The text of every literal the capture tool writes is read back as the octets of the string.\<close>

theorem zstr_read_back:
  assumes "list_all code_point s" "zstr_lit s = Inr z"
  shows "\<exists>bs. py_encode s = Inr bs \<and> z = [34] @ concat (map zchar bs) @ [34] \<and> unescape (concat (map zchar bs)) = Some bs"
proof -
  from assms(2) obtain bs where bs: "py_encode s = Inr bs" "z = [34] @ concat (map zchar bs) @ [34]" by (auto simp: zstr_lit_def rbind_eq_Inr_iff)
  have "is_bytes cs \<Longrightarrow> unescape (concat (map zchar cs)) = Some cs" for cs
    by (induction cs) (simp_all add: unescape_zchar, simp add: unescape.simps)
  with is_bytes_py_encode [OF bs(1) assms(1)] bs show ?thesis by blast
qed

end
