(* ===== verification/ModPrime.thy ===== *)
theory ModPrime
  imports Prelude
begin

text \<open>
  Arithmetic modulo a prime for the number-theoretic oracles: Euclid's lemma, the two square roots of one, Fermat's little theorem, the bound on
  the roots of a polynomial and, from the last two, a non-residue for every odd prime.
\<close>

definition is_prime :: "int \<Rightarrow> bool" where
  "is_prime p \<longleftrightarrow> 1 < p \<and> (\<forall>d. 0 < d \<longrightarrow> d dvd p \<longrightarrow> d = 1 \<or> d = p)"

lemma prime_gt_1: "is_prime p \<Longrightarrow> 1 < p"
  by (simp add: is_prime_def)

lemma prime_coprime:
  assumes "is_prime p" "\<not> p dvd a"
  shows "coprime p a"
proof -
  have "0 < gcd p a" using assms(1) by (simp add: is_prime_def)
  moreover have "gcd p a dvd p" "gcd p a dvd a" by simp_all
  ultimately have "gcd p a = 1" using assms by (metis is_prime_def)
  then show ?thesis by (simp add: coprime_iff_gcd_eq_1)
qed

lemma prime_dvd_mult: "is_prime p \<Longrightarrow> p dvd a * b \<Longrightarrow> p dvd a \<or> p dvd b"
  using prime_coprime coprime_dvd_mult_right_iff by blast

lemma prime_sqrt_1:
  assumes "is_prime p" "x * x mod p = 1" "0 \<le> x" "x < p"
  shows "x = 1 \<or> x = p - 1"
proof -
  have "(x * x - 1) mod p = 0" using assms(2) by (metis cancel_comm_monoid_add_class.diff_cancel mod_0 mod_diff_cong mod_mod_trivial)
  then have "p dvd (x - 1) * (x + 1)" by (simp add: algebra_simps mod_eq_0_iff_dvd)
  then consider "p dvd x - 1" | "p dvd x + 1" using prime_dvd_mult [OF assms(1)] by blast
  then show ?thesis
  proof cases
    case 1
    have "\<bar>x - 1\<bar> < p" using assms(3,4) prime_gt_1 [OF assms(1)] by linarith
    then show ?thesis using 1 dvd_imp_le_int [of "x - 1" p] by fastforce
  next
    case 2
    then have "p \<le> x + 1" using assms(3) by (intro zdvd_imp_le) auto
    with assms(4) show ?thesis by simp
  qed
qed

section \<open>Fermat's little theorem\<close>

lemma prime_dvd_choose:
  assumes "is_prime (int p)" "0 < k" "k < p"
  shows "p dvd p choose k"
proof -
  have "k * (p choose k) = p * ((p - 1) choose (k - 1))" by (rule times_binomial_minus1_eq [OF assms(2)])
  then have "int p dvd int k * int (p choose k)" by (metis dvd_triv_left of_nat_mult)
  moreover have "\<not> int p dvd int k" using assms(2,3) by (auto dest: zdvd_imp_le)
  ultimately have "int p dvd int (p choose k)" using prime_dvd_mult [OF assms(1)] by blast
  then show ?thesis by simp
qed

lemma freshman:
  assumes "is_prime (int p)"
  shows "int p dvd (a + 1) ^ p - (a ^ p + 1)"
proof -
  have p: "1 < p" using prime_gt_1 [OF assms] by simp
  then obtain n where n: "p = Suc n" by (cases p) auto
  have "(a + 1) ^ p = (\<Sum>k\<le>p. int (p choose k) * a ^ k)" using binomial_ring [of a 1 p] by simp
  also have "\<dots> = 1 + (\<Sum>k = 1..n. int (p choose k) * a ^ k) + a ^ p"
  proof -
    have s: "{..p} = insert 0 (insert p {1..n})" using n by auto
    show ?thesis unfolding s using n by (subst sum.insert, simp, simp, subst sum.insert) auto
  qed
  finally have "(a + 1) ^ p - (a ^ p + 1) = (\<Sum>k = 1..n. int (p choose k) * a ^ k)" by simp
  moreover have "int p dvd (\<Sum>k = 1..n. int (p choose k) * a ^ k)"
  proof (rule dvd_sum, rule dvd_mult2)
    fix k
    assume "k \<in> {1..n}"
    then have "p dvd p choose k" by (intro prime_dvd_choose [OF assms]) (use n in auto)
    then show "int p dvd int (p choose k)" by (simp only: of_nat_dvd_iff)
  qed
  ultimately show ?thesis by simp
qed

lemma fermat_nat:
  assumes "is_prime (int p)"
  shows "int p dvd int a ^ p - int a"
proof (induction a)
  case 0
  have "0 < p" using prime_gt_1 [OF assms] by simp
  then show ?case by (simp add: zero_power)
next
  case (Suc a)
  have "int (Suc a) ^ p - int (Suc a) = ((int a + 1) ^ p - (int a ^ p + 1)) + (int a ^ p - int a)" by (simp add: add.commute)
  then show ?case using dvd_add [OF freshman [OF assms, of "int a"] Suc] by (simp only:)
qed

lemma fermat:
  assumes "is_prime p" "0 \<le> a" "\<not> p dvd a"
  shows "a ^ nat (p - 1) mod p = 1"
proof -
  have p: "1 < p" using assms(1) by (rule prime_gt_1)
  have e: "nat p = Suc (nat (p - 1))" using p by simp
  have "int (nat p) dvd int (nat a) ^ nat p - int (nat a)" by (rule fermat_nat) (use assms(1) p in simp)
  then have "p dvd a ^ nat p - a" using assms(2) p by simp
  then have "p dvd a * (a ^ nat (p - 1) - 1)" unfolding e by (simp add: algebra_simps)
  then have "p dvd a ^ nat (p - 1) - 1" using prime_dvd_mult [OF assms(1)] assms(3) by blast
  then have "a ^ nat (p - 1) mod p = 1 mod p" by (simp add: mod_eq_dvd_iff)
  with p show ?thesis by simp
qed

section \<open>Roots\<close>

fun horner :: "int list \<Rightarrow> int \<Rightarrow> int" where
  "horner [] x = 0"
| "horner (c # cs) x = c + x * horner cs x"

fun quotient :: "int \<Rightarrow> int list \<Rightarrow> int list" where
  "quotient a [] = []"
| "quotient a [c] = []"
| "quotient a (c # d # ds) = horner (d # ds) a # quotient a (d # ds)"

lemma horner_quotient: "horner cs x - horner cs a = (x - a) * horner (quotient a cs) x"
proof (induction a cs rule: quotient.induct)
  case (3 a c d ds)
  have "horner (c # d # ds) x - horner (c # d # ds) a = x * (horner (d # ds) x - horner (d # ds) a) + (x - a) * horner (d # ds) a"
    by (simp add: algebra_simps)
  also have "\<dots> = (x - a) * horner (quotient a (c # d # ds)) x" unfolding 3 by (simp add: algebra_simps)
  finally show ?case .
qed simp_all

lemma length_quotient: "length (quotient a cs) = length cs - 1"
  by (induction a cs rule: quotient.induct) simp_all

lemma last_quotient: "2 \<le> length cs \<Longrightarrow> last (quotient a cs) = last cs"
proof (induction a cs rule: quotient.induct)
  case (3 a c d ds)
  show ?case
  proof (cases ds)
    case (Cons e es)
    then have "quotient a (d # ds) \<noteq> []" using length_quotient [of a "d # ds"] by auto
    with 3 Cons show ?thesis by simp
  qed simp
qed simp_all

lemma root_bound:
  assumes "is_prime p" "cs \<noteq> []" "\<not> p dvd last cs"
  shows "card {x \<in> {0..<p}. p dvd horner cs x} < length cs"
  using assms(2,3)
proof (induction "length cs" arbitrary: cs)
  case (Suc n)
  let ?R = "\<lambda>cs. {x \<in> {0..<p}. p dvd horner cs x}"
  show ?case
  proof (cases "?R cs = {}")
    case True
    show ?thesis unfolding True using Suc.prems(1) by simp
  next
    case False
    then obtain a where a: "0 \<le> a" "a < p" "p dvd horner cs a" by auto
    show ?thesis
    proof (cases "length cs = 1")
      case True
      then obtain c where "cs = [c]" by (cases cs) auto
      with a(3) Suc.prems(2) show ?thesis by simp
    next
      case l: False
      then have l2: "2 \<le> length cs" using Suc.prems(1) by (cases cs; cases "tl cs") auto
      let ?q = "quotient a cs"
      have "?R cs \<subseteq> insert a (?R ?q)"
      proof
        fix x
        assume x: "x \<in> ?R cs"
        then have "p dvd horner cs x - horner cs a" using a(3) by auto
        then consider "p dvd x - a" | "p dvd horner ?q x" using prime_dvd_mult [OF assms(1)] unfolding horner_quotient by blast
        then show "x \<in> insert a (?R ?q)"
        proof cases
          case 1
          have "\<bar>x - a\<bar> < p" using x a(1,2) by auto
          then show ?thesis using 1 dvd_imp_le_int [of "x - a" p] by fastforce
        qed (use x in auto)
      qed
      moreover have f: "finite (?R ?q)" by (rule finite_subset [of _ "{0..<p}"]) auto
      ultimately have "card (?R cs) \<le> card (insert a (?R ?q))" by (intro card_mono) auto
      also have "\<dots> \<le> Suc (card (?R ?q))" using f by (simp add: card_insert_if)
      finally have "card (?R cs) \<le> Suc (card (?R ?q))" .
      moreover have "card (?R ?q) < length ?q"
        by (rule Suc.hyps(1)) (use l2 Suc.hyps(2) Suc.prems(2) length_quotient [of a cs] last_quotient [OF l2, of a] in auto)
      ultimately show ?thesis using length_quotient [of a cs] l2 by simp
    qed
  qed
qed simp

text \<open>\<open>x ^ d - 1\<close> as a list of coefficients.\<close>

lemma horner_zeros: "horner (replicate n 0 @ cs) x = x ^ n * horner cs x"
  by (induction n) simp_all

lemma power_roots:
  assumes "is_prime p" "0 < d"
  shows "card {x \<in> {0..<p}. x ^ d mod p = 1} \<le> d"
proof -
  let ?cs = "(- 1) # replicate (d - 1) 0 @ [1 :: int]"
  have "horner ?cs x = x ^ d - 1" for x using assms(2) by (cases d) (simp_all add: horner_zeros)
  moreover have "p dvd x ^ d - 1 \<longleftrightarrow> x ^ d mod p = 1" for x
  proof -
    have "1 mod p = 1" using prime_gt_1 [OF assms(1)] by simp
    then show ?thesis by (metis mod_eq_dvd_iff)
  qed
  moreover have "\<not> p dvd last ?cs" using prime_gt_1 [OF assms(1)] by (auto dest: zdvd_imp_le)
  ultimately show ?thesis using root_bound [OF assms(1), of ?cs] assms(2) by simp
qed

lemma half_power:
  assumes "is_prime p" "odd p" "0 \<le> x" "\<not> p dvd x"
  shows "x ^ nat ((p - 1) div 2) mod p = 1 \<or> x ^ nat ((p - 1) div 2) mod p = p - 1"
proof -
  let ?h = "nat ((p - 1) div 2)"
  have p: "1 < p" by (rule prime_gt_1 [OF assms(1)])
  have "nat (p - 1) = ?h + ?h" using assms(2) p by (auto elim!: oddE)
  then have "x ^ ?h * x ^ ?h mod p = 1" using fermat [OF assms(1,3,4)] by (simp add: power_add)
  then have "(x ^ ?h mod p) * (x ^ ?h mod p) mod p = 1" by (simp add: mod_mult_eq)
  then show ?thesis by (rule prime_sqrt_1 [OF assms(1)]) (use p in simp_all)
qed

lemma non_residue_exists:
  assumes "is_prime p" "odd p"
  shows "\<exists>z. 2 \<le> z \<and> z < p \<and> z ^ nat ((p - 1) div 2) mod p = p - 1"
proof (rule ccontr)
  let ?h = "nat ((p - 1) div 2)"
  assume none: "\<nexists>z. 2 \<le> z \<and> z < p \<and> z ^ ?h mod p = p - 1"
  have p: "2 < p" using prime_gt_1 [OF assms(1)] assms(2) by (cases "p = 2") auto
  have h: "0 < ?h" "int ?h < p - 1" using p by auto
  have "{1..<p} \<subseteq> {x \<in> {0..<p}. x ^ ?h mod p = 1}"
  proof
    fix x
    assume x: "x \<in> {1..<p}"
    have "x ^ ?h mod p = 1"
    proof (cases "x = 1")
      case True
      with p show ?thesis by simp
    next
      case False
      have "\<not> p dvd x" using x by (auto dest: zdvd_imp_le)
      with half_power [OF assms, of x] none x False show ?thesis by force
    qed
    with x show "x \<in> {x \<in> {0..<p}. x ^ ?h mod p = 1}" by simp
  qed
  then have "card {1..<p} \<le> card {x \<in> {0..<p}. x ^ ?h mod p = 1}"
    by (rule card_mono [rotated]) (rule finite_subset [of _ "{0..<p}"], auto)
  also have "\<dots> \<le> ?h" by (rule power_roots [OF assms(1) h(1)])
  finally have "nat (p - 1) \<le> ?h" by simp
  with h(2) p show False by linarith
qed

end
