(* ===== verification/SqrtKat.thy ===== *)
theory SqrtKat
  imports ModPrime Dkg_Props
begin

text \<open>
  \<open>modules/montint/tools/gen_sqrt_kat.py\<close>: square roots modulo a prime by Tonelli and Shanks, and the rows of the generated file.  The loops are
  \<open>while\<close> loops of the script, so each is a partial function; that they return is part of the theorems.
\<close>

section \<open>The script\<close>

definition is_qr :: "int \<Rightarrow> int \<Rightarrow> bool" where
  "is_qr a p \<longleftrightarrow> a = 0 \<or> pow_mod a ((p - 1) div 2) p = 1"

text \<open>\<open>while q % 2 == 0\<close>\<close>

partial_function (option) halve :: "int \<Rightarrow> nat \<Rightarrow> (int \<times> nat) option" where
  "halve q s = (if q mod 2 = 0 then halve (q div 2) (s + 1) else Some (q, s))"

text \<open>\<open>while pow(z, (p - 1) // 2, p) != p - 1\<close>\<close>

partial_function (option) find_z :: "int \<Rightarrow> int \<Rightarrow> int option" where
  "find_z p z = (if pow_mod z ((p - 1) div 2) p \<noteq> p - 1 then find_z p (z + 1) else Some z)"

text \<open>\<open>while tt != 1\<close>\<close>

partial_function (option) order2 :: "int \<Rightarrow> int \<Rightarrow> nat \<Rightarrow> nat option" where
  "order2 p tt i = (if tt \<noteq> 1 then order2 p (tt * tt mod p) (i + 1) else Some i)"

text \<open>\<open>while t != 1\<close>; a negative shift raises \<open>ValueError\<close>.\<close>

partial_function (option) ts_loop :: "int \<Rightarrow> nat \<Rightarrow> int \<Rightarrow> int \<Rightarrow> int \<Rightarrow> int result option" where
  "ts_loop p m c t r = (if t \<noteq> 1
     then Option.bind (order2 p t 0) (\<lambda>i. if m < i + 1 then Some (Inl ValueError)
       else (let b = pow_mod c (2 ^ (m - i - 1)) p in ts_loop p i (b * b mod p) (t * b * b mod p) (r * b mod p)))
     else Some (Inr r))"

definition tonelli :: "int \<Rightarrow> int \<Rightarrow> int result option" where
  "tonelli a p = (if a = 0 then Some (Inr 0)
     else if \<not> is_qr a p then Some (Inl AssertionError)
     else Option.bind (halve (p - 1) 0) (\<lambda>(q, s). Option.bind (find_z p 2) (\<lambda>z.
       Option.bind (ts_loop p s (pow_mod z q p) (pow_mod a q p) (pow_mod a ((q + 1) div 2) p)) (\<lambda>res.
         Some (rbind res (\<lambda>r. rbind (py_assert (r * r mod p = a)) (\<lambda>_. Inr (min r (p - r)))))))))"

text \<open>The limbs of a number, and the rows: \<open>draws\<close> are the values \<open>randrange\<close> gives, in order; a value is listed once.\<close>

definition n_limbs :: "int \<Rightarrow> nat" where
  "n_limbs x = max 1 ((bit_length (nat x) + 63) div 64)"

definition limb_values :: "int \<Rightarrow> int list" where
  "limb_values x = map (\<lambda>i. drop_bit (64 * i) x AND (2 ^ 64 - 1)) [0..<n_limbs x]"

definition hex16 :: "int \<Rightarrow> ustr" where
  "hex16 v = asc (zfill 16 (show_hex (nat v)))"

definition limbs :: "int \<Rightarrow> ustr" where
  "limbs x = asc ''&.{'' @ join (asc '', '') (map (\<lambda>v. asc ''0x'' @ hex16 v) (limb_values x)) @ asc ''}''"

fun pick_inputs :: "int \<Rightarrow> nat \<Rightarrow> nat \<Rightarrow> int list \<Rightarrow> int list" where
  "pick_inputs p nqr nnr [] = []"
| "pick_inputs p nqr nnr (d # ds) =
     (if nqr \<ge> 3 \<and> nnr \<ge> 3 then []
      else (let a = (if p > 3 then d else 2) in
        if is_qr a p \<and> nqr < 3 then a # pick_inputs p (nqr + 1) nnr ds
        else if \<not> is_qr a p \<and> nnr < 3 then a # pick_inputs p nqr (nnr + 1) ds
        else pick_inputs p nqr nnr ds))"

fun case_rows :: "ustr \<Rightarrow> int \<Rightarrow> int list \<Rightarrow> int list \<Rightarrow> (ustr list result) option" where
  "case_rows note1 p seen [] = Some (Inr [])"
| "case_rows note1 p seen (a # as) =
     (if a \<in> set seen \<or> a \<ge> p then case_rows note1 p seen as
      else Option.bind (if is_qr a p then tonelli a p else Some (Inr 0)) (\<lambda>root.
        case root of Inl e \<Rightarrow> Some (Inl e) | Inr r \<Rightarrow> Option.bind (case_rows note1 p (a # seen) as) (\<lambda>rest.
          Some (rbind rest (\<lambda>rs.
            Inr ((asc ''.{ .note = '' @ [34] @ note1 @ [34] @ asc '', .p = '' @ limbs p @ asc '', .a = '' @ limbs a @ asc '', .root = '' @ limbs r
              @ asc '', .qr = '' @ (if is_qr a p then asc ''true'' else asc ''false'') @ asc '' },'') # rs))))))"

definition sqrt_rows :: "ustr \<Rightarrow> int \<Rightarrow> int list \<Rightarrow> (ustr list result) option" where
  "sqrt_rows note1 p draws = case_rows note1 p [] ([0, 1, p - 1] @ pick_inputs p 0 0 (take 400 draws))"

definition PRIMES :: "(ustr \<times> int) list" where
  "PRIMES = [(asc ''3 mod 4'', 3), (asc ''5 mod 8'', 5), (asc ''3 mod 4'', 7), (asc ''5 mod 8'', 13), (asc ''1 mod 8, s=4'', 17), (asc ''1 mod 8, s=3'', 41),
     (asc ''1 mod 8, s=5'', 97), (asc ''1 mod 8, s=8'', 257), (asc ''1 mod 8, s=16'', 65537), (asc ''2^61-1'', 2 ^ 61 - 1), (asc ''2^127-1'', 2 ^ 127 - 1),
     (asc ''2^255-19, 5 mod 8'', 2 ^ 255 - 19), (asc ''P-224, s=96'', 2 ^ 224 - 2 ^ 96 + 1), (asc ''secp256k1 p, 3 mod 4'', 2 ^ 256 - 2 ^ 32 - 977),
     (asc ''Goldilocks, s=32'', 2 ^ 64 - 2 ^ 32 + 1), (asc ''BLS12-381 r, s=32'', 0x73eda753299d7d483339d80809a1d80553bda402fffe5bfeffffffff00000001),
     (asc ''2^521-1'', 2 ^ 521 - 1)]"

text \<open>The loop over the primes: \<open>draws\<close> has one list for each prime.\<close>

fun kat_rows :: "((ustr \<times> int) \<times> int list) list \<Rightarrow> (ustr list result) option" where
  "kat_rows [] = Some (Inr [])"
| "kat_rows (((note1, p), draws) # rest) = Option.bind (sqrt_rows note1 p draws) (\<lambda>rows.
     case rows of Inl e \<Rightarrow> Some (Inl e) | Inr rs \<Rightarrow> Option.bind (kat_rows rest) (\<lambda>more. Some (rbind more (\<lambda>ms. Inr (rs @ ms)))))"

definition sqrt_kat :: "int list list \<Rightarrow> (ustr list result) option" where
  "sqrt_kat draws = Option.bind (kat_rows (zip PRIMES draws)) (\<lambda>rows. Some (rbind rows (\<lambda>rs. Inr (
     [asc ''// SPDX-License-Identifier: MIT'', asc ''//! Generated by tools/gen_sqrt_kat.py (CPython Tonelli-Shanks); do not edit.'',
      asc ''pub const Case = struct { note: []const u8, p: []const u64, a: []const u64, root: []const u64, qr: bool };'', asc ''pub const cases = [_]Case{'']
     @ rs @ [asc ''};'']))))"

section \<open>The loops return\<close>

lemma halve_returns:
  assumes "0 < q"
  shows "\<exists>q' k. halve q s = Some (q', s + k) \<and> odd q' \<and> 0 < q' \<and> q = q' * 2 ^ k"
  using assms
proof (induction "nat q" arbitrary: q s rule: less_induct)
  case less
  show ?case
  proof (cases "q mod 2 = 0")
    case True
    have "nat (q div 2) < nat q" "0 < q div 2" using True less.prems by auto
    from less.hyps [OF this, of "s + 1"] obtain q' k where k: "halve (q div 2) (s + 1) = Some (q', s + 1 + k)" "odd q'" "0 < q'" "q div 2 = q' * 2 ^ k" by blast
    have "halve q s = Some (q', s + Suc k)" using True k(1) by (subst halve.simps) simp
    moreover have "q = q' * 2 ^ Suc k" using True k(4) by (metis mult.assoc mult.commute mod_eq_0_iff_dvd dvd_mult_div_cancel power_Suc)
    ultimately show ?thesis using k by blast
  next
    case False
    then have "halve q s = Some (q, s + 0)" by (subst halve.simps) simp
    moreover have "odd q" using False by presburger
    ultimately show ?thesis using less.prems by (intro exI [of _ q] exI [of _ 0]) simp
  qed
qed

lemma find_z_returns:
  assumes "z \<le> w" "w ^ nat ((p - 1) div 2) mod p = p - 1"
  shows "\<exists>z'. find_z p z = Some z' \<and> z \<le> z' \<and> z' ^ nat ((p - 1) div 2) mod p = p - 1"
  using assms(1)
proof (induction "nat (w - z)" arbitrary: z rule: less_induct)
  case less
  show ?case
  proof (cases "z ^ nat ((p - 1) div 2) mod p = p - 1")
    case True
    then show ?thesis by (subst find_z.simps) (simp add: pow_mod_power)
  next
    case False
    with assms(2) less.prems have "z < w" by (cases "z = w") auto
    then have "nat (w - (z + 1)) < nat (w - z)" "z + 1 \<le> w" by auto
    from less.hyps [OF this] obtain z' where "find_z p (z + 1) = Some z'" "z + 1 \<le> z'" "z' ^ nat ((p - 1) div 2) mod p = p - 1" by blast
    then show ?thesis using False by (subst find_z.simps) (auto simp: pow_mod_power)
  qed
qed

lemma order2_returns:
  assumes "0 \<le> t" "t < p" "1 < p" "t ^ 2 ^ k mod p = 1"
  shows "\<exists>j \<le> k. order2 p t i = Some (i + j) \<and> t ^ 2 ^ j mod p = 1 \<and> (\<forall>l < j. t ^ 2 ^ l mod p \<noteq> 1)"
  using assms(1,2,4)
proof (induction k arbitrary: t i)
  case 0
  then have "t = 1" by simp
  then show ?case using assms(3) by (subst order2.simps) simp
next
  case (Suc k)
  show ?case
  proof (cases "t = 1")
    case True
    then show ?thesis using assms(3) by (intro exI [of _ 0]) (simp add: order2.simps)
  next
    case False
    let ?u = "t * t mod p"
    have pw: "?u ^ 2 ^ l mod p = t ^ 2 ^ Suc l mod p" for l
      by (simp add: power_mod power_mult [symmetric] power2_eq_square [symmetric])
    have "0 \<le> ?u" "?u < p" "?u ^ 2 ^ k mod p = 1" using assms(3) Suc.prems(3) pw [of k] by simp_all
    from Suc.IH [OF this, of "i + 1"] obtain j where j: "j \<le> k" "order2 p ?u (i + 1) = Some (i + 1 + j)" "?u ^ 2 ^ j mod p = 1"
      "\<forall>l < j. ?u ^ 2 ^ l mod p \<noteq> 1" by blast
    have "order2 p t i = Some (i + Suc j)" using False j(2) by (subst order2.simps) simp
    moreover have "t ^ 2 ^ l mod p \<noteq> 1" if "l < Suc j" for l
    proof (cases l)
      case 0
      then show ?thesis using False Suc.prems by simp
    next
      case (Suc l')
      then have "l' < j" using that by simp
      from j(4) [rule_format, OF this] show ?thesis unfolding pw Suc .
    qed
    ultimately show ?thesis using j(1,3) pw [of j] by (intro exI [of _ "Suc j"]) auto
  qed
qed

lemma pow2_split: "k < m \<Longrightarrow> 0 < k \<Longrightarrow> (2 :: nat) ^ (m - k - 1) * 2 * 2 ^ (k - 1) = 2 ^ (m - 1)"
proof -
  assume k: "k < m" "0 < k"
  have "(2 :: nat) ^ (m - k - 1) * 2 * 2 ^ (k - 1) = 2 ^ (Suc (m - k - 1) + (k - 1))" by (simp only: power_add power_Suc mult.commute)
  also have "Suc (m - k - 1) + (k - 1) = m - 1" using k by simp
  finally show ?thesis .
qed

text \<open>The invariant: \<open>r\<close> is a root up to \<open>t\<close>, and \<open>c\<close> and \<open>t\<close> have orders that are powers of two.\<close>

lemma ts_loop_returns:
  assumes "is_prime p" "0 < m" "0 \<le> t" "t < p" "0 \<le> r" "r < p"
    and "c ^ 2 ^ (m - 1) mod p = p - 1" "t ^ 2 ^ (m - 1) mod p = 1" "r * r mod p = a * t mod p"
  shows "\<exists>r'. ts_loop p m c t r = Some (Inr r') \<and> 0 \<le> r' \<and> r' < p \<and> r' * r' mod p = a mod p"
  using assms(2-)
proof (induction m arbitrary: c t r rule: less_induct)
  case (less m)
  have p: "1 < p" by (rule prime_gt_1 [OF assms(1)])
  show ?case
  proof (cases "t = 1")
    case True
    then show ?thesis using less.prems by (subst ts_loop.simps) simp
  next
    case False
    obtain k where k: "k \<le> m - 1" "order2 p t 0 = Some k" "t ^ 2 ^ k mod p = 1" "\<And>l. l < k \<Longrightarrow> t ^ 2 ^ l mod p \<noteq> 1"
      using order2_returns [OF less.prems(2,3) p less.prems(7), of 0] by auto
    have k0: "0 < k" using k(3) False less.prems(2,3) by (cases k) auto
    have km: "k < m" using k(1) less.prems(1) by simp
    define b where "b = c ^ 2 ^ (m - k - 1) mod p"
    let ?c = "b * b mod p" and ?t = "t * b * b mod p" and ?r = "r * b mod p"
    have step: "ts_loop p m c t r = ts_loop p k ?c ?t ?r"
      using False k(2) km by (subst ts_loop.simps) (simp add: Let_def b_def pow_mod_power nat_power_eq)
    have c: "?c ^ 2 ^ (k - 1) mod p = p - 1"
    proof -
      have "?c ^ 2 ^ (k - 1) mod p = (b * b) ^ 2 ^ (k - 1) mod p" by (rule power_mod)
      also have "\<dots> = (b ^ (2 * 2 ^ (k - 1))) mod p" by (simp only: power_mult power2_eq_square)
      also have "\<dots> = (c ^ 2 ^ (m - k - 1)) ^ (2 * 2 ^ (k - 1)) mod p" unfolding b_def by (rule power_mod)
      also have "\<dots> = c ^ (2 ^ (m - k - 1) * 2 * 2 ^ (k - 1)) mod p" by (simp only: power_mult [symmetric] mult.assoc)
      finally show ?thesis using pow2_split [OF km k0] less.prems(6) by simp
    qed
    have u: "t ^ 2 ^ (k - 1) mod p = p - 1"
    proof -
      let ?u = "t ^ 2 ^ (k - 1) mod p"
      have "2 ^ (k - 1) + 2 ^ (k - 1) = (2 :: nat) ^ k" using k0 by (cases k) auto
      then have "?u * ?u mod p = t ^ 2 ^ k mod p" by (simp add: mod_mult_eq power_add [symmetric])
      then have "?u = 1 \<or> ?u = p - 1" using k(3) p by (intro prime_sqrt_1 [OF assms(1)]) simp_all
      with k(4) [of "k - 1"] k0 show ?thesis by auto
    qed
    have t: "?t ^ 2 ^ (k - 1) mod p = 1"
    proof -
      have "?t ^ 2 ^ (k - 1) mod p = (t * (b * b)) ^ 2 ^ (k - 1) mod p" by (simp add: power_mod mult.assoc)
      also have "\<dots> = (t ^ 2 ^ (k - 1) mod p) * ((b * b) ^ 2 ^ (k - 1) mod p) mod p" by (simp add: power_mult_distrib mod_mult_eq)
      also have "(b * b) ^ 2 ^ (k - 1) mod p = p - 1" using c by (simp add: power_mod)
      also have "(t ^ 2 ^ (k - 1) mod p) * (p - 1) mod p = (p - 1) * (p - 1) mod p" using u by simp
      also have "(p - 1) * (p - 1) = 1 + p * (p - 2)" by (simp add: algebra_simps)
      also have "\<dots> mod p = 1" using p by simp
      finally show ?thesis .
    qed
    have r: "?r * ?r mod p = a * ?t mod p"
    proof -
      have "?r * ?r mod p = (r * r) * (b * b) mod p" by (simp add: mod_mult_eq mult_ac)
      also have "\<dots> = (r * r mod p) * (b * b) mod p" by (simp add: mod_mult_left_eq)
      also have "\<dots> = (a * t) * (b * b) mod p" unfolding less.prems(8) by (simp add: mod_mult_left_eq)
      also have "\<dots> = a * ?t mod p" by (simp add: mod_mult_right_eq mult_ac)
      finally show ?thesis .
    qed
    show ?thesis unfolding step by (rule less.IH [OF km k0 _ _ _ _ c t r]) (use p in simp_all)
  qed
qed

section \<open>The square root\<close>

lemma square_is_qr:
  assumes "is_prime p" "odd p" "x * x mod p = a"
  shows "is_qr a p"
proof (cases "a = 0")
  case False
  have p: "1 < p" by (rule prime_gt_1 [OF assms(1)])
  let ?h = "nat ((p - 1) div 2)" and ?y = "x mod p"
  have y: "?y * ?y mod p = a" using assms(3) by (simp add: mod_mult_eq)
  have nd: "\<not> p dvd ?y" using y False by (metis dvd_mult2 mod_0_imp_dvd mod_eq_0_iff_dvd)
  have e: "nat (p - 1) = ?h + ?h" using assms(2) p by (auto elim!: oddE)
  have "a ^ ?h mod p = (?y * ?y) ^ ?h mod p" using y by (metis power_mod)
  also have "\<dots> = ?y ^ nat (p - 1) mod p" unfolding e by (simp add: power_mult_distrib power_add)
  also have "\<dots> = 1" by (rule fermat [OF assms(1) _ nd]) (use p in simp)
  finally show ?thesis by (simp add: is_qr_def pow_mod_power)
qed (simp add: is_qr_def)

lemma tonelli_root:
  assumes "is_prime p" "odd p" "0 \<le> a" "a < p" and qr: "is_qr a p"
  shows "\<exists>r. tonelli a p = Some (Inr r) \<and> r * r mod p = a \<and> 0 \<le> r \<and> r \<le> p - r"
proof -
  have p: "2 < p" using prime_gt_1 [OF assms(1)] assms(2) by (cases "p = 2") auto
  show ?thesis
  proof (cases "a = 0")
    case True
    then show ?thesis using p by (simp add: tonelli_def)
  next
    case False
    obtain q s where q: "halve (p - 1) 0 = Some (q, s)" "odd q" "0 < q" "p - 1 = q * 2 ^ s"
      using halve_returns [of "p - 1" 0] p by auto
    have s: "0 < s" using q(2,4) assms(2) by (cases s) auto
    have h: "nat ((p - 1) div 2) = nat q * 2 ^ (s - 1)"
    proof -
      have "p - 1 = 2 * (q * 2 ^ (s - 1))" using q(4) s by (cases s) auto
      then have "(p - 1) div 2 = q * 2 ^ (s - 1)" by simp
      then show ?thesis using q(3) by (simp add: nat_mult_distrib nat_power_eq)
    qed
    obtain w where "2 \<le> w" "w ^ nat ((p - 1) div 2) mod p = p - 1" using non_residue_exists [OF assms(1,2)] by blast
    from find_z_returns [OF this] obtain z where z: "find_z p 2 = Some z" "z ^ nat ((p - 1) div 2) mod p = p - 1" by blast
    let ?c = "z ^ nat q mod p" and ?t = "a ^ nat q mod p" and ?r = "a ^ nat ((q + 1) div 2) mod p"
    have c: "?c ^ 2 ^ (s - 1) mod p = p - 1" using z(2) by (simp add: h power_mod power_mult)
    have t: "?t ^ 2 ^ (s - 1) mod p = 1" using qr False by (simp add: is_qr_def pow_mod_power h power_mod power_mult)
    have "nat ((q + 1) div 2) + nat ((q + 1) div 2) = Suc (nat q)" using q(2,3) by (auto elim!: oddE)
    then have "a ^ nat ((q + 1) div 2) * a ^ nat ((q + 1) div 2) = a * a ^ nat q" by (metis power_Suc power_add)
    then have r: "?r * ?r mod p = a * ?t mod p" unfolding mod_mult_eq by (simp only: mod_mult_right_eq)
    obtain r' where r': "ts_loop p s ?c ?t ?r = Some (Inr r')" "0 \<le> r'" "r' < p" "r' * r' mod p = a mod p"
      using ts_loop_returns [OF assms(1) s _ _ _ _ c t r] p by auto
    have am: "a mod p = a" using assms(3,4) by simp
    have "tonelli a p = Some (Inr (min r' (p - r')))"
      using False qr q(1) z(1) r'(1,4) am by (simp add: tonelli_def pow_mod_power py_assert_def)
    moreover have "(p - r') * (p - r') mod p = a"
    proof -
      have "(p - r') * (p - r') = r' * r' + p * (p - 2 * r')" by (simp add: algebra_simps)
      then show ?thesis using r'(4) am by simp
    qed
    ultimately show ?thesis using r' am by (cases "r' \<le> p - r'") (auto simp: min_def)
  qed
qed

text \<open>
  C30: Tonelli and Shanks is right and ends.  For every odd prime and every residue, \<open>tonelli\<close> returns: if the residue is a square, the smaller of
  its two roots, and the assertion on the result holds; if it is not, the assertion of the script fails.  So \<open>is_qr\<close> decides squares, and the search for
  a non-residue and both loops of the script terminate.
\<close>

theorem tonelli_total:
  assumes "is_prime p" "odd p" "0 \<le> a" "a < p"
  shows "if \<exists>x. x * x mod p = a then is_qr a p \<and> (\<exists>r. tonelli a p = Some (Inr r) \<and> r * r mod p = a \<and> 0 \<le> r \<and> r \<le> p - r)
    else \<not> is_qr a p \<and> tonelli a p = Some (Inl AssertionError)"
proof -
  show ?thesis
  proof (cases "is_qr a p")
    case True
    with tonelli_root [OF assms] show ?thesis by auto
  next
    case False
    then have "\<nexists>x. x * x mod p = a" using square_is_qr [OF assms(1,2)] by blast
    with False show ?thesis by (auto simp: tonelli_def is_qr_def)
  qed
qed

text \<open>With it the rows of a prime are always written: no assertion of \<open>tonelli\<close> fires, and there is one row for every distinct input below the prime.\<close>

lemma tonelli_of_qr:
  assumes "is_prime p" "odd p" "0 \<le> a" "a < p" "is_qr a p"
  shows "\<exists>r. tonelli a p = Some (Inr r)"
  using tonelli_root [OF assms] by blast

lemma case_rows_returns:
  assumes "is_prime p" "odd p" "\<forall>a \<in> set as. 0 \<le> a"
  shows "\<exists>rs. case_rows note1 p seen as = Some (Inr rs) \<and> length rs = card ((set as - set seen) \<inter> {..<p})"
  using assms(3)
proof (induction as arbitrary: seen)
  case (Cons a as)
  show ?case
  proof (cases "a \<in> set seen \<or> a \<ge> p")
    case True
    then have "(set (a # as) - set seen) \<inter> {..<p} = (set as - set seen) \<inter> {..<p}" by auto
    then show ?thesis using True Cons.IH [of seen] Cons.prems by auto
  next
    case False
    obtain r where r: "(if is_qr a p then tonelli a p else Some (Inr 0)) = Some (Inr r)"
      using tonelli_of_qr [OF assms(1,2), of a] False Cons.prems by (cases "is_qr a p") auto
    obtain rs where rs: "case_rows note1 p (a # seen) as = Some (Inr rs)" "length rs = card ((set as - set (a # seen)) \<inter> {..<p})"
      using Cons.IH [of "a # seen"] Cons.prems by auto
    have "(set (a # as) - set seen) \<inter> {..<p} = insert a ((set as - set (a # seen)) \<inter> {..<p})" using False by auto
    then have "card ((set (a # as) - set seen) \<inter> {..<p}) = Suc (length rs)" by (simp add: rs(2))
    then show ?thesis using False r rs(1) by simp
  qed
qed simp

lemma pick_inputs_from: "a \<in> set (pick_inputs p nqr nnr ds) \<Longrightarrow> a = 2 \<or> a \<in> set ds"
  by (induction p nqr nnr ds rule: pick_inputs.induct) (auto simp: Let_def split: if_splits)

theorem sqrt_rows_written:
  assumes "is_prime p" "odd p" "\<forall>d \<in> set draws. 0 \<le> d"
  shows "\<exists>rs. sqrt_rows note1 p draws = Some (Inr rs) \<and> length rs = card (set ([0, 1, p - 1] @ pick_inputs p 0 0 (take 400 draws)) \<inter> {..<p})"
proof -
  have "\<forall>a \<in> set ([0, 1, p - 1] @ pick_inputs p 0 0 (take 400 draws)). 0 \<le> a"
    using pick_inputs_from [of _ p 0 0 "take 400 draws"] prime_gt_1 [OF assms(1)] assms(3) in_set_takeD by fastforce
  from case_rows_returns [OF assms(1,2) this, of note1 "[]"] show ?thesis by (simp add: sqrt_rows_def)
qed

lemma is_prime_check:
  fixes p :: int
  assumes "1 < p" "list_all (\<lambda>d. p mod d \<noteq> 0) [2..p - 1]"
  shows "is_prime p"
proof -
  have "d = 1 \<or> d = p" if d: "0 < d" "d dvd p" for d :: int
  proof (rule ccontr)
    assume n: "\<not> (d = 1 \<or> d = p)"
    have "d \<le> p" using d assms(1) by (auto intro: zdvd_imp_le)
    then have "d \<in> set [2..p - 1]" using n d(1) by auto
    moreover have "\<forall>x \<in> set [2..p - 1]. p mod x \<noteq> 0" using assms(2) by (simp only: list_all_iff)
    ultimately have "p mod d \<noteq> 0" by (rule bspec [rotated])
    with d(2) show False by simp
  qed
  then show ?thesis using assms(1) by (simp add: is_prime_def)
qed

theorem tonelli_total_witness:
  "is_prime 17 \<and> (\<exists>r. tonelli 13 17 = Some (Inr r) \<and> r * r mod 17 = 13 \<and> 0 \<le> r \<and> r \<le> 17 - r) \<and> tonelli 3 17 = Some (Inl AssertionError)"
proof -
  have p: "is_prime 17" by (rule is_prime_check) code_simp+
  have "(8 :: int) * 8 mod 17 = 13" by simp
  then have "\<exists>x :: int. x * x mod 17 = 13" by blast
  with tonelli_total [OF p, of 13] have "\<exists>r. tonelli 13 17 = Some (Inr r) \<and> r * r mod 17 = 13 \<and> 0 \<le> r \<and> r \<le> 17 - r" by simp
  moreover have "\<not> is_qr 3 17" by code_simp
  with tonelli_total [OF p, of 3] have "tonelli 3 17 = Some (Inl AssertionError)" by (auto split: if_splits)
  ultimately show ?thesis using p by simp
qed

end
