(* ===== verification/Paillier.thy ===== *)
theory Paillier
  imports Dkg_Props
begin

text \<open>
  \<open>modules/paillier/tools/oracle_paillier.py\<close>: the key material and the rows on standard input, recomputed from the formulas of the
  cryptosystem.  The printed report is not modelled; the exit code and every exception are.  \<open>int(s, 16)\<close> is modelled on ASCII text, and a row that comes
  before its key material raises \<open>TypeError\<close>: a negative exponent there, for which \<open>pow\<close> without a modulus may raise something else, is not told apart.
\<close>

section \<open>The script\<close>

definition hex_int :: "ustr \<Rightarrow> int result" where
  "hex_int s = (if list_all (\<lambda>c. 0 \<le> c \<and> c < 256) s then py_int16 (map char_of s) else Inl ValueError)"

text \<open>\<open>pow(b, e, m)\<close> for a modulus that is a square; a negative exponent is one of the inverse.\<close>

definition pow3 :: "int \<Rightarrow> int \<Rightarrow> int \<Rightarrow> int result" where
  "pow3 b e m = (if m = 0 then Inl ValueError
     else if e < 0 then rbind (inv_mod b m) (\<lambda>i. Inr (pow_mod i (- e) m)) else Inr (pow_mod b e m))"

record pail_state =
  ps_n :: "int option"
  ps_g :: "int option"
  ps_lam :: "int option"
  ps_mu :: "int option"
  ps_counts :: "(ustr \<times> nat) list"
  ps_fails :: "(ustr \<times> nat \<times> int \<times> int) list"
  ps_end :: bool

definition pail_init :: pail_state where
  "pail_init = \<lparr>ps_n = None, ps_g = None, ps_lam = None, ps_mu = None, ps_counts = [], ps_fails = [], ps_end = False\<rparr>"

definition need :: "'a option \<Rightarrow> 'a result" where
  "need x = (case x of None \<Rightarrow> Inl TypeError | Some v \<Rightarrow> Inr v)"

definition pail_L :: "int \<Rightarrow> int \<Rightarrow> int result" where
  "pail_L n x = (if n = 0 then Inl ZeroDivisionError
     else rbind (py_assert ((x - 1) mod n = 0)) (\<lambda>_. Inr ((x - 1) div n)))"

definition pail_decrypt :: "pail_state \<Rightarrow> int \<Rightarrow> int result" where
  "pail_decrypt st c = rbind (need (ps_n st)) (\<lambda>n. rbind (need (ps_lam st)) (\<lambda>lam. rbind (pow3 c lam (n * n)) (\<lambda>x.
     rbind (pail_L n x) (\<lambda>l. rbind (need (ps_mu st)) (\<lambda>mu. Inr (l * mu mod n))))))"

datatype pail_row = V_row int int int int | A_row int int int int | P_row int int int int | M_row int int int int

fun row_tag :: "pail_row \<Rightarrow> ustr" where
  "row_tag (V_row _ _ _ _) = asc ''V''"
| "row_tag (A_row _ _ _ _) = asc ''A''"
| "row_tag (P_row _ _ _ _) = asc ''P''"
| "row_tag (M_row _ _ _ _) = asc ''M''"

text \<open>What a row appends to \<open>fails\<close>; \<open>k\<close> is the number of the row among those of its kind.\<close>

fun pail_check :: "pail_state \<Rightarrow> nat \<Rightarrow> pail_row \<Rightarrow> (ustr \<times> nat \<times> int \<times> int) list result" where
  "pail_check st k (V_row m r c dec) = rbind (need (ps_g st)) (\<lambda>g. rbind (need (ps_n st)) (\<lambda>n.
     rbind (pow3 g m (n * n)) (\<lambda>gm. rbind (pow3 r n (n * n)) (\<lambda>rn. let ref_c = gm * rn mod (n * n) in
     rbind (pail_decrypt st c) (\<lambda>ref_m. Inr (
       (if ref_c \<noteq> c then [(asc ''V-ciphertext'', k, c, ref_c)] else [])
       @ (if ref_m \<noteq> dec then [(asc ''V-plaintext'', k, dec, ref_m)] else [])
       @ (if dec \<noteq> m mod n then [(asc ''V-roundtrip'', k, dec, m mod n)] else [])))))))"
| "pail_check st k (A_row c1 c2 cadd dec) = rbind (need (ps_n st)) (\<lambda>n. if n = 0 then Inl ZeroDivisionError
     else (let ref1 = c1 * c2 mod (n * n) in rbind (pail_decrypt st cadd) (\<lambda>d.
       rbind (if d \<noteq> dec then Inr True else rbind (pail_decrypt st c1) (\<lambda>d1. rbind (pail_decrypt st c2) (\<lambda>d2. Inr (dec \<noteq> (d1 + d2) mod n)))) (\<lambda>bad.
         Inr ((if ref1 \<noteq> cadd then [(asc ''A-ciphertext'', k, cadd, ref1)] else [])
           @ (if bad then [(asc ''A-plaintext'', k, dec, d)] else []))))))"
| "pail_check st k (P_row c1 m2 cadd dec) = rbind (need (ps_g st)) (\<lambda>g. rbind (need (ps_n st)) (\<lambda>n.
     rbind (pow3 g m2 (n * n)) (\<lambda>gm. let ref1 = c1 * gm mod (n * n) in rbind (pail_decrypt st c1) (\<lambda>d1. Inr (
       (if ref1 \<noteq> cadd then [(asc ''P-ciphertext'', k, cadd, ref1)] else [])
       @ (if dec \<noteq> (d1 + m2) mod n then [(asc ''P-plaintext'', k, dec, (d1 + m2) mod n)] else []))))))"
| "pail_check st k (M_row c1 e cmul dec) = rbind (need (ps_n st)) (\<lambda>n.
     rbind (pow3 c1 e (n * n)) (\<lambda>ref1. rbind (pail_decrypt st c1) (\<lambda>d1. Inr (
       (if ref1 \<noteq> cmul then [(asc ''M-ciphertext'', k, cmul, ref1)] else [])
       @ (if dec \<noteq> d1 * e mod n then [(asc ''M-plaintext'', k, dec, d1 * e mod n)] else [])))))"

definition do_row :: "pail_state \<Rightarrow> pail_row \<Rightarrow> pail_state result" where
  "do_row st row = (let k = (case map_of (ps_counts st) (row_tag row) of None \<Rightarrow> 0 | Some j \<Rightarrow> j) + 1 in
     rbind (pail_check st k row) (\<lambda>fs. Inr (st\<lparr>ps_counts := dict_set (ps_counts st) (row_tag row) k, ps_fails := ps_fails st @ fs\<rparr>)))"

text \<open>\<open>map(H, f[1:5])\<close>, unpacked into four names.\<close>

definition four :: "(int \<Rightarrow> int \<Rightarrow> int \<Rightarrow> int \<Rightarrow> pail_row) \<Rightarrow> ustr list \<Rightarrow> pail_row result" where
  "four mk args = rbind (rmap hex_int (take 4 args)) (\<lambda>vs. case vs of [a, b, c, d] \<Rightarrow> Inr (mk a b c d) | _ \<Rightarrow> Inl ValueError)"

definition arg1 :: "ustr list \<Rightarrow> int result" where
  "arg1 args = (case args of [] \<Rightarrow> Inl IndexError | a # _ \<Rightarrow> hex_int a)"

definition pail_line :: "pail_state \<Rightarrow> ustr \<Rightarrow> pail_state result" where
  "pail_line st l = (case uwords l of [] \<Rightarrow> Inr st
   | tag # args \<Rightarrow>
       if tag = asc ''END'' then Inr (st\<lparr>ps_end := True\<rparr>)
       else if tag = asc ''N'' then rbind (arg1 args) (\<lambda>v. Inr (st\<lparr>ps_n := Some v\<rparr>))
       else if tag = asc ''G'' then rbind (arg1 args) (\<lambda>v. Inr (st\<lparr>ps_g := Some v\<rparr>))
       else if tag = asc ''LAMBDA'' then rbind (arg1 args) (\<lambda>v. Inr (st\<lparr>ps_lam := Some v\<rparr>))
       else if tag = asc ''MU'' then rbind (arg1 args) (\<lambda>v. Inr (st\<lparr>ps_mu := Some v\<rparr>))
       else if tag = asc ''V'' then rbind (four V_row args) (do_row st)
       else if tag = asc ''A'' then rbind (four A_row args) (do_row st)
       else if tag = asc ''P'' then rbind (four P_row args) (do_row st)
       else if tag = asc ''M'' then rbind (four M_row args) (do_row st)
       else Inr st)"

fun pail_lines :: "pail_state \<Rightarrow> ustr list \<Rightarrow> pail_state result" where
  "pail_lines st [] = Inr st"
| "pail_lines st (l # ls) = rbind (pail_line st l) (\<lambda>st'. pail_lines st' ls)"

text \<open>The exit code: the report divides by \<open>n\<close>, so a zero modulus raises there at the latest.\<close>

definition pail_exit :: "pail_state \<Rightarrow> nat result" where
  "pail_exit st = (if \<not> ps_end st then Inr 2
     else if ps_n st = None \<or> ps_g st = None \<or> ps_lam st = None \<or> ps_mu st = None then Inr 2
     else if ps_counts st = [] then Inr 2
     else if ps_n st = Some 0 then Inl ZeroDivisionError
     else Inr (if ps_fails st \<noteq> [] then 1 else 0))"

definition pail_main :: "ustr list \<Rightarrow> nat result" where
  "pail_main lines = rbind (pail_lines pail_init lines) pail_exit"

section \<open>The logarithm of a unit\<close>

text \<open>For \<open>x\<close> congruent to one modulo \<open>n\<close>, the number \<open>l\<close> with \<open>x = 1 + l * n\<close> modulo the square of \<open>n\<close>.\<close>

definition log1 :: "int \<Rightarrow> int \<Rightarrow> int" where
  "log1 n x = (x mod (n * n) - 1) div n"

lemma log1_unique:
  assumes "1 < n" "x mod (n * n) = (1 + l * n) mod (n * n)"
  shows "log1 n x = l mod n" "x mod (n * n) = 1 + l mod n * n"
proof -
  have "l * n = (l div n * n + l mod n) * n" by simp
  also have "\<dots> = l mod n * n + n * n * (l div n)" by (simp only: distrib_right distrib_left ac_simps)
  finally have "1 + l * n = (1 + l mod n * n) + n * n * (l div n)" by (simp only: add.assoc)
  then have "x mod (n * n) = (1 + l mod n * n) mod (n * n)" using assms(2) by (simp only: mod_mult_self2)
  moreover have "1 + l mod n * n < n * n" "0 \<le> l mod n * n"
  proof -
    have "l mod n \<le> n - 1" using assms(1) pos_mod_bound [of n l] by simp
    then have "l mod n * n \<le> (n - 1) * n" using assms(1) by (intro mult_right_mono) auto
    then show "1 + l mod n * n < n * n" using assms(1) by (simp add: algebra_simps)
    show "0 \<le> l mod n * n" using assms(1) by simp
  qed
  ultimately show *: "x mod (n * n) = 1 + l mod n * n" by simp
  show "log1 n x = l mod n" using assms(1) by (simp add: log1_def *)
qed

lemma log1_of:
  assumes "1 < n" "x mod n = 1"
  shows "x mod (n * n) = 1 + log1 n x * n" "0 \<le> log1 n x" "log1 n x < n"
proof -
  have "x = 1 + x div n * n" using assms(2) by (metis add.commute div_mult_mod_eq)
  then have "x mod (n * n) = (1 + x div n * n) mod (n * n)" by simp
  from log1_unique [OF assms(1) this] assms(1) show "x mod (n * n) = 1 + log1 n x * n" "0 \<le> log1 n x" "log1 n x < n" by simp_all
qed

lemma log1_mult:
  assumes "1 < n" "x mod n = 1" "y mod n = 1"
  shows "log1 n (x * y) = (log1 n x + log1 n y) mod n"
proof (rule log1_unique(1) [OF assms(1)])
  let ?a = "log1 n x" and ?b = "log1 n y"
  have "x * y mod (n * n) = (1 + ?a * n) * (1 + ?b * n) mod (n * n)"
    using mod_mult_eq [of x "n * n" y] log1_of(1) [OF assms(1,2)] log1_of(1) [OF assms(1,3)] by simp
  also have "(1 + ?a * n) * (1 + ?b * n) = 1 + (?a + ?b) * n + n * n * (?a * ?b)" by (simp add: algebra_simps)
  finally show "x * y mod (n * n) = (1 + (?a + ?b) * n) mod (n * n)" by simp
qed

lemma log1_mod [simp]: "log1 n (x mod (n * n)) = log1 n x"
  by (simp add: log1_def)

lemma log1_power:
  assumes "1 < n" "x mod n = 1"
  shows "x ^ k mod n = 1 \<and> log1 n (x ^ k) = int k * log1 n x mod n"
proof (induction k)
  case 0
  have "1 mod (n * n) = 1" using assms(1) less_1_mult [of n n] by simp
  with assms(1) show ?case by (simp add: log1_def)
next
  case (Suc k)
  have "x * x ^ k mod n = 1" using Suc assms by (metis mod_mult_eq mult_1 mod_pos_pos_trivial zero_le_one)
  moreover have "log1 n (x * x ^ k) = (log1 n x + int k * log1 n x mod n) mod n" using log1_mult [OF assms] Suc by simp
  ultimately show ?case by (simp add: mod_add_right_eq distrib_right)
qed

section \<open>Decryption\<close>

lemma pow3_nonneg: "0 \<le> e \<Longrightarrow> m \<noteq> 0 \<Longrightarrow> pow3 b e m = Inr (b ^ nat e mod m)"
  by (simp add: pow3_def pow_mod_power)

text \<open>The key material a state holds: \<open>g\<close> decrypts to one, which is how \<open>mu\<close> is chosen.  A unit is a number whose power \<open>lam\<close> is one modulo \<open>n\<close>.\<close>

definition pail_unit :: "int \<Rightarrow> int \<Rightarrow> int \<Rightarrow> bool" where
  "pail_unit n lam c \<longleftrightarrow> c ^ nat lam mod n = 1"

definition pail_key :: "pail_state \<Rightarrow> int \<Rightarrow> int \<Rightarrow> int \<Rightarrow> bool" where
  "pail_key st n g lam \<longleftrightarrow> ps_n st = Some n \<and> ps_g st = Some g \<and> ps_lam st = Some lam \<and> 1 < n \<and> 0 \<le> lam
     \<and> pail_unit n lam g \<and> pail_decrypt st g = Inr 1"

definition plain_of :: "int \<Rightarrow> int \<Rightarrow> int \<Rightarrow> int \<Rightarrow> int" where
  "plain_of n lam mu c = log1 n (c ^ nat lam) * mu mod n"

lemma pail_decrypt_unit:
  assumes "ps_n st = Some n" "ps_lam st = Some lam" "ps_mu st = Some mu" "1 < n" "0 \<le> lam" "pail_unit n lam c"
  shows "pail_decrypt st c = Inr (plain_of n lam mu c)"
proof -
  have "c ^ nat lam mod (n * n) = 1 + log1 n (c ^ nat lam) * n" using log1_of(1) assms(4,6) by (simp add: pail_unit_def)
  then have "pail_L n (c ^ nat lam mod (n * n)) = Inr (log1 n (c ^ nat lam))"
    using assms(4) by (simp add: pail_L_def py_assert_def)
  then show ?thesis using assms by (simp add: pail_decrypt_def need_def pow3_nonneg plain_of_def)
qed

lemma unit_mod [simp]: "pail_unit n lam (c mod (n * n)) = pail_unit n lam c"
  by (simp add: pail_unit_def) (metis mod_mult_self1_is_0 mod_mod_cancel dvd_triv_left power_mod)

lemma plain_mod [simp]: "plain_of n lam mu (c mod (n * n)) = plain_of n lam mu c"
proof -
  have "log1 n ((c mod (n * n)) ^ nat lam) = log1 n (c ^ nat lam)" unfolding log1_def by (simp only: power_mod)
  then show ?thesis by (simp add: plain_of_def)
qed

lemma unit_mult:
  assumes "1 < n" "pail_unit n lam a" "pail_unit n lam b"
  shows "pail_unit n lam (a * b)"
  using assms mod_mult_eq [of "a ^ nat lam" n "b ^ nat lam"] by (simp add: pail_unit_def power_mult_distrib)

lemma plain_mult:
  assumes "1 < n" "pail_unit n lam a" "pail_unit n lam b"
  shows "plain_of n lam mu (a * b) = (plain_of n lam mu a + plain_of n lam mu b) mod n"
proof -
  have "log1 n ((a * b) ^ nat lam) = (log1 n (a ^ nat lam) + log1 n (b ^ nat lam)) mod n"
    using log1_mult [OF assms(1)] assms(2,3) by (simp add: pail_unit_def power_mult_distrib)
  then show ?thesis by (simp add: plain_of_def mod_mult_left_eq mod_add_eq distrib_right)
qed

lemma plain_power:
  assumes "1 < n" "pail_unit n lam c"
  shows "pail_unit n lam (c ^ k)" "plain_of n lam mu (c ^ k) = plain_of n lam mu c * int k mod n"
proof -
  have e: "(c ^ k) ^ nat lam = (c ^ nat lam) ^ k" by (simp add: power_mult [symmetric] mult.commute)
  have p: "(c ^ nat lam) ^ k mod n = 1" "log1 n ((c ^ nat lam) ^ k) = int k * log1 n (c ^ nat lam) mod n"
    using log1_power [OF assms(1)] assms(2) by (simp_all add: pail_unit_def)
  show "pail_unit n lam (c ^ k)" using p(1) by (simp add: pail_unit_def e)
  show "plain_of n lam mu (c ^ k) = plain_of n lam mu c * int k mod n"
    unfolding plain_of_def e p(2) mod_mult_left_eq by (simp only: ac_simps)
qed

lemma plain_mask:
  assumes "1 < n" "pail_unit n lam r"
  shows "plain_of n lam mu (r ^ nat n) = 0"
  using plain_power(2) [OF assms, of mu "nat n"] assms(1) by simp

lemma key_parts:
  assumes "pail_key st n g lam"
  obtains mu where "ps_n st = Some n" "ps_g st = Some g" "ps_lam st = Some lam" "ps_mu st = Some mu" "1 < n" "0 \<le> lam" "pail_unit n lam g"
    "\<And>c. pail_unit n lam c \<Longrightarrow> pail_decrypt st c = Inr (plain_of n lam mu c)" "plain_of n lam mu g = 1"
proof -
  have "ps_mu st \<noteq> None" using assms by (auto simp: pail_key_def pail_decrypt_def need_def rbind_eq_Inr_iff split: option.splits)
  then obtain mu where mu: "ps_mu st = Some mu" by blast
  have d: "pail_decrypt st c = Inr (plain_of n lam mu c)" if "pail_unit n lam c" for c
    using pail_decrypt_unit [OF _ _ mu] that assms by (simp add: pail_key_def)
  with that mu assms show ?thesis by (auto simp: pail_key_def)
qed

lemma plain_encrypt:
  assumes "1 < n" "pail_unit n lam g" "plain_of n lam mu g = 1" "pail_unit n lam r" "0 \<le> m"
  shows "pail_unit n lam (g ^ nat m * r ^ nat n mod (n * n))" "plain_of n lam mu (g ^ nat m * r ^ nat n mod (n * n)) = m mod n"
proof -
  note u = plain_power(1) [OF assms(1,2), of "nat m"] plain_power(1) [OF assms(1,4), of "nat n"]
  show "pail_unit n lam (g ^ nat m * r ^ nat n mod (n * n))" using unit_mult [OF assms(1) u] by simp
  show "plain_of n lam mu (g ^ nat m * r ^ nat n mod (n * n)) = m mod n"
    using plain_mult [OF assms(1) u] plain_power(2) [OF assms(1,2), of mu "nat m"] plain_mask [OF assms(1,4)] assms(3,5) by simp
qed

text \<open>
  C14: the oracle judges every row exactly.  For a key whose generator decrypts to one, a row passes if and only if its ciphertext is the one of the formula and its
  plaintext is the decryption of that ciphertext; in particular an encryption decrypts to the message, the homomorphic identities the script
  compares plaintexts with raise no false alarm, and the rows in which it does not decrypt the result (a plaintext added, a plaintext multiplied) are as strict as the others.
\<close>

theorem paillier_rows_exact:
  assumes "pail_key st n g lam" "pail_unit n lam c1" "pail_unit n lam c2" "pail_unit n lam r" "0 \<le> m"
  shows "(pail_check st k (V_row m r c dec) = Inr [] \<longleftrightarrow> c = g ^ nat m * r ^ nat n mod (n * n) \<and> pail_decrypt st c = Inr dec)
    \<and> pail_decrypt st (g ^ nat m * r ^ nat n mod (n * n)) = Inr (m mod n)
    \<and> (pail_check st k (A_row c1 c2 c dec) = Inr [] \<longleftrightarrow> c = c1 * c2 mod (n * n) \<and> pail_decrypt st c = Inr dec)
    \<and> (pail_check st k (P_row c1 m c dec) = Inr [] \<longleftrightarrow> c = c1 * g ^ nat m mod (n * n) \<and> pail_decrypt st c = Inr dec)
    \<and> (pail_check st k (M_row c1 m c dec) = Inr [] \<longleftrightarrow> c = c1 ^ nat m mod (n * n) \<and> pail_decrypt st c = Inr dec)"
proof -
  obtain mu where k: "ps_n st = Some n" "ps_g st = Some g" "1 < n" "pail_unit n lam g" "plain_of n lam mu g = 1"
    and d: "\<And>c. pail_unit n lam c \<Longrightarrow> pail_decrypt st c = Inr (plain_of n lam mu c)"
    using key_parts [OF assms(1)] by metis
  have nn: "n * n \<noteq> 0" "n \<noteq> 0" "0 \<le> n" using k(3) by auto
  note row = k(1,2) nn need_def pow3_nonneg rbind_eq_Inr_iff Let_def assms(5)
  note enc = plain_encrypt [OF k(3-5) assms(4,5)]
  have A: "pail_decrypt st (c1 * c2 mod (n * n)) = Inr ((plain_of n lam mu c1 + plain_of n lam mu c2) mod n)"
    using d [of "c1 * c2 mod (n * n)"] unit_mult [OF k(3) assms(2,3)] plain_mult [OF k(3) assms(2,3)] by simp
  have gm: "pail_unit n lam (g ^ nat m)" "plain_of n lam mu (g ^ nat m) = m mod n"
    using plain_power(1) [OF k(3,4)] plain_power(2) [OF k(3,4), of mu "nat m"] k(5) assms(5) by simp_all
  have P: "pail_decrypt st (c1 * g ^ nat m mod (n * n)) = Inr ((plain_of n lam mu c1 + m) mod n)"
    using d [of "c1 * g ^ nat m mod (n * n)"] unit_mult [OF k(3) assms(2) gm(1)] plain_mult [OF k(3) assms(2) gm(1)] gm(2) by (simp add: mod_add_right_eq)
  have M: "pail_decrypt st (c1 ^ nat m mod (n * n)) = Inr (plain_of n lam mu c1 * m mod n)"
    using d [of "c1 ^ nat m mod (n * n)"] plain_power(1) [OF k(3) assms(2)] plain_power(2) [OF k(3) assms(2), of mu "nat m"] assms(5) by simp
  have gmr: "g ^ nat m mod (n * n) * (r ^ nat n mod (n * n)) mod (n * n) = g ^ nat m * r ^ nat n mod (n * n)" by (rule mod_mult_eq)
  have E: "pail_decrypt st (g ^ nat m * r ^ nat n mod (n * n)) = Inr (m mod n)" using d [OF enc(1)] enc(2) by simp
  have "pail_check st k (V_row m r c dec) = Inr [] \<longleftrightarrow> c = g ^ nat m * r ^ nat n mod (n * n) \<and> pail_decrypt st c = Inr dec"
    using E by (auto simp: row gmr)
  moreover have "pail_check st k (A_row c1 c2 c dec) = Inr [] \<longleftrightarrow> c = c1 * c2 mod (n * n) \<and> pail_decrypt st c = Inr dec"
    using A d [OF assms(2)] d [OF assms(3)] by (auto simp: row split: if_splits)
  moreover have "pail_check st k (P_row c1 m c dec) = Inr [] \<longleftrightarrow> c = c1 * g ^ nat m mod (n * n) \<and> pail_decrypt st c = Inr dec"
    using P d [OF assms(2)] by (auto simp: row mod_mult_right_eq)
  moreover have "pail_check st k (M_row c1 m c dec) = Inr [] \<longleftrightarrow> c = c1 ^ nat m mod (n * n) \<and> pail_decrypt st c = Inr dec"
    using M d [OF assms(2)] by (auto simp: row)
  ultimately show ?thesis using E by blast
qed

definition demo_key :: pail_state where
  "demo_key = pail_init\<lparr>ps_n := Some 15, ps_g := Some 16, ps_lam := Some 4, ps_mu := Some 4\<rparr>"

theorem paillier_rows_exact_witness:
  "pail_key demo_key 15 16 4 \<and> pail_check demo_key 1 (V_row 7 2 83 7) = Inr [] \<and> pail_check demo_key 1 (P_row 83 7 23 14) = Inr []
    \<and> pail_check demo_key 1 (P_row 83 7 23 13) \<noteq> Inr []"
proof -
  have k: "pail_key demo_key 15 16 4" by code_simp
  have u: "pail_unit 15 4 2" "pail_unit 15 4 83" by code_simp+
  have d: "pail_decrypt demo_key 83 = Inr 7" "pail_decrypt demo_key 23 = Inr 14" by code_simp+
  have c: "(83 :: int) = 16 ^ nat 7 * 2 ^ nat 15 mod (15 * 15)" "(23 :: int) = 83 * 16 ^ nat 7 mod (15 * 15)" by simp_all
  have m: "0 \<le> (7 :: int)" by simp
  note e = paillier_rows_exact [OF k u(2,2,1) m]
  have "pail_check demo_key 1 (V_row 7 2 83 7) = Inr []" using conjunct1 [OF e, of 1 83 7] c(1) d(1) by blast
  moreover have p: "pail_check demo_key 1 (P_row 83 7 23 dec) = Inr [] \<longleftrightarrow> Inr 14 = (Inr dec :: int result)" for dec
    using conjunct1 [OF conjunct2 [OF conjunct2 [OF conjunct2 [OF e]]], of 1 23 dec] c(2) d(2) by metis
  ultimately show ?thesis using k p [of 14] p [of 13] by (simp del: pail_check.simps)
qed

section \<open>A clean run\<close>

lemma do_row_grows:
  assumes "do_row st row = Inr st'"
  shows "\<exists>k fs. pail_check st k row = Inr fs \<and> ps_fails st' = ps_fails st @ fs"
  using assms by (auto simp: do_row_def Let_def rbind_eq_Inr_iff)

text \<open>The row a line carries, if it is one.\<close>

definition line_row :: "ustr \<Rightarrow> pail_row result" where
  "line_row l = (case uwords l of [] \<Rightarrow> Inl IndexError
   | tag # args \<Rightarrow> if tag = asc ''V'' then four V_row args else if tag = asc ''A'' then four A_row args
       else if tag = asc ''P'' then four P_row args else if tag = asc ''M'' then four M_row args else Inl ValueError)"

lemma tags_differ:
  "asc ''V'' \<noteq> asc ''END''" "asc ''V'' \<noteq> asc ''N''" "asc ''V'' \<noteq> asc ''G''" "asc ''V'' \<noteq> asc ''LAMBDA''" "asc ''V'' \<noteq> asc ''MU''"
  "asc ''A'' \<noteq> asc ''END''" "asc ''A'' \<noteq> asc ''N''" "asc ''A'' \<noteq> asc ''G''" "asc ''A'' \<noteq> asc ''LAMBDA''" "asc ''A'' \<noteq> asc ''MU''"
  "asc ''P'' \<noteq> asc ''END''" "asc ''P'' \<noteq> asc ''N''" "asc ''P'' \<noteq> asc ''G''" "asc ''P'' \<noteq> asc ''LAMBDA''" "asc ''P'' \<noteq> asc ''MU''"
  "asc ''M'' \<noteq> asc ''END''" "asc ''M'' \<noteq> asc ''N''" "asc ''M'' \<noteq> asc ''G''" "asc ''M'' \<noteq> asc ''LAMBDA''" "asc ''M'' \<noteq> asc ''MU''"
  by code_simp+

lemma line_is_row: "line_row l = Inr row \<Longrightarrow> pail_line st l = do_row st row"
  by (auto simp: line_row_def pail_line_def tags_differ split: list.splits if_splits)

lemma pail_line_grows: "pail_line st l = Inr st' \<Longrightarrow> \<exists>fs. ps_fails st' = ps_fails st @ fs"
  by (auto simp: pail_line_def rbind_eq_Inr_iff dest!: do_row_grows split: list.splits if_splits)

lemma pail_line_end: "pail_line st l = Inr st' \<Longrightarrow> ps_end st' \<longleftrightarrow> ps_end st \<or> take 1 (uwords l) = [asc ''END'']"
  by (auto simp: pail_line_def do_row_def Let_def rbind_eq_Inr_iff split: list.splits if_splits)

lemma pail_lines_grows: "pail_lines st ls = Inr st' \<Longrightarrow> \<exists>fs. ps_fails st' = ps_fails st @ fs"
  by (induction ls arbitrary: st) (fastforce simp: rbind_eq_Inr_iff dest: pail_line_grows)+

lemma pail_lines_end: "pail_lines st ls = Inr st' \<Longrightarrow> ps_end st' \<longleftrightarrow> ps_end st \<or> (\<exists>l \<in> set ls. take 1 (uwords l) = [asc ''END''])"
  by (induction ls arbitrary: st) (auto simp: rbind_eq_Inr_iff dest: pail_line_end)

lemma pail_lines_append: "pail_lines st (us @ vs) = rbind (pail_lines st us) (\<lambda>st'. pail_lines st' vs)"
  by (induction us arbitrary: st) (auto simp: rbind_def split: sum.splits)

text \<open>
  A run that exits 0 has seen the end marker, and every row of it passed under the key material read before it: a truncated stream or one bad row is
  never reported as clean.
\<close>

theorem clean_run_checked_every_row:
  assumes "pail_main (us @ l # vs) = Inr 0" "line_row l = Inr row"
  shows "(\<exists>st k. pail_lines pail_init us = Inr st \<and> pail_check st k row = Inr []) \<and> (\<exists>x \<in> set (us @ l # vs). take 1 (uwords x) = [asc ''END''])"
proof -
  obtain st' where st': "pail_lines pail_init (us @ l # vs) = Inr st'" "pail_exit st' = Inr 0"
    using assms(1) by (auto simp: pail_main_def rbind_eq_Inr_iff)
  then obtain st st1 where st: "pail_lines pail_init us = Inr st" "do_row st row = Inr st1" "pail_lines st1 vs = Inr st'"
    by (auto simp: pail_lines_append rbind_eq_Inr_iff line_is_row [OF assms(2)])
  have e: "ps_end st'" "ps_fails st' = []" using st'(2) by (auto simp: pail_exit_def split: if_splits)
  obtain k fs where "pail_check st k row = Inr fs" "ps_fails st1 = ps_fails st @ fs" using do_row_grows [OF st(2)] by blast
  moreover have "ps_fails st1 = []" using pail_lines_grows [OF st(3)] e(2) by simp
  ultimately have "pail_check st k row = Inr []" by simp
  moreover have "\<exists>x \<in> set (us @ l # vs). take 1 (uwords x) = [asc ''END'']" using pail_lines_end [OF st'(1)] e(1) by (simp add: pail_init_def)
  ultimately show ?thesis using st(1) by blast
qed

text \<open>
  The message for a stream without key material is never reached by a stream with a row: the row raises \<open>TypeError\<close> before, and the run ends in
  a traceback instead of the exit code for unusable input.
\<close>

theorem row_without_key:
  assumes "ps_n st = None"
  shows "do_row st row = Inl TypeError"
  using assms by (cases row; cases "ps_g st") (simp_all add: do_row_def Let_def need_def)

end
