(* ===== verification/Mqtt.thy ===== *)
theory Mqtt
  imports Taps Blob
begin

text \<open>
  The MQTT 5.0 connection of \<open>modules/mqtt/tools/topic_oracle.py\<close>.  What the broker sends on a connection is an argument, as the segments a socket
  delivers until it is closed or times out; writing to the socket always succeeds.  The variable-length integer is only written for lengths and
  identifiers, which are never negative.
\<close>

section \<open>Integers and strings\<close>

fun varint :: "nat \<Rightarrow> bytes" where
  "varint n = (let b = n mod 128; n' = n div 128 in (int b OR (if n' \<noteq> 0 then 0x80 else 0)) # (if n' = 0 then [] else varint n'))"

declare varint.simps [simp del]

definition mstr :: "bytes \<Rightarrow> bytes result" where
  "mstr b = rbind (pack_be 2 (int (length b))) (\<lambda>l. Inr (l @ b))"

text \<open>The loop that reads such an integer out of a body: its value and the index after it.\<close>

function var_at :: "bytes \<Rightarrow> nat \<Rightarrow> nat \<Rightarrow> nat \<Rightarrow> (nat \<times> nat) result" where
  "var_at body i mul v = (if length body \<le> i then Inl IndexError
     else (let b = body ! i; v' = v + nat (b AND 0x7F) * mul in
       if b AND 0x80 = 0 then Inr (v', i + 1) else var_at body (i + 1) (mul * 128) v'))"
  by pat_completeness auto
termination
  by (relation "measure (\<lambda>(body, i, mul, v). length body - i)") auto

declare var_at.simps [simp del]

definition u16_at :: "bytes \<Rightarrow> nat \<Rightarrow> nat result" where
  "u16_at b i = (if length (slice i (i + 2) b) = 2 then Inr (nat (from_be (slice i (i + 2) b))) else Inl StructError)"

section \<open>Receiving\<close>

text \<open>One octet: what \<open>recv(1)\<close> gives, or nothing when the connection is closed.\<close>

definition recv1 :: "bytes list \<Rightarrow> (int \<times> bytes list) option" where
  "recv1 segs = (case recv_loop 1 [] segs of None \<Rightarrow> None | Some (b, segs') \<Rightarrow> Some (hd b, segs'))"

lemma recv_loop_total: "recv_loop n got segs = Some (r, segs') \<Longrightarrow> r @ concat segs' = got @ concat segs \<and> n \<le> length r"
proof (induction n got segs arbitrary: r segs' rule: recv_loop.induct)
  case (1 n got segs)
  show ?case
  proof (cases "n \<le> length got")
    case True
    with "1.prems" show ?thesis by (subst (asm) recv_loop.simps) simp
  next
    case False
    with "1.prems" obtain c cs where c: "segs = c # cs" "c \<noteq> []" by (subst (asm) recv_loop.simps) (auto split: list.splits if_splits)
    let ?m = "n - length got"
    have "recv_loop n (got @ take ?m c) (if drop ?m c = [] then cs else drop ?m c # cs) = Some (r, segs')"
      using "1.prems" False c by (subst (asm) recv_loop.simps) (simp add: Let_def)
    from "1.IH" [OF False c refl this] c(1) show ?thesis by (auto split: if_splits)
  qed
qed

lemma recv1_less: "recv1 segs = Some (b, segs') \<Longrightarrow> length (concat segs') < length (concat segs)"
proof -
  assume "recv1 segs = Some (b, segs')"
  then obtain r where "recv_loop 1 [] segs = Some (r, segs')" by (auto simp: recv1_def split: option.splits)
  from recv_loop_total [OF this] have "length r + length (concat segs') = length (concat segs)" "1 \<le> length r" by (metis append_Nil length_append, simp)
  then show ?thesis by simp
qed

function recv_len :: "bytes list \<Rightarrow> nat \<Rightarrow> nat \<Rightarrow> (nat \<times> bytes list) option" where
  "recv_len segs mul n = (case recv1 segs of None \<Rightarrow> None
     | Some (b, segs') \<Rightarrow> let n' = n + nat (b AND 0x7F) * mul in
         if b AND 0x80 = 0 then Some (n', segs') else recv_len segs' (mul * 128) n')"
  by pat_completeness auto
termination
  by (relation "measure (\<lambda>(segs, mul, n). length (concat segs))") (auto dest: recv1_less)

declare recv_len.simps [simp del]

text \<open>\<open>Conn.recv\<close>: a packet and the segments after it.\<close>

definition recv_packet :: "bytes list \<Rightarrow> ((int \<times> bytes) \<times> bytes list) option" where
  "recv_packet segs = (case recv1 segs of None \<Rightarrow> None
     | Some (h, segs1) \<Rightarrow> (case recv_len segs1 1 0 of None \<Rightarrow> None
       | Some (n, segs2) \<Rightarrow> (case recv_loop n [] segs2 of None \<Rightarrow> None
         | Some (body, segs3) \<Rightarrow> Some ((h, body), segs3))))"

lemma recv_len_less: "recv_len segs mul n = Some (k, segs') \<Longrightarrow> length (concat segs') < length (concat segs)"
proof (induction segs mul n rule: recv_len.induct)
  case (1 segs mul n)
  then obtain b s where b: "recv1 segs = Some (b, s)" by (subst (asm) (2) recv_len.simps) (auto split: option.splits)
  then have "recv_len segs mul n = (let n' = n + nat (b AND 0x7F) * mul in if b AND 0x80 = 0 then Some (n', s) else recv_len s (mul * 128) n')"
    by (subst recv_len.simps) simp
  with 1 b recv1_less [OF b] show ?case by (fastforce simp: Let_def split: if_splits)
qed

lemma recv_packet_less: "recv_packet segs = Some (p, segs') \<Longrightarrow> length (concat segs') < length (concat segs)"
proof -
  assume "recv_packet segs = Some (p, segs')"
  then obtain h s1 n s2 body where p: "recv1 segs = Some (h, s1)" "recv_len s1 1 0 = Some (n, s2)" "recv_loop n [] s2 = Some (body, segs')"
    by (auto simp: recv_packet_def split: option.splits)
  have "length (concat segs') \<le> length (concat s2)" using recv_loop_total [OF p(3)] by (metis append_Nil le_add2 length_append)
  with recv1_less [OF p(1)] recv_len_less [OF p(2)] show ?thesis by simp
qed

section \<open>The connection\<close>

record mqtt_conn =
  c_segs :: "bytes list"
  c_sent :: bytes
  c_next :: nat

definition send :: "mqtt_conn \<Rightarrow> int \<Rightarrow> bytes \<Rightarrow> mqtt_conn" where
  "send c first body = c\<lparr>c_sent := c_sent c @ [first] @ varint (length body) @ body\<rparr>"

definition conn_recv :: "mqtt_conn \<Rightarrow> (int \<times> bytes) option \<times> mqtt_conn" where
  "conn_recv c = (case recv_packet (c_segs c) of None \<Rightarrow> (None, c\<lparr>c_segs := []\<rparr>) | Some (p, segs) \<Rightarrow> (Some p, c\<lparr>c_segs := segs\<rparr>))"

definition conn_open :: "bytes list \<Rightarrow> ustr \<Rightarrow> mqtt_conn result" where
  "conn_open segs cid = rbind (mstr (asc ''MQTT'')) (\<lambda>proto. rbind (pack_be 2 60) (\<lambda>keep. rbind (py_encode cid) (\<lambda>b. rbind (mstr b) (\<lambda>i.
     (case conn_recv (send \<lparr>c_segs = segs, c_sent = [], c_next = 1\<rparr> 0x10 (proto @ [5, 0x02] @ keep @ varint 0 @ i)) of
        (None, c) \<Rightarrow> Inl TypeError
      | (Some (t, body), c) \<Rightarrow> if drop_bit 4 t \<noteq> 2 then Inl AssertionError
          else if length body \<le> 1 then Inl IndexError
          else rbind (py_assert (body ! 1 = 0)) (\<lambda>_. Inr c))))))"

definition take_pid :: "mqtt_conn \<Rightarrow> nat \<times> mqtt_conn" where
  "take_pid c = (c_next c, c\<lparr>c_next := c_next c + 1\<rparr>)"

text \<open>\<open>None\<close> is a dropped connection.\<close>

definition subscribe :: "mqtt_conn \<Rightarrow> bytes \<Rightarrow> nat \<Rightarrow> (int option \<times> mqtt_conn) result" where
  "subscribe c flt sub_id = (let (p, c1) = take_pid c; props = [0x0b] @ varint sub_id in
     rbind (pack_be 2 (int p)) (\<lambda>pb. rbind (mstr flt) (\<lambda>f.
       (case conn_recv (send c1 0x82 (pb @ varint (length props) @ props @ f @ [0])) of
          (None, c2) \<Rightarrow> Inr (None, c2)
        | (Some (t, body), c2) \<Rightarrow> if drop_bit 4 t \<noteq> 9 then Inr (None, c2)
            else rbind (var_at body 2 1 0) (\<lambda>(plen, i).
              if length body \<le> i + plen then Inl IndexError else Inr (Some (body ! (i + plen)), c2))))))"

function publish_wait :: "bytes list \<Rightarrow> int option \<times> bytes list" where
  "publish_wait segs = (case recv_packet segs of None \<Rightarrow> (None, [])
     | Some ((t, body), segs') \<Rightarrow>
         if drop_bit 4 t = 4 then (Some (if length body > 2 then body ! 2 else 0), segs')
         else if drop_bit 4 t = 14 then (None, segs')
         else publish_wait segs')"
  by pat_completeness auto
termination
  by (relation "measure (\<lambda>segs. length (concat segs))") (auto dest: recv_packet_less)

declare publish_wait.simps [simp del]

definition publish :: "mqtt_conn \<Rightarrow> bytes \<Rightarrow> (int option \<times> mqtt_conn) result" where
  "publish c name = (let (p, c1) = take_pid c in
     rbind (mstr name) (\<lambda>nb. rbind (pack_be 2 (int p)) (\<lambda>pb.
       let c2 = send c1 0x32 (nb @ pb @ varint 0 @ asc ''x''); (rc, segs) = publish_wait (c_segs c2) in Inr (rc, c2\<lparr>c_segs := segs\<rparr>))))"

definition conn_close :: "mqtt_conn \<Rightarrow> mqtt_conn" where
  "conn_close c = send c 0xE0 [0, 0]"

section \<open>Deliveries\<close>

lemma var_at_grows: "var_at body i mul v = Inr (k, j) \<Longrightarrow> i < j \<and> j \<le> length body"
proof (induction body i mul v rule: var_at.induct)
  case (1 body i mul v)
  then have i: "i < length body" by (subst (asm) (2) var_at.simps) (simp split: if_splits)
  have "var_at body i mul v = (let b = body ! i; v' = v + nat (b AND 0x7F) * mul in
      if b AND 0x80 = 0 then Inr (v', i + 1) else var_at body (i + 1) (mul * 128) v')"
    using i by (subst var_at.simps) simp
  with 1 i show ?case by (fastforce simp: Let_def split: if_splits)
qed

text \<open>The subscription identifiers among the properties of a message.\<close>

function sub_ids :: "bytes \<Rightarrow> nat \<Rightarrow> nat list result" where
  "sub_ids props j = (if length props \<le> j then Inr []
     else (let pid = props ! j; j1 = j + 1 in
       if pid = 0x0B then (case var_at props j1 1 0 of Inl e \<Rightarrow> Inl e | Inr (v, j2) \<Rightarrow> rbind (sub_ids props j2) (\<lambda>ids. Inr (v # ids)))
       else if pid = 0x01 then sub_ids props (j1 + 1)
       else if pid = 0x02 then sub_ids props (j1 + 4)
       else if pid = 0x23 then sub_ids props (j1 + 2)
       else if pid \<in> {0x03, 0x08, 0x09} then (case u16_at props j1 of Inl e \<Rightarrow> Inl e | Inr n \<Rightarrow> sub_ids props (j1 + (2 + n)))
       else if pid = 0x26 then (case u16_at props j1 of Inl e \<Rightarrow> Inl e
         | Inr n \<Rightarrow> (case u16_at props (j1 + (2 + n)) of Inl e \<Rightarrow> Inl e | Inr n2 \<Rightarrow> sub_ids props (j1 + (2 + n) + (2 + n2))))
       else Inl (RuntimeError (''unexpected PUBLISH property 0x'' @ show_hex (nat pid)))))"
  by pat_completeness auto
termination
  by (relation "measure (\<lambda>(props, j). length props - j)") (auto dest: var_at_grows)

declare sub_ids.simps [simp del]

text \<open>The body of a PUBLISH packet: its topic and the identifiers.\<close>

definition publish_ids :: "int \<Rightarrow> bytes \<Rightarrow> (bytes \<times> nat list) result" where
  "publish_ids first body = rbind (u16_at body 0) (\<lambda>tlen.
     let topic = slice 2 (2 + tlen) body; i = 2 + tlen + (if drop_bit 1 first AND 3 \<noteq> 0 then 2 else 0) in
     rbind (var_at body i 1 0) (\<lambda>(plen, i'). rbind (sub_ids (slice i' (i' + plen) body) 0) (\<lambda>ids. Inr (topic, ids))))"

function deliveries :: "bytes \<Rightarrow> bytes list \<Rightarrow> ((bytes \<times> nat list) list \<times> bytes list) result" where
  "deliveries until segs = (case recv_packet segs of None \<Rightarrow> Inl AssertionError
     | Some ((first, body), segs') \<Rightarrow>
         if drop_bit 4 first \<noteq> 3 then deliveries until segs'
         else (case publish_ids first body of Inl e \<Rightarrow> Inl e
           | Inr (topic, ids) \<Rightarrow> if topic = until then Inr ([], segs')
               else rbind (deliveries until segs') (\<lambda>(out, rest). Inr ((topic, ids) # out, rest))))"
  by pat_completeness auto
termination
  by (relation "measure (\<lambda>(until, segs). length (concat segs))") (auto dest: recv_packet_less)

declare deliveries.simps [simp del]

section \<open>What is written is read\<close>

lemma septet_bits:
  assumes "b < 128"
  shows "(int b OR 0x80) AND 0x7F = int b" "(int b OR 0x80) AND 0x80 \<noteq> 0" "int b AND 0x7F = int b" "int b AND 0x80 = 0"
proof -
  have "list_all (\<lambda>k. (int k OR 0x80) AND 0x7F = int k \<and> (int k OR 0x80) AND 0x80 \<noteq> 0 \<and> int k AND 0x7F = int k \<and> int k AND 0x80 = 0) [0..<128]"
    by code_simp
  then show "(int b OR 0x80) AND 0x7F = int b" "(int b OR 0x80) AND 0x80 \<noteq> 0" "int b AND 0x7F = int b" "int b AND 0x80 = 0"
    using assms by (simp_all add: list_all_iff)
qed

lemma varint_cases:
  obtains (last) "n < 128" "varint n = [int n]"
  | (more) "\<not> n < 128" "varint n = (int (n mod 128) OR 0x80) # varint (n div 128)"
proof (cases "n < 128")
  case True
  with last show ?thesis by (simp add: varint.simps [of n] Let_def)
next
  case False
  then have "n div 128 \<noteq> 0" by (simp add: div_eq_0_iff)
  with False more show ?thesis by (simp add: varint.simps [of n] Let_def)
qed

lemma septet_sum: "v + n mod 128 * mul + n div 128 * (mul * 128) = v + n * (mul :: nat)"
proof -
  have "n * mul = (n div 128 * 128 + n mod 128) * mul" by (simp only: div_mult_mod_eq)
  also have "\<dots> = n mod 128 * mul + n div 128 * (mul * 128)" by (simp only: distrib_right distrib_left ac_simps)
  finally show ?thesis by (simp only: add.assoc)
qed

lemma var_at_varint: "i = length pre \<Longrightarrow> var_at (pre @ varint n @ post) i mul v = Inr (v + n * mul, i + length (varint n))"
proof (induction n arbitrary: pre i mul v rule: less_induct)
  case (less n)
  show ?case
  proof (cases n rule: varint_cases)
    case last
    then show ?thesis using less.prems by (subst var_at.simps) (simp add: septet_bits)
  next
    case more
    have m: "n mod 128 < 128" "n div 128 < n" using more(1) by auto
    have "var_at (pre @ varint n @ post) i mul v
        = var_at ((pre @ [int (n mod 128) OR 0x80]) @ varint (n div 128) @ post) (i + 1) (mul * 128) (v + n mod 128 * mul)"
      unfolding more(2) using less.prems by (subst var_at.simps) (simp add: septet_bits [OF m(1)])
    also have "\<dots> = Inr (v + n mod 128 * mul + n div 128 * (mul * 128), i + 1 + length (varint (n div 128)))"
      by (rule less.IH [OF m(2)]) (simp add: less.prems)
    finally show ?thesis unfolding septet_sum by (simp add: more(2))
  qed
qed

lemma recv1_first:
  assumes "list_all (\<lambda>c. c \<noteq> []) segs" "concat segs = b # rest"
  shows "\<exists>segs'. recv1 segs = Some (b, segs') \<and> concat segs' = rest \<and> list_all (\<lambda>c. c \<noteq> []) segs'"
  using recv_loop_take [OF assms(1), of 1 "[]"] assms(2) by (auto simp: recv1_def)

lemma recv_len_varint:
  "list_all (\<lambda>c. c \<noteq> []) segs \<Longrightarrow> concat segs = varint n @ rest \<Longrightarrow>
    \<exists>segs'. recv_len segs mul v = Some (v + n * mul, segs') \<and> concat segs' = rest \<and> list_all (\<lambda>c. c \<noteq> []) segs'"
proof (induction n arbitrary: segs mul v rule: less_induct)
  case (less n)
  show ?case
  proof (cases n rule: varint_cases)
    case last
    then obtain segs' where "recv1 segs = Some (int n, segs')" "concat segs' = rest" "list_all (\<lambda>c. c \<noteq> []) segs'"
      using recv1_first [OF less.prems(1), of "int n" rest] less.prems(2) by auto
    then show ?thesis using last(1) by (subst recv_len.simps) (simp add: septet_bits)
  next
    case more
    let ?b = "int (n mod 128) OR 0x80"
    have m: "n mod 128 < 128" "n div 128 < n" using more(1) by auto
    obtain s1 where s1: "recv1 segs = Some (?b, s1)" "concat s1 = varint (n div 128) @ rest" "list_all (\<lambda>c. c \<noteq> []) s1"
      using recv1_first [OF less.prems(1), of ?b] less.prems(2) more(2) by auto
    have "recv_len segs mul v = recv_len s1 (mul * 128) (v + n mod 128 * mul)" using s1(1) by (subst recv_len.simps) (simp add: septet_bits [OF m(1)])
    then show ?thesis using less.IH [OF m(2) s1(3,2), of "mul * 128" "v + n mod 128 * mul"] unfolding septet_sum by simp
  qed
qed

text \<open>A packet as it stands on the wire, and that it is read whole however it was cut.\<close>

definition packet_bytes :: "int \<Rightarrow> bytes \<Rightarrow> bytes" where
  "packet_bytes first body = [first] @ varint (length body) @ body"

lemma recv_packet_exact:
  assumes "list_all (\<lambda>c. c \<noteq> []) segs" "concat segs = packet_bytes first body @ rest"
  shows "\<exists>segs'. recv_packet segs = Some ((first, body), segs') \<and> concat segs' = rest \<and> list_all (\<lambda>c. c \<noteq> []) segs'"
proof -
  obtain s1 where s1: "recv1 segs = Some (first, s1)" "concat s1 = varint (length body) @ body @ rest" "list_all (\<lambda>c. c \<noteq> []) s1"
    using recv1_first [OF assms(1)] assms(2) by (auto simp: packet_bytes_def)
  obtain s2 where s2: "recv_len s1 1 0 = Some (length body, s2)" "concat s2 = body @ rest" "list_all (\<lambda>c. c \<noteq> []) s2"
    using recv_len_varint [OF s1(3,2), of 1 0] by auto
  obtain s3 where "recv_loop (length body) [] s2 = Some (body, s3)" "concat s3 = rest" "list_all (\<lambda>c. c \<noteq> []) s3"
    using recv_loop_take [OF s2(3), of "length body" "[]"] s2(2) by auto
  then show ?thesis using s1(1) s2(1) by (simp add: recv_packet_def)
qed

section \<open>Messages delivered\<close>

text \<open>The properties a broker may put into a message, after the protocol, and the body of a PUBLISH packet.\<close>

definition be2 :: "nat \<Rightarrow> bytes" where
  "be2 n = rev (le_bytes 2 (int n))"

datatype mprop = Sub_id nat | Format int | Expiry bytes | Alias bytes | Str_prop int bytes | User bytes bytes

fun prop_bytes :: "mprop \<Rightarrow> bytes" where
  "prop_bytes (Sub_id n) = 0x0B # varint n"
| "prop_bytes (Format b) = [0x01, b]"
| "prop_bytes (Expiry b) = 0x02 # b"
| "prop_bytes (Alias b) = 0x23 # b"
| "prop_bytes (Str_prop p s) = p # be2 (length s) @ s"
| "prop_bytes (User k v) = 0x26 # be2 (length k) @ k @ be2 (length v) @ v"

fun prop_ok :: "mprop \<Rightarrow> bool" where
  "prop_ok (Expiry b) \<longleftrightarrow> length b = 4"
| "prop_ok (Alias b) \<longleftrightarrow> length b = 2"
| "prop_ok (Str_prop p s) \<longleftrightarrow> p \<in> {0x03, 0x08, 0x09} \<and> length s < 65536"
| "prop_ok (User k v) \<longleftrightarrow> length k < 65536 \<and> length v < 65536"
| "prop_ok _ \<longleftrightarrow> True"

fun prop_ids :: "mprop \<Rightarrow> nat list" where
  "prop_ids (Sub_id n) = [n]"
| "prop_ids _ = []"

record message =
  m_first :: int
  m_topic :: bytes
  m_pid :: bytes
  m_props :: "mprop list"
  m_payload :: bytes

definition message_body :: "message \<Rightarrow> bytes" where
  "message_body m = be2 (length (m_topic m)) @ m_topic m @ m_pid m @ varint (length (concat (map prop_bytes (m_props m))))
     @ concat (map prop_bytes (m_props m)) @ m_payload m"

definition message_ok :: "message \<Rightarrow> bool" where
  "message_ok m \<longleftrightarrow> drop_bit 4 (m_first m) = 3 \<and> length (m_topic m) < 65536 \<and> list_all prop_ok (m_props m)
     \<and> length (m_pid m) = (if drop_bit 1 (m_first m) AND 3 \<noteq> 0 then 2 else 0)"

definition message_ids :: "message \<Rightarrow> nat list" where
  "message_ids m = concat (map prop_ids (m_props m))"

lemma length_be2 [simp]: "length (be2 n) = 2"
  by (simp add: be2_def)

lemma u16_at_be2: "n < 65536 \<Longrightarrow> i = length pre \<Longrightarrow> u16_at (pre @ be2 n @ post) i = Inr n"
  by (simp add: u16_at_def slice_def be2_def from_be_def from_le_le_bytes)

lemma sub_ids_props:
  "list_all prop_ok ps \<Longrightarrow> i = length pre \<Longrightarrow> sub_ids (pre @ concat (map prop_bytes ps)) i = Inr (concat (map prop_ids ps))"
proof (induction ps arbitrary: pre i)
  case Nil
  then show ?case by (subst sub_ids.simps) simp
next
  case (Cons p ps)
  let ?post = "concat (map prop_bytes ps)"
  have IH: "sub_ids (pre @ prop_bytes p @ ?post) (length pre + length (prop_bytes p)) = Inr (concat (map prop_ids ps))"
    using Cons.IH [of "length pre + length (prop_bytes p)" "pre @ prop_bytes p"] Cons.prems by simp
  show ?case
  proof (cases p)
    case (Sub_id n)
    have "var_at ((pre @ [0x0B]) @ varint n @ ?post) (length pre + 1) 1 0 = Inr (n, length pre + 1 + length (varint n))"
      using var_at_varint [of "length pre + 1" "pre @ [0x0B]" n ?post 1 0] by simp
    then show ?thesis using IH Sub_id Cons.prems by (subst sub_ids.simps) simp
  next
    case (Str_prop t s)
    have "u16_at ((pre @ [t]) @ be2 (length s) @ s @ ?post) (length pre + 1) = Inr (length s)"
      by (rule u16_at_be2) (use Str_prop Cons.prems in auto)
    then show ?thesis using IH Str_prop Cons.prems by (subst sub_ids.simps) (auto simp: add.assoc)
  next
    case (User k v)
    have "u16_at ((pre @ [0x26]) @ be2 (length k) @ k @ be2 (length v) @ v @ ?post) (length pre + 1) = Inr (length k)"
      by (rule u16_at_be2) (use User Cons.prems in auto)
    moreover have "u16_at ((pre @ [0x26] @ be2 (length k) @ k) @ be2 (length v) @ v @ ?post) (length pre + 1 + (2 + length k)) = Inr (length v)"
      by (rule u16_at_be2) (use User Cons.prems in auto)
    ultimately show ?thesis using IH User Cons.prems by (subst sub_ids.simps) (simp add: add.assoc)
  qed (use IH Cons.prems in \<open>subst sub_ids.simps, simp\<close>)+
qed

lemma publish_ids_body: "message_ok m \<Longrightarrow> publish_ids (m_first m) (message_body m) = Inr (m_topic m, message_ids m)"
proof -
  assume ok: "message_ok m"
  let ?ps = "concat (map prop_bytes (m_props m))" and ?t = "m_topic m"
  let ?i = "2 + length ?t + (if drop_bit 1 (m_first m) AND 3 \<noteq> 0 then 2 else 0)"
  let ?pre = "be2 (length ?t) @ ?t @ m_pid m"
  have i: "length ?pre = ?i" using ok by (simp add: message_ok_def)
  have b: "message_body m = ?pre @ varint (length ?ps) @ ?ps @ m_payload m" by (simp add: message_body_def)
  have u: "u16_at (message_body m) 0 = Inr (length ?t)"
    using u16_at_be2 [of "length ?t" 0 "[]"] ok by (simp add: message_body_def message_ok_def)
  have v: "var_at (message_body m) ?i 1 0 = Inr (length ?ps, ?i + length (varint (length ?ps)))"
    unfolding b using var_at_varint [OF i [symmetric], of "length ?ps" "?ps @ m_payload m" 1 0] by simp
  have t: "slice 2 (2 + length ?t) (message_body m) = ?t" by (simp add: message_body_def slice_def)
  have p: "slice (?i + length (varint (length ?ps))) (?i + length (varint (length ?ps)) + length ?ps) (message_body m) = ?ps"
    unfolding b i [symmetric] by (simp add: slice_def)
  have "sub_ids ?ps 0 = Inr (message_ids m)" using sub_ids_props [of "m_props m" 0 "[]"] ok by (simp add: message_ok_def message_ids_def)
  then show ?thesis unfolding publish_ids_def u rbind_simps Let_def v prod.case p t by simp
qed

text \<open>What comes before the sentinel: messages, and packets of another type.\<close>

datatype packet = Msg message | Other int bytes

fun packet_wire :: "packet \<Rightarrow> bytes" where
  "packet_wire (Msg m) = packet_bytes (m_first m) (message_body m)"
| "packet_wire (Other first body) = packet_bytes first body"

fun packet_ok :: "bytes \<Rightarrow> packet \<Rightarrow> bool" where
  "packet_ok until (Msg m) \<longleftrightarrow> message_ok m \<and> m_topic m \<noteq> until"
| "packet_ok until (Other first body) \<longleftrightarrow> drop_bit 4 first \<noteq> 3"

fun packet_out :: "packet \<Rightarrow> (bytes \<times> nat list) list" where
  "packet_out (Msg m) = [(m_topic m, message_ids m)]"
| "packet_out (Other first body) = []"

text \<open>
  C27: the messages collected are exactly the messages sent.  However TCP cuts the stream, whatever other packets and properties lie between, the reader returns
  the topic and the subscription identifiers of every message before the sentinel, in order, and stops right after the sentinel.  What \<open>publish\<close> itself
  sends is such a message, under the next packet identifier.
\<close>

theorem deliveries_exact:
  assumes "list_all (\<lambda>c. c \<noteq> []) segs" "list_all (packet_ok until) ps" "message_ok m" "m_topic m = until"
    and "concat segs = concat (map packet_wire ps) @ packet_wire (Msg m) @ rest"
  shows "(\<exists>segs'. deliveries until segs = Inr (concat (map packet_out ps), segs') \<and> concat segs' = rest)
    \<and> (length name < 65536 \<and> c_next c < 65536 \<longrightarrow> (\<exists>rc c'. publish c name = Inr (rc, c') \<and> c_next c' = c_next c + 1
      \<and> c_sent c' = c_sent c @ packet_wire (Msg \<lparr>m_first = 0x32, m_topic = name, m_pid = be2 (c_next c), m_props = [], m_payload = asc ''x''\<rparr>)))"
proof
  show "\<exists>segs'. deliveries until segs = Inr (concat (map packet_out ps), segs') \<and> concat segs' = rest"
    using assms(1,2,5)
  proof (induction ps arbitrary: segs)
    case Nil
    then obtain s where "recv_packet segs = Some ((m_first m, message_body m), s)" "concat s = rest"
      using recv_packet_exact [OF Nil.prems(1), of "m_first m" "message_body m" rest] by auto
    then show ?case using publish_ids_body [OF assms(3)] assms(3,4) by (subst deliveries.simps) (simp add: message_ok_def)
  next
    case (Cons p ps)
    let ?more = "concat (map packet_wire ps) @ packet_wire (Msg m) @ rest"
    show ?case
    proof (cases p)
      case (Msg x)
      then obtain s where s: "recv_packet segs = Some ((m_first x, message_body x), s)" "concat s = ?more" "list_all (\<lambda>c. c \<noteq> []) s"
        using recv_packet_exact [OF Cons.prems(1), of "m_first x" "message_body x" ?more] Cons.prems(3) by auto
      have ok: "message_ok x" "m_topic x \<noteq> until" using Cons.prems(2) Msg by simp_all
      then show ?thesis using Cons.IH [OF s(3) _ s(2)] Cons.prems(2) s(1) publish_ids_body [OF ok(1)] Msg
        by (subst deliveries.simps) (auto simp: message_ok_def)
    next
      case (Other first body)
      then obtain s where s: "recv_packet segs = Some ((first, body), s)" "concat s = ?more" "list_all (\<lambda>c. c \<noteq> []) s"
        using recv_packet_exact [OF Cons.prems(1), of first body ?more] Cons.prems(3) by auto
      then show ?thesis using Cons.IH [OF s(3) _ s(2)] Cons.prems(2) Other by (subst deliveries.simps) auto
    qed
  qed
  show "length name < 65536 \<and> c_next c < 65536 \<longrightarrow> (\<exists>rc c'. publish c name = Inr (rc, c') \<and> c_next c' = c_next c + 1
      \<and> c_sent c' = c_sent c @ packet_wire (Msg \<lparr>m_first = 0x32, m_topic = name, m_pid = be2 (c_next c), m_props = [], m_payload = asc ''x''\<rparr>))"
    by (auto simp: publish_def mstr_def pack_be_def be2_def take_pid_def send_def packet_bytes_def message_body_def split: prod.splits)
qed

definition demo_packets :: "packet list" where
  "demo_packets = [Other 0x40 [0, 1, 0], Msg \<lparr>m_first = 0x30, m_topic = [97], m_pid = [], m_props = [Sub_id 1, Format 1, Sub_id 200], m_payload = [120]\<rparr>]"

definition demo_sentinel :: message where
  "demo_sentinel = \<lparr>m_first = 0x32, m_topic = [122], m_pid = [0, 5], m_props = [], m_payload = [120]\<rparr>"

definition demo_segs :: "bytes list" where
  "demo_segs = (let w = concat (map packet_wire demo_packets) @ packet_wire (Msg demo_sentinel) @ [] in [take 3 w, drop 3 w])"

theorem deliveries_exact_witness:
  "(\<exists>segs'. deliveries [122] demo_segs = Inr ([([97], [1, 200])], segs') \<and> concat segs' = [])
    \<and> (\<exists>rc c'. publish \<lparr>c_segs = [], c_sent = [], c_next = 7\<rparr> [97] = Inr (rc, c') \<and> c_next c' = 8)"
proof -
  have s: "list_all (\<lambda>c. c \<noteq> []) demo_segs" by code_simp
  have p: "list_all (packet_ok [122]) demo_packets" by code_simp
  have m: "message_ok demo_sentinel" "m_topic demo_sentinel = [122]" by code_simp+
  have w: "concat demo_segs = concat (map packet_wire demo_packets) @ packet_wire (Msg demo_sentinel) @ []"
    by (simp only: demo_segs_def Let_def concat.simps append_Nil2 append_take_drop_id)
  have o: "concat (map packet_out demo_packets) = [([97], [1, 200])]" by code_simp
  note d = deliveries_exact [OF s p m w, of "[97]" "\<lparr>c_segs = [], c_sent = [], c_next = 7\<rparr>"]
  show ?thesis
  proof
    show "\<exists>segs'. deliveries [122] demo_segs = Inr ([([97], [1, 200])], segs') \<and> concat segs' = []" using conjunct1 [OF d] unfolding o .
    show "\<exists>rc c'. publish \<lparr>c_segs = [], c_sent = [], c_next = 7\<rparr> [97] = Inr (rc, c') \<and> c_next c' = 8" using conjunct2 [OF d] by force
  qed
qed

text \<open>The reason code of an acknowledged subscription is the octet after the properties.\<close>

theorem subscribe_reads_code:
  assumes "list_all (\<lambda>c. c \<noteq> []) (c_segs c)" "concat (c_segs c) = packet_bytes t (pid @ varint (length props) @ props @ code # tail) @ rest"
    and "drop_bit 4 t = 9" "length pid = 2" "length flt < 65536" "c_next c < 65536"
  shows "\<exists>c'. subscribe c flt sub_id = Inr (Some code, c') \<and> concat (c_segs c') = rest \<and> c_next c' = c_next c + 1"
proof -
  let ?body = "pid @ varint (length props) @ props @ code # tail"
  obtain s where s: "recv_packet (c_segs c) = Some ((t, ?body), s)" "concat s = rest" using recv_packet_exact [OF assms(1,2)] by blast
  have "var_at ?body 2 1 0 = Inr (length props, 2 + length (varint (length props)))"
    using var_at_varint [of 2 pid "length props" "props @ code # tail" 1 0] assms(4) by simp
  then show ?thesis using s assms(3-6)
    by (simp add: subscribe_def take_pid_def mstr_def pack_be_def conn_recv_def send_def nth_append)
qed

end
