(* ===== verification/MqttTopics.thy ===== *)
theory MqttTopics
  imports Mqtt CertFixtures Cjk_Oracle
begin

text \<open>
  \<open>modules/mqtt/tools/topic_oracle.py\<close>: the verdicts asked from the broker, the filters each message was delivered for, and the generated file.  What the broker sends on
  each connection and its version are arguments; starting and stopping it is not modelled.
\<close>

section \<open>Verdicts\<close>

definition FILTERS :: "ustr list" where
  "FILTERS = [asc ''#'', asc ''+'', asc ''+/+'', asc ''+/#'', asc ''/#'', asc ''/+'', asc ''a'', asc ''a/b'', asc ''a/b/c'', asc ''a/#'', asc ''a/+'',
     asc ''a/+/c'', asc ''a/+/#'', asc ''+/b'', asc ''+/b/#'', asc ''a//b'', asc ''a//#'', asc ''/'', asc ''//'', asc ''a/'', asc ''a/+/'',
     asc ''sport/#'', asc ''sport/tennis/+'', asc ''$foo/#'', asc ''$foo/+'', asc ''$foo'', asc ''+/foo'', asc ''#/a'', asc ''a/#/b'',
     asc ''a#'', asc ''a/b#'', asc ''+a'', asc ''a+/b'', asc ''a/++'', asc ''##'', asc ''a/#/'', asc '''', [233] @ asc ''/#'',
     [233] @ asc ''/+/'' @ [233], asc ''a'' @ [0] @ asc ''b'', asc ''A/B'', asc ''$share'', asc ''$sharex/a'']"

definition NAMES :: "ustr list" where
  "NAMES = [asc ''a'', asc ''a/b'', asc ''a/b/c'', asc ''a/b/c/d'', asc ''/a'', asc ''a/'', asc ''/'', asc ''//'', asc ''a//b'', asc ''a/x/c'',
     asc ''sport'', asc ''sport/tennis'', asc ''sport/tennis/player1'', asc ''sports'', asc ''$foo'', asc ''$foo/a'', asc ''$foo/a/b'',
     asc ''foo'', asc ''x/foo'', asc ''A/B'', [233] @ asc ''/x'', [233] @ asc ''/y/'' @ [233], asc ''b'', asc ''x/b'', asc ''x/b/y'',
     asc ''a+b'', asc ''a/+'', asc ''a/#'', asc ''#'', asc ''+'', asc '''', asc ''a'' @ [0] @ asc ''b'']"

record broker =
  br_version :: ustr
  br_filter :: "nat \<Rightarrow> bytes list"
  br_name :: "nat \<Rightarrow> bytes list"
  br_sub :: "bytes list"
  br_pub :: "bytes list"

definition granted :: "int option \<Rightarrow> bool" where
  "granted rc = (case rc of None \<Rightarrow> False | Some v \<Rightarrow> v < 0x80)"

fun filter_verdicts :: "broker \<Rightarrow> nat \<Rightarrow> ustr list \<Rightarrow> (ustr \<times> bool) list result" where
  "filter_verdicts br i [] = Inr []"
| "filter_verdicts br i (f # fs) = rbind (conn_open (br_filter br i) (asc ''f'' @ ushow (int i))) (\<lambda>c. rbind (py_encode f) (\<lambda>fb.
     rbind (subscribe c fb 1) (\<lambda>(rc, _). rbind (filter_verdicts br (i + 1) fs) (\<lambda>rest. Inr ((f, granted rc) # rest)))))"

fun name_verdicts :: "broker \<Rightarrow> nat \<Rightarrow> ustr list \<Rightarrow> (ustr \<times> bool) list result" where
  "name_verdicts br i [] = Inr []"
| "name_verdicts br i (n # ns) = rbind (conn_open (br_name br i) (asc ''n'' @ ushow (int i))) (\<lambda>c. rbind (py_encode n) (\<lambda>nb.
     rbind (publish c nb) (\<lambda>(rc, _). rbind (name_verdicts br (i + 1) ns) (\<lambda>rest. Inr ((n, granted rc) # rest)))))"

definition valid_of :: "(ustr \<times> bool) list \<Rightarrow> ustr list" where
  "valid_of vs = map fst (filter snd vs)"

section \<open>Matching\<close>

fun subscribe_all :: "mqtt_conn \<Rightarrow> nat \<Rightarrow> ustr list \<Rightarrow> mqtt_conn result" where
  "subscribe_all c i [] = Inr c"
| "subscribe_all c i (f # fs) = rbind (py_encode f) (\<lambda>fb. rbind (subscribe c fb (i + 1)) (\<lambda>(rc, c').
     rbind (py_assert (rc \<noteq> None)) (\<lambda>_. subscribe_all c' (i + 1) fs)))"

fun publish_all :: "mqtt_conn \<Rightarrow> ustr list \<Rightarrow> mqtt_conn result" where
  "publish_all c [] = Inr c"
| "publish_all c (n # ns) = rbind (py_encode n) (\<lambda>nb. rbind (publish c nb) (\<lambda>(rc, c').
     rbind (py_assert (rc \<noteq> None)) (\<lambda>_. publish_all c' ns)))"

text \<open>\<open>matched[t.decode()].update(...)\<close> for every delivery; a set is the list of what was put into it.\<close>

fun match_all :: "nat \<Rightarrow> (ustr \<times> nat list) list \<Rightarrow> (bytes \<times> nat list) list \<Rightarrow> (ustr \<times> nat list) list result" where
  "match_all nv found [] = Inr found"
| "match_all nv found ((t, ids) # ds) = rbind (utf8_decode t) (\<lambda>n. case map_of found n of None \<Rightarrow> Inl KeyError
     | Some s \<Rightarrow> match_all nv (dict_set found n (s @ filter (\<lambda>i. i \<le> nv) ids)) ds)"

definition sentinel :: bytes where
  "sentinel = asc ''zz-sentinel''"

definition match_phase :: "broker \<Rightarrow> ustr list \<Rightarrow> ustr list \<Rightarrow> (ustr \<times> nat list) list result" where
  "match_phase br vf vn = rbind (conn_open (br_sub br) (asc ''matcher'')) (\<lambda>s0. rbind (subscribe_all s0 0 vf) (\<lambda>s1.
     rbind (subscribe s1 sentinel (length vf + 1)) (\<lambda>(rc, s2). rbind (py_assert (rc \<noteq> None)) (\<lambda>_.
     rbind (conn_open (br_pub br) (asc ''publisher'')) (\<lambda>p0. rbind (publish_all p0 vn) (\<lambda>p1.
     rbind (publish p1 sentinel) (\<lambda>(rc2, p2). rbind (py_assert (rc2 \<noteq> None)) (\<lambda>_.
     rbind (deliveries sentinel (c_segs s2)) (\<lambda>(ds, _). match_all (length vf) (map (\<lambda>n. (n, [])) vn) ds)))))))))"

section \<open>The generated file\<close>

definition zig_char :: "int \<Rightarrow> ustr" where
  "zig_char b = (if b = 0x22 then [92, 34] else if b = 0x5C then [92, 92] else if 0x20 \<le> b \<and> b < 0x7F then [b] else [92, 120] @ uhex [b])"

definition zig_str :: "ustr \<Rightarrow> ustr result" where
  "zig_str s = rbind (py_encode s) (\<lambda>bs. Inr ([34] @ concat (map zig_char bs) @ [34]))"

definition verdict_line :: "ustr \<times> bool \<Rightarrow> ustr result" where
  "verdict_line v = rbind (zig_str (fst v)) (\<lambda>s. Inr (asc ''    .{ .s = '' @ s @ asc '', .valid = '' @ (if snd v then asc ''true'' else asc ''false'') @ asc '' },''))"

text \<open>\<open>valid_filters[i - 1]\<close>: index minus one is the last element.\<close>

definition filter_index :: "ustr list \<Rightarrow> nat \<Rightarrow> nat result" where
  "filter_index vf i = (if vf = [] \<or> length vf < i then Inl IndexError else index_of FILTERS (if i = 0 then last vf else vf ! (i - 1)))"

definition match_indices :: "ustr list \<Rightarrow> nat list \<Rightarrow> nat list result" where
  "match_indices vf ids = rbind (rmap (filter_index vf) (remdups ids)) (\<lambda>idx. Inr (sort idx))"

definition match_line :: "ustr list \<Rightarrow> (ustr \<times> nat list) list \<Rightarrow> ustr \<Rightarrow> ustr result" where
  "match_line vf found n = (case map_of found n of None \<Rightarrow> Inl KeyError | Some ids \<Rightarrow> rbind (match_indices vf ids) (\<lambda>idx. rbind (zig_str n) (\<lambda>s.
     Inr (asc ''    .{ .name = '' @ s @ asc '', .filters = '' @ (if idx = [] then asc ''&.{}''
       else asc ''&.{ '' @ join (asc '', '') (map (\<lambda>i. ushow (int i)) idx) @ asc '' }'') @ asc '' },''))))"

definition topic_main :: "broker \<Rightarrow> ustr list result" where
  "topic_main br = rbind (filter_verdicts br 0 FILTERS) (\<lambda>fv. rbind (name_verdicts br 0 NAMES) (\<lambda>nv.
     let vf = valid_of fv; vn = valid_of nv in rbind (match_phase br vf vn) (\<lambda>found.
     rbind (rmap verdict_line fv) (\<lambda>fl. rbind (rmap verdict_line nv) (\<lambda>nl. rbind (rmap (match_line vf found) vn) (\<lambda>ml. Inr (
       [asc ''// SPDX-License-Identifier: MIT'',
        asc ''// GENERATED by modules/mqtt/tools/topic_oracle.py ('' @ br_version br @ asc '') -- do not hand-edit.'',
        asc ''//! Topic filter / name verdicts of a real Mosquitto broker, replayed by'',
        asc ''//! `topic_oracle_test.zig`. Regenerate with the command in the script'' @ [39] @ asc ''s docstring.'',
        [], asc ''pub const Verdict = struct { s: []const u8, valid: bool };'', [], asc ''/// SUBACK granted (< 0x80).'',
        asc ''pub const filters = [_]Verdict{''] @ fl @
       [asc ''};'', [], asc ''/// QoS 1 PUBLISH acknowledged on a connection the broker kept.'', asc ''pub const names = [_]Verdict{''] @ nl @
       [asc ''};'', [], asc ''/// For each valid name, the valid filters (indices into `filters`) whose'',
        asc ''/// subscription received it; every other valid filter did not.'', asc ''pub const Match = struct { name: []const u8, filters: []const u16 };'',
        asc ''pub const matches = [_]Match{''] @ ml @ [asc ''};''])))))))"

section \<open>What a row of matches says\<close>

lemma match_all_exact:
  "match_all nv m ds = Inr m' \<Longrightarrow> map_of m n = Some s \<Longrightarrow>
    \<exists>s'. map_of m' n = Some s' \<and> set s' = set s \<union> {i. i \<le> nv \<and> (\<exists>t ids. (t, ids) \<in> set ds \<and> utf8_decode t = Inr n \<and> i \<in> set ids)}"
proof (induction nv m ds arbitrary: s rule: match_all.induct)
  case (1 nv m)
  then show ?case by simp
next
  case (2 nv m t ids ds)
  from "2.prems"(1) obtain k sk where k: "utf8_decode t = Inr k" "map_of m k = Some sk"
    "match_all nv (dict_set m k (sk @ filter (\<lambda>i. i \<le> nv) ids)) ds = Inr m'" by (auto simp: rbind_eq_Inr_iff split: option.splits)
  let ?s = "if n = k then sk @ filter (\<lambda>i. i \<le> nv) ids else s"
  have n: "map_of (dict_set m k (sk @ filter (\<lambda>i. i \<le> nv) ids)) n = Some ?s" using "2.prems"(2) by simp
  have s: "n = k \<Longrightarrow> sk = s" using k(2) "2.prems"(2) by simp
  from "2.IH" [OF k(2,3) n] obtain s' where "map_of m' n = Some s'"
    "set s' = set ?s \<union> {i. i \<le> nv \<and> (\<exists>t ids. (t, ids) \<in> set ds \<and> utf8_decode t = Inr n \<and> i \<in> set ids)}" by blast
  then show ?case using k(1) s by (intro exI [of _ s']) (auto split: if_splits)
qed

text \<open>
  A finished run lists for a name exactly the filters whose subscription identifiers the broker put on a message with that name before the sentinel: nothing is
  carried over from other names, and the identifier of the sentinel itself is left out.
\<close>

theorem matches_are_deliveries:
  assumes "match_phase br vf vn = Inr found" "n \<in> set vn"
  shows "\<exists>s0 s1 rc s2 ds rest s. conn_open (br_sub br) (asc ''matcher'') = Inr s0 \<and> subscribe_all s0 0 vf = Inr s1
    \<and> subscribe s1 sentinel (length vf + 1) = Inr (Some rc, s2) \<and> deliveries sentinel (c_segs s2) = Inr (ds, rest) \<and> map_of found n = Some s
    \<and> set s = {i. i \<le> length vf \<and> (\<exists>t ids. (t, ids) \<in> set ds \<and> utf8_decode t = Inr n \<and> i \<in> set ids)}"
proof -
  obtain s0 s1 rc s2 ds rest where ds: "conn_open (br_sub br) (asc ''matcher'') = Inr s0" "subscribe_all s0 0 vf = Inr s1"
    "subscribe s1 sentinel (length vf + 1) = Inr (Some rc, s2)" "deliveries sentinel (c_segs s2) = Inr (ds, rest)"
    "match_all (length vf) (map (\<lambda>n. (n, [])) vn) ds = Inr found"
    using assms(1) by (auto simp: match_phase_def rbind_eq_Inr_iff py_assert_def split: if_splits)
  have "map_of (map (\<lambda>n. (n, [])) vn) n = Some []" using assms(2) by (induction vn) auto
  from match_all_exact [OF ds(5) this] ds(1-4) show ?thesis by auto
qed

end
