(* ===== verification/Spec2Isabelle.thy ===== *)
theory Spec2Isabelle
  imports Cjk_Props PirKats ReleaseNotes BitcoinTx_Props CtCompare_Props SecretApi_Props FuzzCoverage_Props CiRedIssue Dkg_Curve ChangelogEntry_Props DfElect FuzzReach_Props FingerprintExempt CertFixtures CaptureFile SqrtKat Paillier MqttTopics
begin

text \<open>
  Verification of the Python tooling of zig-libs.

  zig-libs is a collection of Zig modules; its Python code is the tooling around them.  Two kinds carry logic of their own.
  Oracles under \<open>modules/*/tools\<close> compute, from a published definition and independently of the Zig code, the vectors the Zig tests compare
  with.  Gates and helpers under \<open>scripts\<close> read the repository and decide whether a change may pass, what a release says and what CI
  reports.  The scripts do not call each other; they share the file formats they write and read back, and those round trips are among
  the properties.

  Conventions.  A Python integer is \<open>int\<close> (or \<open>nat\<close> for an index), \<open>bytes\<close> is a list of integers with \<open>is_bytes\<close>, \<open>str\<close> is a list of code
  points (\<open>ustr\<close>), a dictionary is an association list in insertion order, an exception is a value of \<open>py_error\<close> and a fallible function returns
  \<open>'a result\<close>.  A \<open>while True\<close> loop is \<open>partial_function (option)\<close>, so not returning is \<open>None\<close>; that it returns is a theorem.  What a script gets
  from other programs (git, gh, addr2line, the network, the file system, \<open>json.loads\<close>) is an argument.

  \<^item> \<open>Prelude\<close>, \<open>PyText\<close>, \<open>UText\<close>, \<open>Regex\<close>, \<open>Sha256\<close>: errors, bytes and integers as bytes, dictionaries, Python's text functions, the part of \<open>re\<close> the
    scripts use as a backtracking matcher over patterns as data, and \<open>hashlib.sha256\<close>.

  \<^item> \<open>Cjk_Index\<close>, \<open>Cjk_Decode\<close>, \<open>Cjk_Encode\<close>, \<open>Cjk_Oracle\<close>: \<open>modules/encoding/tools/cjk_oracle/std_ref.py\<close>, the WHATWG decoders and encoders as state
    machines with a restoring queue, and the comparison with the module's answers.  \<open>Cjk_Decode_Props\<close>, \<open>Cjk_Encode_Total\<close>, \<open>Cjk_Roundtrip\<close> and its
    companions prove the laws of a codec interface once per encoding; \<open>Cjk_Props\<close> states C1 to C7 and C10: every decoder and encoder returns,
    an ASCII byte is never swallowed, decoding an encoding gives the text back, and the classified runs are exact.

  \<^item> \<open>Dpf\<close>, \<open>Pir\<close>, \<open>PirKats\<close>: \<open>modules/pir/tools/rederive.py\<close>.  C11 and C12: the two key shares sum to the point function, and the two answers
    reconstruct the record.  A self-check that passes has checked what it says.

  \<^item> \<open>ReleaseNotes\<close>: \<open>scripts/lib/release-notes.py\<close>.  C15 and C16: the added bullets are a multiset difference, the message keeps its byte limit.

  \<^item> \<open>BitcoinTx\<close>, \<open>BitcoinTx_Props\<close>: \<open>modules/bitcointx/tools/gen_vectors.py\<close>.  C17 and C18: transactions round trip, field widths.  Beside them:
    the BIP143 preimage, what each hash type commits to, and the length of the BIP341 message.

  \<^item> \<open>CtCompare\<close>, \<open>CtCompare_Props\<close>: \<open>scripts/checks/check-ct-compare.py\<close>.  C24 and C26: alias resolution against the meaning of expressions
    (\<open>denotes\<close>), and update then check.  It is sound for every file and complete when the rounds settle and every constant for a proper prefix of the root is bound to the prefix
    as spelled; that a chain of such constants is missed is a theorem beside it.  Comment stripping is stable, and every row but the first keeps its notes.

  \<^item> \<open>SecretScan\<close>, \<open>SecretApi\<close>, \<open>SecretApi_Props\<close>: \<open>scripts/checks/check-secret-api.py\<close>.  C28 and C29: the gate returns on every repository, and the derived
    secret types are those of the documented rules (\<open>holds_secret\<close>, \<open>touches_secret\<close>, least sets): always sound where no field counts by a crypto-library key name, and exact where no field
    is declared with an alias; that a container with a field of an alias type is missed is a theorem beside it.  Blanking keeps offsets, brackets are matched, the baseline round trips and pruning only removes.

  \<^item> \<open>FuzzCoverage\<close>, \<open>FuzzCoverage_Props\<close>: \<open>scripts/lib/fuzz-coverage.py\<close>.  C35 to C37: the seen PCs are the one bits of the map, a map file is read
    exactly, and a report without a miss rests on an executable whose section is the map's PC list, when the cache has one.  Without one the script falls
    back on the size of the section, which is stated as a theorem (\<open>stale_executable_accepted\<close>).

  \<^item> \<open>CiRedIssue\<close>: \<open>scripts/lib/ci-red-issue.py\<close>.  C38: which issues the report may touch, and when.

  \<^item> \<open>Interpolation\<close>, \<open>Dkg\<close>, \<open>Dkg_Props\<close>, \<open>Dkg_Curve\<close>: \<open>modules/dkg/tools/gjkr_oracle.py\<close>.  Interpolation at zero over a field is carried to the integers modulo
    the group order; C39 and C40: any threshold set of shares gives the secret, and resharing keeps it.
    C8: the curve arithmetic never leaves the curve.

  \<^item> \<open>ChangelogEntry\<close>, \<open>ChangelogEntry_Props\<close>: \<open>scripts/checks/check-changelog-entry.py\<close>.  C13: the churn of a module is exactly the code lines
    outside named test blocks of its diff and its new files.  It is stated for \<open>.zig\<close> files and for diffs without the lines the script takes for headers; beside it: other tracked files
    are counted too, and the path of a deleted file is lost.

  \<^item> \<open>DfElect\<close>: \<open>modules/df-elect/tools/rederive.py\<close>.  C25: the election by highest weight is stable under removals.  Its weight is the same
    in wrapping machine arithmetic.

  \<^item> \<open>FuzzReach\<close>, \<open>FuzzReach_Gate\<close>, \<open>FuzzReach_Props\<close>: \<open>scripts/checks/check-fuzz-reach.py\<close>, with \<open>Regex_Facts\<close> for what a match says about the text.  C22, C23 and
    C31: what exit code zero means (for documents that end with a newline and a run that judges a target of every module with an exemption), the transformation of a body ends and only
    blanks, a ceiling only falls.  Three faults of the script are stated as theorems beside them: an update for one module drops the rows of the others, an exemption on an
    unterminated last line needs no argument, and the exemption of a module without a target is not read.

  \<^item> \<open>FingerprintExempt\<close>: \<open>scripts/checks/fingerprint-exempt.py\<close>.  C33: the worklist computes reachability in the reference graph, and the exempt
    declarations are those only the checks reach.

  \<^item> \<open>SeedCandidates\<close>: \<open>scripts/gen/fuzz-seed-candidates.py\<close>.  Escaped bytes are read back; comment stripping stops at the first double quote, which is
    a fault of the script.

  \<^item> \<open>Framing\<close>, \<open>Taps\<close>: the splitters and recorders of \<open>scripts/vm/guests/fleetsim-*-master.py\<close> and the relay of
    \<open>modules/blobmsg/tools/ubus_capture.py\<close>.  C19: under every interleaving of the pump threads and \<open>drain\<close> the recorded frames are exactly those of
    the octets that passed.  The relay keeps connections apart; the recorder of three masters does not, which is stated as a theorem too.

  \<^item> \<open>Blob\<close>, \<open>CaptureFile\<close>: the blob format, the scripted provider and the generated file of \<open>ubus_capture.py\<close>.  C34 and C21: messages survive
    writing, any segmentation and reading, and every call is answered.  The literals of the generated file are read back by \<open>SeedCandidates\<close>.

  \<^item> \<open>Der\<close>, \<open>CurveVectors\<close>, \<open>CertFixtures\<close>: the DER encoder and the certificates of \<open>modules/x509/tools/gen_names_fixtures.py\<close>, the re-signed lists of
    \<open>gen_crl_fixtures.py\<close>, and \<open>modules/p256/tools/gen_vectors.py\<close> with its copies for P-384 and P-521.  C20, C32 and C9: the strict reader accepts exactly
    what the encoder writes, a point is taken exactly from the strict encoding of a key on the curve, and re-signing edits what it says and
    nothing else.  Beside them: integers are minimal, every row is kept or counted, a CAVP file is read back, and a certificate's signature covers its
    \<open>tbsCertificate\<close>.

  \<^item> \<open>ModPrime\<close>, \<open>SqrtKat\<close>: \<open>modules/montint/tools/gen_sqrt_kat.py\<close>, over the number theory it needs (Fermat, the roots of a power, a non-residue).  C30:
    the square root by Tonelli and Shanks ends and is right.  Every row of the generated file is written.

  \<^item> \<open>Paillier\<close>: \<open>modules/paillier/tools/oracle_paillier.py\<close>.  C14: a row passes exactly when its answers are those of the cryptosystem.  A run that exits 0 has
    seen the end marker and checked every row.

  \<^item> \<open>Mqtt\<close>, \<open>MqttTopics\<close>: the connection, the verdicts and the generated file of \<open>modules/mqtt/tools/topic_oracle.py\<close>; the broker is what it sends.  C27:
    the messages collected are exactly the messages sent, whatever the segmentation.  Reason codes are read, and a row of matches lists the filters
    the broker named.

  Interfaces.  \<open>decoder\<close>, \<open>encoder\<close> and \<open>codec\<close> (what the handlers of an encoding keep and what an encoder promises its decoder), \<open>selector\<close> (the shares a server answer needs), \<open>item_codec\<close> and \<open>item_reader\<close> (fields of a transaction),
  \<open>growing\<close> (rounds that only add names and therefore settle) \<open>diff_side\<close> (the two sides of a hunk), \<open>framing\<close> and \<open>exact_framing\<close> (what a frame header promises a stream splitter) are locales; each is interpreted on the
  definitions of the model.

  Bounds and fuel.  The alias resolution of the constant-time gate runs the four rounds the script runs.  The fixpoints of the secret-API
  gate are \<open>partial_function\<close>s that return because each round adds a name of a finite set; the walk over dependencies has fuel
  (\<open>fuel_for\<close>, two more than the number of modules), which C28 shows to be enough.  The regular-expression matcher is total: a repetition has to advance.
  The walk of the fuzz-reach gate has the six levels the script has.

  Not modelled.  Printed progress lines; argument parsing by \<open>argparse\<close>; the scripts' own self-tests; the search of \<open>pedersen_h\<close> is modelled but that it ends is a fact
  about SHA-256 no proof gives.  That the curve addition is a group, and with it that the point assertions of the key generation
  hold, is not proved.  \<open>seek\<close> and \<open>read\<close> of an executable are modelled on its bytes, not on a changing file.  The sessions of the field-device masters, the oracles over
  third-party libraries, programs and kernels, and the generators that copy published vectors are input and output around code that is
  not in the repository; so are the runs of openssl and of the ubus daemon.  Of \<open>ipaddress\<close> and \<open>struct\<close> what the scripts use is modelled; SHA-1,
  public keys and signatures are arguments.
\<close>

end
